(* ===== verification/Prelude.thy ===== *)
theory Prelude
  imports Main "HOL-Library.Word" "HOL-Library.Monad_Syntax" "HOL-Library.AList"
begin

text \<open>
  Shared vocabulary of the nmdb development: machine integers, byte blocks and the
  operations of the C library that every component uses on them.

  \<^item> A C expression whose evaluation is undefined behaviour (a NULL dereference, an access
    outside a block, a division by zero, a \<^verbatim>\<open>free()\<close> of something \<^verbatim>\<open>malloc()\<close> never
    returned) has the value \<open>None\<close>; a defined one has \<open>Some\<close> of its result. Statements are
    sequenced by the option monad, so an undefined statement makes the whole call \<open>None\<close>.
  \<^item> A block of memory is a byte list of its size; a pointer that owns a block is a
    \<open>bytes option\<close> whose \<open>None\<close> is NULL; a \<^emph>\<open>(pointer, size)\<close> pair of
    read-only parameters is one byte list of that size.
  \<^item> \<^verbatim>\<open>malloc()\<close> may fail at any call. The outcomes of the calls to come are an oracle, a
    list of booleans consumed from the left; when it is used up every further call succeeds.
  \<^item> The host is the one the sources are written for: 64-bit and little endian
    (\<^verbatim>\<open>parse.c\<close> says so itself), \<^verbatim>\<open>size_t\<close> and \<^verbatim>\<open>unsigned long\<close> being 64 bits wide.
\<close>

unbundle bit_operations_syntax

type_synonym u8 = "8 word"
type_synonym u16 = "16 word"
type_synonym u32 = "32 word"
type_synonym u64 = "64 word"
type_synonym bytes = "u8 list"
type_synonym alloc = "bool list"

named_theorems mem_simps \<open>unfolding the memory primitives\<close>

section \<open>Option monad\<close>

lemma bind_Some_iff: "Option.bind m f = Some y \<longleftrightarrow> (\<exists>x. m = Some x \<and> f x = Some y)"
  by (cases m) auto

lemma bind_None_iff: "Option.bind m f = None \<longleftrightarrow> m = None \<or> (\<exists>x. m = Some x \<and> f x = None)"
  by (cases m) auto

text \<open>
  A result that is right wherever it is defined, and that is defined when \<open>d\<close> holds.
\<close>

definition fine :: "bool \<Rightarrow> 'a option \<Rightarrow> ('a \<Rightarrow> bool) \<Rightarrow> bool" where
  "fine d r Q \<longleftrightarrow> (case r of None \<Rightarrow> \<not> d | Some x \<Rightarrow> Q x)"

lemma fine_Some [simp]: "fine d (Some x) Q \<longleftrightarrow> Q x"
  by (simp add: fine_def)

lemma fine_None [simp]: "fine d None Q \<longleftrightarrow> \<not> d"
  by (simp add: fine_def)

lemma fineE [consumes 1, case_names undef val]:
  assumes "fine d r Q" obtains "r = None" "\<not> d" | x where "r = Some x" "Q x"
  using assms by (cases r) auto

lemma fine_total: "fine d r Q \<Longrightarrow> d \<Longrightarrow> \<exists>x. r = Some x \<and> Q x"
  by (cases r) auto

lemma fine_val: "fine d r Q \<Longrightarrow> r = Some x \<Longrightarrow> Q x"
  by simp

lemma fine_mono: "fine d r Q \<Longrightarrow> (\<And>x. r = Some x \<Longrightarrow> Q x \<Longrightarrow> R x) \<Longrightarrow> fine d r R"
  by (cases r) auto

lemma fine_ex: "\<exists>x. r = Some x \<and> Q x \<Longrightarrow> fine d r Q"
  by auto

section \<open>Memory primitives\<close>

definition malloc :: "alloc \<Rightarrow> bool \<times> alloc" where
  "malloc ms = (case ms of [] \<Rightarrow> (True, []) | b # bs \<Rightarrow> (b, bs))"

lemma malloc_Nil [simp]: "malloc [] = (True, [])"
  by (simp add: malloc_def)

lemma malloc_Cons [simp]: "malloc (b # bs) = (b, bs)"
  by (simp add: malloc_def)

text \<open>Reading \<open>n\<close> bytes at an offset of a block.\<close>

definition rd :: "bytes \<Rightarrow> nat \<Rightarrow> nat \<Rightarrow> bytes option" where
  "rd mem off n = (if off + n \<le> length mem then Some (take n (drop off mem)) else None)"

lemma rd_Some [mem_simps]: "off + n \<le> length mem \<Longrightarrow> rd mem off n = Some (take n (drop off mem))"
  by (simp add: rd_def)

lemma rd_None: "length mem < off + n \<Longrightarrow> rd mem off n = None"
  by (simp add: rd_def)

lemma rd_eq_Some_iff:
  "rd mem off n = Some bs \<longleftrightarrow> off + n \<le> length mem \<and> bs = take n (drop off mem)"
  by (auto simp: rd_def)

lemma length_rd: "rd mem off n = Some bs \<Longrightarrow> length bs = n"
  by (auto simp: rd_eq_Some_iff)

text \<open>Copying the bytes \<open>src\<close> to the start of the block behind a pointer.\<close>

definition memcpy :: "bytes option \<Rightarrow> bytes \<Rightarrow> bytes option" where
  "memcpy dst src = (case dst of None \<Rightarrow> None
     | Some blk \<Rightarrow> if length src \<le> length blk then Some (src @ drop (length src) blk) else None)"

lemma memcpy_full [simp]: "length src = length blk \<Longrightarrow> memcpy (Some blk) src = Some src"
  by (simp add: memcpy_def)

text \<open>\<open>memcmp(a, p, n) == 0\<close> where \<open>a\<close> has \<open>n\<close> bytes.\<close>

definition memcmp_eq :: "bytes \<Rightarrow> bytes option \<Rightarrow> bool option" where
  "memcmp_eq a p = (case p of None \<Rightarrow> None
     | Some blk \<Rightarrow> if length a \<le> length blk then Some (take (length a) blk = a) else None)"

lemma memcmp_eq_full [simp]:
  "length a = length blk \<Longrightarrow> memcmp_eq a (Some blk) = Some (blk = a)"
  by (simp add: memcmp_eq_def)

section \<open>Sizes as \<^verbatim>\<open>size_t\<close>\<close>

text \<open>A size that a C object can have, and that is not the \<open>-1\<close> marking a free slot.\<close>

abbreviation fits :: "bytes \<Rightarrow> bool" where
  "fits bs \<equiv> length bs < 2 ^ 64 - 1"

abbreviation sz :: "bytes \<Rightarrow> u64" where
  "sz bs \<equiv> of_nat (length bs)"

lemma unat_of_nat_u64: "n < 2 ^ 64 \<Longrightarrow> unat (of_nat n :: u64) = n"
  by (simp add: unat_of_nat take_bit_nat_eq_self)

lemma unat_lt_u64: "unat (w :: u64) < 2 ^ 64"
proof -
  have "unat w < 2 ^ LENGTH(64)" by (rule unsigned_less)
  then show ?thesis by simp
qed

lemma unat_lt_u32: "unat (w :: u32) < 2 ^ 32"
proof -
  have "unat w < 2 ^ LENGTH(32)" by (rule unsigned_less)
  then show ?thesis by simp
qed

lemma unat_ucast_u32_u64: "unat (ucast (w :: u32) :: u64) = unat w"
  using unat_lt_u32 [of w] by (simp add: unsigned_ucast_eq take_bit_nat_eq_self)

lemma unat_ucast_u64_u32: "unat (w :: u64) < 2 ^ 32 \<Longrightarrow> unat (ucast w :: u32) = unat w"
  by (simp add: unsigned_ucast_eq take_bit_nat_eq_self)

lemma of_nat_u64_eq_iff: "a < 2 ^ 64 \<Longrightarrow> b < 2 ^ 64 \<Longrightarrow> (of_nat a :: u64) = of_nat b \<longleftrightarrow> a = b"
  by (metis unat_of_nat_u64)

lemma sz_neq_unused [simp]: "fits bs \<Longrightarrow> sz bs \<noteq> (- 1 :: u64)"
proof
  assume f: "fits bs" and e: "sz bs = (- 1 :: u64)"
  from f have "unat (sz bs) = length bs" by (simp add: unat_of_nat_u64)
  moreover have "unat (- 1 :: u64) = 2 ^ 64 - 1" by (simp add: unsigned_minus_1_eq_mask mask_eq_exp_minus_1)
  ultimately show False using f e by simp
qed

lemma sz_eq_iff: "fits a \<Longrightarrow> fits b \<Longrightarrow> (sz a :: u64) = sz b \<longleftrightarrow> length a = length b"
  by (simp add: of_nat_u64_eq_iff)

section \<open>Lists and association lists\<close>

lemma list_update_same_twice [simp]: "xs[i := a, i := b] = xs[i := b]"
  by simp

lemma AList_delete_notin: "k \<notin> fst ` set al \<Longrightarrow> AList.delete k al = al"
  by (induction al) (auto simp: AList.delete_eq)

lemma AList_delete_append: "AList.delete k (xs @ ys) = AList.delete k xs @ AList.delete k ys"
  by (simp add: AList.delete_eq)

lemma map_of_take: "map_of (take n al) k = None \<or> map_of (take n al) k = map_of al k"
proof (induction al arbitrary: n)
  case Nil
  then show ?case by simp
next
  case (Cons p al)
  then show ?case by (cases n) auto
qed

section \<open>Maps below maps\<close>

lemma map_le_SomeD: "m1 \<subseteq>\<^sub>m m2 \<Longrightarrow> m1 k = Some v \<Longrightarrow> m2 k = Some v"
  by (metis domI map_le_def)

lemma map_leI: "(\<And>k v. m1 k = Some v \<Longrightarrow> m2 k = Some v) \<Longrightarrow> m1 \<subseteq>\<^sub>m m2"
  by (auto simp: map_le_def dom_def)

end
