(* ===== verification/Netutils.thy ===== *)
theory Netutils
  imports Prelude
begin

text \<open>
  Integers in memory and byte order: what \<^verbatim>\<open>nmdb/netutils.c\<close> adds to the library's
  \<^verbatim>\<open>htonl()\<close>, \<^verbatim>\<open>htons()\<close> and their inverses. A word is stored least significant
  byte first (the host is little endian) and travels most significant byte first.
\<close>

section \<open>Words as bytes\<close>

primrec le_bytes :: "nat \<Rightarrow> 'a::len word \<Rightarrow> bytes" where
  "le_bytes 0 w = []"
| "le_bytes (Suc n) w = ucast w # le_bytes n (drop_bit 8 w)"

primrec le_word :: "bytes \<Rightarrow> 'a::len word" where
  "le_word [] = 0"
| "le_word (b # bs) = ucast b OR push_bit 8 (le_word bs)"

lemma length_le_bytes [simp]: "length (le_bytes n w) = n"
  by (induction n arbitrary: w) auto

lemma bit_le_word:
  "bit (le_word bs :: 'a::len word) i \<longleftrightarrow>
     i < LENGTH('a) \<and> i div 8 < length bs \<and> bit (bs ! (i div 8)) (i mod 8)"
proof (induction bs arbitrary: i)
  case Nil
  then show ?case by simp
next
  case (Cons b bs)
  show ?case
  proof (cases "i < 8")
    case True
    then show ?thesis by (auto simp: bit_simps dest: bit_imp_le_length)
  next
    case False
    then obtain j where j: "i = j + 8" by (metis add.commute le_add_diff_inverse not_less)
    have "bit (le_word bs :: 'a word) j \<longleftrightarrow>
      j < LENGTH('a) \<and> j div 8 < length bs \<and> bit (bs ! (j div 8)) (j mod 8)"
      by (rule Cons.IH)
    moreover have "(j + 8) div 8 = Suc (j div 8)" by simp
    ultimately show ?thesis by (auto simp: j bit_simps simp del: div_add_self2 dest: bit_imp_le_length)
  qed
qed

lemma bit_le_bytes:
  "j < n \<Longrightarrow> bit (le_bytes n (w :: 'a::len word) ! j) i \<longleftrightarrow> i < 8 \<and> bit w (8 * j + i)"
proof (induction n arbitrary: j w)
  case 0
  then show ?case by simp
next
  case (Suc n)
  show ?case
  proof (cases j)
    case 0
    then show ?thesis by (auto simp: bit_simps dest: bit_imp_le_length)
  next
    case (Suc j')
    with Suc.prems have "j' < n" by simp
    then have "bit (le_bytes n (drop_bit 8 w) ! j') i \<longleftrightarrow> i < 8 \<and> bit (drop_bit 8 w) (8 * j' + i)"
      by (rule Suc.IH)
    then show ?thesis using Suc by (simp add: bit_simps add.assoc)
  qed
qed

lemma le_word_le_bytes [simp]:
  fixes w :: "'a::len word"
  assumes "LENGTH('a) \<le> 8 * n"
  shows "le_word (le_bytes n w) = w"
proof (rule bit_word_eqI)
  fix i assume i: "i < LENGTH('a)"
  with assms have "i div 8 < n" by auto
  then show "bit (le_word (le_bytes n w) :: 'a word) i \<longleftrightarrow> bit w i"
    by (simp add: bit_le_word bit_le_bytes i)
qed

lemma le_bytes_le_word:
  assumes "8 * length bs \<le> LENGTH('a)"
  shows "le_bytes (length bs) (le_word bs :: 'a::len word) = bs"
proof (rule nth_equalityI)
  fix j assume "j < length (le_bytes (length bs) (le_word bs :: 'a word))"
  then have j: "j < length bs" by simp
  show "le_bytes (length bs) (le_word bs :: 'a word) ! j = bs ! j"
  proof (rule bit_word_eqI)
    fix i assume i: "i < LENGTH(8)"
    then have "i < 8" by simp
    moreover from this j assms have "8 * j + i < LENGTH('a)" by linarith
    moreover from \<open>i < 8\<close> have "(8 * j + i) div 8 = j" "(8 * j + i) mod 8 = i" by auto
    ultimately show "bit (le_bytes (length bs) (le_word bs :: 'a word) ! j) i \<longleftrightarrow> bit (bs ! j) i"
      using j by (simp add: bit_le_bytes bit_le_word)
  qed
qed simp

section \<open>\<^verbatim>\<open>htonl()\<close>, \<^verbatim>\<open>htons()\<close> and \<^verbatim>\<open>htonll()\<close>\<close>

text \<open>The library's conversions on a little-endian host reverse the bytes of a word.\<close>

definition htonl :: "u32 \<Rightarrow> u32" where
  "htonl w = le_word (rev (le_bytes 4 w))"

definition ntohl :: "u32 \<Rightarrow> u32" where
  "ntohl w = le_word (rev (le_bytes 4 w))"

definition htons :: "u16 \<Rightarrow> u16" where
  "htons w = le_word (rev (le_bytes 2 w))"

definition ntohs :: "u16 \<Rightarrow> u16" where
  "ntohs w = le_word (rev (le_bytes 2 w))"

text \<open>
  \<^verbatim>\<open>netutils.c\<close> finds the host's byte order by looking at \<open>htonl(1)\<close> and swaps the two
  halves itself. The static \<^verbatim>\<open>endianness\<close> caches the outcome of that test.
\<close>

definition endianness :: int where
  "endianness = (if htonl 1 = 1 then 1 else - 1)"

definition ntohll :: "u64 \<Rightarrow> u64" where
  "ntohll x = (if endianness = 1 then x
     else ucast (ntohl (ucast (drop_bit 32 x AND 0xFFFFFFFF)))
       OR push_bit 32 (ucast (ntohl (ucast (x AND 0xFFFFFFFF)))))"

definition htonll :: "u64 \<Rightarrow> u64" where
  "htonll x = (if endianness = 1 then x
     else ucast (htonl (ucast (drop_bit 32 x AND 0xFFFFFFFF)))
       OR push_bit 32 (ucast (htonl (ucast (x AND 0xFFFFFFFF)))))"

section \<open>Loads and stores\<close>

definition load16 :: "bytes \<Rightarrow> nat \<Rightarrow> u16 option" where
  "load16 mem off = map_option le_word (rd mem off 2)"

definition load32 :: "bytes \<Rightarrow> nat \<Rightarrow> u32 option" where
  "load32 mem off = map_option le_word (rd mem off 4)"

definition load64 :: "bytes \<Rightarrow> nat \<Rightarrow> u64 option" where
  "load64 mem off = map_option le_word (rd mem off 8)"

abbreviation store16 :: "u16 \<Rightarrow> bytes" where
  "store16 \<equiv> le_bytes 2"

abbreviation store32 :: "u32 \<Rightarrow> bytes" where
  "store32 \<equiv> le_bytes 4"

abbreviation store64 :: "u64 \<Rightarrow> bytes" where
  "store64 \<equiv> le_bytes 8"

section \<open>Byte order\<close>

lemma le_bytes_numeral [mem_simps]:
  "le_bytes (numeral k) w = ucast w # le_bytes (pred_numeral k) (drop_bit 8 w)"
  by (simp add: numeral_eq_Suc)

lemma endianness_little: "endianness = - 1"
  by (simp add: endianness_def htonl_def mem_simps)

lemma le_bytes_append: "le_bytes (m + n) w = le_bytes m w @ le_bytes n (drop_bit (8 * m) w)"
  by (induction m arbitrary: w) (simp_all add: add.commute)

lemma le_word_append:
  "(le_word (xs @ ys) :: 'a::len word) = le_word xs OR push_bit (8 * length xs) (le_word ys)"
  by (induction xs) (simp_all add: push_bit_or or.assoc add.commute)

lemma ucast_le_word:
  assumes "8 * length bs \<le> LENGTH('b)"
  shows "(ucast (le_word bs :: 'b::len word) :: 'a::len word) = le_word bs"
proof (rule bit_word_eqI)
  fix i assume "i < LENGTH('a)"
  moreover have "i < LENGTH('b)" if "i div 8 < length bs"
    using that assms by linarith
  ultimately show "bit (ucast (le_word bs :: 'b word) :: 'a word) i \<longleftrightarrow> bit (le_word bs :: 'a word) i"
    by (auto simp: bit_simps bit_le_word)
qed

lemma le_bytes_ucast:
  assumes "8 * n \<le> LENGTH('b)"
  shows "le_bytes n (ucast w :: 'b::len word) = le_bytes n w"
proof (rule nth_equalityI)
  fix j assume "j < length (le_bytes n (ucast w :: 'b word))"
  then have j: "j < n" by simp
  show "le_bytes n (ucast w :: 'b word) ! j = le_bytes n w ! j"
  proof (rule bit_word_eqI)
    fix i assume "i < LENGTH(8)"
    with j assms have "8 * j + i < LENGTH('b)" by simp
    then show "bit (le_bytes n (ucast w :: 'b word) ! j) i \<longleftrightarrow> bit (le_bytes n w ! j) i"
      using j by (auto simp: bit_le_bytes bit_simps)
  qed
qed simp

lemma ucast_mask32: "(ucast (x AND 0xFFFFFFFF :: u64) :: u32) = ucast x"
proof (rule bit_word_eqI)
  fix i assume "i < LENGTH(32)"
  then have "i < 32" by simp
  moreover have m: "(0xFFFFFFFF :: u64) = mask 32" by (simp add: mask_eq_exp_minus_1)
  ultimately show "bit (ucast (x AND 0xFFFFFFFF :: u64) :: u32) i \<longleftrightarrow> bit (ucast x :: u32) i"
    unfolding m by (simp add: bit_simps)
qed

lemma htonll_rev: "htonll x = le_word (rev (le_bytes 8 x))"
proof -
  have split: "le_bytes 8 x = le_bytes 4 x @ le_bytes 4 (drop_bit 32 x)"
    using le_bytes_append [of 4 4 x] by simp
  show ?thesis
    by (simp add: htonll_def endianness_little htonl_def ucast_mask32 ucast_le_word
        le_bytes_ucast split le_word_append)
qed

lemma ntohll_eq_htonll: "ntohll = htonll"
  by (rule ext) (simp add: ntohll_def htonll_def htonl_def ntohl_def)

lemma store32_htonl [simp]: "store32 (htonl w) = rev (store32 w)"
  using le_bytes_le_word [of "rev (store32 w)", where 'a = 32] by (simp add: htonl_def)

lemma store16_htons [simp]: "store16 (htons w) = rev (store16 w)"
  using le_bytes_le_word [of "rev (store16 w)", where 'a = 16] by (simp add: htons_def)

lemma store64_htonll [simp]: "store64 (htonll w) = rev (store64 w)"
  using le_bytes_le_word [of "rev (store64 w)", where 'a = 64] by (simp add: htonll_rev)

lemma ntohl_htonl [simp]: "ntohl (htonl w) = w"
  by (simp add: ntohl_def)

lemma htonl_ntohl [simp]: "htonl (ntohl w) = w"
  using ntohl_htonl [of w] by (simp add: ntohl_def htonl_def)

lemma ntohs_htons [simp]: "ntohs (htons w) = w"
  by (simp add: ntohs_def)

lemma htons_ntohs [simp]: "htons (ntohs w) = w"
  using ntohs_htons [of w] by (simp add: ntohs_def htons_def)

lemma ntohll_htonll [simp]: "ntohll (htonll w) = w"
  by (simp add: ntohll_eq_htonll htonll_rev [of "htonll w"])

lemma load32_Some: "off + 4 \<le> length mem \<Longrightarrow> load32 mem off = Some (le_word (take 4 (drop off mem)))"
  by (simp add: load32_def rd_Some)

lemma load32_store32:
  "off = length xs \<Longrightarrow> load32 (xs @ store32 w @ ys) off = Some w"
  by (simp add: load32_def rd_def)

lemma load32_eq_None_iff: "load32 mem off = None \<longleftrightarrow> length mem < off + 4"
  by (simp add: load32_def rd_def)

text \<open>
  \<^verbatim>\<open>htonll()\<close> puts a 64-bit integer into network byte order, that is the bytes it
  stores are the host's in reverse, most significant first; and \<^verbatim>\<open>ntohll()\<close> undoes it.
\<close>

lemma htonll_network_order:
  "store64 (htonll x) = rev (store64 x) \<and> ntohll (htonll x) = x"
  by simp

end
