(* ===== verification/Hash.thy ===== *)
theory Hash
  imports Netutils
begin

text \<open>
  \<^verbatim>\<open>nmdb/hash.h\<close>: MurmurHash2 with a fixed seed, on 32-bit words that wrap around. The
  functions under \<^verbatim>\<open>#if 0\<close> in that file are in \<open>Hash_Alt\<close>.
\<close>

definition murmur_m :: u32 where "murmur_m = 0x5bd1e995"
definition murmur_seed :: u32 where "murmur_seed = 0x34a4b627"

text \<open>The \<^verbatim>\<open>while (len >= 4)\<close> loop: the mixed state and the last few bytes.\<close>

fun murmur_loop :: "u32 \<Rightarrow> bytes \<Rightarrow> u32 \<times> bytes" where
  "murmur_loop h (a # b # c # d # rest) =
     (let k = le_word [a, b, c, d] * murmur_m;
          k = k XOR drop_bit 24 k;
          k = k * murmur_m;
          h = h * murmur_m;
          h = h XOR k
      in murmur_loop h rest)"
| "murmur_loop h rest = (h, rest)"

text \<open>The \<^verbatim>\<open>switch (len)\<close>, whose cases fall through.\<close>

fun murmur_tail :: "u32 \<Rightarrow> bytes \<Rightarrow> u32" where
  "murmur_tail h [x, y, z] =
     (h XOR push_bit 16 (ucast z) XOR push_bit 8 (ucast y) XOR ucast x) * murmur_m"
| "murmur_tail h [x, y] = (h XOR push_bit 8 (ucast y) XOR ucast x) * murmur_m"
| "murmur_tail h [x] = (h XOR ucast x) * murmur_m"
| "murmur_tail h _ = h"

definition murmurhash2 :: "bytes \<Rightarrow> u32" where
  "murmurhash2 key =
     (let (h, rest) = murmur_loop (murmur_seed XOR of_nat (length key)) key;
          h = murmur_tail h rest;
          h = h XOR drop_bit 13 h;
          h = h * murmur_m
      in h XOR drop_bit 15 h)"

abbreviation hash :: "bytes \<Rightarrow> u32" where
  "hash k \<equiv> murmurhash2 k"

lemma murmur_loop_rest: "length (snd (murmur_loop h key)) = length key mod 4"
  by (induction h key rule: murmur_loop.induct) (auto simp: Let_def)

end
