(* ===== verification/Cstring.thy ===== *)
theory Cstring
  imports Netutils
begin

text \<open>
  The two functions of the C library that the atomic increment is built on, as the C
  standard specifies them for base 10: \<^verbatim>\<open>strtoll(s, NULL, 10)\<close> and
  \<^verbatim>\<open>snprintf(buf, n, "%23lld", x)\<close>. Both \<^verbatim>\<open>cache_incr()\<close> and the database thread's
  increment read a value with the first and write it back with the second.
\<close>

definition LLONG_MAX :: int where "LLONG_MAX = 2 ^ 63 - 1"
definition LLONG_MIN :: int where "LLONG_MIN = - (2 ^ 63)"

definition isspace :: "u8 \<Rightarrow> bool" where
  "isspace c \<longleftrightarrow> c = 32 \<or> (9 \<le> c \<and> c \<le> 13)"

definition isdigit :: "u8 \<Rightarrow> bool" where
  "isdigit c \<longleftrightarrow> 48 \<le> c \<and> c \<le> 57"

definition digits_val :: "bytes \<Rightarrow> int" where
  "digits_val ds = foldl (\<lambda>a d. 10 * a + (uint d - 48)) 0 ds"

definition clamp_ll :: "int \<Rightarrow> int" where
  "clamp_ll n = max LLONG_MIN (min LLONG_MAX n)"

text \<open>
  The number at the start of a string: white space, an optional sign, digits; out of
  range values are clamped and a string without digits is 0.
\<close>

definition strtoll_str :: "bytes \<Rightarrow> int" where
  "strtoll_str s =
     (case dropWhile isspace s of
        [] \<Rightarrow> 0
      | c # cs \<Rightarrow>
          if c = 45 then clamp_ll (- digits_val (takeWhile isdigit cs))
          else if c = 43 then clamp_ll (digits_val (takeWhile isdigit cs))
          else clamp_ll (digits_val (takeWhile isdigit (c # cs))))"

text \<open>On a block of memory: the string ends at the first NUL, and there has to be one.\<close>

definition strtoll :: "bytes \<Rightarrow> u64 option" where
  "strtoll blk = (if 0 \<in> set blk
     then Some (word_of_int (strtoll_str (takeWhile (\<lambda>c. c \<noteq> 0) blk))) else None)"

text \<open>
  The sum of two \<^verbatim>\<open>int64_t\<close>, which in C is undefined when it is not one.
\<close>

definition ll_fits :: "u64 \<Rightarrow> u64 \<Rightarrow> bool" where
  "ll_fits a b \<longleftrightarrow> LLONG_MIN \<le> sint a + sint b \<and> sint a + sint b \<le> LLONG_MAX"

definition ll_add :: "u64 \<Rightarrow> u64 \<Rightarrow> u64 option" where
  "ll_add a b = (if ll_fits a b then Some (a + b) else None)"

lemma ll_add_sint: "ll_add a b = Some w \<Longrightarrow> sint w = sint a + sint b"
  by (auto simp: ll_add_def ll_fits_def LLONG_MIN_def LLONG_MAX_def sint_word_add intro!: signed_take_bit_int_eq_self split: if_splits)

definition digit_char :: "nat \<Rightarrow> u8" where
  "digit_char d = of_nat (48 + d)"

fun udec :: "nat \<Rightarrow> bytes" where
  "udec n = (if n < 10 then [digit_char n] else udec (n div 10) @ [digit_char (n mod 10)])"

declare udec.simps [simp del]

definition sdec :: "int \<Rightarrow> bytes" where
  "sdec x = (if x < 0 then 45 # udec (nat (- x)) else udec (nat x))"

text \<open>The text \<^verbatim>\<open>"%23lld"\<close> produces, and \<^verbatim>\<open>snprintf()\<close> into a block of \<open>n\<close> bytes.\<close>

definition fmt23lld :: "u64 \<Rightarrow> bytes" where
  "fmt23lld w = (let d = sdec (sint w) in replicate (23 - length d) 32 @ d)"

definition snprintf23 :: "bytes option \<Rightarrow> nat \<Rightarrow> u64 \<Rightarrow> bytes option" where
  "snprintf23 buf n w =
     (if n = 0 then buf else memcpy buf (take (n - 1) (fmt23lld w) @ [0]))"

section \<open>Printed numbers\<close>

lemma unat_digit_char: "d < 10 \<Longrightarrow> unat (digit_char d) = 48 + d"
  unfolding digit_char_def by (subst unat_of_nat) (simp add: take_bit_nat_eq_self)

lemma udec_digits: "c \<in> set (udec n) \<Longrightarrow> 48 \<le> c \<and> c \<le> 57"
proof (induction n rule: udec.induct)
  case (1 n)
  have small: "48 \<le> digit_char m \<and> digit_char m \<le> 57" if "m < 10" for m
    using that by (simp add: word_le_nat_alt unat_digit_char)
  show ?case
  proof (cases "n < 10")
    case True
    with 1 small [of n] show ?thesis by (simp add: udec.simps [of n])
  next
    case False
    with 1 small [of "n mod 10"] show ?thesis by (auto simp: udec.simps [of n])
  qed
qed

lemma isdigit_not_special:
  "isdigit c \<Longrightarrow> c \<noteq> 0 \<and> \<not> isspace c \<and> c \<noteq> 45 \<and> c \<noteq> 43"
  by (auto simp: isdigit_def isspace_def word_le_nat_alt)

lemma udec_isdigit: "c \<in> set (udec n) \<Longrightarrow> isdigit c"
  using udec_digits [of c n] by (simp add: isdigit_def)

lemma udec_nonempty [simp]: "udec n \<noteq> []"
  by (simp add: udec.simps [of n])

lemma digits_val_snoc: "digits_val (ds @ [d]) = 10 * digits_val ds + (uint d - 48)"
  by (simp add: digits_val_def)

lemma digits_val_udec: "digits_val (udec n) = int n"
proof (induction n rule: udec.induct)
  case (1 n)
  have one: "uint (digit_char m) = 48 + int m" if "m < 10" for m
    using that by (simp only: uint_nat unat_digit_char of_nat_add of_nat_numeral)
  show ?case
  proof (cases "n < 10")
    case True
    with one [of n] show ?thesis by (simp add: udec.simps [of n] digits_val_def)
  next
    case False
    with 1 one [of "n mod 10"] have "digits_val (udec n) = 10 * int (n div 10) + int (n mod 10)"
      by (simp add: udec.simps [of n] digits_val_snoc)
    then show ?thesis by presburger
  qed
qed

lemma length_udec_less: "n < 10 ^ Suc k \<Longrightarrow> length (udec n) \<le> Suc k"
proof (induction k arbitrary: n)
  case 0
  then show ?case by (simp add: udec.simps [of n])
next
  case (Suc k)
  show ?case
  proof (cases "n < 10")
    case True
    then show ?thesis by (simp add: udec.simps [of n])
  next
    case False
    from Suc.prems have "n div 10 < 10 ^ Suc k" by (simp add: less_mult_imp_div_less mult.commute)
    then have "length (udec (n div 10)) \<le> Suc k" by (rule Suc.IH)
    with False show ?thesis by (simp add: udec.simps [of n])
  qed
qed

lemma length_sdec: "length (sdec (sint (w :: u64))) \<le> 20"
proof -
  have "- (2 ^ 63) \<le> sint w" and "sint w < 2 ^ 63"
    using sint_ge [of w] sint_lt [of w] by simp_all
  then have "nat \<bar>sint w\<bar> < 10 ^ Suc 18" by simp
  then have "length (udec (nat \<bar>sint w\<bar>)) \<le> Suc 18" by (rule length_udec_less)
  then show ?thesis by (simp add: sdec_def abs_if split: if_splits)
qed

lemma length_fmt23lld [simp]: "length (fmt23lld w) = 23"
  using length_sdec [of w] by (simp add: fmt23lld_def Let_def)

lemma zero_notin_fmt23lld: "0 \<notin> set (fmt23lld w)"
  using isdigit_not_special [OF udec_isdigit, of 0]
  by (auto simp: fmt23lld_def sdec_def Let_def)

section \<open>Reading a printed number back\<close>

lemma takeWhile_udec: "takeWhile isdigit (udec n) = udec n"
  using udec_isdigit by (simp add: takeWhile_eq_all_conv)

lemma strtoll_str_fmt23lld: "strtoll_str (fmt23lld w) = sint w"
proof -
  have range: "clamp_ll (sint w) = sint w"
    using sint_ge [of w] sint_lt [of w]
    by (simp add: clamp_ll_def LLONG_MAX_def LLONG_MIN_def)
  have drop: "dropWhile isspace (replicate m 32 @ d) = dropWhile isspace d" for m and d :: bytes
    by (simp add: dropWhile_append isspace_def)
  obtain c cs where u: "udec (nat (sint w)) = c # cs" by (meson list.exhaust udec_nonempty)
  have c: "isdigit c" using udec_isdigit [of c "nat (sint w)"] by (simp add: u)
  show ?thesis
  proof (cases "sint w < 0")
    case True
    then have "strtoll_str (fmt23lld w) = clamp_ll (- digits_val (udec (nat (- sint w))))"
      by (simp add: fmt23lld_def sdec_def Let_def strtoll_str_def drop isspace_def takeWhile_udec)
    with True range show ?thesis by (simp add: digits_val_udec)
  next
    case False
    have "strtoll_str (fmt23lld w) = clamp_ll (digits_val (takeWhile isdigit (udec (nat (sint w)))))"
      using False isdigit_not_special [OF c]
      by (simp add: fmt23lld_def sdec_def Let_def strtoll_str_def drop u)
    with False range show ?thesis by (simp add: takeWhile_udec digits_val_udec)
  qed
qed

lemma strtoll_fmt23lld: "strtoll (fmt23lld w @ 0 # rest) = Some w"
proof -
  have "takeWhile (\<lambda>c. c \<noteq> 0) (fmt23lld w @ 0 # rest) = fmt23lld w"
    using zero_notin_fmt23lld [of w] by (auto simp: takeWhile_append)
  then show ?thesis by (simp add: strtoll_def strtoll_str_fmt23lld)
qed

lemma snprintf23_big:
  assumes "24 \<le> n" and "n \<le> length blk"
  shows "snprintf23 (Some blk) n w = Some (fmt23lld w @ 0 # drop 24 blk)"
proof -
  from assms have "take (n - 1) (fmt23lld w) = fmt23lld w" by simp
  with assms show ?thesis by (auto simp: snprintf23_def memcpy_def)
qed

end
