(* ===== verification/Cache_Chain.thy ===== *)
theory Cache_Chain
  imports Hash Cstring
begin

text \<open>
  One line of the cache (\<^verbatim>\<open>struct cache_chain\<close> in \<^verbatim>\<open>nmdb/cache.h\<close>): an array of
  \<open>CHAINLEN\<close> entries threaded on a doubly linked list, most recently written first. The
  pointers \<^verbatim>\<open>first\<close>, \<^verbatim>\<open>last\<close>, \<^verbatim>\<open>prev\<close> and \<^verbatim>\<open>next\<close> point into that array or are NULL and
  are modelled as optional indices; every pointer assignment of \<^verbatim>\<open>cache.c\<close> is one update.
  Field names carry the prefix of their structure (\<open>ce_\<close> for \<^verbatim>\<open>cache_entry\<close>, \<open>cc_\<close>
  for \<^verbatim>\<open>cache_chain\<close>), since \<^verbatim>\<open>next\<close> and \<^verbatim>\<open>last\<close> mean other things here.

  The second half states the chain invariant and shows that the pointer surgery of
  \<^verbatim>\<open>cache.c\<close> implements list operations: unlinking an element, putting one first.
\<close>

section \<open>Data\<close>

definition CHAINLEN :: nat where "CHAINLEN = 4"

record cache_entry =
  ce_key :: "bytes option"
  ce_val :: "bytes option"
  ce_ksize :: u64
  ce_vsize :: u64
  ce_prev :: "nat option"
  ce_next :: "nat option"

record cache_chain =
  cc_len :: u64
  cc_entries :: "cache_entry list"
  cc_first :: "nat option"
  cc_last :: "nat option"

text \<open>Reading an entry through a pointer, and assigning to its fields.\<close>

definition deref :: "cache_chain \<Rightarrow> nat option \<Rightarrow> cache_entry option" where
  "deref c p = (case p of None \<Rightarrow> None
     | Some i \<Rightarrow> if i < length (cc_entries c) then Some (cc_entries c ! i) else None)"

definition upd ::
  "cache_chain \<Rightarrow> nat option \<Rightarrow> (cache_entry \<Rightarrow> cache_entry) \<Rightarrow> cache_chain option" where
  "upd c p f = (case p of None \<Rightarrow> None
     | Some i \<Rightarrow> if i < length (cc_entries c)
         then Some (c\<lparr>cc_entries := (cc_entries c)[i := f (cc_entries c ! i)]\<rparr>) else None)"

section \<open>Operations of \<^verbatim>\<open>cache.c\<close> on one chain\<close>

text \<open>The inner initialisation loop of \<^verbatim>\<open>cache_create()\<close>.\<close>

definition unused_entry :: cache_entry where
  "unused_entry = \<lparr>ce_key = None, ce_val = None, ce_ksize = - 1, ce_vsize = - 1,
     ce_prev = None, ce_next = None\<rparr>"

definition empty_chain :: cache_chain where
  "empty_chain = \<lparr>cc_len = 0, cc_entries = replicate CHAINLEN unused_entry,
     cc_first = None, cc_last = None\<rparr>"

definition alloc_entry :: "cache_chain \<Rightarrow> nat option" where
  "alloc_entry c = find (\<lambda>i. ce_ksize (cc_entries c ! i) = - 1) [0..<CHAINLEN]"

definition free_entry :: "cache_entry \<Rightarrow> cache_entry" where
  "free_entry e = e\<lparr>ce_key := None, ce_ksize := - 1, ce_val := None, ce_vsize := - 1\<rparr>"

text \<open>
  The loop of \<^verbatim>\<open>find_in_chain()\<close> from the entry \<open>p\<close> on. It follows \<^verbatim>\<open>next\<close> pointers, so
  nothing but the shape of the chain makes it stop.
\<close>

partial_function (option) find_from ::
  "cache_chain \<Rightarrow> nat option \<Rightarrow> bytes \<Rightarrow> nat option option" where
  "find_from c p k =
     (case p of None \<Rightarrow> Some None
      | Some i \<Rightarrow> Option.bind (deref c (Some i)) (\<lambda>e.
          if sz k \<noteq> ce_ksize e then find_from c (ce_next e) k
          else Option.bind (memcmp_eq k (ce_key e)) (\<lambda>eq.
            if eq then Some (Some i) else find_from c (ce_next e) k)))"

declare find_from.simps [code]

definition find_in_chain :: "cache_chain \<Rightarrow> bytes \<Rightarrow> nat option option" where
  "find_in_chain c k = find_from c (cc_first c) k"

text \<open>
  \<^verbatim>\<open>new_entry()\<close>. When there is no memory for the key, the code calls \<^verbatim>\<open>free(new)\<close> on an
  entry that lives inside the chain's array: undefined behaviour.
\<close>

definition new_entry ::
  "cache_chain \<Rightarrow> bytes \<Rightarrow> bytes \<Rightarrow> alloc \<Rightarrow> (nat option \<times> cache_chain \<times> alloc) option" where
  "new_entry c k v ms =
     (case alloc_entry c of
        None \<Rightarrow> Some (None, c, ms)
      | Some i \<Rightarrow> do {
          c \<leftarrow> upd c (Some i) (\<lambda>e. e\<lparr>ce_ksize := sz k, ce_vsize := sz v\<rparr>);
          let (kok, ms) = malloc ms;
          if \<not> kok then None
          else do {
            c \<leftarrow> upd c (Some i) (\<lambda>e. e\<lparr>ce_key := Some k\<rparr>);
            let (vok, ms) = malloc ms;
            if \<not> vok then do {
              c \<leftarrow> upd c (Some i) free_entry;
              Some (None, c, ms)
            }
            else do {
              c \<leftarrow> upd c (Some i) (\<lambda>e. e\<lparr>ce_val := Some v, ce_prev := None, ce_next := None\<rparr>);
              Some (Some i, c, ms)
            }
          }
        })"

text \<open>
  \<^verbatim>\<open>e->prev->next = e->next; if (e->next != NULL) e->next->prev = e->prev\<close>, which
  \<^verbatim>\<open>cache_set()\<close> and \<^verbatim>\<open>cache_del()\<close> share, and the four assignments that put the entry
  \<open>p\<close> in front of the list, which \<^verbatim>\<open>cache_set()\<close> and \<^verbatim>\<open>insert_in_full_chain()\<close> share.
\<close>

definition unlink :: "cache_chain \<Rightarrow> nat option \<Rightarrow> cache_chain option" where
  "unlink c p = do {
     e \<leftarrow> deref c p;
     c \<leftarrow> upd c (ce_prev e) (\<lambda>x. x\<lparr>ce_next := ce_next e\<rparr>);
     e \<leftarrow> deref c p;
     if ce_next e \<noteq> None then upd c (ce_next e) (\<lambda>x. x\<lparr>ce_prev := ce_prev e\<rparr>) else Some c
   }"

definition push_first :: "cache_chain \<Rightarrow> nat option \<Rightarrow> cache_chain option" where
  "push_first c p = do {
     c \<leftarrow> upd c p (\<lambda>e. e\<lparr>ce_prev := None, ce_next := cc_first c\<rparr>);
     c \<leftarrow> upd c (cc_first c) (\<lambda>e. e\<lparr>ce_prev := p\<rparr>);
     Some (c\<lparr>cc_first := p\<rparr>)
   }"

text \<open>
  \<^verbatim>\<open>insert_in_full_chain()\<close>: reuse the key block of the last entry when the sizes agree,
  else allocate one; the same for the value; then move the entry to the front. On an
  allocation failure the entry is taken off the list and marked unused (and \<^verbatim>\<open>c->len\<close>
  stays as it was).
\<close>

definition reuse_key ::
  "cache_chain \<Rightarrow> nat option \<Rightarrow> bytes \<Rightarrow> alloc \<Rightarrow> (bool \<times> cache_chain \<times> alloc) option" where
  "reuse_key c p k ms = do {
     e \<leftarrow> deref c p;
     if sz k = ce_ksize e then do {
       b \<leftarrow> memcpy (ce_key e) k;
       c \<leftarrow> upd c p (\<lambda>e. e\<lparr>ce_key := Some b\<rparr>);
       Some (True, c, ms)
     }
     else (let (ok, ms) = malloc ms in
       if \<not> ok then do {
         c \<leftarrow> upd c p (\<lambda>e. e\<lparr>ce_key := None\<rparr>);
         Some (False, c, ms)
       }
       else do {
         c \<leftarrow> upd c p (\<lambda>e. e\<lparr>ce_key := Some k, ce_ksize := sz k\<rparr>);
         Some (True, c, ms)
       })
   }"

definition reuse_val ::
  "cache_chain \<Rightarrow> nat option \<Rightarrow> bytes \<Rightarrow> alloc \<Rightarrow> (bool \<times> cache_chain \<times> alloc) option" where
  "reuse_val c p v ms = do {
     e \<leftarrow> deref c p;
     if sz v = ce_vsize e then do {
       b \<leftarrow> memcpy (ce_val e) v;
       c \<leftarrow> upd c p (\<lambda>e. e\<lparr>ce_val := Some b\<rparr>);
       Some (True, c, ms)
     }
     else (let (ok, ms) = malloc ms in
       if \<not> ok then do {
         c \<leftarrow> upd c p (\<lambda>e. e\<lparr>ce_val := None\<rparr>);
         Some (False, c, ms)
       }
       else do {
         c \<leftarrow> upd c p (\<lambda>e. e\<lparr>ce_val := Some v, ce_vsize := sz v\<rparr>);
         Some (True, c, ms)
       })
   }"

definition insert_in_full_chain ::
  "cache_chain \<Rightarrow> bytes \<Rightarrow> bytes \<Rightarrow> alloc \<Rightarrow> (int \<times> cache_chain \<times> alloc) option" where
  "insert_in_full_chain c k v ms = do {
     let p = cc_last c;
     (ok, c, ms) \<leftarrow> reuse_key c p k ms;
     (ok, c, ms) \<leftarrow> (if ok then reuse_val c p v ms else Some (False, c, ms));
     e \<leftarrow> deref c p;
     let c = c\<lparr>cc_last := ce_prev e\<rparr>;
     c \<leftarrow> upd c (cc_last c) (\<lambda>e. e\<lparr>ce_next := None\<rparr>);
     if ok then do {
       c \<leftarrow> push_first c p;
       Some (0, c, ms)
     }
     else do {
       c \<leftarrow> upd c p free_entry;
       Some (- 1, c, ms)
     }
   }"

text \<open>The bodies of \<^verbatim>\<open>cache_set()\<close> and \<^verbatim>\<open>cache_del()\<close> once the chain is known.\<close>

definition replace_val ::
  "cache_chain \<Rightarrow> nat option \<Rightarrow> bytes \<Rightarrow> alloc \<Rightarrow> (bool \<times> cache_chain \<times> alloc) option" where
  "replace_val c p v ms = do {
     e \<leftarrow> deref c p;
     if sz v = ce_vsize e then do {
       b \<leftarrow> memcpy (ce_val e) v;
       c \<leftarrow> upd c p (\<lambda>e. e\<lparr>ce_val := Some b\<rparr>);
       Some (True, c, ms)
     }
     else (let (ok, ms) = malloc ms in
       if \<not> ok then Some (False, c, ms)
       else do {
         c \<leftarrow> upd c p (\<lambda>e. e\<lparr>ce_val := Some v, ce_vsize := sz v\<rparr>);
         Some (True, c, ms)
       })
   }"

definition promote :: "cache_chain \<Rightarrow> nat option \<Rightarrow> cache_chain option" where
  "promote c p =
     (if cc_first c \<noteq> p then do {
        e \<leftarrow> deref c p;
        let c = (if cc_last c = p then c\<lparr>cc_last := ce_prev e\<rparr> else c);
        c \<leftarrow> unlink c p;
        push_first c p
      }
      else Some c)"

definition link_new :: "cache_chain \<Rightarrow> nat option \<Rightarrow> cache_chain option" where
  "link_new c p =
     (if cc_len c = 0 then Some (c\<lparr>cc_first := p, cc_last := p, cc_len := 1\<rparr>)
      else if cc_len c < of_nat CHAINLEN then do {
        c \<leftarrow> upd c p (\<lambda>e. e\<lparr>ce_next := cc_first c\<rparr>);
        c \<leftarrow> upd c (cc_first c) (\<lambda>e. e\<lparr>ce_prev := p\<rparr>);
        Some (c\<lparr>cc_first := p, cc_len := cc_len c + 1\<rparr>)
      }
      else Some c)"

definition set_in_chain ::
  "cache_chain \<Rightarrow> bytes \<Rightarrow> bytes \<Rightarrow> alloc \<Rightarrow> (int \<times> cache_chain \<times> alloc) option" where
  "set_in_chain c k v ms = do {
     e \<leftarrow> find_in_chain c k;
     (case e of
        None \<Rightarrow>
          if cc_len c = of_nat CHAINLEN then do {
            (rv, c, ms) \<leftarrow> insert_in_full_chain c k v ms;
            if rv \<noteq> 0 then Some (- 1, c, ms) else Some (0, c, ms)
          }
          else do {
            (new, c, ms) \<leftarrow> new_entry c k v ms;
            (case new of
               None \<Rightarrow> Some (- 1, c, ms)
             | Some i \<Rightarrow> do { c \<leftarrow> link_new c (Some i); Some (0, c, ms) })
          }
      | Some i \<Rightarrow> do {
          (ok, c, ms) \<leftarrow> replace_val c (Some i) v ms;
          if \<not> ok then Some (- 1, c, ms)
          else do { c \<leftarrow> promote c (Some i); Some (0, c, ms) }
        })
   }"

definition del_in_chain :: "cache_chain \<Rightarrow> bytes \<Rightarrow> (int \<times> cache_chain) option" where
  "del_in_chain c k = do {
     e \<leftarrow> find_in_chain c k;
     (case e of
        None \<Rightarrow> Some (0, c)
      | Some i \<Rightarrow> do {
          e \<leftarrow> deref c (Some i);
          c \<leftarrow> (if cc_first c = Some i then
                 (let c = c\<lparr>cc_first := ce_next e\<rparr> in
                  if ce_next e \<noteq> None then upd c (ce_next e) (\<lambda>x. x\<lparr>ce_prev := None\<rparr>)
                  else Some c)
               else unlink c (Some i));
          e \<leftarrow> deref c (Some i);
          let c = (if cc_last c = Some i then c\<lparr>cc_last := ce_prev e\<rparr> else c);
          c \<leftarrow> upd c (Some i) free_entry;
          Some (1, c\<lparr>cc_len := cc_len c - 1\<rparr>)
        })
   }"

section \<open>Doubly linked segments\<close>

text \<open>
  \<open>dseg es p is q\<close>: the entries with indices \<open>is\<close> form a doubly linked segment whose
  first element's \<^verbatim>\<open>prev\<close> is \<open>p\<close> and whose last element's \<^verbatim>\<open>next\<close> is \<open>q\<close>.
\<close>

abbreviation hd_or :: "nat list \<Rightarrow> nat option \<Rightarrow> nat option" where
  "hd_or is q \<equiv> (case is of [] \<Rightarrow> q | j # _ \<Rightarrow> Some j)"

fun dseg :: "cache_entry list \<Rightarrow> nat option \<Rightarrow> nat list \<Rightarrow> nat option \<Rightarrow> bool" where
  "dseg es p [] q \<longleftrightarrow> True"
| "dseg es p (i # is) q \<longleftrightarrow> i < length es \<and> ce_prev (es ! i) = p \<and>
     ce_next (es ! i) = hd_or is q \<and> dseg es (Some i) is q"

text \<open>What an entry holds besides its links.\<close>

definition dat :: "cache_entry \<Rightarrow> bytes option \<times> bytes option \<times> u64 \<times> u64" where
  "dat e = (ce_key e, ce_val e, ce_ksize e, ce_vsize e)"

lemma dat_links [simp]:
  "dat (e\<lparr>ce_prev := p\<rparr>) = dat e" "dat (e\<lparr>ce_next := q\<rparr>) = dat e"
  by (simp_all add: dat_def)

lemma map_dat_update [simp]:
  "dat e = dat (es ! i) \<Longrightarrow> map dat (es[i := e]) = map dat es"
  by (cases "i < length es") (simp_all add: map_update list_update_same_conv list_update_beyond)

lemma dseg_append:
  "dseg es p (xs @ ys) q \<longleftrightarrow>
     dseg es p xs (hd_or ys q) \<and> dseg es (if xs = [] then p else Some (last xs)) ys q"
proof (induction xs arbitrary: p)
  case Nil
  then show ?case by simp
next
  case (Cons x xs)
  then show ?case by (cases xs) auto
qed

lemma dseg_cong:
  assumes "length es' = length es"
    and "\<And>i. i \<in> set is \<Longrightarrow> ce_prev (es' ! i) = ce_prev (es ! i) \<and> ce_next (es' ! i) = ce_next (es ! i)"
  shows "dseg es' p is q = dseg es p is q"
  using assms by (induction "is" arbitrary: p) auto

lemma dseg_frame [simp]: "i \<notin> set is \<Longrightarrow> dseg (es[i := e]) p is q = dseg es p is q"
  by (rule dseg_cong) (simp, metis nth_list_update_neq)

lemma dseg_bound: "dseg es p is q \<Longrightarrow> i \<in> set is \<Longrightarrow> i < length es"
  by (induction "is" arbitrary: p) auto

lemma dseg_snoc_next:
  assumes "dseg es p (xs @ [i]) q" and "i \<notin> set xs"
  shows "dseg (es[i := (es ! i)\<lparr>ce_next := q'\<rparr>]) p (xs @ [i]) q'"
  using assms by (auto simp: dseg_append)

lemma dseg_Cons_prev:
  assumes "dseg es p (i # xs) q" and "i \<notin> set xs"
  shows "dseg (es[i := (es ! i)\<lparr>ce_prev := p'\<rparr>]) p' (i # xs) q"
  using assms by (cases xs) auto

section \<open>The pointer surgery\<close>

lemma push_first_dseg:
  assumes "dseg (cc_entries c) None (j # xs) None" and "cc_first c = Some j"
    and "i \<notin> set (j # xs)" and "i < length (cc_entries c)" and "distinct (j # xs)"
  obtains es' where "push_first c (Some i) = Some (c\<lparr>cc_entries := es', cc_first := Some i\<rparr>)"
    and "dseg es' None (i # j # xs) None" and "map dat es' = map dat (cc_entries c)"
proof
  let ?es = "cc_entries c"
  let ?e1 = "?es[i := (?es ! i)\<lparr>ce_prev := None, ce_next := Some j\<rparr>]"
  let ?e2 = "?e1[j := (?e1 ! j)\<lparr>ce_prev := Some i\<rparr>]"
  have ij: "i \<noteq> j" "j < length ?es" using assms by auto
  show "push_first c (Some i) = Some (c\<lparr>cc_entries := ?e2, cc_first := Some i\<rparr>)"
    using assms ij by (simp add: push_first_def upd_def)
  have "dseg ?e1 None (j # xs) None" using assms by simp
  then have "dseg ?e2 (Some i) (j # xs) None" using assms(5) by (intro dseg_Cons_prev) auto
  then show "dseg ?e2 None (i # j # xs) None" using assms ij by (simp add: nth_list_update)
  show "map dat ?e2 = map dat ?es" using ij by simp
qed

lemma unlink_dseg:
  assumes "dseg (cc_entries c) None (xs @ i # ys) None" and "distinct (xs @ i # ys)" and "xs \<noteq> []"
  obtains es' where "unlink c (Some i) = Some (c\<lparr>cc_entries := es'\<rparr>)"
    and "dseg es' None (xs @ ys) None" and "map dat es' = map dat (cc_entries c)"
    and "es' ! i = cc_entries c ! i" and "length es' = length (cc_entries c)"
proof -
  let ?es = "cc_entries c"
  obtain zs a where xs: "xs = zs @ [a]" using assms(3) by (meson rev_exhaust)
  have seg: "dseg ?es None (zs @ [a]) (Some i)" "dseg ?es (Some i) ys None"
    and i: "i < length ?es" "ce_prev (?es ! i) = Some a" "ce_next (?es ! i) = hd_or ys None"
    using assms(1) by (auto simp: xs dseg_append)
  have a: "a < length ?es" "a \<noteq> i" "a \<notin> set zs" "a \<notin> set ys"
    using assms by (auto simp: xs dseg_append)
  let ?e1 = "?es[a := (?es ! a)\<lparr>ce_next := hd_or ys None\<rparr>]"
  have s1: "dseg ?e1 None (zs @ [a]) (hd_or ys None)"
    by (rule dseg_snoc_next [OF seg(1) a(3)])
  show thesis
  proof (cases ys)
    case Nil
    show ?thesis
    proof (rule that [of ?e1])
      show "unlink c (Some i) = Some (c\<lparr>cc_entries := ?e1\<rparr>)"
        using a i Nil by (simp add: unlink_def deref_def upd_def)
    qed (use s1 a i xs Nil in auto)
  next
    case (Cons b ws)
    let ?e2 = "?e1[b := (?e1 ! b)\<lparr>ce_prev := Some a\<rparr>]"
    have b: "b < length ?es" "b \<noteq> i" "b \<noteq> a" "b \<notin> set zs" "b \<notin> set ws"
      using assms(2) seg(2) by (auto simp: xs Cons)
    have "dseg ?e1 (Some i) (b # ws) None" using seg(2) a(4) by (simp add: Cons)
    then have s2: "dseg ?e2 (Some a) (b # ws) None" using b by (intro dseg_Cons_prev) auto
    have s3: "dseg ?e2 None (zs @ [a]) (Some b)" using s1 b by (simp add: Cons)
    show ?thesis
    proof (rule that [of ?e2])
      show "unlink c (Some i) = Some (c\<lparr>cc_entries := ?e2\<rparr>)"
        using a i b Cons by (simp add: unlink_def deref_def upd_def)
      show "dseg ?e2 None (xs @ ys) None"
        using s2 s3 by (auto simp: xs Cons dseg_append)
      show "map dat ?e2 = map dat ?es" using a b by simp
    qed (use a b in auto)
  qed
qed

end
