(* ===== verification/Chain_Refine.thy ===== *)
theory Chain_Refine
  imports Cache_Chain
begin

text \<open>
  A cache chain refines a bounded list of (key, value) pairs, most recently written first.
  The invariant \<open>chain_wf\<close> says that the array is a well-formed doubly linked list of at
  most \<open>CHAINLEN\<close> entries with distinct keys, the rest being marked unused; \<open>chain_items\<close>
  reads the list off. Setting a key puts it first and drops what no longer fits, deleting
  removes it, and neither ever leaves the defined behaviour of C while \<^verbatim>\<open>malloc()\<close>
  succeeds.
\<close>

section \<open>Invariant and abstraction\<close>

definition entry_ok :: "cache_entry \<Rightarrow> bool" where
  "entry_ok e = (case ce_key e of None \<Rightarrow> False | Some k \<Rightarrow>
     (case ce_val e of None \<Rightarrow> False | Some v \<Rightarrow>
        ce_ksize e = sz k \<and> ce_vsize e = sz v \<and> fits k \<and> fits v))"

definition kv :: "cache_entry \<Rightarrow> bytes \<times> bytes" where
  "kv e = (the (ce_key e), the (ce_val e))"

definition links :: "cache_chain \<Rightarrow> nat list \<Rightarrow> bool" where
  "links c is \<longleftrightarrow> length (cc_entries c) = CHAINLEN \<and> distinct is \<and>
     dseg (cc_entries c) None is None \<and> cc_first c = hd_or is None \<and>
     cc_last c = (if is = [] then None else Some (last is)) \<and> cc_len c = of_nat (length is)"

definition data :: "cache_entry list \<Rightarrow> nat set \<Rightarrow> bool" where
  "data es S \<longleftrightarrow> (\<forall>i\<in>S. entry_ok (es ! i)) \<and>
     (\<forall>i<CHAINLEN. i \<notin> S \<longrightarrow> ce_ksize (es ! i) = - 1) \<and> inj_on (\<lambda>i. fst (kv (es ! i))) S"

fun walk :: "nat \<Rightarrow> cache_entry list \<Rightarrow> nat option \<Rightarrow> nat list" where
  "walk 0 es p = []"
| "walk (Suc n) es None = []"
| "walk (Suc n) es (Some i) = i # walk n es (ce_next (es ! i))"

definition chain_path :: "cache_chain \<Rightarrow> nat list" where
  "chain_path c = walk CHAINLEN (cc_entries c) (cc_first c)"

definition chain_wf :: "cache_chain \<Rightarrow> bool" where
  "chain_wf c \<longleftrightarrow> links c (chain_path c) \<and> data (cc_entries c) (set (chain_path c))"

definition chain_items :: "cache_chain \<Rightarrow> (bytes \<times> bytes) list" where
  "chain_items c = map (\<lambda>i. kv (cc_entries c ! i)) (chain_path c)"

definition lru_set :: "bytes \<Rightarrow> bytes \<Rightarrow> (bytes \<times> bytes) list \<Rightarrow> (bytes \<times> bytes) list" where
  "lru_set k v al = take CHAINLEN ((k, v) # AList.delete k al)"

text \<open>Every \<^verbatim>\<open>malloc()\<close> of a run succeeds.\<close>

definition good :: "alloc \<Rightarrow> bool" where
  "good ms \<longleftrightarrow> (\<forall>b\<in>set ms. b)"

lemma good_Nil [simp]: "good []"
  by (simp add: good_def)

lemma malloc_good:
  assumes "good ms"
  obtains ms' where "malloc ms = (True, ms')" and "good ms'"
  using assms by (cases ms) (auto simp: good_def)

lemma walk_dseg: "dseg es p is None \<Longrightarrow> length is \<le> n \<Longrightarrow> walk n es (hd_or is None) = is"
proof (induction "is" arbitrary: p n)
  case Nil
  then show ?case by (cases n) auto
next
  case (Cons i "is")
  then obtain m where "n = Suc m" "length is \<le> m" by (cases n) auto
  with Cons show ?case by auto
qed

lemma links_length: "links c is \<Longrightarrow> length is \<le> CHAINLEN"
proof -
  assume l: "links c is"
  then have "set is \<subseteq> {..<CHAINLEN}" by (auto simp: links_def dest: dseg_bound)
  then have "card (set is) \<le> card {..<CHAINLEN}" by (intro card_mono) simp_all
  with l show ?thesis by (simp add: links_def distinct_card)
qed

lemma linksD:
  assumes "links c is"
  shows "length (cc_entries c) = CHAINLEN" and "distinct is" and "dseg (cc_entries c) None is None"
    and "cc_first c = hd_or is None" and "cc_last c = (if is = [] then None else Some (last is))"
    and "cc_len c = of_nat (length is)"
  using assms by (simp_all add: links_def)

lemma links_path: "links c is \<Longrightarrow> chain_path c = is"
  using links_length [of c "is"] walk_dseg [of "cc_entries c" None "is" CHAINLEN]
  by (simp add: links_def chain_path_def)

text \<open>The form in which the proofs below use the invariant: with the path as a variable.\<close>

definition rep :: "cache_chain \<Rightarrow> nat list \<Rightarrow> bool" where
  "rep c is \<longleftrightarrow> links c is \<and> data (cc_entries c) (set is)"

lemma rep_wf: "rep c is \<Longrightarrow> chain_wf c"
  using links_path [of c "is"] by (auto simp: rep_def chain_wf_def)

lemma rep_items: "rep c is \<Longrightarrow> chain_items c = map (\<lambda>i. kv (cc_entries c ! i)) is"
  using links_path [of c "is"] by (auto simp: rep_def chain_items_def)

lemma wf_rep: "chain_wf c \<Longrightarrow> rep c (chain_path c)"
  by (simp add: rep_def chain_wf_def)

lemma rep_bound: "rep c is \<Longrightarrow> i \<in> set is \<Longrightarrow> i < length (cc_entries c)"
  by (auto simp: rep_def links_def dest: dseg_bound)

lemma rep_entry: "rep c is \<Longrightarrow> i \<in> set is \<Longrightarrow> entry_ok (cc_entries c ! i)"
  by (simp add: rep_def data_def)

lemma entry_okE:
  assumes "entry_ok e"
  obtains k v where "ce_key e = Some k" "ce_val e = Some v" "ce_ksize e = sz k" "ce_vsize e = sz v"
    "fits k" "fits v" "kv e = (k, v)"
  using assms by (auto simp: entry_ok_def kv_def split: option.splits)

lemma entry_ok_dat: "dat e' = dat e \<Longrightarrow> entry_ok e' = entry_ok e"
  by (auto simp: dat_def entry_ok_def split: option.splits)

lemma kv_dat: "dat e' = dat e \<Longrightarrow> kv e' = kv e"
  by (simp add: dat_def kv_def)

lemma data_dat:
  assumes "map dat es' = map dat es" and "S \<subseteq> {..<length es}" and "length es = CHAINLEN"
  shows "data es' S \<longleftrightarrow> data es S"
proof -
  have len: "length es' = length es" using assms(1) by (metis length_map)
  have d: "dat (es' ! i) = dat (es ! i)" if "i < length es" for i
    using that len assms(1) by (metis nth_map)
  then have k: "ce_ksize (es' ! i) = ce_ksize (es ! i)" if "i < length es" for i
    using that by (simp add: dat_def)
  have e: "kv (es' ! i) = kv (es ! i)" "entry_ok (es' ! i) = entry_ok (es ! i)" if "i \<in> S" for i
    by (rule kv_dat entry_ok_dat, rule d, use that assms(2) in blast)+
  have "inj_on (\<lambda>i. fst (kv (es' ! i))) S \<longleftrightarrow> inj_on (\<lambda>i. fst (kv (es ! i))) S"
    using e(1) by (intro inj_on_cong) simp
  moreover have "(\<forall>i\<in>S. entry_ok (es' ! i)) \<longleftrightarrow> (\<forall>i\<in>S. entry_ok (es ! i))"
    using e(2) by simp
  ultimately show ?thesis using k assms(3) by (auto simp: data_def)
qed

lemma empty_chain_rep: "rep empty_chain []"
  by (simp add: rep_def links_def data_def empty_chain_def unused_entry_def)

section \<open>Searching\<close>

lemma find_from_eq:
  assumes "dseg (cc_entries c) p is None" and "\<forall>i\<in>set is. entry_ok (cc_entries c ! i)" and "fits k"
  shows "find_from c (hd_or is None) k = Some (find (\<lambda>i. fst (kv (cc_entries c ! i)) = k) is)"
  using assms(1,2)
proof (induction "is" arbitrary: p)
  case Nil
  then show ?case by (simp add: find_from.simps)
next
  case (Cons i "is")
  then have IH: "find_from c (hd_or is None) k = Some (find (\<lambda>i. fst (kv (cc_entries c ! i)) = k) is)"
    by (intro Cons.IH [of "Some i"]) simp_all
  from Cons.prems obtain k' where e: "ce_key (cc_entries c ! i) = Some k'" "fits k'"
    "ce_ksize (cc_entries c ! i) = sz k'" "fst (kv (cc_entries c ! i)) = k'"
    by (auto elim!: entry_okE)
  have step: "find_from c (Some i) k = (if k' = k then Some (Some i) else find_from c (hd_or is None) k)"
    using Cons.prems(1) e assms(3)
    by (subst find_from.simps) (auto simp: deref_def sz_eq_iff)
  show ?case using IH e by (simp add: step)
qed

lemma find_in_chain_rep:
  assumes "rep c is" and "fits k"
  shows "find_in_chain c k = Some (find (\<lambda>i. fst (kv (cc_entries c ! i)) = k) is)"
  using assms find_from_eq [of c None "is" k]
  by (simp add: find_in_chain_def rep_def links_def data_def)

lemma find_SomeE:
  assumes "find P is = Some i"
  obtains xs ys where "is = xs @ i # ys" "P i" "\<forall>j\<in>set xs. \<not> P j"
  using assms
proof (induction "is" arbitrary: thesis)
  case Nil
  then show ?case by simp
next
  case (Cons j "is")
  show ?case
  proof (cases "P j")
    case True
    with Cons.prems show ?thesis by (metis append_Nil find.simps(2) list.set(1) empty_iff option.inject)
  next
    case False
    with Cons.prems(2) have "find P is = Some i" by simp
    then obtain xs ys where "is = xs @ i # ys" "P i" "\<forall>j\<in>set xs. \<not> P j"
      by (rule Cons.IH [rotated])
    with False show ?thesis by (intro Cons.prems(1) [of "j # xs" ys]) auto
  qed
qed

lemma rep_keys:
  "rep c is \<Longrightarrow> map_of (chain_items c) k =
     (case find (\<lambda>i. fst (kv (cc_entries c ! i)) = k) is of None \<Rightarrow> None
      | Some i \<Rightarrow> Some (snd (kv (cc_entries c ! i))))"
proof -
  assume "rep c is"
  have "map_of (map (\<lambda>i. kv (cc_entries c ! i)) is) k =
     (case find (\<lambda>i. fst (kv (cc_entries c ! i)) = k) is of None \<Rightarrow> None
      | Some i \<Rightarrow> Some (snd (kv (cc_entries c ! i))))"
    by (induction "is") (auto simp: prod_eq_iff split: option.splits)
  with \<open>rep c is\<close> show ?thesis by (simp add: rep_items)
qed

section \<open>Updating the data of an entry\<close>

lemma data_put:
  assumes "data es S" and "i < length es" and "entry_ok e"
    and "\<forall>j\<in>S - {i}. fst (kv (es ! j)) \<noteq> fst (kv e)"
  shows "data (es[i := e]) (insert i S)"
proof -
  have "inj_on (\<lambda>j. fst (kv (es[i := e] ! j))) (insert i S)"
    using assms unfolding inj_on_def data_def by (auto simp: nth_list_update)
  with assms show ?thesis by (auto simp: data_def nth_list_update)
qed

lemma data_drop:
  assumes "data es S" and "i < length es" and "ce_ksize e = - 1"
  shows "data (es[i := e]) (S - {i})"
proof -
  have "inj_on (\<lambda>j. fst (kv (es[i := e] ! j))) (S - {i})"
    using assms unfolding inj_on_def data_def by (auto simp: nth_list_update)
  with assms show ?thesis by (auto simp: data_def nth_list_update)
qed

lemma links_put:
  assumes "links c is" and "ce_prev e = ce_prev (cc_entries c ! i)" "ce_next e = ce_next (cc_entries c ! i)"
  shows "links (c\<lparr>cc_entries := (cc_entries c)[i := e]\<rparr>) is"
proof -
  have "dseg ((cc_entries c)[i := e]) None is None = dseg (cc_entries c) None is None"
    using assms(2,3) by (intro dseg_cong) (simp, metis list_update_beyond not_less nth_list_update)
  with assms(1) show ?thesis by (simp add: links_def)
qed

lemma items_dat:
  assumes "map dat es' = map dat es" and "\<forall>i\<in>set is. i < length es"
  shows "map (\<lambda>i. kv (es' ! i)) is = map (\<lambda>i. kv (es ! i)) is"
proof (rule map_cong [OF refl], rule kv_dat)
  fix i assume "i \<in> set is"
  with assms show "dat (es' ! i) = dat (es ! i)" by (metis length_map nth_map)
qed

lemma rep_put:
  assumes "rep c is" and "i \<in> set is" and "entry_ok e"
    and "ce_prev e = ce_prev (cc_entries c ! i)" "ce_next e = ce_next (cc_entries c ! i)"
    and "\<forall>j\<in>set is - {i}. fst (kv (cc_entries c ! j)) \<noteq> fst (kv e)"
  shows "rep (c\<lparr>cc_entries := (cc_entries c)[i := e]\<rparr>) is"
proof -
  have "data ((cc_entries c)[i := e]) (insert i (set is))"
    using assms rep_bound [OF assms(1,2)] by (intro data_put) (auto simp: rep_def)
  with assms show ?thesis by (simp add: rep_def links_put insert_absorb)
qed

lemma rep_distinct_keys:
  "rep c is \<Longrightarrow> i \<in> set is \<Longrightarrow> j \<in> set is - {i} \<Longrightarrow>
     fst (kv (cc_entries c ! j)) \<noteq> fst (kv (cc_entries c ! i))"
  by (auto simp: rep_def data_def dest: inj_onD)

lemma replace_val_rep:
  assumes "rep c is" and "i \<in> set is" and "fits v" and "good ms"
  obtains ms' where "good ms'" and
    "replace_val c (Some i) v ms =
       Some (True, c\<lparr>cc_entries := (cc_entries c)
         [i := (cc_entries c ! i)\<lparr>ce_val := Some v, ce_vsize := sz v\<rparr>]\<rparr>, ms')"
proof -
  let ?e = "cc_entries c ! i"
  have i: "i < length (cc_entries c)" using assms by (simp add: rep_bound)
  obtain v0 where v0: "ce_val ?e = Some v0" "ce_vsize ?e = sz v0" "fits v0"
    using rep_entry [OF assms(1,2)] by (auto elim!: entry_okE)
  obtain ms' where ms': "malloc ms = (True, ms')" "good ms'" using assms(4) by (rule malloc_good)
  show thesis
  proof (cases "length v = length v0")
    case True
    have eq: "?e\<lparr>ce_val := Some v, ce_vsize := sz v0\<rparr> = ?e\<lparr>ce_val := Some v\<rparr>" using v0 by simp
    from True i v0 show ?thesis
      by (intro that [OF assms(4)]) (simp add: replace_val_def deref_def upd_def eq)
  next
    case False
    with i v0 ms' assms(3) show ?thesis
      by (intro that [OF ms'(2)]) (simp add: replace_val_def deref_def upd_def sz_eq_iff)
  qed
qed

lemma reuse_key_val_rep:
  assumes "rep c is" and "i \<in> set is" and "fits k" and "fits v" and "good ms"
  obtains ms1 ms2 c1 where "good ms2" and "reuse_key c (Some i) k ms = Some (True, c1, ms1)"
    and "reuse_val c1 (Some i) v ms1 =
       Some (True, c\<lparr>cc_entries := (cc_entries c)[i := (cc_entries c ! i)
         \<lparr>ce_key := Some k, ce_ksize := sz k, ce_val := Some v, ce_vsize := sz v\<rparr>]\<rparr>, ms2)"
proof -
  let ?e = "cc_entries c ! i"
  let ?c1 = "c\<lparr>cc_entries := (cc_entries c)[i := ?e\<lparr>ce_key := Some k, ce_ksize := sz k\<rparr>]\<rparr>"
  have i: "i < length (cc_entries c)" using assms by (simp add: rep_bound)
  obtain k0 v0 where e: "ce_key ?e = Some k0" "ce_ksize ?e = sz k0" "fits k0"
    "ce_val ?e = Some v0" "ce_vsize ?e = sz v0" "fits v0"
    using rep_entry [OF assms(1,2)] by (auto elim!: entry_okE)
  obtain m1 where m1: "malloc ms = (True, m1)" "good m1" using assms(5) by (rule malloc_good)
  have key: "reuse_key c (Some i) k ms = Some (True, ?c1, if length k = length k0 then ms else m1)"
  proof (cases "length k = length k0")
    case True
    have eq: "?e\<lparr>ce_key := Some k, ce_ksize := sz k0\<rparr> = ?e\<lparr>ce_key := Some k\<rparr>" using e by simp
    from True i e show ?thesis by (simp add: reuse_key_def deref_def upd_def eq)
  next
    case False
    with i e m1 assms(3) show ?thesis by (simp add: reuse_key_def deref_def upd_def sz_eq_iff)
  qed
  let ?ms1 = "if length k = length k0 then ms else m1"
  have g1: "good ?ms1" using assms(5) m1 by simp
  obtain m2 where m2: "malloc ?ms1 = (True, m2)" "good m2" using g1 by (rule malloc_good)
  show thesis
  proof (cases "length v = length v0")
    case True
    have eq: "?e\<lparr>ce_key := Some k, ce_ksize := sz k, ce_val := Some v, ce_vsize := sz v0\<rparr>
      = ?e\<lparr>ce_key := Some k, ce_ksize := sz k, ce_val := Some v\<rparr>" using e by simp
    from True i e show ?thesis
      by (intro that [OF g1 key]) (simp add: reuse_val_def deref_def upd_def eq)
  next
    case False
    with i e m2 assms(4) show ?thesis
      by (intro that [OF m2(2) key]) (simp add: reuse_val_def deref_def upd_def sz_eq_iff)
  qed
qed

section \<open>Moving entries\<close>

lemma promote_rep:
  assumes "rep c (xs @ i # ys)"
  obtains c' where "promote c (Some i) = Some c'" and "rep c' (i # xs @ ys)"
    and "map dat (cc_entries c') = map dat (cc_entries c)"
proof (cases xs)
  case Nil
  with assms show thesis by (intro that [of c]) (auto simp: promote_def rep_def links_def)
next
  case (Cons j zs)
  let ?es = "cc_entries c"
  have l: "length ?es = CHAINLEN" "distinct (xs @ i # ys)" "dseg ?es None (xs @ i # ys) None"
    "cc_first c = Some j" "cc_last c = Some (last (xs @ i # ys))"
    "cc_len c = of_nat (length (xs @ i # ys))"
    using assms by (auto simp: rep_def links_def Cons)
  let ?c0 = "if cc_last c = Some i then c\<lparr>cc_last := ce_prev (?es ! i)\<rparr> else c"
  obtain es1 where u: "unlink ?c0 (Some i) = Some (?c0\<lparr>cc_entries := es1\<rparr>)"
    "dseg es1 None (xs @ ys) None" "map dat es1 = map dat ?es" "length es1 = length ?es"
    by (rule unlink_dseg [of ?c0 xs i ys]) (use l Cons in auto)
  obtain es2 where p: "push_first (?c0\<lparr>cc_entries := es1\<rparr>) (Some i) =
      Some (?c0\<lparr>cc_entries := es2, cc_first := Some i\<rparr>)"
    "dseg es2 None (i # xs @ ys) None" "map dat es2 = map dat es1"
    by (rule push_first_dseg [of "?c0\<lparr>cc_entries := es1\<rparr>" j "zs @ ys" i])
      (use u l Cons dseg_bound [OF l(3), of i] in \<open>auto split: if_splits\<close>)
  let ?c' = "?c0\<lparr>cc_entries := es2, cc_first := Some i\<rparr>"
  have i: "i < length ?es" "ce_prev (?es ! i) = Some (last xs)"
    using l(3) Cons by (auto simp: dseg_append)
  have "ys \<noteq> [] \<Longrightarrow> last ys \<noteq> i" using l(2) by auto
  then have last: "cc_last ?c' = Some (last (i # xs @ ys))"
    using l(5) i Cons by (cases "ys = []") auto
  have len: "length es2 = length ?es" using u p by (metis length_map)
  show thesis
  proof (rule that [of ?c'])
    show "promote c (Some i) = Some ?c'"
      using l(2,4) Cons i u(1) p(1) by (auto simp: promote_def deref_def Let_def)
    have dd: "map dat es2 = map dat ?es" using u p by simp
    have sub: "set (xs @ i # ys) \<subseteq> {..<length ?es}" using dseg_bound [OF l(3)] by blast
    have "data es2 (set (xs @ i # ys))"
      using assms data_dat [OF dd sub l(1)] by (simp add: rep_def)
    then show "rep ?c' (i # xs @ ys)"
      unfolding rep_def links_def using l p(2) last len by (simp add: insert_commute)
    show "map dat (cc_entries ?c') = map dat ?es" using dd by simp
  qed
qed

lemma insert_in_full_chain_rep:
  assumes "rep c (xs @ [i])" and "xs \<noteq> []" and "fits k" and "fits v" and "good ms"
    and "\<forall>j\<in>set (xs @ [i]). fst (kv (cc_entries c ! j)) \<noteq> k"
  obtains c' ms' where "insert_in_full_chain c k v ms = Some (0, c', ms')" and "good ms'"
    and "rep c' (i # xs)"
    and "chain_items c' = (k, v) # map (\<lambda>j. kv (cc_entries c ! j)) xs"
proof -
  let ?es = "cc_entries c"
  let ?e = "(?es ! i)\<lparr>ce_key := Some k, ce_ksize := sz k, ce_val := Some v, ce_vsize := sz v\<rparr>"
  let ?c2 = "c\<lparr>cc_entries := ?es[i := ?e]\<rparr>"
  obtain ms1 ms2 c1 where g: "good ms2" and rk: "reuse_key c (Some i) k ms = Some (True, c1, ms1)"
    and rv: "reuse_val c1 (Some i) v ms1 = Some (True, ?c2, ms2)"
    by (rule reuse_key_val_rep [OF assms(1) _ assms(3,4,5), of i]) simp_all
  have kve: "kv ?e = (k, v)" "entry_ok ?e" using assms by (simp_all add: kv_def entry_ok_def)
  have r2: "rep ?c2 (xs @ [i])"
    using assms kve by (intro rep_put) auto
  obtain zs a where xs: "xs = zs @ [a]" using assms(2) by (meson rev_exhaust)
  obtain j ws where xs': "xs = j # ws" using assms(2) by (cases xs) auto
  have lk: "links ?c2 (xs @ [i])" using r2 by (simp only: rep_def)
  have l: "dseg (cc_entries ?c2) None (xs @ [i]) None" "distinct (xs @ [i])"
    "length (cc_entries ?c2) = CHAINLEN" "cc_last ?c2 = Some i" "cc_first ?c2 = Some j"
    by (rule linksD [OF lk])+ (use linksD(4,5) [OF lk] in \<open>simp_all add: xs'\<close>)
  have i: "i < length ?es" using assms(1) by (simp add: rep_bound)
  have a: "a < length ?es" "ce_prev ?e = Some a" "a \<noteq> i" "a \<notin> set zs"
    using l i by (auto simp: xs dseg_append)
  let ?es3 = "?es[i := ?e, a := (?es ! a)\<lparr>ce_next := None\<rparr>]"
  let ?c3 = "c\<lparr>cc_last := Some a, cc_entries := ?es3\<rparr>"
  have s3: "dseg ?es3 None xs None"
    using dseg_snoc_next [of "cc_entries ?c2" None zs a "Some i" None] l a by (simp add: xs dseg_append)
  obtain es4 where p: "push_first ?c3 (Some i) = Some (?c3\<lparr>cc_entries := es4, cc_first := Some i\<rparr>)"
    "dseg es4 None (i # xs) None" "map dat es4 = map dat ?es3"
    by (rule push_first_dseg [of ?c3 j ws i]) (use s3 l i in \<open>auto simp: xs'\<close>)
  let ?c4 = "?c3\<lparr>cc_entries := es4, cc_first := Some i\<rparr>"
  have d: "map dat es4 = map dat (cc_entries ?c2)" using p(3) a by simp
  have len4: "length es4 = CHAINLEN" using d l(3) by (metis length_map)
  have "data es4 (set (xs @ [i]))"
    using r2 data_dat [OF d _ l(3), of "set (xs @ [i])"] dseg_bound [OF l(1)]
    by (auto simp: rep_def subset_eq simp del: list_update_id)
  then have r4: "rep ?c4 (i # xs)"
    using p(2) l len4 assms(1) by (auto simp: rep_def links_def xs insert_commute)
  have "chain_items ?c4 = map (\<lambda>j. kv (cc_entries ?c2 ! j)) (i # xs)"
    using rep_items [OF r4] items_dat [OF d, of "i # xs"] rep_bound [OF r2] by auto
  also have "\<dots> = (k, v) # map (\<lambda>j. kv (?es ! j)) xs"
    using i kve l(2) by (auto simp: nth_list_update)
  finally have items: "chain_items ?c4 = (k, v) # map (\<lambda>j. kv (?es ! j)) xs" .
  have last: "cc_last c = Some i" using l(4) by simp
  have "insert_in_full_chain c k v ms = Some (0, ?c4, ms2)"
    using rk rv last i a p(1) by (simp add: insert_in_full_chain_def deref_def upd_def)
  with g r4 items show thesis by (intro that [of ?c4 ms2]) simp_all
qed

lemma alloc_entry_rep:
  assumes "rep c is" and "length is < CHAINLEN"
  obtains i where "alloc_entry c = Some i" and "i < CHAINLEN" and "i \<notin> set is"
proof -
  have "card (set is) < card {..<CHAINLEN}"
    using assms by (metis card_length card_lessThan le_less_trans)
  then obtain j where "j < CHAINLEN" "j \<notin> set is"
    by (metis card_mono finite_set lessThan_iff not_less subsetI)
  with assms(1) have "ce_ksize (cc_entries c ! j) = - 1" by (auto simp: rep_def data_def)
  with \<open>j < CHAINLEN\<close> have "alloc_entry c \<noteq> None"
    by (auto simp: alloc_entry_def find_None_iff)
  then obtain i where a: "alloc_entry c = Some i" by auto
  then have i: "i < CHAINLEN" "ce_ksize (cc_entries c ! i) = - 1"
    by (auto simp: alloc_entry_def find_Some_iff)
  have "i \<notin> set is"
  proof
    assume "i \<in> set is"
    then obtain k where "ce_ksize (cc_entries c ! i) = sz k" "fits k"
      using rep_entry [OF assms(1) \<open>i \<in> set is\<close>] by (auto elim!: entry_okE)
    with i show False by simp
  qed
  with a i show thesis by (intro that)
qed

lemma new_entry_rep:
  assumes "rep c is" and "length is < CHAINLEN" and "good ms"
  obtains i e ms' where "new_entry c k v ms = Some (Some i, c\<lparr>cc_entries := (cc_entries c)[i := e]\<rparr>, ms')"
    and "good ms'" and "i < CHAINLEN" and "i \<notin> set is"
    and "e = \<lparr>ce_key = Some k, ce_val = Some v, ce_ksize = sz k, ce_vsize = sz v,
           ce_prev = None, ce_next = None\<rparr>"
proof -
  obtain i where i: "alloc_entry c = Some i" "i < CHAINLEN" "i \<notin> set is"
    using assms(1,2) by (rule alloc_entry_rep)
  obtain ms1 where m1: "malloc ms = (True, ms1)" "good ms1" using assms(3) by (rule malloc_good)
  obtain ms2 where m2: "malloc ms1 = (True, ms2)" "good ms2" using m1(2) by (rule malloc_good)
  have len: "length (cc_entries c) = CHAINLEN" using assms(1) by (simp add: rep_def links_def)
  let ?e = "\<lparr>ce_key = Some k, ce_val = Some v, ce_ksize = sz k, ce_vsize = sz v,
           ce_prev = None, ce_next = None\<rparr>"
  have e: "(cc_entries c ! i)\<lparr>ce_ksize := sz k, ce_vsize := sz v, ce_key := Some k, ce_val := Some v,
    ce_prev := None, ce_next := None\<rparr> = ?e" by simp
  have "new_entry c k v ms = Some (Some i, c\<lparr>cc_entries := (cc_entries c)[i := ?e]\<rparr>, ms2)"
    using i len m1 m2 by (simp add: new_entry_def upd_def e)
  with i m2 show thesis by (intro that) simp_all
qed

lemma of_nat_u64_CHAINLEN:
  "n \<le> CHAINLEN \<Longrightarrow> (of_nat n :: u64) = of_nat CHAINLEN \<longleftrightarrow> n = CHAINLEN"
  "n \<le> CHAINLEN \<Longrightarrow> (of_nat n :: u64) = 0 \<longleftrightarrow> n = 0"
  "n \<le> CHAINLEN \<Longrightarrow> (of_nat n :: u64) < of_nat CHAINLEN \<longleftrightarrow> n < CHAINLEN"
  using of_nat_u64_eq_iff [of n CHAINLEN] of_nat_u64_eq_iff [of n 0]
  by (simp_all add: CHAINLEN_def word_less_nat_alt unat_of_nat_u64)

lemma link_new_rep:
  assumes "rep c is" and "length is < CHAINLEN" and "i < CHAINLEN" and "i \<notin> set is"
    and "entry_ok e" and "ce_prev e = None" and "ce_next e = None"
    and "\<forall>j\<in>set is. fst (kv (cc_entries c ! j)) \<noteq> fst (kv e)"
  obtains c' where "link_new (c\<lparr>cc_entries := (cc_entries c)[i := e]\<rparr>) (Some i) = Some c'"
    and "rep c' (i # is)" and "chain_items c' = kv e # chain_items c"
proof -
  let ?es = "cc_entries c"
  let ?c1 = "c\<lparr>cc_entries := ?es[i := e]\<rparr>"
  have lk: "links c is" using assms(1) by (simp add: rep_def)
  note l = linksD [OF lk]
  have d1: "data (?es[i := e]) (insert i (set is))"
    using assms l(1) by (intro data_put) (auto simp: rep_def)
  have kve: "map (\<lambda>j. kv (?es[i := e] ! j)) (i # is) = kv e # chain_items c"
    using assms(3,4) l(1) by (auto simp: rep_items [OF assms(1)] nth_list_update)
  show thesis
  proof (cases "is")
    case Nil
    let ?c' = "?c1\<lparr>cc_first := Some i, cc_last := Some i, cc_len := 1\<rparr>"
    have r: "rep ?c' (i # is)" using Nil d1 l assms by (simp add: rep_def links_def)
    show ?thesis
      by (rule that [OF _ r]) (use Nil l kve rep_items [OF r] in \<open>simp_all add: link_new_def\<close>)
  next
    case (Cons j ws)
    let ?e1 = "?es[i := e\<lparr>ce_next := Some j\<rparr>]"
    let ?e2 = "?e1[j := (?es ! j)\<lparr>ce_prev := Some i\<rparr>]"
    let ?c' = "c\<lparr>cc_entries := ?e2, cc_first := Some i, cc_len := cc_len c + 1\<rparr>"
    have j: "j < CHAINLEN" "j \<noteq> i" "j \<notin> set ws" using l assms(4) by (auto simp: Cons)
    have lt: "cc_len c \<noteq> 0" "cc_len c < of_nat CHAINLEN"
      using assms(2) l(6) of_nat_u64_CHAINLEN [of "length is"] by (simp_all add: Cons)
    have eq: "link_new ?c1 (Some i) = Some ?c'"
      using lt l(1,4) j assms(3) by (simp add: link_new_def upd_def Cons)
    have "dseg ?e1 None (j # ws) None" using l(3) assms(4) by (simp add: Cons)
    then have "dseg ?e2 (Some i) (j # ws) None"
      using dseg_Cons_prev [of ?e1 None j ws None "Some i"] j by simp
    then have s2: "dseg ?e2 None (i # is) None"
      using j assms(3,6) l(1) by (simp add: Cons nth_list_update)
    have dd: "map dat ?e2 = map dat (?es[i := e])"
    proof (rule nth_equalityI)
      fix m assume "m < length (map dat ?e2)"
      then show "map dat ?e2 ! m = map dat (?es[i := e]) ! m"
        using j l(1) assms(3) by (auto simp: nth_list_update)
    qed simp
    have sub: "set (i # is) \<subseteq> {..<length (?es[i := e])}"
      using l(1,3) assms(3) by (auto dest: dseg_bound)
    have r: "rep ?c' (i # is)"
      using s2 l assms data_dat [OF dd sub] d1 by (simp add: rep_def links_def Cons)
    have "chain_items ?c' = map (\<lambda>m. kv (?e2 ! m)) (i # is)" 
      by (subst rep_items [OF r]) simp
    also have "\<dots> = map (\<lambda>m. kv (?es[i := e] ! m)) (i # is)" by (rule items_dat [OF dd]) (use sub in blast)
    also note kve
    finally have "chain_items ?c' = kv e # chain_items c" .
    with eq r show ?thesis by (rule that)
  qed
qed

section \<open>\<^verbatim>\<open>cache_set()\<close> and \<^verbatim>\<open>cache_del()\<close> on one chain\<close>

lemma length_items: "chain_wf c \<Longrightarrow> length (chain_items c) \<le> CHAINLEN"
  using links_length [of c "chain_path c"] by (simp add: chain_wf_def chain_items_def)

lemma distinct_items: "chain_wf c \<Longrightarrow> distinct (map fst (chain_items c))"
  by (auto simp: chain_wf_def chain_items_def links_def data_def distinct_map comp_def)

lemma delete_middle:
  assumes "rep c (xs @ i # ys)"
  shows "AList.delete (fst (kv (cc_entries c ! i))) (chain_items c) =
    map (\<lambda>j. kv (cc_entries c ! j)) (xs @ ys)"
proof -
  let ?es = "cc_entries c"
  have d: "distinct (xs @ i # ys)" using assms by (simp add: rep_def links_def)
  have "fst (kv (?es ! i)) \<notin> fst ` set (map (\<lambda>j. kv (?es ! j)) zs)"
    if "zs = xs \<or> zs = ys" for zs
  proof
    assume "fst (kv (?es ! i)) \<in> fst ` set (map (\<lambda>j. kv (?es ! j)) zs)"
    then obtain j where "j \<in> set zs" "fst (kv (?es ! j)) = fst (kv (?es ! i))" by auto
    with rep_distinct_keys [OF assms, of i j] d that show False by auto
  qed
  then show ?thesis
    by (simp add: rep_items [OF assms] AList_delete_append AList_delete_notin)
qed

lemma set_in_chain_present:
  assumes "chain_wf c" and "find_in_chain c k = Some (Some i)" and "fits k" and "fits v" and "good ms"
  obtains c' ms' where "set_in_chain c k v ms = Some (0, c', ms')" and "good ms'" and "chain_wf c'"
    and "chain_items c' = (k, v) # AList.delete k (chain_items c)"
proof -
  let ?es = "cc_entries c"
  let ?e = "(?es ! i)\<lparr>ce_val := Some v, ce_vsize := sz v\<rparr>"
  let ?c1 = "c\<lparr>cc_entries := ?es[i := ?e]\<rparr>"
  have r: "rep c (chain_path c)" using assms(1) by (rule wf_rep)
  from assms(2,3) have "find (\<lambda>i. fst (kv (?es ! i)) = k) (chain_path c) = Some i"
    by (simp add: find_in_chain_rep [OF r])
  then obtain xs ys where p: "chain_path c = xs @ i # ys" and k: "fst (kv (?es ! i)) = k"
    by (rule find_SomeE)
  note r = r [unfolded p]
  have i: "i < length ?es" using rep_bound [OF r] by simp
  obtain k' v' where e: "ce_key (?es ! i) = Some k'" "ce_ksize (?es ! i) = sz k'" "k' = k"
    using rep_entry [OF r, of i] k by (auto elim!: entry_okE)
  have kve: "kv ?e = (k, v)" "entry_ok ?e" using e assms by (simp_all add: kv_def entry_ok_def)
  obtain ms' where rv: "replace_val c (Some i) v ms = Some (True, ?c1, ms')" "good ms'"
    using replace_val_rep [OF r _ assms(4,5), of i] by auto
  have r1: "rep ?c1 (xs @ i # ys)"
    using rep_distinct_keys [OF r, of i] kve k by (intro rep_put [OF r]) auto
  obtain c' where c': "promote ?c1 (Some i) = Some c'" "rep c' (i # xs @ ys)"
    "map dat (cc_entries c') = map dat (cc_entries ?c1)"
    using r1 by (rule promote_rep)
  have "chain_items c' = map (\<lambda>j. kv (?es[i := ?e] ! j)) (i # xs @ ys)"
    using rep_items [OF c'(2)] items_dat [OF c'(3), of "i # xs @ ys"] rep_bound [OF r1] by auto
  also have "\<dots> = (k, v) # map (\<lambda>j. kv (?es ! j)) (xs @ ys)"
    using i kve r by (auto simp: nth_list_update rep_def links_def)
  finally have "chain_items c' = (k, v) # AList.delete k (chain_items c)"
    using delete_middle [OF r] k by simp
  moreover have "set_in_chain c k v ms = Some (0, c', ms')"
    using assms(2) rv c'(1) by (simp add: set_in_chain_def)
  ultimately show thesis using rv rep_wf [OF c'(2)] by (intro that)
qed

lemma find_in_chain_absent:
  assumes "chain_wf c" and "find_in_chain c k = Some None" and "fits k"
  shows "\<forall>j\<in>set (chain_path c). fst (kv (cc_entries c ! j)) \<noteq> k" and "k \<notin> fst ` set (chain_items c)"
proof -
  show *: "\<forall>j\<in>set (chain_path c). fst (kv (cc_entries c ! j)) \<noteq> k"
    using assms find_in_chain_rep [OF wf_rep [OF assms(1)] assms(3)] by (simp add: find_None_iff)
  then show "k \<notin> fst ` set (chain_items c)" by (auto simp: chain_items_def)
qed

lemma set_in_chain_absent:
  assumes "chain_wf c" and "find_in_chain c k = Some None" and "fits k" and "fits v" and "good ms"
  obtains c' ms' where "set_in_chain c k v ms = Some (0, c', ms')" and "good ms'" and "chain_wf c'"
    and "chain_items c' = take CHAINLEN ((k, v) # chain_items c)"
proof -
  have r: "rep c (chain_path c)" using assms(1) by (rule wf_rep)
  note ab = find_in_chain_absent [OF assms(1,2,3)]
  have len: "length (chain_path c) \<le> CHAINLEN" and lc: "cc_len c = of_nat (length (chain_path c))"
    using r links_length by (auto simp: rep_def links_def)
  show thesis
  proof (cases "length (chain_path c) = CHAINLEN")
    case True
    then obtain xs i where p: "chain_path c = xs @ [i]"
      by (metis CHAINLEN_def list.size(3) rev_exhaust zero_neq_numeral)
    with True have xs: "length xs = 3" "xs \<noteq> []" by (auto simp: CHAINLEN_def)
    obtain c' ms' where c': "insert_in_full_chain c k v ms = Some (0, c', ms')" "good ms'"
      "rep c' (i # xs)" "chain_items c' = (k, v) # map (\<lambda>j. kv (cc_entries c ! j)) xs"
      by (rule insert_in_full_chain_rep [OF _ xs(2) assms(3,4,5), of c i]) (use r ab(1) p in auto)
    have "chain_items c' = take CHAINLEN ((k, v) # chain_items c)"
      using c'(4) xs(1) by (simp add: chain_items_def p CHAINLEN_def)
    moreover have "set_in_chain c k v ms = Some (0, c', ms')"
      using assms(2) c'(1) lc True by (simp add: set_in_chain_def)
    ultimately show ?thesis using c' rep_wf by (intro that)
  next
    case False
    with len have lt: "length (chain_path c) < CHAINLEN" by simp
    obtain i e ms' where n: "new_entry c k v ms = Some (Some i, c\<lparr>cc_entries := (cc_entries c)[i := e]\<rparr>, ms')"
      "good ms'" "i < CHAINLEN" "i \<notin> set (chain_path c)"
      and e: "e = \<lparr>ce_key = Some k, ce_val = Some v, ce_ksize = sz k, ce_vsize = sz v,
           ce_prev = None, ce_next = None\<rparr>"
      by (rule new_entry_rep [OF r lt assms(5), of k v])
    have kve: "kv e = (k, v)" "entry_ok e" using assms(3,4) by (simp_all add: e kv_def entry_ok_def)
    obtain c' where c': "link_new (c\<lparr>cc_entries := (cc_entries c)[i := e]\<rparr>) (Some i) = Some c'"
      "rep c' (i # chain_path c)" "chain_items c' = kv e # chain_items c"
      by (rule link_new_rep [OF r lt n(3,4) kve(2)]) (use ab(1) kve e in auto)
    have "set_in_chain c k v ms = Some (0, c', ms')"
      using assms(2) n(1) c'(1) lc False of_nat_u64_CHAINLEN(1) [OF len]
      by (simp add: set_in_chain_def)
    moreover have "chain_items c' = take CHAINLEN ((k, v) # chain_items c)"
      using c'(3) kve lt by (simp add: chain_items_def)
    ultimately show ?thesis using n(2) rep_wf [OF c'(2)] by (intro that)
  qed
qed

lemma set_in_chain_ok:
  assumes "chain_wf c" and "fits k" and "fits v" and "good ms"
  obtains c' ms' where "set_in_chain c k v ms = Some (0, c', ms')" and "good ms'" and "chain_wf c'"
    and "chain_items c' = lru_set k v (chain_items c)"
proof -
  obtain f where f: "find_in_chain c k = Some f"
    using find_in_chain_rep [OF wf_rep [OF assms(1)] assms(2)] by blast
  show thesis
  proof (cases f)
    case None
    note ab = find_in_chain_absent [OF assms(1) f [unfolded None] assms(2)]
    obtain c' ms' where "set_in_chain c k v ms = Some (0, c', ms')" "good ms'" "chain_wf c'"
      "chain_items c' = take CHAINLEN ((k, v) # chain_items c)"
      by (rule set_in_chain_absent [OF assms(1) f [unfolded None] assms(2-4)])
    with ab(2) show ?thesis by (intro that) (simp_all add: lru_set_def AList_delete_notin)
  next
    case (Some i)
    obtain c' ms' where c': "set_in_chain c k v ms = Some (0, c', ms')" "good ms'" "chain_wf c'"
      "chain_items c' = (k, v) # AList.delete k (chain_items c)"
      by (rule set_in_chain_present [OF assms(1) f [unfolded Some] assms(2-4)])
    with length_items [OF c'(3)] show ?thesis by (intro that) (simp_all add: lru_set_def)
  qed
qed

lemma del_in_chain_present:
  assumes "rep c (xs @ i # ys)" and "find_in_chain c k = Some (Some i)"
  obtains c' where "del_in_chain c k = Some (1, c')" and "rep c' (xs @ ys)"
    and "chain_items c' = map (\<lambda>j. kv (cc_entries c ! j)) (xs @ ys)"
proof -
  let ?es = "cc_entries c"
  have lk: "links c (xs @ i # ys)" using assms(1) by (simp add: rep_def)
  note l = linksD [OF lk]
  have i: "i < length ?es" and nx: "ce_next (?es ! i) = hd_or ys None"
    and pv: "ce_prev (?es ! i) = (if xs = [] then None else Some (last xs))"
    using l(3) by (auto simp: dseg_append)
  have ni: "i \<notin> set (xs @ ys)" and dd: "distinct (xs @ ys)" using l(2) by auto
  obtain c1 es1 where c1: "(if cc_first c = Some i then
         (let c = c\<lparr>cc_first := ce_next (?es ! i)\<rparr> in
          if ce_next (?es ! i) \<noteq> None then upd c (ce_next (?es ! i)) (\<lambda>x. x\<lparr>ce_prev := None\<rparr>)
          else Some c) else unlink c (Some i)) = Some c1"
    and c1_def: "c1 = c\<lparr>cc_first := hd_or (xs @ ys) None, cc_entries := es1\<rparr>"
    and s1: "dseg es1 None (xs @ ys) None" "map dat es1 = map dat ?es" "es1 ! i = ?es ! i"
  proof (cases xs)
    case Nil
    have seg: "dseg ?es (Some i) ys None" using l(3) Nil by simp
    show ?thesis
    proof (cases ys)
      case Nil2: Nil
      show ?thesis by (rule that [of "c\<lparr>cc_first := None\<rparr>" ?es]) (use l Nil Nil2 nx in auto)
    next
      case (Cons b ws)
      let ?e1 = "?es[b := (?es ! b)\<lparr>ce_prev := None\<rparr>]"
      have b: "b < length ?es" "b \<noteq> i" "b \<notin> set ws" using seg l(2) Cons by auto
      have "dseg ?e1 None (b # ws) None" by (rule dseg_Cons_prev [of _ "Some i"]) (use seg Cons b in auto)
      with b Cons Nil l nx show ?thesis
        by (intro that [of "c\<lparr>cc_first := Some b, cc_entries := ?e1\<rparr>" ?e1]) (simp_all add: upd_def)
    qed
  next
    case (Cons j zs)
    obtain es1 where u: "unlink c (Some i) = Some (c\<lparr>cc_entries := es1\<rparr>)"
      "dseg es1 None (xs @ ys) None" "map dat es1 = map dat ?es" "es1 ! i = ?es ! i"
      by (rule unlink_dseg [of c xs i ys]) (use l Cons in auto)
    moreover have "c\<lparr>cc_entries := es1\<rparr> = c\<lparr>cc_first := hd_or (xs @ ys) None, cc_entries := es1\<rparr>"
      using l(4) Cons by simp
    moreover have "cc_first c \<noteq> Some i" using l(2,4) Cons by auto
    ultimately show ?thesis by (intro that [of "c\<lparr>cc_entries := es1\<rparr>" es1]) simp_all
  qed
  have len1: "length es1 = length ?es" using s1(2) by (metis length_map)
  let ?es2 = "es1[i := free_entry (es1 ! i)]"
  let ?lst = "if cc_last c = Some i then ce_prev (?es ! i) else cc_last c"
  let ?c2 = "c\<lparr>cc_first := hd_or (xs @ ys) None, cc_entries := ?es2, cc_last := ?lst,
    cc_len := cc_len c - 1\<rparr>"
  have del: "del_in_chain c k = Some (1, ?c2)"
    using assms(2) i c1 len1 s1(3)
    by (simp add: del_in_chain_def deref_def upd_def c1_def del: split_paired_All)
  have sub: "set (xs @ i # ys) \<subseteq> {..<length ?es}" using dseg_bound [OF l(3)] by blast
  have "data es1 (set (xs @ i # ys))"
    using assms(1) data_dat [OF s1(2) sub l(1)] by (simp add: rep_def)
  then have "data ?es2 (set (xs @ i # ys) - {i})"
    using i len1 by (intro data_drop) (simp_all add: free_entry_def)
  then have d2: "data ?es2 (set (xs @ ys))" using ni by (simp add: insert_Diff_if)
  have lst: "?lst = (if xs @ ys = [] then None else Some (last (xs @ ys)))"
    using l(2,5) pv by (cases "ys = []") auto
  have r: "rep ?c2 (xs @ ys)"
    using s1(1) l len1 d2 lst ni dd by (simp add: rep_def links_def)
  have "chain_items ?c2 = map (\<lambda>j. kv (?es2 ! j)) (xs @ ys)" by (subst rep_items [OF r]) simp
  also have "\<dots> = map (\<lambda>j. kv (es1 ! j)) (xs @ ys)"
    using ni by (intro map_cong refl arg_cong [where f = kv] nth_list_update_neq) auto
  also have "\<dots> = map (\<lambda>j. kv (?es ! j)) (xs @ ys)"
    by (rule items_dat [OF s1(2)]) (use sub in auto)
  finally show thesis by (rule that [OF del r])
qed

lemma del_in_chain_ok:
  assumes "chain_wf c" and "fits k"
  obtains c' where
    "del_in_chain c k = Some (if k \<in> fst ` set (chain_items c) then 1 else 0, c')" and "chain_wf c'"
    and "chain_items c' = AList.delete k (chain_items c)"
proof -
  have r: "rep c (chain_path c)" using assms(1) by (rule wf_rep)
  obtain f where f: "find_in_chain c k = Some f"
    using find_in_chain_rep [OF r assms(2)] by blast
  show thesis
  proof (cases f)
    case None
    note ab = find_in_chain_absent [OF assms(1) f [unfolded None] assms(2)]
    with assms(1) f None show ?thesis
      by (intro that [of c]) (simp_all add: del_in_chain_def AList_delete_notin)
  next
    case (Some i)
    with f assms(2) have "find (\<lambda>i. fst (kv (cc_entries c ! i)) = k) (chain_path c) = Some i"
      by (simp add: find_in_chain_rep [OF r])
    then obtain xs ys where p: "chain_path c = xs @ i # ys" and k: "fst (kv (cc_entries c ! i)) = k"
      by (rule find_SomeE)
    note r = r [unfolded p]
    obtain c' where c': "del_in_chain c k = Some (1, c')" "rep c' (xs @ ys)"
      "chain_items c' = map (\<lambda>j. kv (cc_entries c ! j)) (xs @ ys)"
      using r f [unfolded Some] by (rule del_in_chain_present)
    have "k \<in> fst ` set (chain_items c)" using k by (auto simp: chain_items_def p)
    with c' delete_middle [OF r] k rep_wf show ?thesis by (intro that [of c']) simp_all
  qed
qed

end
