(* ===== verification/Cache.thy ===== *)
theory Cache
  imports Chain_Refine
begin

text \<open>
  The in-memory cache (\<^verbatim>\<open>nmdb/cache.c\<close>): a table of chains indexed by the hash of the key.
  The operations follow the code statement by statement; their return values are the
  code's. \<^verbatim>\<open>val\<close> and \<^verbatim>\<open>vsize\<close>, which \<^verbatim>\<open>cache_get()\<close> hands out through pointers, and the
  \<^verbatim>\<open>newval\<close> of \<^verbatim>\<open>cache_incr()\<close> are further components of the result.
\<close>

section \<open>Data and operations\<close>

record cache =
  cd_numobjs :: u64
  cd_flags :: u32
  cd_hashlen :: u64
  cd_table :: "cache_chain list"

text \<open>\<open>sizeof(struct cache_chain)\<close> on the 64-bit host: the table's size in bytes may wrap.\<close>

definition sizeof_cache_chain :: nat where
  "sizeof_cache_chain = 8 + CHAINLEN * 48 + 16"

definition cache_create :: "u64 \<Rightarrow> u32 \<Rightarrow> alloc \<Rightarrow> (cache option \<times> alloc) option" where
  "cache_create numobjs flags ms =
     (let (ok, ms) = malloc ms in
      if \<not> ok then Some (None, ms)
      else let hashlen = numobjs div of_nat CHAINLEN; (ok, ms) = malloc ms in
        if \<not> ok then Some (None, ms)
        else if sizeof_cache_chain * unat hashlen < 2 ^ 64
          then Some (Some \<lparr>cd_numobjs = numobjs, cd_flags = flags, cd_hashlen = hashlen,
                 cd_table = replicate (unat hashlen) empty_chain\<rparr>, ms)
          else None)"

text \<open>\<open>h = hash(key, ksize) % cd->hashlen; c = cd->table + h;\<close>\<close>

definition chain_index :: "cache \<Rightarrow> bytes \<Rightarrow> nat option" where
  "chain_index cd k =
     (if cd_hashlen cd = 0 then None
      else let h = (ucast ((ucast (hash k) :: u64) mod cd_hashlen cd) :: u32) in
        if unat h < length (cd_table cd) then Some (unat h) else None)"

definition find_in_cache :: "cache \<Rightarrow> bytes \<Rightarrow> (nat \<times> nat) option option" where
  "find_in_cache cd k = do {
     h \<leftarrow> chain_index cd k;
     e \<leftarrow> find_in_chain (cd_table cd ! h) k;
     Some (map_option (\<lambda>i. (h, i)) e)
   }"

definition cache_get :: "cache \<Rightarrow> bytes \<Rightarrow> (int \<times> bytes option \<times> u64) option" where
  "cache_get cd k = do {
     e \<leftarrow> find_in_cache cd k;
     (case e of
        None \<Rightarrow> Some (0, None, 0)
      | Some (h, i) \<Rightarrow> do {
          e \<leftarrow> deref (cd_table cd ! h) (Some i);
          Some (1, ce_val e, ce_vsize e)
        })
   }"

definition cache_set :: "cache \<Rightarrow> bytes \<Rightarrow> bytes \<Rightarrow> alloc \<Rightarrow> (int \<times> cache \<times> alloc) option" where
  "cache_set cd k v ms = do {
     h \<leftarrow> chain_index cd k;
     (rv, c, ms) \<leftarrow> set_in_chain (cd_table cd ! h) k v ms;
     Some (rv, cd\<lparr>cd_table := (cd_table cd)[h := c]\<rparr>, ms)
   }"

definition cache_del :: "cache \<Rightarrow> bytes \<Rightarrow> (int \<times> cache) option" where
  "cache_del cd k = do {
     h \<leftarrow> chain_index cd k;
     (rv, c) \<leftarrow> del_in_chain (cd_table cd ! h) k;
     Some (rv, cd\<lparr>cd_table := (cd_table cd)[h := c]\<rparr>)
   }"

text \<open>Assigning \<^verbatim>\<open>val\<close> and \<^verbatim>\<open>vsize\<close> of the entry \<open>i\<close> of chain \<open>h\<close>.\<close>

definition put_val :: "cache \<Rightarrow> nat \<Rightarrow> nat \<Rightarrow> bytes \<Rightarrow> u64 \<Rightarrow> cache option" where
  "put_val cd h i b n = do {
     c \<leftarrow> upd (cd_table cd ! h) (Some i) (\<lambda>e. e\<lparr>ce_val := Some b, ce_vsize := n\<rparr>);
     Some (cd\<lparr>cd_table := (cd_table cd)[h := c]\<rparr>)
   }"

definition cache_cas ::
  "cache \<Rightarrow> bytes \<Rightarrow> bytes \<Rightarrow> bytes \<Rightarrow> alloc \<Rightarrow> (int \<times> cache \<times> alloc) option" where
  "cache_cas cd k oldval newval ms = do {
     e \<leftarrow> find_in_cache cd k;
     (case e of
        None \<Rightarrow> Some (- 2, cd, ms)
      | Some (h, i) \<Rightarrow> do {
          e \<leftarrow> deref (cd_table cd ! h) (Some i);
          if ce_vsize e \<noteq> sz oldval then Some (- 1, cd, ms)
          else do {
            eq \<leftarrow> memcmp_eq oldval (ce_val e);
            if \<not> eq then Some (- 1, cd, ms)
            else if length oldval = length newval then do {
              b \<leftarrow> memcpy (ce_val e) newval;
              cd \<leftarrow> put_val cd h i b (ce_vsize e);
              Some (0, cd, ms)
            }
            else (let (ok, ms) = malloc ms in
              if \<not> ok then Some (- 3, cd, ms)
              else do {
                cd \<leftarrow> put_val cd h i newval (sz newval);
                Some (0, cd, ms)
              })
          }
        })
   }"

text \<open>
  The increment is a signed 64-bit integer; a sum that overflows is undefined. Reading the last byte
  of the value is \<^verbatim>\<open>val[vsize - 1]\<close>, whose index wraps for a value of size 0. The 24 bytes
  that \<^verbatim>\<open>malloc()\<close> returns have some contents, all of which \<^verbatim>\<open>snprintf()\<close> overwrites.
\<close>

definition cache_incr ::
  "cache \<Rightarrow> bytes \<Rightarrow> u64 \<Rightarrow> alloc \<Rightarrow> (int \<times> u64 option \<times> cache \<times> alloc) option" where
  "cache_incr cd k increment ms = do {
     e \<leftarrow> find_in_cache cd k;
     (case e of
        None \<Rightarrow> Some (- 1, None, cd, ms)
      | Some (h, i) \<Rightarrow> do {
          e \<leftarrow> deref (cd_table cd ! h) (Some i);
          (case ce_val e of
             None \<Rightarrow> Some (- 2, None, cd, ms)
           | Some val \<Rightarrow> do {
               z \<leftarrow> rd val (unat (ce_vsize e - 1)) 1;
               if z \<noteq> [0] then Some (- 2, None, cd, ms)
               else do {
                 intval \<leftarrow> strtoll val;
                 intval \<leftarrow> ll_add intval increment;
                 if ce_vsize e < 24 then
                   (let (ok, ms) = malloc ms in
                    if \<not> ok then Some (- 3, None, cd, ms)
                    else do {
                      b \<leftarrow> snprintf23 (Some (replicate 24 0)) 24 intval;
                      cd \<leftarrow> put_val cd h i b 24;
                      Some (0, Some intval, cd, ms)
                    })
                 else do {
                   b \<leftarrow> snprintf23 (Some val) (unat (ce_vsize e)) intval;
                   cd \<leftarrow> put_val cd h i b (ce_vsize e);
                   Some (0, Some intval, cd, ms)
                 }
               }
             })
        })
   }"

text \<open>
  \<^verbatim>\<open>cache_free()\<close>: the blocks passed to \<^verbatim>\<open>free()\<close>, in order. The pointer \<^verbatim>\<open>n\<close> is read
  before the entry's blocks are freed.
\<close>

partial_function (option) free_from ::
  "cache_chain \<Rightarrow> nat option \<Rightarrow> (bytes option \<times> bytes option) list \<Rightarrow>
     (bytes option \<times> bytes option) list option" where
  "free_from c p acc =
     (case p of None \<Rightarrow> Some (rev acc)
      | Some i \<Rightarrow> Option.bind (deref c (Some i)) (\<lambda>e.
          free_from c (ce_next e) ((ce_key e, ce_val e) # acc)))"

declare free_from.simps [code]

fun free_chains :: "cache_chain list \<Rightarrow> (bytes option \<times> bytes option) list option" where
  "free_chains [] = Some []"
| "free_chains (c # cs) = do {
     xs \<leftarrow> (if cc_first c = None then Some [] else free_from c (cc_first c) []);
     ys \<leftarrow> free_chains cs;
     Some (xs @ ys)
   }"

definition cache_free :: "cache \<Rightarrow> (int \<times> (bytes option \<times> bytes option) list) option" where
  "cache_free cd = do {
     freed \<leftarrow> free_chains (cd_table cd);
     Some (1, freed)
   }"

section \<open>Invariant and abstraction\<close>

definition cache_wf :: "cache \<Rightarrow> bool" where
  "cache_wf cd \<longleftrightarrow> cd_hashlen cd \<noteq> 0 \<and> length (cd_table cd) = unat (cd_hashlen cd) \<and>
     (\<forall>h<length (cd_table cd). chain_wf (cd_table cd ! h) \<and>
        (\<forall>kv\<in>set (chain_items (cd_table cd ! h)). chain_index cd (fst kv) = Some h))"

text \<open>The chain a key belongs to, as a list of pairs, and what the cache holds for a key.\<close>

definition bucket :: "cache \<Rightarrow> bytes \<Rightarrow> (bytes \<times> bytes) list" where
  "bucket cd k = (case chain_index cd k of None \<Rightarrow> [] | Some h \<Rightarrow> chain_items (cd_table cd ! h))"

definition lookup :: "cache \<Rightarrow> bytes \<Rightarrow> bytes option" where
  "lookup cd k = map_of (bucket cd k) k"

lemma chain_index_eq:
  assumes "cd_hashlen cd \<noteq> 0" and "length (cd_table cd) = unat (cd_hashlen cd)"
  shows "chain_index cd k = Some (unat (hash k) mod unat (cd_hashlen cd))"
    and "unat (hash k) mod unat (cd_hashlen cd) < length (cd_table cd)"
proof -
  have pos: "0 < unat (cd_hashlen cd)" using assms(1) by (simp add: unat_gt_0)
  have u: "unat ((ucast (hash k) :: u64) mod cd_hashlen cd) = unat (hash k) mod unat (cd_hashlen cd)"
    by (simp add: unat_mod unat_ucast_u32_u64)
  have "unat (hash k) mod unat (cd_hashlen cd) \<le> unat (hash k)" by simp
  also have "\<dots> < 2 ^ 32" using unat_lt_u32 [of "hash k"] by simp
  finally have "unat (ucast ((ucast (hash k) :: u64) mod cd_hashlen cd) :: u32)
      = unat (hash k) mod unat (cd_hashlen cd)"
    using u by (subst unat_ucast_u64_u32) simp_all
  moreover from pos assms(2) show lt: "unat (hash k) mod unat (cd_hashlen cd) < length (cd_table cd)"
    by simp
  ultimately show "chain_index cd k = Some (unat (hash k) mod unat (cd_hashlen cd))"
    using assms(1) by (simp add: chain_index_def Let_def)
qed

lemma chain_index_table [simp]:
  "length t = length (cd_table cd) \<Longrightarrow> chain_index (cd\<lparr>cd_table := t\<rparr>) k = chain_index cd k"
  by (simp add: chain_index_def)

lemma wf_index:
  assumes "cache_wf cd"
  obtains h where "chain_index cd k = Some h" and "h < length (cd_table cd)"
    and "chain_wf (cd_table cd ! h)" and "bucket cd k = chain_items (cd_table cd ! h)"
proof -
  let ?h = "unat (hash k) mod unat (cd_hashlen cd)"
  have h: "chain_index cd k = Some ?h" "?h < length (cd_table cd)"
    using assms chain_index_eq [of cd k] by (auto simp: cache_wf_def)
  with assms show thesis by (intro that [of ?h]) (auto simp: cache_wf_def bucket_def)
qed

lemma upd_chain:
  assumes "cache_wf cd" and "chain_index cd k = Some h" and "chain_wf c"
    and "fst ` set (chain_items c) \<subseteq> insert k (fst ` set (chain_items (cd_table cd ! h)))"
  shows "cache_wf (cd\<lparr>cd_table := (cd_table cd)[h := c]\<rparr>)"
    and "bucket (cd\<lparr>cd_table := (cd_table cd)[h := c]\<rparr>) k' =
      (if chain_index cd k' = Some h then chain_items c else bucket cd k')"
proof -
  have h: "h < length (cd_table cd)" using assms(1,2) by (metis option.inject wf_index)
  have "chain_index cd k' = Some h" if "k' \<in> fst ` set (chain_items c)" for k'
    using that assms h by (fastforce simp: cache_wf_def)
  then show "cache_wf (cd\<lparr>cd_table := (cd_table cd)[h := c]\<rparr>)"
    using assms h by (auto simp: cache_wf_def nth_list_update)
  show "bucket (cd\<lparr>cd_table := (cd_table cd)[h := c]\<rparr>) k' =
      (if chain_index cd k' = Some h then chain_items c else bucket cd k')"
    using h by (auto simp: bucket_def nth_list_update split: option.splits)
qed

lemma find_in_cache_cases:
  assumes "cache_wf cd" and "fits k"
  obtains (miss) "find_in_cache cd k = Some None" and "lookup cd k = None"
  | (hit) h i e v where "find_in_cache cd k = Some (Some (h, i))" and "chain_index cd k = Some h"
      and "i \<in> set (chain_path (cd_table cd ! h))" and "deref (cd_table cd ! h) (Some i) = Some e"
      and "ce_key e = Some k" and "ce_ksize e = sz k" and "ce_val e = Some v" and "ce_vsize e = sz v"
      and "fits v" and "lookup cd k = Some v"
proof -
  obtain h where h: "chain_index cd k = Some h" "h < length (cd_table cd)"
    "chain_wf (cd_table cd ! h)" "bucket cd k = chain_items (cd_table cd ! h)"
    using assms(1) by (rule wf_index)
  let ?c = "cd_table cd ! h"
  have r: "rep ?c (chain_path ?c)" using h(3) by (rule wf_rep)
  let ?f = "find (\<lambda>i. fst (kv (cc_entries ?c ! i)) = k) (chain_path ?c)"
  have f: "find_in_cache cd k = Some (map_option (\<lambda>i. (h, i)) ?f)"
    using h(1) by (simp add: find_in_cache_def find_in_chain_rep [OF r assms(2)])
  have lk: "lookup cd k = (case ?f of None \<Rightarrow> None | Some i \<Rightarrow> Some (snd (kv (cc_entries ?c ! i))))"
    using rep_keys [OF r] by (simp add: lookup_def h(4))
  show thesis
  proof (cases ?f)
    case None
    with f lk show ?thesis by (intro miss) simp_all
  next
    case (Some i)
    then have i: "i \<in> set (chain_path ?c)" "fst (kv (cc_entries ?c ! i)) = k"
      by (auto simp: find_Some_iff)
    obtain v where "ce_key (cc_entries ?c ! i) = Some k" "ce_val (cc_entries ?c ! i) = Some v"
      "ce_ksize (cc_entries ?c ! i) = sz k" "ce_vsize (cc_entries ?c ! i) = sz v" "fits v"
      "kv (cc_entries ?c ! i) = (k, v)"
      using rep_entry [OF r i(1)] i(2) by (auto elim!: entry_okE)
    moreover have "deref ?c (Some i) = Some (cc_entries ?c ! i)"
      using rep_bound [OF r i(1)] by (simp add: deref_def)
    ultimately show ?thesis using f lk h i Some by (intro hit) simp_all
  qed
qed

lemma AList_update_keys: "k \<in> fst ` set al \<Longrightarrow> fst ` set (AList.update k v al) = fst ` set al"
  by (induction al) auto

lemma map_kv_update:
  assumes "rep c is" and "i \<in> set is" and "fst (kv (cc_entries c ! i)) = k"
    and "kv e = (k, v)" and "i < length (cc_entries c)"
  shows "map (\<lambda>j. kv ((cc_entries c)[i := e] ! j)) is = AList.update k v (chain_items c)"
proof -
  have "\<forall>j\<in>set is. j \<noteq> i \<longrightarrow> fst (kv (cc_entries c ! j)) \<noteq> k"
    using assms rep_distinct_keys by blast
  moreover have "distinct is" using assms(1) by (simp add: rep_def links_def)
  ultimately have "i \<in> set is \<Longrightarrow> map (\<lambda>j. kv ((cc_entries c)[i := e] ! j)) is =
      AList.update k v (map (\<lambda>j. kv (cc_entries c ! j)) is)"
  proof (induction "is")
    case Nil
    then show ?case by simp
  next
    case (Cons j js)
    show ?case
    proof (cases "j = i")
      case True
      have "map (\<lambda>j. kv ((cc_entries c)[i := e] ! j)) js = map (\<lambda>j. kv (cc_entries c ! j)) js"
        using Cons.prems True by (intro map_cong refl arg_cong [where f = kv] nth_list_update_neq) auto
      with True assms(3-5) show ?thesis by (cases "kv (cc_entries c ! i)") simp
    next
      case False
      with Cons have "map (\<lambda>j. kv ((cc_entries c)[i := e] ! j)) js =
          AList.update k v (map (\<lambda>j. kv (cc_entries c ! j)) js)" by auto
      moreover have "fst (kv (cc_entries c ! j)) \<noteq> k" using Cons.prems False by auto
      ultimately show ?thesis using False by (cases "kv (cc_entries c ! j)") simp
    qed
  qed
  with assms(1,2) show ?thesis by (simp add: rep_items)
qed

lemma put_val_hit:
  assumes "cache_wf cd" and "chain_index cd k = Some h"
    and "i \<in> set (chain_path (cd_table cd ! h))" and "deref (cd_table cd ! h) (Some i) = Some e"
    and "ce_key e = Some k" and "ce_ksize e = sz k" and "fits k" and "fits b"
  obtains cd' where "put_val cd h i b (sz b) = Some cd'" and "cache_wf cd'"
    and "bucket cd' k = AList.update k b (bucket cd k)" and "lookup cd' = (lookup cd)(k \<mapsto> b)"
proof -
  let ?c = "cd_table cd ! h"
  let ?e = "e\<lparr>ce_val := Some b, ce_vsize := sz b\<rparr>"
  let ?c' = "?c\<lparr>cc_entries := (cc_entries ?c)[i := ?e]\<rparr>"
  have hwf: "chain_wf ?c" "bucket cd k = chain_items ?c"
    using assms(1,2) by (metis option.inject wf_index)+
  have r: "rep ?c (chain_path ?c)" using hwf(1) by (rule wf_rep)
  have i: "i < length (cc_entries ?c)" "e = cc_entries ?c ! i"
    using assms(4) by (auto simp: deref_def split: if_splits)
  have kve: "kv ?e = (k, b)" "entry_ok ?e" "fst (kv (cc_entries ?c ! i)) = k"
    using assms i by (simp_all add: kv_def entry_ok_def)
  have r': "rep ?c' (chain_path ?c)"
    using rep_distinct_keys [OF r assms(3)] kve i by (intro rep_put [OF r assms(3)]) auto
  have items: "chain_items ?c' = AList.update k b (chain_items ?c)"
    using rep_items [OF r'] map_kv_update [OF r assms(3) kve(3) kve(1) i(1)] by simp
  have kin: "k \<in> fst ` set (chain_items ?c)"
    using assms(3) kve(3) by (auto simp: chain_items_def image_iff)
  let ?cd' = "cd\<lparr>cd_table := (cd_table cd)[h := ?c']\<rparr>"
  have sub: "fst ` set (chain_items ?c') \<subseteq> insert k (fst ` set (chain_items ?c))"
    using kin by (auto simp: items AList_update_keys)
  note u = upd_chain [OF assms(1,2) rep_wf [OF r'] sub]
  have "lookup ?cd' k' = ((lookup cd)(k \<mapsto> b)) k'" for k'
    using assms(2) hwf u(2) [of k']
    by (auto simp: lookup_def items update_conv bucket_def split: option.splits)
  then have "lookup ?cd' = (lookup cd)(k \<mapsto> b)" by (rule ext)
  moreover have "put_val cd h i b (sz b) = Some ?cd'"
    using i by (simp add: put_val_def upd_def)
  ultimately show thesis using u(1) u(2) [of k] assms(2) hwf(2) items by (intro that) simp_all
qed

end
