(* ===== verification/Cache_Spec.thy ===== *)
theory Cache_Spec
  imports Cache
begin

text \<open>
  What the cache promises to its clients. The locale \<open>kv_cache\<close> is the interface of
  \<^verbatim>\<open>nmdb/cache.h\<close> with its contract: a lookup returns what was last written, except that the
  cache may have forgotten it; nothing else is ever returned; no operation leaves the
  defined behaviour of C. It is interpreted on the model of \<^verbatim>\<open>cache.c\<close>, and what clients
  need (a write is read back, a cache stays below the map it caches) is proved inside it.
\<close>

section \<open>Each operation\<close>

lemma cache_get_ok:
  assumes "cache_wf cd" and "fits k"
  shows "cache_get cd k =
    Some (case lookup cd k of None \<Rightarrow> (0, None, 0) | Some v \<Rightarrow> (1, Some v, sz v))"
  using assms by (rule find_in_cache_cases) (simp_all add: cache_get_def)

lemma fst_lru_set: "fst ` set (lru_set k v al) \<subseteq> insert k (fst ` set al)"
proof
  fix x assume "x \<in> fst ` set (lru_set k v al)"
  then have "x \<in> fst ` set ((k, v) # AList.delete k al)"
    unfolding lru_set_def using set_take_subset by fastforce
  then show "x \<in> insert k (fst ` set al)" by (auto simp: AList.delete_eq)
qed

lemma cache_set_ok:
  assumes "cache_wf cd" and "fits k" and "fits v" and "good ms"
  obtains cd' ms' where "cache_set cd k v ms = Some (0, cd', ms')" and "good ms'" and "cache_wf cd'"
    and "\<And>k'. bucket cd' k' = (if chain_index cd k' = chain_index cd k
           then lru_set k v (bucket cd k) else bucket cd k')"
proof -
  obtain h where h: "chain_index cd k = Some h" "h < length (cd_table cd)"
    "chain_wf (cd_table cd ! h)" "bucket cd k = chain_items (cd_table cd ! h)"
    using assms(1) by (rule wf_index)
  obtain c ms' where c: "set_in_chain (cd_table cd ! h) k v ms = Some (0, c, ms')" "good ms'"
    "chain_wf c" "chain_items c = lru_set k v (chain_items (cd_table cd ! h))"
    using h(3) assms(2-4) by (rule set_in_chain_ok)
  note u = upd_chain [OF assms(1) h(1) c(3) fst_lru_set [of k v "chain_items (cd_table cd ! h)", folded c(4)]]
  show thesis
    by (rule that [of "cd\<lparr>cd_table := (cd_table cd)[h := c]\<rparr>" ms'])
      (use h c u in \<open>simp_all add: cache_set_def\<close>)
qed

lemma cache_set_lookup:
  assumes "bucket cd' k = lru_set k v (bucket cd k)" shows "lookup cd' k = Some v"
  using assms by (simp add: lookup_def lru_set_def CHAINLEN_def)

lemma cache_set_lookup_other:
  assumes "\<And>k'. bucket cd' k' = (if chain_index cd k' = chain_index cd k
     then lru_set k v (bucket cd k) else bucket cd k')" and "k' \<noteq> k"
  shows "lookup cd' k' = lookup cd k' \<or> lookup cd' k' = None"
proof (cases "chain_index cd k' = chain_index cd k")
  case True
  then have "bucket cd k' = bucket cd k" by (simp add: bucket_def)
  moreover have "map_of ((k, v) # AList.delete k (bucket cd k)) k' = map_of (bucket cd k) k'"
    using assms(2) by (simp add: delete_conv')
  ultimately show ?thesis
    using True assms map_of_take [of CHAINLEN "(k, v) # AList.delete k (bucket cd k)" k']
    by (auto simp: lookup_def lru_set_def)
next
  case False
  then show ?thesis using assms(1) [of k'] by (simp add: lookup_def)
qed

lemma cache_del_ok:
  assumes "cache_wf cd" and "fits k"
  obtains cd' where "cache_del cd k = Some (if lookup cd k = None then 0 else 1, cd')"
    and "cache_wf cd'" and "lookup cd' = (lookup cd)(k := None)"
proof -
  obtain h where h: "chain_index cd k = Some h" "h < length (cd_table cd)"
    "chain_wf (cd_table cd ! h)" "bucket cd k = chain_items (cd_table cd ! h)"
    using assms(1) by (rule wf_index)
  let ?al = "chain_items (cd_table cd ! h)"
  obtain c where c: "del_in_chain (cd_table cd ! h) k = Some (if k \<in> fst ` set ?al then 1 else 0, c)"
    "chain_wf c" "chain_items c = AList.delete k ?al"
    using h(3) assms(2) by (rule del_in_chain_ok)
  have sub: "fst ` set (chain_items c) \<subseteq> insert k (fst ` set ?al)"
    by (auto simp: c(3) AList.delete_eq)
  let ?cd' = "cd\<lparr>cd_table := (cd_table cd)[h := c]\<rparr>"
  note u = upd_chain [OF assms(1) h(1) c(2) sub]
  have "lookup ?cd' k' = ((lookup cd)(k := None)) k'" for k'
    using h u(2) [of k'] by (auto simp: lookup_def c(3) delete_conv' bucket_def split: option.splits)
  then have "lookup ?cd' = (lookup cd)(k := None)" by (rule ext)
  moreover have "k \<in> fst ` set ?al \<longleftrightarrow> lookup cd k \<noteq> None"
    by (simp add: lookup_def h(4) map_of_eq_None_iff)
  ultimately show thesis
    using h c u(1) by (intro that [of ?cd']) (simp_all add: cache_del_def)
qed

lemma cache_cas_ok:
  assumes "cache_wf cd" and "fits k" and "fits ov" and "fits nv" and "good ms"
  obtains cd' ms' where "good ms'" and "cache_wf cd'"
    and "cache_cas cd k ov nv ms = Some (case lookup cd k of None \<Rightarrow> - 2
          | Some v \<Rightarrow> if v = ov then 0 else - 1, cd', ms')"
    and "lookup cd' = (if lookup cd k = Some ov then (lookup cd)(k \<mapsto> nv) else lookup cd)"
proof -
  obtain m1 where m1: "malloc ms = (True, m1)" "good m1" using assms(5) by (rule malloc_good)
  from assms(1,2) show thesis
  proof (cases rule: find_in_cache_cases)
    case miss
    with assms show ?thesis by (intro that [of ms cd]) (simp_all add: cache_cas_def)
  next
    case (hit h i e v)
    show ?thesis
    proof (cases "v = ov")
      case False
      then have "cache_cas cd k ov nv ms = Some (- 1, cd, ms)"
        using hit assms(3) by (cases "length v = length ov") (simp_all add: cache_cas_def sz_eq_iff)
      with False hit assms show ?thesis by (intro that [of ms cd]) simp_all
    next
      case True
      obtain cd' where p: "put_val cd h i nv (sz nv) = Some cd'" "cache_wf cd'"
        "lookup cd' = (lookup cd)(k \<mapsto> nv)"
        by (rule put_val_hit [OF assms(1) hit(2,3,4,5,6) assms(2,4)])
      then have "cache_cas cd k ov nv ms = Some (0, cd', if length ov = length nv then ms else m1)"
        using True hit m1 by (simp add: cache_cas_def)
      with True p hit m1 assms(5) show ?thesis
        by (intro that [of "if length ov = length nv then ms else m1" cd']) simp_all
    qed
  qed
qed

section \<open>The increment\<close>

text \<open>
  The number a value stands for, and the value after an increment: 23 characters of
  decimal, a NUL, and whatever the old value had after its first 24 bytes.
\<close>

definition numeric :: "bytes \<Rightarrow> bool" where
  "numeric v \<longleftrightarrow> v \<noteq> [] \<and> last v = 0"

definition val_num :: "bytes \<Rightarrow> u64" where
  "val_num v = the (strtoll v)"

definition num_val :: "bytes \<Rightarrow> u64 \<Rightarrow> bytes" where
  "num_val v w = fmt23lld w @ 0 # drop 24 v"

lemma numeric_strtoll: "numeric v \<Longrightarrow> strtoll v = Some (val_num v)"
  by (auto simp: numeric_def val_num_def strtoll_def dest: last_in_set)

lemma val_num_num_val [simp]: "val_num (num_val v w) = w"
  by (simp add: val_num_def num_val_def strtoll_fmt23lld)

lemma numeric_num_val:
  assumes "numeric v" shows "numeric (num_val v w)"
proof (cases "drop 24 v = []")
  case True
  then show ?thesis by (simp add: numeric_def num_val_def)
next
  case False
  then have "last (num_val v w) = last v" by (simp add: num_val_def last_drop)
  with assms show ?thesis by (simp add: numeric_def num_val_def)
qed

lemma length_num_val: "length (num_val v w) = max 24 (length v)"
  by (simp add: num_val_def)

lemma rd_last:
  assumes "fits v" and "v \<noteq> []"
  shows "rd v (unat (sz v - 1 :: u64)) 1 = Some [last v]"
proof -
  have "(sz v - 1 :: u64) = of_nat (length v - 1)" using assms(2) by (simp add: of_nat_diff Suc_leI)
  then have "unat (sz v - 1 :: u64) = length v - 1" using assms(1) by (simp add: unat_of_nat_u64)
  moreover have "take 1 (drop (length v - 1) v) = [last v]"
    using assms(2) by (cases v rule: rev_cases) simp_all
  ultimately show ?thesis using assms(2) by (simp add: rd_def Suc_leI)
qed

lemma sz_less_24: "fits v \<Longrightarrow> (sz v :: u64) < 24 \<longleftrightarrow> length v < 24"
  by (simp add: word_less_nat_alt unat_of_nat_u64)

text \<open>The sum that an increment computes, when it computes one, is an \<^verbatim>\<open>int64_t\<close>.\<close>

definition sum_fits :: "(bytes \<rightharpoonup> bytes) \<Rightarrow> bytes \<Rightarrow> u64 \<Rightarrow> bool" where
  "sum_fits m k inc \<longleftrightarrow> (case m k of None \<Rightarrow> True | Some v \<Rightarrow> numeric v \<longrightarrow> ll_fits (val_num v) inc)"

lemma sum_fits_below: "m1 \<subseteq>\<^sub>m m \<Longrightarrow> sum_fits m k inc \<Longrightarrow> sum_fits m1 k inc"
  unfolding sum_fits_def by (cases "m1 k") (auto dest: map_le_SomeD)

lemma cache_incr_ok:
  assumes "cache_wf cd" and "fits k" and "good ms" and "lookup cd k \<noteq> Some []" and "sum_fits (lookup cd) k inc"
  obtains cd' ms' where "good ms'" and "cache_wf cd'"
    and "cache_incr cd k inc ms = Some (case lookup cd k of None \<Rightarrow> (- 1, None, cd', ms')
          | Some v \<Rightarrow> if numeric v then (0, Some (val_num v + inc), cd', ms') else (- 2, None, cd', ms'))"
    and "lookup cd' = (case lookup cd k of None \<Rightarrow> lookup cd
          | Some v \<Rightarrow> if numeric v then (lookup cd)(k \<mapsto> num_val v (val_num v + inc)) else lookup cd)"
proof -
  obtain m1 where m1: "malloc ms = (True, m1)" "good m1" using assms(3) by (rule malloc_good)
  from assms(1,2) show thesis
  proof (cases rule: find_in_cache_cases)
    case miss
    with assms show ?thesis by (intro that [of ms cd]) (simp_all add: cache_incr_def)
  next
    case (hit h i e v)
    with assms(4) have ne: "v \<noteq> []" by simp
    note rdl = rd_last [OF hit(9) ne]
    show ?thesis
    proof (cases "numeric v")
      case False
      with ne have "last v \<noteq> 0" by (simp add: numeric_def)
      with hit rdl False assms show ?thesis by (intro that [of ms cd]) (simp_all add: cache_incr_def)
    next
      case True
      let ?w = "val_num v + inc"
      have add: "ll_add (val_num v) inc = Some ?w"
        using assms(5) True hit(10) by (simp add: sum_fits_def ll_add_def)
      have lz: "last v = 0" using True by (simp add: numeric_def)
      have fit: "fits (num_val v ?w)" using hit(9) by (simp add: length_num_val)
      have szn: "(sz (num_val v ?w) :: u64) = (if length v < 24 then 24 else sz v)"
        by (simp add: length_num_val max_def)
      obtain cd' where p: "put_val cd h i (num_val v ?w) (sz (num_val v ?w)) = Some cd'"
        "cache_wf cd'" "lookup cd' = (lookup cd)(k \<mapsto> num_val v ?w)"
        by (rule put_val_hit [OF assms(1) hit(2,3,4,5,6) assms(2) fit])
      have "cache_incr cd k inc ms = Some (0, Some ?w, cd', if length v < 24 then m1 else ms)"
      proof (cases "length v < 24")
        case True': True
        have sp: "snprintf23 (Some (replicate 24 0)) 24 ?w = Some (num_val v ?w)"
          using True' by (subst snprintf23_big) (simp_all add: num_val_def)
        from True' szn p(1) have "put_val cd h i (num_val v ?w) 24 = Some cd'" by simp
        with True' hit rdl lz m1 sp add numeric_strtoll [OF True] show ?thesis
          by (simp add: cache_incr_def sz_less_24)
      next
        case False
        have sp: "snprintf23 (Some v) (length v) ?w = Some (num_val v ?w)"
          using False by (subst snprintf23_big) (simp_all add: num_val_def)
        from False szn p(1) have "put_val cd h i (num_val v ?w) (sz v) = Some cd'" by simp
        with False hit rdl lz sp add numeric_strtoll [OF True] show ?thesis
          by (simp add: cache_incr_def sz_less_24 unat_of_nat_u64)
      qed
      with True hit p m1 assms(3) show ?thesis
        by (intro that [of "if length v < 24 then m1 else ms" cd']) simp_all
    qed
  qed
qed

lemma cache_incr_overflow:
  assumes "cache_wf cd" and "fits k" and "lookup cd k \<noteq> Some []" and "\<not> sum_fits (lookup cd) k inc"
  shows "cache_incr cd k inc ms = None"
  using assms(1,2)
proof (cases rule: find_in_cache_cases)
  case miss
  with assms(4) show ?thesis by (simp add: sum_fits_def)
next
  case (hit h i e v)
  with assms(4) have v: "numeric v" "ll_add (val_num v) inc = None" by (simp_all add: sum_fits_def ll_add_def)
  then have "v \<noteq> []" "last v = 0" by (simp_all add: numeric_def)
  with hit rd_last [OF hit(9)] v(2) numeric_strtoll [OF v(1)] show ?thesis by (simp add: cache_incr_def)
qed

section \<open>The interface and its contract\<close>

locale kv_cache =
  fixes get :: "'c \<Rightarrow> bytes \<Rightarrow> (int \<times> bytes option \<times> u64) option"
    and put :: "'c \<Rightarrow> bytes \<Rightarrow> bytes \<Rightarrow> alloc \<Rightarrow> (int \<times> 'c \<times> alloc) option"
    and del :: "'c \<Rightarrow> bytes \<Rightarrow> (int \<times> 'c) option"
    and cas :: "'c \<Rightarrow> bytes \<Rightarrow> bytes \<Rightarrow> bytes \<Rightarrow> alloc \<Rightarrow> (int \<times> 'c \<times> alloc) option"
    and incr :: "'c \<Rightarrow> bytes \<Rightarrow> u64 \<Rightarrow> alloc \<Rightarrow> (int \<times> u64 option \<times> 'c \<times> alloc) option"
    and invar :: "'c \<Rightarrow> bool"
    and look :: "'c \<Rightarrow> bytes \<Rightarrow> bytes option"
  assumes get_law: "invar c \<Longrightarrow> fits k \<Longrightarrow>
      get c k = Some (case look c k of None \<Rightarrow> (0, None, 0) | Some v \<Rightarrow> (1, Some v, sz v))"
    and put_law: "invar c \<Longrightarrow> fits k \<Longrightarrow> fits v \<Longrightarrow> good ms \<Longrightarrow>
      \<exists>c' ms'. put c k v ms = Some (0, c', ms') \<and> good ms' \<and> invar c' \<and> look c' k = Some v \<and>
        (\<forall>k'. k' \<noteq> k \<longrightarrow> look c' k' = look c k' \<or> look c' k' = None)"
    and del_law: "invar c \<Longrightarrow> fits k \<Longrightarrow>
      \<exists>c'. del c k = Some (if look c k = None then 0 else 1, c') \<and> invar c' \<and>
        look c' = (look c)(k := None)"
    and cas_law: "invar c \<Longrightarrow> fits k \<Longrightarrow> fits ov \<Longrightarrow> fits nv \<Longrightarrow> good ms \<Longrightarrow>
      \<exists>c' ms'. cas c k ov nv ms = Some (case look c k of None \<Rightarrow> - 2
          | Some v \<Rightarrow> if v = ov then 0 else - 1, c', ms') \<and> good ms' \<and> invar c' \<and>
        look c' = (if look c k = Some ov then (look c)(k \<mapsto> nv) else look c)"
    and incr_overflow: "invar c \<Longrightarrow> fits k \<Longrightarrow> look c k \<noteq> Some [] \<Longrightarrow> \<not> sum_fits (look c) k inc \<Longrightarrow>
      incr c k inc ms = None"
    and incr_law: "invar c \<Longrightarrow> fits k \<Longrightarrow> good ms \<Longrightarrow> look c k \<noteq> Some [] \<Longrightarrow> sum_fits (look c) k inc \<Longrightarrow>
      \<exists>c' ms'. incr c k inc ms = Some (case look c k of None \<Rightarrow> (- 1, None, c', ms')
          | Some v \<Rightarrow> if numeric v then (0, Some (val_num v + inc), c', ms')
              else (- 2, None, c', ms')) \<and> good ms' \<and> invar c' \<and>
        look c' = (case look c k of None \<Rightarrow> look c
          | Some v \<Rightarrow> if numeric v then (look c)(k \<mapsto> num_val v (val_num v + inc)) else look c)"
begin

lemma get_total: "invar c \<Longrightarrow> fits k \<Longrightarrow> \<exists>r. get c k = Some r"
  using get_law by blast

lemma get_below:
  assumes "invar c" and "fits k" and "look c \<subseteq>\<^sub>m m" and "get c k = Some (1, v, n)"
  shows "m k = v"
proof (cases "look c k")
  case None
  with assms get_law [OF assms(1,2)] show ?thesis by simp
next
  case (Some a)
  then have "m k = Some a" by (rule map_le_SomeD [OF assms(3)])
  with Some assms get_law [OF assms(1,2)] show ?thesis by simp
qed

lemma put_get:
  assumes "invar c" and "fits k" and "fits v" and "good ms" and "put c k v ms = Some (rv, c', ms')"
  shows "rv = 0" and "get c' k = Some (1, Some v, sz v)"
  using put_law [OF assms(1-4)] assms(2,5) by (auto simp: get_law)

lemma del_get:
  assumes "invar c" and "fits k" and "del c k = Some (rv, c')"
  shows "get c' k = Some (0, None, 0)"
  using del_law [OF assms(1,2)] assms(2,3) by (auto simp: get_law)

lemma put_below:
  assumes "invar c" and "fits k" and "fits v" and "good ms" and "look c \<subseteq>\<^sub>m m"
  obtains c' ms' where "put c k v ms = Some (0, c', ms')" and "good ms'" and "invar c'"
    and "look c' \<subseteq>\<^sub>m m(k \<mapsto> v)"
proof -
  obtain c' ms' where p: "put c k v ms = Some (0, c', ms')" "good ms'" "invar c'" "look c' k = Some v"
    "\<forall>k'. k' \<noteq> k \<longrightarrow> look c' k' = look c k' \<or> look c' k' = None"
    using put_law [OF assms(1-4)] by blast
  have "look c' \<subseteq>\<^sub>m m(k \<mapsto> v)"
  proof (rule map_leI)
    fix x y assume x: "look c' x = Some y"
    show "(m(k \<mapsto> v)) x = Some y"
    proof (cases "x = k")
      case False
      with x p(5) have "look c x = Some y" by auto
      with False assms(5) show ?thesis by (simp add: map_le_SomeD)
    qed (use x p(4) in simp)
  qed
  with p show thesis by (intro that)
qed

lemma del_below:
  assumes "invar c" and "fits k" and "look c \<subseteq>\<^sub>m m"
  obtains rv c' where "del c k = Some (rv, c')" and "invar c'" and "look c' \<subseteq>\<^sub>m m(k := None)"
proof -
  from del_law [OF assms(1,2)] obtain c' where
    "del c k = Some (if look c k = None then 0 else 1, c')" "invar c'" "look c' = (look c)(k := None)"
    by blast
  with assms(3) show thesis
    by (intro that) (auto intro!: map_leI dest: map_le_SomeD split: if_splits)
qed

text \<open>The value of a key after a compare-and-swap or an increment, for the cached map \<open>m\<close>.\<close>

lemma cas_below:
  assumes "invar c" and "fits k" and "fits ov" and "fits nv" and "good ms" and "look c \<subseteq>\<^sub>m m"
  obtains rv c' ms' where "cas c k ov nv ms = Some (rv, c', ms')" and "good ms'" and "invar c'"
    and "rv \<in> {0, - 1, - 2}" and "rv = 0 \<longrightarrow> m k = Some ov" and "rv = - 1 \<longrightarrow> (\<exists>v. m k = Some v \<and> v \<noteq> ov)"
    and "rv = - 1 \<longrightarrow> look c' \<subseteq>\<^sub>m m"
    and "look c' \<subseteq>\<^sub>m (if m k = Some ov then m(k \<mapsto> nv) else m)"
proof -
  obtain c' ms' where p: "cas c k ov nv ms = Some (case look c k of None \<Rightarrow> - 2
      | Some v \<Rightarrow> if v = ov then 0 else - 1, c', ms')" "good ms'" "invar c'"
    "look c' = (if look c k = Some ov then (look c)(k \<mapsto> nv) else look c)"
    using cas_law [OF assms(1-5)] by blast
  have le: "look c x = Some v \<Longrightarrow> m x = Some v" for x v
    using assms(6) by (rule map_le_SomeD)
  have "look c' \<subseteq>\<^sub>m (if m k = Some ov then m(k \<mapsto> nv) else m)"
    by (rule map_leI) (use le [of k] in \<open>auto simp: p(4) dest: le split: if_splits\<close>)
  then show thesis
    by (rule that [OF p(1-3), rotated -1])
      (use le [of k] assms(6) p(4) in \<open>auto split: option.splits if_splits\<close>)
qed

lemma incr_undefined:
  assumes "invar c" and "fits k" and "look c \<subseteq>\<^sub>m m" and "m k \<noteq> Some []" and "\<not> sum_fits (look c) k inc"
  shows "incr c k inc ms = None" and "\<not> sum_fits m k inc"
proof -
  have "look c k \<noteq> Some []" using assms(3,4) by (auto dest: map_le_SomeD)
  then show "incr c k inc ms = None" using assms(1,2,5) by (simp add: incr_overflow)
  show "\<not> sum_fits m k inc" using assms(3,5) sum_fits_below by blast
qed

lemma incr_below:
  assumes "invar c" and "fits k" and "good ms" and "look c \<subseteq>\<^sub>m m" and "m k \<noteq> Some []"
    and "sum_fits (look c) k inc"
  obtains rv w c' ms' where "incr c k inc ms = Some (rv, w, c', ms')" and "good ms'" and "invar c'"
    and "rv \<in> {0, - 1, - 2}"
    and "rv = 0 \<longrightarrow> (\<exists>v. m k = Some v \<and> numeric v \<and> w = Some (val_num v + inc))"
    and "rv = - 2 \<longrightarrow> (\<exists>v. m k = Some v \<and> \<not> numeric v)"
    and "look c' \<subseteq>\<^sub>m (case m k of None \<Rightarrow> m
           | Some v \<Rightarrow> if numeric v then m(k \<mapsto> num_val v (val_num v + inc)) else m)"
proof -
  have le: "look c x = Some v \<Longrightarrow> m x = Some v" for x v
    using assms(4) by (rule map_le_SomeD)
  with assms(5) have ne: "look c k \<noteq> Some []" by auto
  obtain c' ms' where p: "incr c k inc ms = Some (case look c k of None \<Rightarrow> (- 1, None, c', ms')
      | Some v \<Rightarrow> if numeric v then (0, Some (val_num v + inc), c', ms') else (- 2, None, c', ms'))"
    "good ms'" "invar c'"
    "look c' = (case look c k of None \<Rightarrow> look c
      | Some v \<Rightarrow> if numeric v then (look c)(k \<mapsto> num_val v (val_num v + inc)) else look c)"
    using incr_law [OF assms(1-3) ne assms(6)] by blast
  show thesis
  proof (cases "look c k")
    case None
    have "look c' \<subseteq>\<^sub>m (case m k of None \<Rightarrow> m
        | Some v \<Rightarrow> if numeric v then m(k \<mapsto> num_val v (val_num v + inc)) else m)"
      by (rule map_leI) (use None p(4) in \<open>auto dest: le split: option.splits\<close>)
    with None p show ?thesis by (intro that [of "- 1" None c' ms']) simp_all
  next
    case (Some v)
    with le have mk: "m k = Some v" by simp
    have "look c' \<subseteq>\<^sub>m (case m k of None \<Rightarrow> m
        | Some v \<Rightarrow> if numeric v then m(k \<mapsto> num_val v (val_num v + inc)) else m)"
      by (rule map_leI) (use Some mk p(4) in \<open>auto dest: le split: if_splits\<close>)
    with Some mk p show ?thesis
      by (cases "numeric v") (simp_all add: that [of 0] that [of "- 2"])
  qed
qed

end

interpretation nc: kv_cache cache_get cache_set cache_del cache_cas cache_incr cache_wf lookup
proof unfold_locales
  fix c k v ms
  assume "cache_wf c" "fits k" "fits v" "good ms"
  then obtain c' ms' where p: "cache_set c k v ms = Some (0, c', ms')" "good ms'" "cache_wf c'"
    "\<And>k'. bucket c' k' = (if chain_index c k' = chain_index c k
       then lru_set k v (bucket c k) else bucket c k')"
    by (metis cache_set_ok)
  then show "\<exists>c' ms'. cache_set c k v ms = Some (0, c', ms') \<and> good ms' \<and> cache_wf c' \<and>
      lookup c' k = Some v \<and> (\<forall>k'. k' \<noteq> k \<longrightarrow> lookup c' k' = lookup c k' \<or> lookup c' k' = None)"
    using cache_set_lookup [of c' k v c] cache_set_lookup_other [of c' c k v] by auto
next
  fix c k assume "cache_wf c" "fits k"
  then show "\<exists>c'. cache_del c k = Some (if lookup c k = None then 0 else 1, c') \<and> cache_wf c' \<and>
      lookup c' = (lookup c)(k := None)"
    by (metis cache_del_ok)
next
  fix c k ov nv ms assume "cache_wf c" "fits k" "fits ov" "fits nv" "good ms"
  then show "\<exists>c' ms'. cache_cas c k ov nv ms = Some (case lookup c k of None \<Rightarrow> - 2
      | Some v \<Rightarrow> if v = ov then 0 else - 1, c', ms') \<and> good ms' \<and> cache_wf c' \<and>
      lookup c' = (if lookup c k = Some ov then (lookup c)(k \<mapsto> nv) else lookup c)"
    by (rule cache_cas_ok) blast
next
  fix c k ms inc assume "cache_wf c" "fits k" "good ms" "lookup c k \<noteq> Some []" "sum_fits (lookup c) k inc"
  then show "\<exists>c' ms'. cache_incr c k inc ms = Some (case lookup c k of None \<Rightarrow> (- 1, None, c', ms')
      | Some v \<Rightarrow> if numeric v then (0, Some (val_num v + inc), c', ms') else (- 2, None, c', ms')) \<and>
      good ms' \<and> cache_wf c' \<and> lookup c' = (case lookup c k of None \<Rightarrow> lookup c
      | Some v \<Rightarrow> if numeric v then (lookup c)(k \<mapsto> num_val v (val_num v + inc)) else lookup c)"
    by (rule cache_incr_ok) blast
qed (rule cache_get_ok, assumption, assumption, rule cache_incr_overflow)

end
