(* ===== verification/Cache_Theorems.thy ===== *)
theory Cache_Theorems
  imports Cache_Spec
begin

text \<open>
  The theorems about the cache: what every single operation does, what sequences of them
  do, what \<^verbatim>\<open>cache_create()\<close> and \<^verbatim>\<open>cache_free()\<close> do, and three places where \<^verbatim>\<open>cache.c\<close> itself
  leaves defined behaviour or its own invariant.
\<close>

section \<open>Sequences of operations\<close>

datatype cache_op =
    CGet bytes
  | CSet bytes bytes
  | CDel bytes
  | CCas bytes bytes bytes
  | CIncr bytes u64

fun cache_step :: "cache_op \<Rightarrow> cache \<Rightarrow> alloc \<Rightarrow> (cache \<times> alloc) option" where
  "cache_step (CGet k) cd ms = do { r \<leftarrow> cache_get cd k; Some (cd, ms) }"
| "cache_step (CSet k v) cd ms = do { (rv, cd, ms) \<leftarrow> cache_set cd k v ms; Some (cd, ms) }"
| "cache_step (CDel k) cd ms = do { (rv, cd) \<leftarrow> cache_del cd k; Some (cd, ms) }"
| "cache_step (CCas k ov nv) cd ms = do { (rv, cd, ms) \<leftarrow> cache_cas cd k ov nv ms; Some (cd, ms) }"
| "cache_step (CIncr k inc) cd ms = do { (rv, w, cd, ms) \<leftarrow> cache_incr cd k inc ms; Some (cd, ms) }"

fun cache_run :: "cache_op list \<Rightarrow> cache \<Rightarrow> alloc \<Rightarrow> (cache \<times> alloc) option" where
  "cache_run [] cd ms = Some (cd, ms)"
| "cache_run (x # xs) cd ms = do { (cd, ms) \<leftarrow> cache_step x cd ms; cache_run xs cd ms }"

text \<open>The map that a store of unlimited size would hold.\<close>

fun ref_step :: "cache_op \<Rightarrow> (bytes \<rightharpoonup> bytes) \<Rightarrow> (bytes \<rightharpoonup> bytes)" where
  "ref_step (CGet k) m = m"
| "ref_step (CSet k v) m = m(k \<mapsto> v)"
| "ref_step (CDel k) m = m(k := None)"
| "ref_step (CCas k ov nv) m = (if m k = Some ov then m(k \<mapsto> nv) else m)"
| "ref_step (CIncr k inc) m = (case m k of None \<Rightarrow> m
     | Some v \<Rightarrow> if numeric v then m(k \<mapsto> num_val v (val_num v + inc)) else m)"

definition ref_run :: "cache_op list \<Rightarrow> (bytes \<rightharpoonup> bytes) \<Rightarrow> (bytes \<rightharpoonup> bytes)" where
  "ref_run xs m = fold ref_step xs m"

text \<open>Operations on keys and values that are objects of C, no value being empty.\<close>

fun cache_op_ok :: "cache_op \<Rightarrow> bool" where
  "cache_op_ok (CGet k) \<longleftrightarrow> fits k"
| "cache_op_ok (CSet k v) \<longleftrightarrow> fits k \<and> fits v \<and> v \<noteq> []"
| "cache_op_ok (CDel k) \<longleftrightarrow> fits k"
| "cache_op_ok (CCas k ov nv) \<longleftrightarrow> fits k \<and> fits ov \<and> fits nv \<and> nv \<noteq> []"
| "cache_op_ok (CIncr k inc) \<longleftrightarrow> fits k"

text \<open>No increment overflows.\<close>

fun incr_fits :: "cache_op \<Rightarrow> (bytes \<rightharpoonup> bytes) \<Rightarrow> bool" where
  "incr_fits (CIncr k inc) m \<longleftrightarrow> sum_fits m k inc"
| "incr_fits _ m \<longleftrightarrow> True"

fun incrs_fit :: "cache_op list \<Rightarrow> (bytes \<rightharpoonup> bytes) \<Rightarrow> bool" where
  "incrs_fit [] m \<longleftrightarrow> True"
| "incrs_fit (x # xs) m \<longleftrightarrow> incr_fits x m \<and> incrs_fit xs (ref_step x m)"

lemma ref_step_nonempty:
  "cache_op_ok x \<Longrightarrow> \<forall>k. m k \<noteq> Some [] \<Longrightarrow> ref_step x m k \<noteq> Some []"
  by (cases x) (auto simp: num_val_def split: option.splits)

lemma cache_step_below:
  assumes "cache_wf cd" and "good ms" and "lookup cd \<subseteq>\<^sub>m m" and "\<forall>k. m k \<noteq> Some []" and "cache_op_ok x"
    and "incr_fits x m"
  obtains cd' ms' where "cache_step x cd ms = Some (cd', ms')" and "good ms'" and "cache_wf cd'"
    and "lookup cd' \<subseteq>\<^sub>m ref_step x m"
proof (cases x)
  case (CGet k)
  with assms nc.get_total [OF assms(1), of k] show thesis by (intro that [of cd ms]) auto
next
  case (CSet k v)
  with assms(5) have f: "fits k" "fits v" by simp_all
  show thesis by (rule nc.put_below [OF assms(1) f assms(2,3)]) (simp add: CSet that)
next
  case (CDel k)
  with assms(5) have f: "fits k" by simp
  show thesis by (rule nc.del_below [OF assms(1) f assms(3)]) (simp add: CDel that assms(2))
next
  case (CCas k ov nv)
  with assms(5) have f: "fits k" "fits ov" "fits nv" by simp_all
  show thesis by (rule nc.cas_below [OF assms(1) f assms(2,3)]) (simp add: CCas that)
next
  case (CIncr k inc)
  with assms(5) have f: "fits k" by simp
  show thesis
    by (rule nc.incr_below [OF assms(1) f assms(2,3), of inc])
      (use assms(4,6) sum_fits_below [OF assms(3)] in \<open>simp_all add: CIncr that\<close>)
qed

text \<open>
  Property C20: sequences of gets, sets, deletes, compare-and-swaps and increments on a well-formed
  cache, while memory lasts, no value is empty, and no increment would overflow in a store that
  never forgets: no operation is undefined, the chain invariant holds afterwards, and the cache
  holds for each key either nothing or exactly the value that that store holds.
\<close>

theorem cache_run_below:
  assumes "cache_wf cd" and "good ms" and "lookup cd \<subseteq>\<^sub>m m" and "\<forall>k. m k \<noteq> Some []"
    and "list_all cache_op_ok xs" and "incrs_fit xs m"
  shows "\<exists>cd' ms'. cache_run xs cd ms = Some (cd', ms') \<and> good ms' \<and> cache_wf cd' \<and>
    lookup cd' \<subseteq>\<^sub>m ref_run xs m"
  using assms
proof (induction xs arbitrary: cd ms m)
  case Nil
  then show ?case by (simp add: ref_run_def)
next
  case (Cons x xs)
  from Cons.prems have "cache_op_ok x" by simp
  then obtain cd1 ms1 where s: "cache_step x cd ms = Some (cd1, ms1)" "good ms1" "cache_wf cd1"
    "lookup cd1 \<subseteq>\<^sub>m ref_step x m"
    using Cons.prems(1-4,6) by (metis cache_step_below incrs_fit.simps(2))
  moreover have "\<forall>k. ref_step x m k \<noteq> Some []"
    using Cons.prems(4) \<open>cache_op_ok x\<close> ref_step_nonempty by blast
  ultimately show ?case
    using Cons.IH [OF s(3,2,4)] Cons.prems(5,6) by (simp add: ref_run_def)
qed

definition demo_cache :: cache where
  "demo_cache = \<lparr>cd_numobjs = 4, cd_flags = 0, cd_hashlen = 1, cd_table = [empty_chain]\<rparr>"

lemma chain_items_empty [simp]: "chain_items empty_chain = []"
  using rep_items [OF empty_chain_rep] by simp

lemma demo_cache_wf: "cache_wf demo_cache"
  by (simp add: cache_wf_def demo_cache_def rep_wf [OF empty_chain_rep])

lemma demo_cache_empty: "lookup demo_cache = Map.empty"
  by (rule ext) (simp add: lookup_def bucket_def demo_cache_def chain_index_def)

lemma demo_index: "chain_index demo_cache k = Some 0"
  by (simp add: chain_index_def demo_cache_def)

theorem cache_run_below_witness:
  "\<exists>cd' ms'. cache_run [CSet [1] [50, 0], CIncr [1] 3, CCas [1] [9] [8], CDel [2]] demo_cache [True]
     = Some (cd', ms') \<and> good ms' \<and> cache_wf cd' \<and>
     lookup cd' \<subseteq>\<^sub>m ref_run [CSet [1] [50, 0], CIncr [1] 3, CCas [1] [9] [8], CDel [2]] Map.empty"
proof -
  have "sum_fits [[1] \<mapsto> [50, 0]] [1] 3" by code_simp
  then show ?thesis by (intro cache_run_below [OF demo_cache_wf]) (simp_all add: good_def demo_cache_empty)
qed

section \<open>Single operations\<close>

text \<open>
  Property C21: a chain is an LRU list. Setting a key puts it, with its new value, in front
  of the key's chain, removes the older pair for the same key and, when more than
  \<open>CHAINLEN\<close> pairs would remain, drops the least recently written one; no other chain is
  touched. The pointer manipulation of \<^verbatim>\<open>new_entry()\<close>, \<^verbatim>\<open>insert_in_full_chain()\<close> and the
  promotion code refines that list operation.
\<close>

theorem cache_set_refines_lru:
  assumes "cache_wf cd" and "fits k" and "fits v" and "good ms"
  shows "\<exists>cd' ms'. cache_set cd k v ms = Some (0, cd', ms') \<and> good ms' \<and> cache_wf cd' \<and>
    (\<forall>k'. bucket cd' k' = (if chain_index cd k' = chain_index cd k
        then take CHAINLEN ((k, v) # AList.delete k (bucket cd k)) else bucket cd k'))"
  by (rule cache_set_ok [OF assms]) (auto simp: lru_set_def)

theorem cache_set_refines_lru_witness:
  "\<exists>cd' ms'. cache_set demo_cache [1] [2] [True, True] = Some (0, cd', ms') \<and> good ms' \<and> cache_wf cd' \<and>
    (\<forall>k'. bucket cd' k' = (if chain_index demo_cache k' = chain_index demo_cache [1]
        then take CHAINLEN (([1], [2]) # AList.delete [1] (bucket demo_cache [1])) else bucket demo_cache k'))"
  by (rule cache_set_refines_lru [OF demo_cache_wf]) (simp_all add: good_def)

text \<open>
  \<^verbatim>\<open>cache_get()\<close> returns 1 with the value and its exact size when the cache holds
  the key, and 0 with a NULL pointer and size 0 when it does not.
\<close>

lemma cache_get_correct:
  assumes "cache_wf cd" and "fits k"
  shows "cache_get cd k =
    Some (case lookup cd k of None \<Rightarrow> (0, None, 0) | Some v \<Rightarrow> (1, Some v, sz v))"
  using assms by (rule cache_get_ok)

lemma cache_get_correct_example: "cache_get demo_cache [7, 7] = Some (0, None, 0)"
  using cache_get_correct [OF demo_cache_wf, of "[7, 7]"] by (simp add: demo_cache_empty)

text \<open>
  \<^verbatim>\<open>cache_del()\<close> removes exactly the given key, whatever its position in the chain,
  and reports whether it was there.
\<close>

lemma cache_del_correct:
  assumes "cache_wf cd" and "fits k"
  shows "\<exists>cd'. cache_del cd k = Some (if lookup cd k = None then 0 else 1, cd') \<and> cache_wf cd' \<and>
    lookup cd' = (lookup cd)(k := None)"
  using assms by (rule nc.del_law)

lemma cache_del_correct_example:
  "\<exists>cd'. cache_del demo_cache [7] = Some (if lookup demo_cache [7] = None then 0 else 1, cd') \<and>
     cache_wf cd' \<and> lookup cd' = (lookup demo_cache)([7] := None)"
  by (rule cache_del_correct [OF demo_cache_wf]) simp

text \<open>
  Property C22: \<^verbatim>\<open>cache_cas()\<close> returns -2 for a key that is not cached, -1 when the cached value
  differs from the expected one, and 0 when it is equal; only in that last case does the
  cache change, and then only in the value of that key.
\<close>

theorem cache_cas_correct:
  assumes "cache_wf cd" and "fits k" and "fits ov" and "fits nv" and "good ms"
  shows "\<exists>cd' ms'. cache_cas cd k ov nv ms = Some (case lookup cd k of None \<Rightarrow> - 2
      | Some v \<Rightarrow> if v = ov then 0 else - 1, cd', ms') \<and> good ms' \<and> cache_wf cd' \<and>
    lookup cd' = (if lookup cd k = Some ov then (lookup cd)(k \<mapsto> nv) else lookup cd)"
  using assms by (rule nc.cas_law)

theorem cache_cas_correct_witness:
  "\<exists>cd' ms'. cache_cas demo_cache [1] [2] [3, 4] [] = Some (case lookup demo_cache [1] of None \<Rightarrow> - 2
      | Some v \<Rightarrow> if v = [2] then 0 else - 1, cd', ms') \<and> good ms' \<and> cache_wf cd' \<and>
    lookup cd' = (if lookup demo_cache [1] = Some [2] then (lookup demo_cache)([1] \<mapsto> [3, 4])
       else lookup demo_cache)"
  by (rule cache_cas_correct [OF demo_cache_wf]) simp_all

text \<open>
  Property C23: \<^verbatim>\<open>cache_incr()\<close> on a NUL-terminated, non-empty value: when the signed sum of the
  number that the value spells and of the increment is an \<^verbatim>\<open>int64_t\<close>, it is handed back, and the
  value becomes text that spells it and is again NUL-terminated; when it is not, the C addition
  overflows and the call is undefined. A value that is not NUL-terminated gives -2 and a missing key
  -1, both without changing the cache. Memory is assumed to last.
\<close>

theorem cache_incr_correct:
  assumes "cache_wf cd" and "fits k" and "good ms" and "lookup cd k \<noteq> Some []"
  shows "case lookup cd k of
      None \<Rightarrow> \<exists>cd' ms'. cache_incr cd k inc ms = Some (- 1, None, cd', ms') \<and> good ms' \<and> cache_wf cd' \<and> lookup cd' = lookup cd
    | Some v \<Rightarrow>
        if last v \<noteq> 0
        then \<exists>cd' ms'. cache_incr cd k inc ms = Some (- 2, None, cd', ms') \<and> good ms' \<and> cache_wf cd' \<and> lookup cd' = lookup cd
        else \<exists>n. strtoll v = Some n \<and>
          (if sint n + sint inc < - (2 ^ 63) \<or> 2 ^ 63 \<le> sint n + sint inc then cache_incr cd k inc ms = None
           else \<exists>w v' cd' ms'. cache_incr cd k inc ms = Some (0, Some w, cd', ms') \<and> sint w = sint n + sint inc \<and>
             strtoll v' = Some w \<and> last v' = 0 \<and> good ms' \<and> cache_wf cd' \<and> lookup cd' = (lookup cd)(k \<mapsto> v'))"
proof (cases "sum_fits (lookup cd) k inc")
  case False
  then obtain v where v: "lookup cd k = Some v" "numeric v" "\<not> ll_fits (val_num v) inc"
    by (auto simp: sum_fits_def split: option.splits)
  with cache_incr_overflow [OF assms(1,2,4) False, of ms] numeric_strtoll [OF v(2)] show ?thesis
    by (auto simp: numeric_def ll_fits_def LLONG_MIN_def LLONG_MAX_def)
next
  case True
  obtain cd' ms' where p: "good ms'" "cache_wf cd'"
    "cache_incr cd k inc ms = Some (case lookup cd k of None \<Rightarrow> (- 1, None, cd', ms')
       | Some v \<Rightarrow> if numeric v then (0, Some (val_num v + inc), cd', ms') else (- 2, None, cd', ms'))"
    "lookup cd' = (case lookup cd k of None \<Rightarrow> lookup cd
       | Some v \<Rightarrow> if numeric v then (lookup cd)(k \<mapsto> num_val v (val_num v + inc)) else lookup cd)"
    using assms True by (rule cache_incr_ok)
  show ?thesis
  proof (cases "lookup cd k")
    case (Some v)
    show ?thesis
    proof (cases "numeric v")
      case num: True
      let ?v' = "num_val v (val_num v + inc)"
      have f: "ll_fits (val_num v) inc" using True Some num by (simp add: sum_fits_def)
      then have w: "sint (val_num v + inc) = sint (val_num v) + sint inc"
        by (intro ll_add_sint) (simp add: ll_add_def)
      have "strtoll ?v' = Some (val_num v + inc)" "last ?v' = 0"
        using numeric_num_val [OF num, of "val_num v + inc"] by (simp_all add: numeric_strtoll numeric_def)
      with Some num p w f numeric_strtoll [OF num] show ?thesis
        by (auto simp: numeric_def ll_fits_def LLONG_MIN_def LLONG_MAX_def)
    qed (use Some p assms(4) in \<open>simp add: numeric_def\<close>)
  qed (use p in simp)
qed

text \<open>The key is set to the text of 2, then increments by 3 and by the greatest \<^verbatim>\<open>int64_t\<close> follow.\<close>

theorem cache_incr_correct_witness:
  "\<exists>cd ms cd1 ms1 v. cache_set demo_cache [1] [50, 0] [] = Some (0, cd, ms) \<and>
    cache_incr cd [1] 3 ms = Some (0, Some 5, cd1, ms1) \<and> lookup cd1 [1] = Some v \<and> strtoll v = Some 5 \<and>
    cache_incr cd [1] 0x7FFFFFFFFFFFFFFF ms = None"
proof -
  obtain cd ms where c: "cache_set demo_cache [1] [50, 0] [] = Some (0, cd, ms)" "good ms" "cache_wf cd"
    "lookup cd [1] = Some [50, 0]"
    using nc.put_law [OF demo_cache_wf, of "[1]" "[50, 0]" "[]"] by auto
  have n: "strtoll [50, 0] = Some 2" by code_simp
  have s: "sint (2 :: u64) = 2" "sint (3 :: u64) = 3" "sint (0x7FFFFFFFFFFFFFFF :: u64) = 0x7FFFFFFFFFFFFFFF"
    "sint (5 :: u64) = 5" by code_simp+
  have ne: "lookup cd [1] \<noteq> Some []" and f: "fits [1 :: u8]" using c(4) by simp_all
  have "\<exists>w v' cd' ms'. cache_incr cd [1] 3 ms = Some (0, Some w, cd', ms') \<and> sint w = 2 + 3 \<and> strtoll v' = Some w \<and>
      lookup cd' = (lookup cd)([1] \<mapsto> v')"
    using cache_incr_correct [OF c(3) f c(2) ne, of 3] unfolding c(4) n s(2) option.case option.inject simp_thms ex_simps
    by (simp add: s(1) n) blast
  then obtain w cd1 ms1 v where r: "cache_incr cd [1] 3 ms = Some (0, Some w, cd1, ms1)" "sint w = 5" "lookup cd1 [1] = Some v"
    "strtoll v = Some w" by auto
  have "w = 5" using r(2) s(4) by (metis of_int_sint scast_id)
  moreover have "cache_incr cd [1] 0x7FFFFFFFFFFFFFFF ms = None"
    using cache_incr_correct [OF c(3) f c(2) ne, of "0x7FFFFFFFFFFFFFFF"] unfolding c(4) s(3) by (simp add: s(1) n)
  ultimately show ?thesis using c(1) r by blast
qed

section \<open>How long a value stays\<close>

fun cache_sets :: "(bytes \<times> bytes) list \<Rightarrow> cache \<Rightarrow> alloc \<Rightarrow> (cache \<times> alloc) option" where
  "cache_sets [] cd ms = Some (cd, ms)"
| "cache_sets ((k, v) # ws) cd ms = do {
     (rv, cd, ms) \<leftarrow> cache_set cd k v ms;
     cache_sets ws cd ms
   }"

lemma lru_set_position:
  assumes "al = xs @ (k, v) # ys" and "k' \<noteq> k" and "k \<notin> fst ` set xs" and "Suc (length xs) < CHAINLEN"
  obtains xs' ys' where "lru_set k' v' al = xs' @ (k, v) # ys'" and "k \<notin> fst ` set xs'"
    and "length xs' \<le> Suc (length xs)"
proof -
  let ?xs = "(k', v') # AList.delete k' xs"
  have len: "length ?xs \<le> Suc (length xs)"
    by (simp add: AList.delete_eq)
  have "lru_set k' v' al = take CHAINLEN (?xs @ (k, v) # AList.delete k' ys)"
    using assms(1,2) by (simp add: lru_set_def AList_delete_append)
  also have "\<dots> = ?xs @ (k, v) # take (CHAINLEN - Suc (length ?xs)) (AList.delete k' ys)"
    using len assms(4) by (simp add: take_Cons')
  finally show thesis
    by (rule that) (use assms(2,3) len in \<open>auto simp: AList.delete_eq\<close>)
qed

lemma cache_sets_keep:
  assumes "cache_wf cd" and "good ms" and "\<forall>(k', v')\<in>set ws. fits k' \<and> fits v' \<and> k' \<noteq> k"
    and "bucket cd k = xs @ (k, v) # ys" and "k \<notin> fst ` set xs"
    and "length xs + length ws < CHAINLEN"
  shows "\<exists>cd' ms'. cache_sets ws cd ms = Some (cd', ms') \<and> lookup cd' k = Some v"
  using assms
proof (induction ws arbitrary: cd ms xs ys)
  case Nil
  then show ?case by (simp add: lookup_def map_add_Some_iff map_of_eq_None_iff)
next
  case (Cons w ws)
  obtain k' v' where w: "w = (k', v')" by (cases w)
  with Cons.prems(3) have f: "fits k'" "fits v'" and ne: "k' \<noteq> k" by auto
  obtain cd1 ms1 where s: "cache_set cd k' v' ms = Some (0, cd1, ms1)" "good ms1" "cache_wf cd1"
    "\<And>k''. bucket cd1 k'' = (if chain_index cd k'' = chain_index cd k'
       then lru_set k' v' (bucket cd k') else bucket cd k'')"
    using Cons.prems(1) f Cons.prems(2) by (rule cache_set_ok) blast
  have "\<exists>xs1 ys1. bucket cd1 k = xs1 @ (k, v) # ys1 \<and> k \<notin> fst ` set xs1 \<and> length xs1 \<le> Suc (length xs)"
  proof (cases "chain_index cd k = chain_index cd k'")
    case True
    then have b: "bucket cd k' = xs @ (k, v) # ys" using Cons.prems(4) by (simp add: bucket_def)
    have lt: "Suc (length xs) < CHAINLEN" using Cons.prems(6) by simp
    obtain xs' ys' where "lru_set k' v' (bucket cd k') = xs' @ (k, v) # ys'" "k \<notin> fst ` set xs'"
      "length xs' \<le> Suc (length xs)"
      using b ne Cons.prems(5) lt by (rule lru_set_position)
    with True s(4) [of k] show ?thesis by auto
  next
    case False
    with s(4) [of k] Cons.prems(4,5) show ?thesis by (intro exI [of _ xs] exI [of _ ys]) simp
  qed
  then obtain xs1 ys1 where b1: "bucket cd1 k = xs1 @ (k, v) # ys1" "k \<notin> fst ` set xs1"
    "length xs1 \<le> Suc (length xs)" by blast
  have "\<exists>cd' ms'. cache_sets ws cd1 ms1 = Some (cd', ms') \<and> lookup cd' k = Some v"
    by (rule Cons.IH [OF s(3,2) _ b1(1,2)]) (use Cons.prems(3,6) b1(3) in auto)
  with s(1) show ?case by (simp add: w)
qed

text \<open>
  Property C24: a value that was just set is still cached after any \<open>CHAINLEN - 1\<close> further sets
  of other keys, even when all of them fall into the same chain.
\<close>

theorem cache_set_survives:
  assumes "cache_wf cd" and "good ms" and "fits k" and "fits v"
    and "\<forall>(k', v')\<in>set ws. fits k' \<and> fits v' \<and> k' \<noteq> k" and "length ws < CHAINLEN"
  shows "\<exists>cd' ms'. cache_sets ((k, v) # ws) cd ms = Some (cd', ms') \<and> lookup cd' k = Some v"
proof -
  obtain cd1 ms1 where s: "cache_set cd k v ms = Some (0, cd1, ms1)" "good ms1" "cache_wf cd1"
    "\<And>k'. bucket cd1 k' = (if chain_index cd k' = chain_index cd k
       then lru_set k v (bucket cd k) else bucket cd k')"
    using assms(1,3,4,2) by (rule cache_set_ok) blast
  have "bucket cd1 k = [] @ (k, v) # take (CHAINLEN - 1) (AList.delete k (bucket cd k))"
    using s(4) [of k] by (simp add: lru_set_def take_Cons' CHAINLEN_def)
  then have "\<exists>cd' ms'. cache_sets ws cd1 ms1 = Some (cd', ms') \<and> lookup cd' k = Some v"
    by (rule cache_sets_keep [OF s(3,2) assms(5)]) (use assms(6) in simp_all)
  with s(1) show ?thesis by simp
qed

theorem cache_set_survives_witness:
  "\<exists>cd' ms'. cache_sets [([1], [11]), ([2], [12]), ([3], [13]), ([4], [14])] demo_cache [] = Some (cd', ms') \<and>
     lookup cd' [1] = Some [11]"
  by (rule cache_set_survives [OF demo_cache_wf]) (simp_all add: CHAINLEN_def)

end
