(* ===== verification/Req.thy ===== *)
theory Req
  imports Netutils
begin

text \<open>
  The data every server component shares: the protocol constants (\<^verbatim>\<open>nmdb/net-const.h\<close>), the
  request descriptor (\<^verbatim>\<open>nmdb/req.h\<close>), the settings (\<^verbatim>\<open>nmdb/common.h\<close>) and the statistics
  (\<^verbatim>\<open>nmdb/stats.h\<close>, \<^verbatim>\<open>nmdb/stats.c\<close>). The constants are C macros, so they are
  abbreviations usable at every integer width.
\<close>

section \<open>Protocol constants\<close>

abbreviation (input) PROTO_VER :: "'a::len word" where "PROTO_VER \<equiv> 1"

abbreviation (input) REQ_GET :: "'a::len word" where "REQ_GET \<equiv> 0x101"
abbreviation (input) REQ_SET :: "'a::len word" where "REQ_SET \<equiv> 0x102"
abbreviation (input) REQ_DEL :: "'a::len word" where "REQ_DEL \<equiv> 0x103"
abbreviation (input) REQ_CAS :: "'a::len word" where "REQ_CAS \<equiv> 0x104"
abbreviation (input) REQ_INCR :: "'a::len word" where "REQ_INCR \<equiv> 0x105"
abbreviation (input) REQ_STATS :: "'a::len word" where "REQ_STATS \<equiv> 0x106"
abbreviation (input) REQ_FIRSTKEY :: "'a::len word" where "REQ_FIRSTKEY \<equiv> 0x107"
abbreviation (input) REQ_NEXTKEY :: "'a::len word" where "REQ_NEXTKEY \<equiv> 0x108"

abbreviation (input) FLAGS_CACHE_ONLY :: u16 where "FLAGS_CACHE_ONLY \<equiv> 1"
abbreviation (input) FLAGS_SYNC :: u16 where "FLAGS_SYNC \<equiv> 2"

abbreviation (input) REP_ERR :: u32 where "REP_ERR \<equiv> 0x800"
abbreviation (input) REP_CACHE_HIT :: u32 where "REP_CACHE_HIT \<equiv> 0x801"
abbreviation (input) REP_CACHE_MISS :: u32 where "REP_CACHE_MISS \<equiv> 0x802"
abbreviation (input) REP_OK :: u32 where "REP_OK \<equiv> 0x803"
abbreviation (input) REP_NOTIN :: u32 where "REP_NOTIN \<equiv> 0x804"
abbreviation (input) REP_NOMATCH :: u32 where "REP_NOMATCH \<equiv> 0x805"

abbreviation (input) ERR_VER :: u32 where "ERR_VER \<equiv> 0x101"
abbreviation (input) ERR_SEND :: u32 where "ERR_SEND \<equiv> 0x102"
abbreviation (input) ERR_BROKEN :: u32 where "ERR_BROKEN \<equiv> 0x103"
abbreviation (input) ERR_UNKREQ :: u32 where "ERR_UNKREQ \<equiv> 0x104"
abbreviation (input) ERR_MEM :: u32 where "ERR_MEM \<equiv> 0x105"
abbreviation (input) ERR_DB :: u32 where "ERR_DB \<equiv> 0x106"
abbreviation (input) ERR_RO :: u32 where "ERR_RO \<equiv> 0x107"

section \<open>Request descriptor\<close>

text \<open>
  The three function pointers of a request always point into one of the four transport
  files; a value of \<open>transport\<close> names the file. \<^verbatim>\<open>payload\<close> points into the block the
  message was received in and is an offset there. \<^verbatim>\<open>clisa\<close> is the peer's address.
\<close>

datatype transport = TIPC | TCP | UDP | SCTP

definition REQTYPE :: "transport \<Rightarrow> int" where
  "REQTYPE t = (case t of TIPC \<Rightarrow> 1 | TCP \<Rightarrow> 2 | UDP \<Rightarrow> 3 | SCTP \<Rightarrow> 4)"

record req_info =
  r_fd :: int
  r_type :: int
  r_clisa :: "bytes option"
  r_clilen :: u32
  r_id :: u32
  r_cmd :: u16
  r_flags :: u16
  r_payload :: "nat option"
  r_psize :: u64
  r_reply_mini :: transport
  r_reply_err :: transport
  r_reply_long :: transport

section \<open>Settings\<close>

datatype backend_type = BE_UNKNOWN | BE_UNSUPPORTED | BE_QDBM | BE_BDB | BE_TC | BE_TDB | BE_LEVELDB | BE_NULL

record settings =
  se_tipc_lower :: int
  se_tipc_upper :: int
  se_tcp_addr :: "string option"
  se_tcp_port :: int
  se_udp_addr :: "string option"
  se_udp_port :: int
  se_sctp_addr :: "string option"
  se_sctp_port :: int
  se_numobjs :: int
  se_foreground :: bool
  se_passive :: bool
  se_read_only :: bool
  se_dbname :: "string option"
  se_logfname :: "string option"
  se_backend :: backend_type
  se_pidfile :: "string option"

section \<open>Statistics\<close>

record stats =
  st_cache_get :: u64
  st_cache_set :: u64
  st_cache_del :: u64
  st_cache_cas :: u64
  st_cache_incr :: u64
  st_db_get :: u64
  st_db_set :: u64
  st_db_del :: u64
  st_db_cas :: u64
  st_db_incr :: u64
  st_cache_hits :: u64
  st_cache_misses :: u64
  st_db_hits :: u64
  st_db_misses :: u64
  st_msg_tipc :: u64
  st_msg_tcp :: u64
  st_msg_udp :: u64
  st_msg_sctp :: u64
  st_net_version_mismatch :: u64
  st_net_broken_req :: u64
  st_net_unk_req :: u64
  st_db_firstkey :: u64
  st_db_nextkey :: u64

abbreviation STATS_REPLY_SIZE :: nat where "STATS_REPLY_SIZE \<equiv> 23"

text \<open>\<^verbatim>\<open>stats_init()\<close> assigns every counter but \<^verbatim>\<open>db_hits\<close> and \<^verbatim>\<open>db_misses\<close>.\<close>

definition stats_init :: "stats \<Rightarrow> stats" where
  "stats_init s = s\<lparr>
     st_cache_get := 0, st_cache_set := 0, st_cache_del := 0, st_cache_cas := 0, st_cache_incr := 0,
     st_db_get := 0, st_db_set := 0, st_db_del := 0, st_db_cas := 0, st_db_incr := 0,
     st_cache_misses := 0, st_cache_hits := 0,
     st_msg_tipc := 0, st_msg_tcp := 0, st_msg_udp := 0, st_msg_sctp := 0,
     st_net_version_mismatch := 0, st_net_broken_req := 0, st_net_unk_req := 0,
     st_db_firstkey := 0, st_db_nextkey := 0\<rparr>"

end
