(* ===== verification/Queue.thy ===== *)
theory Queue
  imports Req
begin

text \<open>
  The queue of database operations between the network thread and the database thread
  (\<^verbatim>\<open>nmdb/queue.c\<close>): a singly linked list of heap-allocated entries with pointers to its
  newest (\<^verbatim>\<open>top\<close>) and oldest (\<^verbatim>\<open>bottom\<close>) element, each entry pointing to the next newer
  one. The heap of \<^verbatim>\<open>struct queue_entry\<close> blocks is a map from addresses; \<open>q_next\<close> is the next
  address \<^verbatim>\<open>malloc()\<close> hands out, so a freed address is never mistaken for a live one. The
  \<^verbatim>\<open>req\<close> field of an entry may still be indeterminate, since \<^verbatim>\<open>queue_entry_create()\<close> does
  not assign it.

  The second half shows that the linked list is a FIFO: a locale states the contract of
  such a queue and is interpreted on the operations here.
\<close>

section \<open>Data and operations\<close>

datatype req_slot = Indeterminate | NullReq | Owned req_info

record queue_entry =
  qe_operation :: u32
  qe_req :: req_slot
  qe_key :: "bytes option"
  qe_val :: "bytes option"
  qe_newval :: "bytes option"
  qe_ksize :: u64
  qe_vsize :: u64
  qe_nvsize :: u64
  qe_prev :: "nat option"

record queue =
  q_locked :: bool
  q_signals :: nat
  q_size :: u64
  q_top :: "nat option"
  q_bottom :: "nat option"
  q_heap :: "nat \<Rightarrow> queue_entry option"
  q_next :: nat

definition queue_create :: "alloc \<Rightarrow> queue option \<times> alloc" where
  "queue_create ms = (let (ok, ms) = malloc ms in
     (if ok then Some \<lparr>q_locked = False, q_signals = 0, q_size = 0, q_top = None, q_bottom = None,
        q_heap = Map.empty, q_next = 0\<rparr> else None, ms))"

text \<open>
  A \<^verbatim>\<open>PTHREAD_MUTEX_NORMAL\<close> mutex deadlocks when its owner locks it again; unlocking one
  that is not locked is undefined. The critical sections of the two threads are disjoint
  in time, so a boolean is enough. \<^verbatim>\<open>pthread_cond_timedwait()\<close> gives the lock up while it
  waits and returns with the lock held, whatever its result; the result is a parameter.
\<close>

definition queue_lock :: "queue \<Rightarrow> queue option" where
  "queue_lock q = (if q_locked q then None else Some (q\<lparr>q_locked := True\<rparr>))"

definition queue_unlock :: "queue \<Rightarrow> queue option" where
  "queue_unlock q = (if q_locked q then Some (q\<lparr>q_locked := False\<rparr>) else None)"

definition queue_signal :: "queue \<Rightarrow> queue" where
  "queue_signal q = q\<lparr>q_signals := Suc (q_signals q)\<rparr>"

definition queue_timedwait :: "queue \<Rightarrow> int \<Rightarrow> (int \<times> queue) option" where
  "queue_timedwait q result = (if q_locked q then Some (result, q) else None)"

definition new_queue_entry :: queue_entry where
  "new_queue_entry = \<lparr>qe_operation = 0, qe_req = Indeterminate, qe_key = None, qe_val = None,
     qe_newval = None, qe_ksize = 0, qe_vsize = 0, qe_nvsize = 0, qe_prev = None\<rparr>"

definition queue_entry_create :: "queue \<Rightarrow> alloc \<Rightarrow> nat option \<times> queue \<times> alloc" where
  "queue_entry_create q ms = (let (ok, ms) = malloc ms in
     if \<not> ok then (None, q, ms)
     else (Some (q_next q), q\<lparr>q_heap := (q_heap q)(q_next q \<mapsto> new_queue_entry), q_next := Suc (q_next q)\<rparr>, ms))"

definition entry_at :: "queue \<Rightarrow> nat option \<Rightarrow> queue_entry option" where
  "entry_at q p = Option.bind p (q_heap q)"

definition upd_entry :: "queue \<Rightarrow> nat option \<Rightarrow> (queue_entry \<Rightarrow> queue_entry) \<Rightarrow> queue option" where
  "upd_entry q p f = do {
     a \<leftarrow> p;
     e \<leftarrow> q_heap q a;
     Some (q\<lparr>q_heap := (q_heap q)(a \<mapsto> f e)\<rparr>)
   }"

text \<open>Testing an indeterminate pointer, as \<^verbatim>\<open>if (e->req)\<close> may do, is undefined.\<close>

definition queue_entry_free :: "queue \<Rightarrow> nat option \<Rightarrow> queue option" where
  "queue_entry_free q p = do {
     e \<leftarrow> entry_at q p;
     a \<leftarrow> p;
     if qe_req e = Indeterminate then None
     else Some (q\<lparr>q_heap := (q_heap q)(a := None)\<rparr>)
   }"

definition queue_put :: "queue \<Rightarrow> nat option \<Rightarrow> queue option" where
  "queue_put q e = do {
     q \<leftarrow> (if q_top q = None then Some (q\<lparr>q_top := e, q_bottom := e\<rparr>)
       else do {
         q \<leftarrow> upd_entry q (q_top q) (\<lambda>t. t\<lparr>qe_prev := e\<rparr>);
         Some (q\<lparr>q_top := e\<rparr>)
       });
     Some (q\<lparr>q_size := q_size q + 1\<rparr>)
   }"

definition queue_get :: "queue \<Rightarrow> (nat option \<times> queue) option" where
  "queue_get q =
     (if q_bottom q = None then Some (None, q)
      else do {
        let e = q_bottom q;
        b \<leftarrow> entry_at q (q_bottom q);
        let t = qe_prev b;
        let q = q\<lparr>q_bottom := t\<rparr>;
        let q = (if t = None then q\<lparr>q_top := None\<rparr> else q);
        Some (e, q\<lparr>q_size := q_size q - 1\<rparr>)
      })"

definition queue_isempty :: "queue \<Rightarrow> bool" where
  "queue_isempty q \<longleftrightarrow> q_size q = 0"

text \<open>The loop of \<^verbatim>\<open>queue_free()\<close>; the queue itself is freed after it.\<close>

partial_function (option) queue_drain :: "queue \<Rightarrow> queue option" where
  "queue_drain q = Option.bind (queue_get q) (\<lambda>(e, q).
     if e = None then Some q
     else Option.bind (queue_entry_free q e) queue_drain)"

definition queue_free :: "queue \<Rightarrow> queue option" where
  "queue_free q = queue_drain q"

section \<open>The linked list\<close>

fun qpath :: "(nat \<Rightarrow> queue_entry option) \<Rightarrow> nat option \<Rightarrow> nat list \<Rightarrow> bool" where
  "qpath h p [] \<longleftrightarrow> p = None"
| "qpath h p (a # as) \<longleftrightarrow> p = Some a \<and> (\<exists>e. h a = Some e \<and> qpath h (qe_prev e) as)"

text \<open>The addresses on the list, oldest first; \<open>n\<close> bounds how many are followed.\<close>

fun qwalk :: "nat \<Rightarrow> (nat \<Rightarrow> queue_entry option) \<Rightarrow> nat option \<Rightarrow> nat list" where
  "qwalk 0 h p = []"
| "qwalk (Suc n) h p = (case p of None \<Rightarrow> [] | Some a \<Rightarrow>
     a # (case h a of None \<Rightarrow> [] | Some e \<Rightarrow> qwalk n h (qe_prev e)))"

definition queue_addrs :: "queue \<Rightarrow> nat list" where
  "queue_addrs q = qwalk (q_next q) (q_heap q) (q_bottom q)"

definition queue_rep :: "queue \<Rightarrow> nat list \<Rightarrow> bool" where
  "queue_rep q as \<longleftrightarrow> qpath (q_heap q) (q_bottom q) as \<and> distinct as \<and>
     q_top q = (if as = [] then None else Some (last as)) \<and> q_size q = of_nat (length as) \<and>
     (\<forall>a. q_heap q a \<noteq> None \<longrightarrow> a < q_next q)"

definition queue_wf :: "queue \<Rightarrow> bool" where
  "queue_wf q \<longleftrightarrow> queue_rep q (queue_addrs q)"

text \<open>What an entry says, the link aside, and what the queue says, oldest first.\<close>

definition body :: "queue_entry \<Rightarrow> queue_entry" where
  "body e = e\<lparr>qe_prev := None\<rparr>"

definition queue_items :: "queue \<Rightarrow> queue_entry list" where
  "queue_items q = map (\<lambda>a. body (the (q_heap q a))) (queue_addrs q)"

lemma qpath_in_heap: "qpath h p as \<Longrightarrow> a \<in> set as \<Longrightarrow> h a \<noteq> None"
  by (induction as arbitrary: p) auto

lemma qpath_upd: "qpath h p as \<Longrightarrow> a \<notin> set as \<Longrightarrow> qpath (h(a := e)) p as"
  by (induction as arbitrary: p) auto

lemma qpath_walk: "qpath h p as \<Longrightarrow> length as \<le> n \<Longrightarrow> qwalk n h p = as"
proof (induction as arbitrary: p n)
  case Nil
  then show ?case by (cases n) auto
next
  case (Cons a as)
  then show ?case by (cases n) auto
qed

lemma qpath_snoc:
  assumes "qpath h p (as @ [t])" and "distinct (as @ [t])" and "h t = Some et"
    and "h a = Some e" and "qe_prev e = None" and "a \<notin> set (as @ [t])"
  shows "qpath (h(t \<mapsto> et\<lparr>qe_prev := Some a\<rparr>)) p (as @ [t, a])"
  using assms(1,2,6)
proof (induction as arbitrary: p)
  case Nil
  with assms show ?case by auto
next
  case (Cons b bs)
  then show ?case by auto
qed

lemma queue_rep_length:
  assumes "queue_rep q as"
  shows "length as \<le> q_next q"
proof -
  have "set as \<subseteq> {..<q_next q}"
    using assms qpath_in_heap by (fastforce simp: queue_rep_def)
  then have "card (set as) \<le> q_next q" by (metis card_lessThan card_mono finite_lessThan)
  with assms show ?thesis by (simp add: queue_rep_def distinct_card)
qed

lemma queue_rep_addrs: "queue_rep q as \<Longrightarrow> queue_addrs q = as"
  using queue_rep_length [of q as] by (simp add: queue_addrs_def qpath_walk queue_rep_def)

lemma queue_rep_wf: "queue_rep q as \<Longrightarrow> queue_wf q"
  by (simp add: queue_wf_def queue_rep_addrs)

lemma rep_queue_items: "queue_rep q as \<Longrightarrow> queue_items q = map (\<lambda>a. body (the (q_heap q a))) as"
  by (simp add: queue_items_def queue_rep_addrs)

lemma queue_rep_in_heap: "queue_rep q as \<Longrightarrow> a \<in> set as \<Longrightarrow> q_heap q a \<noteq> None"
  using qpath_in_heap by (auto simp: queue_rep_def)

lemma queue_rep_bound: "queue_rep q as \<Longrightarrow> a \<in> set as \<Longrightarrow> a < q_next q"
  using queue_rep_in_heap [of q as a] unfolding queue_rep_def by blast

lemma body_body [simp]: "body (body e) = body e"
  by (simp add: body_def)

lemma body_prev [simp]: "body (e\<lparr>qe_prev := p\<rparr>) = body e"
  by (simp add: body_def)

lemma queue_put_rep:
  assumes "queue_rep q as" and "q_heap q a = Some e" and "qe_prev e = None" and "a \<notin> set as"
  obtains q' where "queue_put q (Some a) = Some q'" and "queue_rep q' (as @ [a])"
    and "\<And>b. map_option body (q_heap q' b) = map_option body (q_heap q b)"
    and "\<And>b. b \<notin> set as \<Longrightarrow> q_heap q' b = q_heap q b"
    and "q_next q' = q_next q" and "q_locked q' = q_locked q" and "q_signals q' = q_signals q"
proof (cases as rule: rev_cases)
  case Nil
  let ?q = "q\<lparr>q_top := Some a, q_bottom := Some a, q_size := q_size q + 1\<rparr>"
  have "queue_put q (Some a) = Some ?q" "queue_rep ?q (as @ [a])"
    using assms Nil by (auto simp: queue_put_def queue_rep_def)
  then show thesis by (rule that) simp_all
next
  case (snoc bs t)
  obtain et where t: "q_heap q t = Some et"
    using queue_rep_in_heap [OF assms(1), of t] snoc by auto
  let ?h = "(q_heap q)(t \<mapsto> et\<lparr>qe_prev := Some a\<rparr>)"
  let ?q = "q\<lparr>q_heap := ?h, q_top := Some a, q_size := q_size q + 1\<rparr>"
  have "queue_put q (Some a) = Some ?q"
    using assms(1) snoc t by (simp add: queue_put_def queue_rep_def upd_entry_def)
  moreover have "qpath ?h (q_bottom q) (bs @ [t, a])"
    by (rule qpath_snoc [OF _ _ t assms(2,3)]) (use assms snoc in \<open>simp_all add: queue_rep_def\<close>)
  then have "queue_rep ?q (as @ [a])"
    using assms snoc t by (auto simp: queue_rep_def)
  ultimately show thesis by (rule that) (use snoc in \<open>auto simp: t\<close>)
qed

lemma queue_get_rep_Nil: "queue_rep q [] \<Longrightarrow> queue_get q = Some (None, q)"
  by (simp add: queue_get_def queue_rep_def)

lemma queue_get_rep_Cons:
  assumes "queue_rep q (a # as)"
  obtains q' where "queue_get q = Some (Some a, q')" and "queue_rep q' as"
    and "q_heap q' = q_heap q" and "q_next q' = q_next q" and "q_locked q' = q_locked q"
    and "q_signals q' = q_signals q"
proof -
  obtain e where e: "q_heap q a = Some e" "qpath (q_heap q) (qe_prev e) as"
    using assms by (auto simp: queue_rep_def)
  have em: "qe_prev e = None \<longleftrightarrow> as = []" using e(2) by (cases as) auto
  let ?q = "q\<lparr>q_bottom := qe_prev e, q_size := q_size q - 1, q_top := if as = [] then None else q_top q\<rparr>"
  have "queue_get q = Some (Some a, ?q)"
    using assms e em by (auto simp: queue_get_def queue_rep_def entry_at_def)
  moreover have "queue_rep ?q as" using assms e em by (auto simp: queue_rep_def)
  ultimately show thesis by (rule that) simp_all
qed

lemma queue_free_rep:
  assumes "queue_rep q as" and "a \<notin> set as" and "q_heap q a = Some e" and "qe_req e \<noteq> Indeterminate"
  shows "queue_entry_free q (Some a) = Some (q\<lparr>q_heap := (q_heap q)(a := None)\<rparr>)"
    and "queue_rep (q\<lparr>q_heap := (q_heap q)(a := None)\<rparr>) as"
  using assms by (auto simp: queue_entry_free_def entry_at_def queue_rep_def intro: qpath_upd)

section \<open>The queue as a FIFO\<close>

text \<open>
  What a producer and a consumer of entries do with the queue: allocate a block with given
  contents and put it; get a block, use its contents, and free it.
\<close>

definition enqueue :: "queue \<Rightarrow> queue_entry \<Rightarrow> queue option" where
  "enqueue q e = queue_put (q\<lparr>q_heap := (q_heap q)(q_next q \<mapsto> e), q_next := Suc (q_next q)\<rparr>) (Some (q_next q))"

definition dequeue :: "queue \<Rightarrow> (queue_entry option \<times> queue) option" where
  "dequeue q = do {
     (p, q) \<leftarrow> queue_get q;
     if p = None then Some (None, q)
     else do {
       e \<leftarrow> entry_at q p;
       q \<leftarrow> queue_entry_free q p;
       Some (Some (body e), q)
     }
   }"

definition entry_owned :: "queue_entry \<Rightarrow> bool" where
  "entry_owned e \<longleftrightarrow> qe_prev e = None \<and> (case qe_req e of Owned r \<Rightarrow> True | _ \<Rightarrow> False)"

definition queue_ok :: "queue \<Rightarrow> bool" where
  "queue_ok q \<longleftrightarrow> queue_wf q \<and> list_all entry_owned (queue_items q)"

datatype 'e qop = QPut 'e | QGet

fun qrun :: "('q \<Rightarrow> 'e \<Rightarrow> 'q option) \<Rightarrow> ('q \<Rightarrow> ('e option \<times> 'q) option) \<Rightarrow> 'e qop list \<Rightarrow> 'q \<Rightarrow>
    ('e option list \<times> 'q) option" where
  "qrun put get [] q = Some ([], q)"
| "qrun put get (QPut e # ops) q = Option.bind (put q e) (qrun put get ops)"
| "qrun put get (QGet # ops) q = do {
     (r, q) \<leftarrow> get q;
     (rs, q) \<leftarrow> qrun put get ops q;
     Some (r # rs, q)
   }"

fun fifo_run :: "'e qop list \<Rightarrow> 'e list \<Rightarrow> 'e option list \<times> 'e list" where
  "fifo_run [] xs = ([], xs)"
| "fifo_run (QPut e # ops) xs = fifo_run ops (xs @ [e])"
| "fifo_run (QGet # ops) [] = (let (rs, xs) = fifo_run ops [] in (None # rs, xs))"
| "fifo_run (QGet # ops) (x # xs) = (let (rs, xs) = fifo_run ops xs in (Some x # rs, xs))"

locale fifo_queue =
  fixes put :: "'q \<Rightarrow> 'e \<Rightarrow> 'q option"
    and get :: "'q \<Rightarrow> ('e option \<times> 'q) option"
    and invar :: "'q \<Rightarrow> bool"
    and items :: "'q \<Rightarrow> 'e list"
    and ok :: "'e \<Rightarrow> bool"
  assumes put_law: "invar q \<Longrightarrow> ok e \<Longrightarrow> \<exists>q'. put q e = Some q' \<and> invar q' \<and> items q' = items q @ [e]"
    and get_none: "invar q \<Longrightarrow> items q = [] \<Longrightarrow> get q = Some (None, q)"
    and get_some: "invar q \<Longrightarrow> items q = x # xs \<Longrightarrow> \<exists>q'. get q = Some (Some x, q') \<and> invar q' \<and> items q' = xs"
begin

lemma run_refines:
  assumes "invar q" and "\<forall>e. QPut e \<in> set ops \<longrightarrow> ok e"
  shows "\<exists>q'. qrun put get ops q = Some (fst (fifo_run ops (items q)), q') \<and> invar q' \<and>
    items q' = snd (fifo_run ops (items q))"
  using assms
proof (induction ops arbitrary: q)
  case Nil
  then show ?case by simp
next
  case (Cons x ops)
  show ?case
  proof (cases x)
    case (QPut e)
    with Cons.prems obtain q1 where "put q e = Some q1" "invar q1" "items q1 = items q @ [e]"
      using put_law by (metis list.set_intros(1))
    moreover obtain q2 where "qrun put get ops q1 = Some (fst (fifo_run ops (items q1)), q2)" "invar q2"
        "items q2 = snd (fifo_run ops (items q1))"
      using Cons.IH [OF calculation(2)] Cons.prems(2) by auto
    ultimately show ?thesis using QPut by simp
  next
    case QGet
    show ?thesis
    proof (cases "items q")
      case Nil
      with Cons QGet get_none show ?thesis by (fastforce simp: split_beta)
    next
      case (Cons y ys)
      then obtain q1 where q1: "get q = Some (Some y, q1)" "invar q1" "items q1 = ys"
        using Cons.prems(1) get_some by blast
      obtain q2 where "qrun put get ops q1 = Some (fst (fifo_run ops (items q1)), q2)" "invar q2"
        "items q2 = snd (fifo_run ops (items q1))"
        using Cons.IH [OF q1(2)] Cons.prems(2) by auto
      with q1 Cons QGet show ?thesis by (simp add: split_beta)
    qed
  qed
qed

end

text \<open>
  How the queue may change under a thread that holds an entry it took off the list: only at
  its newer end, the entry held staying as it is.
\<close>

definition queue_grows :: "queue \<Rightarrow> queue \<Rightarrow> queue_entry list \<Rightarrow> bool" where
  "queue_grows q q' es \<longleftrightarrow> queue_ok q' \<and> q_locked q' = q_locked q \<and> queue_items q' = queue_items q @ es \<and>
     (\<forall>a. q_heap q a \<noteq> None \<and> a \<notin> set (queue_addrs q) \<longrightarrow>
        q_heap q' a = q_heap q a \<and> a \<notin> set (queue_addrs q'))"

lemma queue_grows_refl: "queue_ok q \<Longrightarrow> queue_grows q q []"
  by (simp add: queue_grows_def)

lemma queue_ok_frame [simp]:
  "queue_ok (q\<lparr>q_locked := b\<rparr>) = queue_ok q" "queue_ok (q\<lparr>q_signals := n\<rparr>) = queue_ok q"
  "queue_addrs (q\<lparr>q_locked := b\<rparr>) = queue_addrs q" "queue_addrs (q\<lparr>q_signals := n\<rparr>) = queue_addrs q"
  "queue_items (q\<lparr>q_locked := b\<rparr>) = queue_items q" "queue_items (q\<lparr>q_signals := n\<rparr>) = queue_items q"
  by (simp_all add: queue_ok_def queue_wf_def queue_rep_def queue_addrs_def queue_items_def)

lemma enqueue_grows:
  assumes "queue_ok q" and "entry_owned e"
  obtains q' where "enqueue q e = Some q'" and "queue_grows q q' [e]"
proof -
  let ?q = "q\<lparr>q_heap := (q_heap q)(q_next q \<mapsto> e), q_next := Suc (q_next q)\<rparr>"
  let ?as = "queue_addrs q"
  have r: "queue_rep q ?as" using assms(1) by (simp add: queue_ok_def queue_wf_def)
  then have notin: "q_next q \<notin> set ?as" using queue_rep_bound by blast
  have "queue_rep ?q ?as"
    using r qpath_upd [OF _ notin] unfolding queue_rep_def by (simp add: less_Suc_eq)
  then obtain q' where q': "queue_put ?q (Some (q_next q)) = Some q'" "queue_rep q' (?as @ [q_next q])"
    "\<And>b. map_option body (q_heap q' b) = map_option body (q_heap ?q b)"
    "q_locked q' = q_locked q" "\<And>b. b \<notin> set ?as \<Longrightarrow> q_heap q' b = q_heap ?q b"
    by (rule queue_put_rep [where e = e]) (use assms(2) notin in \<open>auto simp: entry_owned_def\<close>)
  have bd: "body (the (q_heap q' b)) = body (the (q_heap ?q b))" if "q_heap ?q b \<noteq> None" for b
    using q'(3) [of b] that by auto
  have "queue_items q' = queue_items q @ [e]"
    using bd notin queue_rep_in_heap [OF r] assms(2)
    by (auto simp: rep_queue_items [OF q'(2)] rep_queue_items [OF r] body_def entry_owned_def)
  moreover from this have "queue_ok q'"
    using queue_rep_wf [OF q'(2)] assms by (simp add: queue_ok_def)
  moreover have "q_heap q (q_next q) = None" using r unfolding queue_rep_def by blast
  ultimately show thesis
    using q' queue_rep_addrs [OF q'(2)]
    by (intro that [of q']) (auto simp: enqueue_def queue_grows_def)
qed

lemma dequeue_empty:
  assumes "queue_ok q" and "queue_items q = []"
  shows "dequeue q = Some (None, q)"
  using assms queue_get_rep_Nil [of q] by (simp add: queue_ok_def queue_wf_def queue_items_def dequeue_def)

lemma dequeue_law:
  assumes "queue_ok q" and "queue_items q = x # xs"
  obtains q' where "dequeue q = Some (Some x, q')" and "queue_ok q'" and "queue_items q' = xs"
    and "q_locked q' = q_locked q" and "q_signals q' = q_signals q"
proof -
  obtain a as where as: "queue_addrs q = a # as" using assms(2) by (auto simp: queue_items_def)
  have r: "queue_rep q (a # as)" using assms(1) as by (simp add: queue_ok_def queue_wf_def)
  obtain q1 where q1: "queue_get q = Some (Some a, q1)" "queue_rep q1 as" "q_heap q1 = q_heap q"
    "q_locked q1 = q_locked q" "q_signals q1 = q_signals q"
    using r by (rule queue_get_rep_Cons)
  obtain e where e: "q_heap q a = Some e" using queue_rep_in_heap [OF r] by fastforce
  have x: "body e = x" "map (\<lambda>a. body (the (q_heap q a))) as = xs"
    using assms(2) e by (simp_all add: rep_queue_items [OF r])
  have ai: "a \<notin> set as" using r by (simp add: queue_rep_def)
  have ne: "qe_req e \<noteq> Indeterminate"
    using assms x(1) by (auto simp: queue_ok_def entry_owned_def body_def)
  let ?q = "q1\<lparr>q_heap := (q_heap q1)(a := None)\<rparr>"
  have f: "queue_entry_free q1 (Some a) = Some ?q" "queue_rep ?q as"
    using queue_free_rep [OF q1(2) ai _ ne] q1(3) e by simp_all
  have "queue_items ?q = xs"
    using x(2) ai by (auto simp: rep_queue_items [OF f(2)] simp del: q1(3)) (auto simp: q1(3))
  moreover have "dequeue q = Some (Some x, ?q)"
    using q1 e f(1) x(1) by (simp add: dequeue_def entry_at_def)
  moreover have "queue_ok ?q"
    using calculation(1) queue_rep_wf [OF f(2)] assms by (simp add: queue_ok_def)
  ultimately show thesis using q1(4,5) by (intro that [of ?q]) simp_all
qed

interpretation opq: fifo_queue enqueue dequeue queue_ok queue_items entry_owned
proof unfold_locales
  fix q e assume "queue_ok q" and "entry_owned e"
  then show "\<exists>q'. enqueue q e = Some q' \<and> queue_ok q' \<and> queue_items q' = queue_items q @ [e]"
    by (rule enqueue_grows) (auto simp: queue_grows_def)
next
  fix q x xs assume "queue_ok q" and "queue_items q = x # xs"
  then show "\<exists>q'. dequeue q = Some (Some x, q') \<and> queue_ok q' \<and> queue_items q' = xs"
    by (rule dequeue_law) blast
qed (rule dequeue_empty)

section \<open>The consumer's two halves\<close>

text \<open>
  The database thread takes an entry, works on it while it is on nobody's list, and frees it.
\<close>

lemma queue_get_ok_Nil: "queue_ok q \<Longrightarrow> queue_addrs q = [] \<Longrightarrow> queue_get q = Some (None, q)"
  using queue_get_rep_Nil [of q] by (simp add: queue_ok_def queue_wf_def)

lemma queue_get_ok_Cons:
  assumes "queue_ok q" and "queue_addrs q = a # as"
  obtains q' where "queue_get q = Some (Some a, q')" and "queue_ok q'" and "queue_addrs q' = as"
    and "q_heap q' = q_heap q" and "q_locked q' = q_locked q" and "a \<notin> set as" and "q_heap q a \<noteq> None"
proof -
  have r: "queue_rep q (a # as)" using assms by (simp add: queue_ok_def queue_wf_def)
  obtain q' where q': "queue_get q = Some (Some a, q')" "queue_rep q' as" "q_heap q' = q_heap q"
    "q_next q' = q_next q" "q_locked q' = q_locked q" "q_signals q' = q_signals q"
    using r by (rule queue_get_rep_Cons)
  have "queue_items q' = tl (queue_items q)"
    using q'(3) by (simp add: rep_queue_items [OF q'(2)] rep_queue_items [OF r])
  then have "queue_ok q'"
    using assms queue_rep_wf [OF q'(2)] by (simp add: queue_ok_def queue_items_def)
  moreover have "a \<notin> set as" using r by (simp add: queue_rep_def)
  ultimately show thesis
    using q' queue_rep_addrs [OF q'(2)] queue_rep_in_heap [OF r, of a] by (intro that [of q']) simp_all
qed

lemma queue_free_ok:
  assumes "queue_ok q" and "a \<notin> set (queue_addrs q)" and "q_heap q a = Some e" and "qe_req e \<noteq> Indeterminate"
  obtains q' where "queue_entry_free q (Some a) = Some q'" and "queue_ok q'" and "queue_addrs q' = queue_addrs q"
    and "queue_items q' = queue_items q" and "q_locked q' = q_locked q"
proof -
  have r: "queue_rep q (queue_addrs q)" using assms(1) by (simp add: queue_ok_def queue_wf_def)
  let ?q = "q\<lparr>q_heap := (q_heap q)(a := None)\<rparr>"
  note f = queue_free_rep [OF r assms(2-4)]
  have "queue_items ?q = queue_items q"
    using assms(2) by (auto simp: rep_queue_items [OF f(2)] rep_queue_items [OF r])
  then show thesis
    using f(1) assms(1) queue_rep_wf [OF f(2)] queue_rep_addrs [OF f(2)]
    by (intro that [of ?q]) (simp_all add: queue_ok_def)
qed

end
