(* ===== verification/Reply.thy ===== *)
theory Reply
  imports Cache Queue
begin

text \<open>
  The state of the server process and the code of the four transports that sends replies
  (the \<^verbatim>\<open>rep_send*\<close> and \<^verbatim>\<open>*_reply_*\<close> functions of \<^verbatim>\<open>nmdb/tipc.c\<close>, \<^verbatim>\<open>nmdb/udp.c\<close>, \<^verbatim>\<open>nmdb/sctp.c\<close>
  and \<^verbatim>\<open>nmdb/tcp.c\<close>). The results of the \<^verbatim>\<open>send()\<close> and \<^verbatim>\<open>sendto()\<close> calls to come are an oracle:
  a negative number is an error (the negated \<^verbatim>\<open>errno\<close>), any other the number of bytes the kernel
  took; when the list is used up, every call takes all it is given. What was handed to the kernel
  is recorded in \<open>sv_out\<close>. \<open>sv_bufs\<close> holds the \<^verbatim>\<open>static_buf\<close> array of each transport file.
  \<open>sv_fresh\<close> is what the blocks hold that \<^verbatim>\<open>malloc()\<close> will return for TCP connections.
\<close>

section \<open>State\<close>

type_synonym packet = "int \<times> bytes option \<times> bytes"

record server =
  sv_cache :: cache
  sv_queue :: queue
  sv_settings :: settings
  sv_stats :: stats
  sv_ms :: alloc
  sv_sends :: "int list"
  sv_out :: "packet list"
  sv_bufs :: "transport \<Rightarrow> bytes"
  sv_fresh :: "bytes list"

definition EAGAIN :: int where "EAGAIN = 11"

definition next_send :: "server \<Rightarrow> nat \<Rightarrow> int \<times> server" where
  "next_send s n = (case sv_sends s of [] \<Rightarrow> (int n, s)
     | r # rs \<Rightarrow> (min r (int n), s\<lparr>sv_sends := rs\<rparr>))"

text \<open>A datagram is taken as a whole or not at all; a stream may take a prefix.\<close>

definition sendto :: "server \<Rightarrow> int \<Rightarrow> bytes option \<Rightarrow> bytes \<Rightarrow> int \<times> server" where
  "sendto s fd to buf = (let (rv, s) = next_send s (length buf) in
     (rv, if rv < 0 then s else s\<lparr>sv_out := sv_out s @ [(fd, to, buf)]\<rparr>))"

definition send :: "server \<Rightarrow> int \<Rightarrow> bytes \<Rightarrow> int \<times> server" where
  "send s fd buf = (let (rv, s) = next_send s (length buf) in
     (rv, if rv < 0 then s else s\<lparr>sv_out := sv_out s @ [(fd, None, take (nat rv) buf)]\<rparr>))"

section \<open>\<^verbatim>\<open>tipc.c\<close>\<close>

definition tipc_rep_send_error :: "server \<Rightarrow> req_info \<Rightarrow> u32 \<Rightarrow> server" where
  "tipc_rep_send_error s req code =
     (if se_passive (sv_settings s) then s
      else let r = htonl REP_ERR; c = htonl code;
          minibuf = store32 (r_id req) @ store32 r @ store32 c;
          (r, s) = sendto s (r_fd req) (r_clisa req) minibuf
        in s)"

definition tipc_rep_send :: "server \<Rightarrow> req_info \<Rightarrow> bytes \<Rightarrow> int \<times> server" where
  "tipc_rep_send s req buf =
     (if se_passive (sv_settings s) then (1, s)
      else let (rv, s) = sendto s (r_fd req) (r_clisa req) buf in
        if rv < 0 then (0, tipc_rep_send_error s req ERR_SEND) else (1, s))"

definition tipc_reply_mini :: "server \<Rightarrow> req_info \<Rightarrow> u32 \<Rightarrow> server" where
  "tipc_reply_mini s req reply =
     (if se_passive (sv_settings s) then s
      else let reply = htonl reply; minibuf = store32 (r_id req) @ store32 reply
        in snd (tipc_rep_send s req minibuf))"

definition tipc_reply_err :: "server \<Rightarrow> req_info \<Rightarrow> u32 \<Rightarrow> server" where
  "tipc_reply_err s req reply = tipc_rep_send_error s req reply"

definition tipc_reply_long ::
  "server \<Rightarrow> req_info \<Rightarrow> u32 \<Rightarrow> bytes option \<Rightarrow> u64 \<Rightarrow> server option" where
  "tipc_reply_long s req reply val vsize =
     (case val of
        None \<Rightarrow> Some (tipc_reply_mini s req reply)
      | Some val \<Rightarrow> do {
          let reply = htonl reply;
          let bsize = 4 + 4 + 4 + vsize;
          let (ok, ms) = malloc (sv_ms s);
          let s = s\<lparr>sv_ms := ms\<rparr>;
          if \<not> ok then None
          else do {
            let t = htonl (ucast vsize);
            val \<leftarrow> rd val 0 (unat vsize);
            let buf = store32 (r_id req) @ store32 reply @ store32 t @ val;
            if unat bsize < length buf then None
            else Some (snd (tipc_rep_send s req buf))
          }
        })"

section \<open>\<^verbatim>\<open>udp.c\<close>\<close>

definition udp_rep_send_error :: "server \<Rightarrow> req_info \<Rightarrow> u32 \<Rightarrow> server" where
  "udp_rep_send_error s req code =
     (if se_passive (sv_settings s) then s
      else let r = htonl REP_ERR; c = htonl code;
          minibuf = store32 (r_id req) @ store32 r @ store32 c;
          (r, s) = sendto s (r_fd req) (r_clisa req) minibuf
        in s)"

definition udp_rep_send :: "server \<Rightarrow> req_info \<Rightarrow> bytes \<Rightarrow> int \<times> server" where
  "udp_rep_send s req buf =
     (if se_passive (sv_settings s) then (1, s)
      else let (rv, s) = sendto s (r_fd req) (r_clisa req) buf in
        if rv < 0 then (0, udp_rep_send_error s req ERR_SEND) else (1, s))"

definition udp_reply_mini :: "server \<Rightarrow> req_info \<Rightarrow> u32 \<Rightarrow> server" where
  "udp_reply_mini s req reply =
     (if se_passive (sv_settings s) then s
      else let reply = htonl reply; minibuf = store32 (r_id req) @ store32 reply
        in snd (udp_rep_send s req minibuf))"

definition udp_reply_err :: "server \<Rightarrow> req_info \<Rightarrow> u32 \<Rightarrow> server" where
  "udp_reply_err s req reply = udp_rep_send_error s req reply"

definition udp_reply_long ::
  "server \<Rightarrow> req_info \<Rightarrow> u32 \<Rightarrow> bytes option \<Rightarrow> u64 \<Rightarrow> server option" where
  "udp_reply_long s req reply val vsize =
     (case val of
        None \<Rightarrow> Some (udp_reply_mini s req reply)
      | Some val \<Rightarrow> do {
          let reply = htonl reply;
          let bsize = 4 + 4 + 4 + vsize;
          let (ok, ms) = malloc (sv_ms s);
          let s = s\<lparr>sv_ms := ms\<rparr>;
          if \<not> ok then None
          else do {
            let t = htonl (ucast vsize);
            val \<leftarrow> rd val 0 (unat vsize);
            let buf = store32 (r_id req) @ store32 reply @ store32 t @ val;
            if unat bsize < length buf then None
            else Some (snd (udp_rep_send s req buf))
          }
        })"

section \<open>\<^verbatim>\<open>sctp.c\<close>\<close>

definition sctp_rep_send_error :: "server \<Rightarrow> req_info \<Rightarrow> u32 \<Rightarrow> server" where
  "sctp_rep_send_error s req code =
     (if se_passive (sv_settings s) then s
      else let r = htonl REP_ERR; c = htonl code;
          minibuf = store32 (r_id req) @ store32 r @ store32 c;
          (r, s) = sendto s (r_fd req) (r_clisa req) minibuf
        in s)"

definition sctp_rep_send :: "server \<Rightarrow> req_info \<Rightarrow> bytes \<Rightarrow> int \<times> server" where
  "sctp_rep_send s req buf =
     (if se_passive (sv_settings s) then (1, s)
      else let (rv, s) = sendto s (r_fd req) (r_clisa req) buf in
        if rv < 0 then (0, sctp_rep_send_error s req ERR_SEND) else (1, s))"

definition sctp_reply_mini :: "server \<Rightarrow> req_info \<Rightarrow> u32 \<Rightarrow> server" where
  "sctp_reply_mini s req reply =
     (if se_passive (sv_settings s) then s
      else let reply = htonl reply; minibuf = store32 (r_id req) @ store32 reply
        in snd (sctp_rep_send s req minibuf))"

definition sctp_reply_err :: "server \<Rightarrow> req_info \<Rightarrow> u32 \<Rightarrow> server" where
  "sctp_reply_err s req reply = sctp_rep_send_error s req reply"

definition sctp_reply_long ::
  "server \<Rightarrow> req_info \<Rightarrow> u32 \<Rightarrow> bytes option \<Rightarrow> u64 \<Rightarrow> server option" where
  "sctp_reply_long s req reply val vsize =
     (case val of
        None \<Rightarrow> Some (sctp_reply_mini s req reply)
      | Some val \<Rightarrow> do {
          let reply = htonl reply;
          let bsize = 4 + 4 + 4 + vsize;
          let (ok, ms) = malloc (sv_ms s);
          let s = s\<lparr>sv_ms := ms\<rparr>;
          if \<not> ok then None
          else do {
            let t = htonl (ucast vsize);
            val \<leftarrow> rd val 0 (unat vsize);
            let buf = store32 (r_id req) @ store32 reply @ store32 t @ val;
            if unat bsize < length buf then None
            else Some (snd (sctp_rep_send s req buf))
          }
        })"

section \<open>\<^verbatim>\<open>tcp.c\<close>\<close>

definition tcp_rep_send_error :: "server \<Rightarrow> req_info \<Rightarrow> u32 \<Rightarrow> server" where
  "tcp_rep_send_error s req code =
     (if se_passive (sv_settings s) then s
      else let l = htonl (4 + 4 + 4 + 4); r = htonl REP_ERR; c = htonl code;
          minibuf = store32 l @ store32 (r_id req) @ store32 r @ store32 c;
          (rv, s) = send s (r_fd req) minibuf
        in s)"

text \<open>
  The loop of \<^verbatim>\<open>rep_send()\<close> with \<open>c\<close> bytes sent so far. On Linux \<^verbatim>\<open>EWOULDBLOCK\<close> is
  \<^verbatim>\<open>EAGAIN\<close>, so \<^verbatim>\<open>errno != EAGAIN || errno != EWOULDBLOCK\<close> is \<^verbatim>\<open>errno != EAGAIN\<close>.
\<close>

lemma send_oracle:
  "send s fd buf = (rv, s') \<Longrightarrow>
     (sv_sends s = [] \<and> sv_sends s' = [] \<and> rv = int (length buf)) \<or>
     (length (sv_sends s') < length (sv_sends s) \<and> rv \<le> int (length buf))"
  by (auto simp: send_def next_send_def Let_def split: list.splits if_splits)

function tcp_send_loop :: "server \<Rightarrow> req_info \<Rightarrow> bytes \<Rightarrow> nat \<Rightarrow> int \<times> server" where
  "tcp_send_loop s req buf c =
     (if c < length buf then
        (let (rv, s') = send s (r_fd req) (drop c buf) in
         if rv = int (length buf) then (1, s')
         else if rv < 0 then
           (if rv \<noteq> - EAGAIN \<or> rv \<noteq> - EAGAIN then (0, tcp_rep_send_error s' req ERR_SEND)
            else tcp_send_loop s' req buf c)
         else if rv = 0 then (1, s')
         else tcp_send_loop s' req buf (c + nat rv))
      else (1, s))"
  by pat_completeness auto
termination
proof (relation "measure (\<lambda>(s, req, buf, c). length (sv_sends s) + (length buf - c))", goal_cases)
  case 1
  then show ?case by simp
next
  case (2 s req buf c p rv s')
  from send_oracle [OF 2(2) [symmetric, unfolded 2(3) [symmetric]]] 2(1,4,5) show ?case by auto
next
  case (3 s req buf c p rv s')
  from send_oracle [OF 3(2) [symmetric, unfolded 3(3) [symmetric]]] 3(1,4,5,6) show ?case by auto
qed

declare tcp_send_loop.simps [simp del]

definition tcp_rep_send :: "server \<Rightarrow> req_info \<Rightarrow> bytes \<Rightarrow> int \<times> server" where
  "tcp_rep_send s req buf =
     (if se_passive (sv_settings s) then (1, s) else tcp_send_loop s req buf 0)"

definition tcp_reply_mini :: "server \<Rightarrow> req_info \<Rightarrow> u32 \<Rightarrow> server" where
  "tcp_reply_mini s req reply =
     (if se_passive (sv_settings s) then s
      else let len = htonl 12; reply = htonl reply;
          minibuf = store32 len @ store32 (r_id req) @ store32 reply
        in snd (tcp_rep_send s req minibuf))"

definition tcp_reply_err :: "server \<Rightarrow> req_info \<Rightarrow> u32 \<Rightarrow> server" where
  "tcp_reply_err s req reply = tcp_rep_send_error s req reply"

definition tcp_reply_long ::
  "server \<Rightarrow> req_info \<Rightarrow> u32 \<Rightarrow> bytes option \<Rightarrow> u64 \<Rightarrow> server option" where
  "tcp_reply_long s req reply val vsize =
     (case val of
        None \<Rightarrow> Some (tcp_reply_mini s req reply)
      | Some val \<Rightarrow> do {
          let reply = htonl reply;
          let bsize = 4 + 4 + 4 + 4 + vsize;
          let (ok, ms) = malloc (sv_ms s);
          let s = s\<lparr>sv_ms := ms\<rparr>;
          if \<not> ok then None
          else do {
            let l = htonl (ucast bsize);
            let t = htonl (ucast vsize);
            val \<leftarrow> rd val 0 (unat vsize);
            let buf = store32 l @ store32 (r_id req) @ store32 reply @ store32 t @ val;
            if unat bsize < length buf then None
            else Some (snd (tcp_rep_send s req buf))
          }
        })"

section \<open>Calls through the request's function pointers\<close>

definition reply_mini :: "server \<Rightarrow> req_info \<Rightarrow> u32 \<Rightarrow> server" where
  "reply_mini s req reply = (case r_reply_mini req of
     TIPC \<Rightarrow> tipc_reply_mini s req reply | TCP \<Rightarrow> tcp_reply_mini s req reply
   | UDP \<Rightarrow> udp_reply_mini s req reply | SCTP \<Rightarrow> sctp_reply_mini s req reply)"

definition reply_err :: "server \<Rightarrow> req_info \<Rightarrow> u32 \<Rightarrow> server" where
  "reply_err s req reply = (case r_reply_err req of
     TIPC \<Rightarrow> tipc_reply_err s req reply | TCP \<Rightarrow> tcp_reply_err s req reply
   | UDP \<Rightarrow> udp_reply_err s req reply | SCTP \<Rightarrow> sctp_reply_err s req reply)"

definition reply_long :: "server \<Rightarrow> req_info \<Rightarrow> u32 \<Rightarrow> bytes option \<Rightarrow> u64 \<Rightarrow> server option" where
  "reply_long s req reply val vsize = (case r_reply_long req of
     TIPC \<Rightarrow> tipc_reply_long s req reply val vsize | TCP \<Rightarrow> tcp_reply_long s req reply val vsize
   | UDP \<Rightarrow> udp_reply_long s req reply val vsize | SCTP \<Rightarrow> sctp_reply_long s req reply val vsize)"

section \<open>The replies on the wire\<close>

text \<open>The three datagram transports share their code, up to the names.\<close>

lemma tipc_like_udp:
  "tipc_reply_mini = udp_reply_mini" "tipc_reply_err = udp_reply_err" "tipc_reply_long = udp_reply_long"
proof -
  have e: "tipc_rep_send_error = udp_rep_send_error"
    by (intro ext) (simp only: tipc_rep_send_error_def udp_rep_send_error_def)
  have s: "tipc_rep_send = udp_rep_send"
    by (intro ext) (simp only: tipc_rep_send_def udp_rep_send_def e)
  show m: "tipc_reply_mini = udp_reply_mini"
    by (intro ext) (simp only: tipc_reply_mini_def udp_reply_mini_def s)
  show "tipc_reply_err = udp_reply_err"
    by (intro ext) (simp only: tipc_reply_err_def udp_reply_err_def e)
  show "tipc_reply_long = udp_reply_long"
    by (intro ext) (simp only: tipc_reply_long_def udp_reply_long_def s m)
qed

lemma sctp_like_udp:
  "sctp_reply_mini = udp_reply_mini" "sctp_reply_err = udp_reply_err" "sctp_reply_long = udp_reply_long"
proof -
  have e: "sctp_rep_send_error = udp_rep_send_error"
    by (intro ext) (simp only: sctp_rep_send_error_def udp_rep_send_error_def)
  have s: "sctp_rep_send = udp_rep_send"
    by (intro ext) (simp only: sctp_rep_send_def udp_rep_send_def e)
  show m: "sctp_reply_mini = udp_reply_mini"
    by (intro ext) (simp only: sctp_reply_mini_def udp_reply_mini_def s)
  show "sctp_reply_err = udp_reply_err"
    by (intro ext) (simp only: sctp_reply_err_def udp_reply_err_def e)
  show "sctp_reply_long = udp_reply_long"
    by (intro ext) (simp only: sctp_reply_long_def udp_reply_long_def s m)
qed

text \<open>TCP puts the total length in front of a message and has no destination per message.\<close>

definition frame :: "transport \<Rightarrow> bytes \<Rightarrow> bytes" where
  "frame t b = (if t = TCP then store32 (htonl (of_nat (4 + length b))) @ b else b)"

definition emit :: "server \<Rightarrow> req_info \<Rightarrow> transport \<Rightarrow> bytes \<Rightarrow> server" where
  "emit s req t b = (if se_passive (sv_settings s) then s
     else s\<lparr>sv_out := sv_out s @ [(r_fd req, if t = TCP then None else r_clisa req, frame t b)]\<rparr>)"

lemma sendto_all: "sv_sends s = [] \<Longrightarrow>
    sendto s fd to buf = (int (length buf), s\<lparr>sv_out := sv_out s @ [(fd, to, buf)]\<rparr>)"
  by (simp add: sendto_def next_send_def)

lemma send_all: "sv_sends s = [] \<Longrightarrow>
    send s fd buf = (int (length buf), s\<lparr>sv_out := sv_out s @ [(fd, None, buf)]\<rparr>)"
  by (simp add: send_def next_send_def)

lemma tcp_rep_send_all:
  assumes "sv_sends s = []" and "0 < length buf" and "\<not> se_passive (sv_settings s)"
  shows "tcp_rep_send s req buf = (1, s\<lparr>sv_out := sv_out s @ [(r_fd req, None, buf)]\<rparr>)"
  using assms by (subst tcp_rep_send_def) (simp add: tcp_send_loop.simps send_all)

lemma tcp_rep_send_passive: "se_passive (sv_settings s) \<Longrightarrow> tcp_rep_send s req buf = (1, s)"
  by (simp add: tcp_rep_send_def)

lemma reply_mini_wire:
  assumes "sv_sends s = []"
  shows "reply_mini s req r = emit s req (r_reply_mini req) (store32 (r_id req) @ store32 (htonl r))"
  using assms
  by (cases "r_reply_mini req")
    (simp_all add: reply_mini_def tipc_like_udp sctp_like_udp udp_reply_mini_def udp_rep_send_def
      tcp_reply_mini_def tcp_rep_send_all emit_def frame_def sendto_all Let_def flip: store32_htonl)

lemma reply_err_wire:
  assumes "sv_sends s = []"
  shows "reply_err s req c =
    emit s req (r_reply_err req) (store32 (r_id req) @ store32 (htonl REP_ERR) @ store32 (htonl c))"
  using assms
  by (cases "r_reply_err req")
    (simp_all add: reply_err_def tipc_like_udp sctp_like_udp udp_reply_err_def udp_rep_send_error_def
      tcp_reply_err_def tcp_rep_send_error_def emit_def frame_def sendto_all send_all Let_def
      flip: store32_htonl)

lemma unat_add_u64: "unat a + n < 2 ^ 64 \<Longrightarrow> unat (of_nat n + a :: u64) = n + unat a"
  by (simp add: unat_word_ariths unat_of_nat_u64 take_bit_nat_eq_self)

lemma ucast_of_nat_u32: "(ucast (of_nat n :: u64) :: u32) = of_nat n"
  by transfer simp

lemma reply_long_wire:
  assumes "sv_sends s = []" and "good (sv_ms s)" and "length v < 2 ^ 32"
  obtains ms where "good ms" and "reply_long s req r (Some v) (sz v) =
    Some (emit (s\<lparr>sv_ms := ms\<rparr>) req (r_reply_long req)
      (store32 (r_id req) @ store32 (htonl r) @ store32 (htonl (of_nat (length v))) @ v))"
proof -
  have v: "unat (sz v) = length v" using assms(3) by (simp add: unat_of_nat_u64)
  have b: "unat (12 + sz v) = 12 + length v" "unat (16 + sz v) = 16 + length v"
    using unat_add_u64 [of "sz v" 12] unat_add_u64 [of "sz v" 16] v assms(3) by simp_all
  have c: "(ucast (sz v) :: u32) = of_nat (length v)" "(ucast (16 + sz v) :: u32) = of_nat (16 + length v)"
    using ucast_of_nat_u32 [of "length v"] ucast_of_nat_u32 [of "16 + length v"] by simp_all
  obtain ms where ms: "malloc (sv_ms s) = (True, ms)" "good ms"
    using assms(2) by (rule malloc_good)
  have u: "udp_reply_long s req r (Some v) (sz v) = Some (emit (s\<lparr>sv_ms := ms\<rparr>) req UDP
      (store32 (r_id req) @ store32 (htonl r) @ store32 (htonl (of_nat (length v))) @ v))"
    using assms(1) v b c ms(1)
    by (simp add: udp_reply_long_def rd_def udp_rep_send_def emit_def frame_def sendto_all Let_def
        del: store32_htonl)
  have t: "tcp_reply_long s req r (Some v) (sz v) = Some (emit (s\<lparr>sv_ms := ms\<rparr>) req TCP
      (store32 (r_id req) @ store32 (htonl r) @ store32 (htonl (of_nat (length v))) @ v))"
    using assms(1) v b c ms(1)
    by (simp add: tcp_reply_long_def rd_def emit_def frame_def tcp_rep_send_all tcp_rep_send_passive Let_def
        del: store32_htonl)
  show thesis
    by (rule that [OF ms(2)])
      (cases "r_reply_long req", simp_all add: reply_long_def tipc_like_udp sctp_like_udp u t emit_def frame_def)
qed

section \<open>Partial sends\<close>

text \<open>
  As long as no \<^verbatim>\<open>send()\<close> fails with an error other than \<^verbatim>\<open>EAGAIN\<close> and none takes zero bytes, the
  loop puts every byte of the buffer on the stream, in order and once.
\<close>

lemma tcp_send_loop_out:
  assumes "\<forall>r\<in>set (sv_sends s). r = - EAGAIN \<or> 0 < r" and "c \<le> length buf"
  shows "\<exists>s' ps. tcp_send_loop s req buf c = (1, s') \<and> sv_out s' = sv_out s @ ps \<and>
    concat (map (\<lambda>p. snd (snd p)) ps) = drop c buf \<and> (\<forall>p\<in>set ps. fst p = r_fd req)"
  using assms
proof (induction s req buf c rule: tcp_send_loop.induct)
  case (1 s req buf c)
  show ?case
  proof (cases "c < length buf")
    case False
    with "1.prems" show ?thesis by (simp add: tcp_send_loop.simps)
  next
    case lt: True
    obtain rv s' where snd: "send s (r_fd req) (drop c buf) = (rv, s')" by fastforce
    have sub: "set (sv_sends s') \<subseteq> set (sv_sends s)" "rv \<le> int (length buf - c)"
      "rv = - EAGAIN \<and> sv_out s' = sv_out s \<or>
       0 < rv \<and> sv_out s' = sv_out s @ [(r_fd req, None, take (nat rv) (drop c buf))]"
      using snd lt "1.prems"(1)
      by (auto simp: send_def next_send_def Let_def EAGAIN_def split: list.splits if_splits)
    from sub(1) "1.prems"(1) have pr: "\<forall>r\<in>set (sv_sends s'). r = - EAGAIN \<or> 0 < r" by blast
    from sub(3) consider (again) "rv = - EAGAIN" "sv_out s' = sv_out s"
      | (took) "0 < rv" "sv_out s' = sv_out s @ [(r_fd req, None, take (nat rv) (drop c buf))]" by blast
    then show ?thesis
    proof cases
      case again
      with snd lt "1.IH"(1) [OF lt snd [symmetric] refl] pr "1.prems"(2) show ?thesis
        by (subst tcp_send_loop.simps) (simp add: EAGAIN_def)
    next
      case took
      show ?thesis
      proof (cases "rv = int (length buf)")
        case True
        with sub(2) lt took snd show ?thesis by (subst tcp_send_loop.simps) auto
      next
        case False
        have le: "c + nat rv \<le> length buf" using sub(2) took(1) lt by linarith
        from "1.IH"(2) [OF lt snd [symmetric] refl False _ _ pr le] took(1)
        obtain s2 ps where s2: "tcp_send_loop s' req buf (c + nat rv) = (1, s2)" "sv_out s2 = sv_out s' @ ps"
          "concat (map (\<lambda>p. snd (snd p)) ps) = drop (c + nat rv) buf" "\<forall>p\<in>set ps. fst p = r_fd req" by auto
        have "take (nat rv) (drop c buf) @ drop (c + nat rv) buf = drop c buf"
          by (metis add.commute append_take_drop_id drop_drop)
        with s2 took snd lt False show ?thesis
          by (subst tcp_send_loop.simps)
            (auto intro!: exI [of _ "(r_fd req, None, take (nat rv) (drop c buf)) # ps"])
      qed
    qed
  qed
qed

section \<open>What replying leaves alone\<close>

text \<open>
  Whatever the kernel answers, a reply changes nothing but the record of what was sent (and,
  for a long reply, the memory it took).
\<close>

definition same_core :: "server \<Rightarrow> server \<Rightarrow> bool" where
  "same_core s s' \<longleftrightarrow> sv_cache s' = sv_cache s \<and> sv_queue s' = sv_queue s \<and> sv_settings s' = sv_settings s \<and>
     sv_stats s' = sv_stats s \<and> sv_ms s' = sv_ms s \<and> sv_bufs s' = sv_bufs s"

lemma same_core_refl [simp]: "same_core s s"
  by (simp add: same_core_def)

lemma same_core_trans: "same_core a b \<Longrightarrow> same_core b c \<Longrightarrow> same_core a c"
  by (simp add: same_core_def)

lemma sendto_core: "same_core s (snd (sendto s fd to b))"
  by (auto simp: sendto_def next_send_def same_core_def Let_def split: list.splits)

lemma send_core: "same_core s (snd (send s fd b))"
  by (auto simp: send_def next_send_def same_core_def Let_def split: list.splits)

lemma udp_err_core: "same_core s (udp_rep_send_error s req c)"
  using sendto_core by (simp add: udp_rep_send_error_def Let_def split_beta)

lemma udp_send_core: "same_core s (snd (udp_rep_send s req b))"
  using sendto_core udp_err_core same_core_trans by (fastforce simp: udp_rep_send_def Let_def split_beta)

lemma tcp_err_core: "same_core s (tcp_rep_send_error s req c)"
  using send_core by (simp add: tcp_rep_send_error_def Let_def split_beta)

lemma tcp_loop_core: "same_core s (snd (tcp_send_loop s req b c))"
proof (induction s req b c rule: tcp_send_loop.induct)
  case (1 s req buf c)
  obtain rv s' where snd: "send s (r_fd req) (drop c buf) = (rv, s')" by fastforce
  then have core: "same_core s s'" using send_core [of s "r_fd req" "drop c buf"] by simp
  show ?case
  proof (cases "c < length buf")
    case True
    note ih = "1.IH" [OF True snd [symmetric] refl]
    from core ih tcp_err_core [of s' req ERR_SEND] show ?thesis
      by (subst tcp_send_loop.simps) (auto simp: snd True intro: same_core_trans)
  qed (simp add: tcp_send_loop.simps)
qed

lemma tcp_send_core: "same_core s (snd (tcp_rep_send s req b))"
  using tcp_loop_core by (simp add: tcp_rep_send_def)

lemma reply_mini_core: "same_core s (reply_mini s req r)"
  using udp_send_core tcp_send_core
  by (cases "r_reply_mini req") (simp_all add: reply_mini_def tipc_like_udp sctp_like_udp udp_reply_mini_def
      tcp_reply_mini_def Let_def)

lemma reply_err_core: "same_core s (reply_err s req r)"
  using udp_err_core tcp_err_core
  by (cases "r_reply_err req") (simp_all add: reply_err_def tipc_like_udp sctp_like_udp udp_reply_err_def
      tcp_reply_err_def)

lemma reply_long_core:
  assumes "good (sv_ms s)" and "length v < 2 ^ 32"
  obtains ms s' where "reply_long s req r (Some v) (sz v) = Some s'" and "good ms" and "same_core (s\<lparr>sv_ms := ms\<rparr>) s'"
proof -
  have v: "unat (sz v) = length v" using assms(2) by (simp add: unat_of_nat_u64)
  have b: "unat (12 + sz v) = 12 + length v" "unat (16 + sz v) = 16 + length v"
    using unat_add_u64 [of "sz v" 12] unat_add_u64 [of "sz v" 16] v assms(2) by simp_all
  obtain ms where ms: "malloc (sv_ms s) = (True, ms)" "good ms" using assms(1) by (rule malloc_good)
  have u: "\<exists>s'. udp_reply_long s req r (Some v) (sz v) = Some s' \<and> same_core (s\<lparr>sv_ms := ms\<rparr>) s'"
    using v b ms(1) udp_send_core [of "s\<lparr>sv_ms := ms\<rparr>"] by (simp add: udp_reply_long_def rd_def Let_def)
  have t: "\<exists>s'. tcp_reply_long s req r (Some v) (sz v) = Some s' \<and> same_core (s\<lparr>sv_ms := ms\<rparr>) s'"
    using v b ms(1) tcp_send_core [of "s\<lparr>sv_ms := ms\<rparr>"] by (simp add: tcp_reply_long_def rd_def Let_def)
  have "\<exists>s'. reply_long s req r (Some v) (sz v) = Some s' \<and> same_core (s\<lparr>sv_ms := ms\<rparr>) s'"
    using u t by (cases "r_reply_long req") (simp_all add: reply_long_def tipc_like_udp sctp_like_udp)
  with ms(2) that show thesis by blast
qed

end
