(* ===== verification/Parse.thy ===== *)
theory Parse
  imports Reply
begin

text \<open>
  Parsing of requests and what the network thread does for each of them
  (\<^verbatim>\<open>nmdb/parse.c\<close>). A message lies at the start of a block \<open>mem\<close>, the rest of the buffer it
  was received into from the message's first byte on; \<open>len\<close> is the length the transport
  reports. Reads go to the block, so reading beyond the message but inside the buffer gives
  the stale bytes there and reading beyond the buffer is undefined. The payload pointer is
  the offset 8 in that block. Sizes are computed at the width the code uses, with
  wrap-around.
\<close>

section \<open>Queueing database operations\<close>

text \<open>A copy of an optional parameter needs memory only if the parameter is not NULL.\<close>

definition malloc_copy :: "bytes option \<Rightarrow> alloc \<Rightarrow> bool \<times> alloc" where
  "malloc_copy b ms = (if b = None then (True, ms) else malloc ms)"

definition opt_size :: "bytes option \<Rightarrow> u64" where
  "opt_size b = (case b of None \<Rightarrow> 0 | Some b \<Rightarrow> sz b)"

definition make_queue_long_entry ::
  "queue \<Rightarrow> alloc \<Rightarrow> req_info \<Rightarrow> u32 \<Rightarrow> bytes option \<Rightarrow> bytes option \<Rightarrow> bytes option \<Rightarrow>
     (nat option \<times> queue \<times> alloc) option" where
  "make_queue_long_entry q ms req operation key val newval =
     (let (e, q, ms) = queue_entry_create q ms in
      if e = None then Some (None, q, ms)
      else let (kok, ms) = malloc_copy key ms;
          (vok, ms) = (if kok then malloc_copy val ms else (False, ms));
          (nvok, ms) = (if vok then malloc_copy newval ms else (False, ms)) in
        if \<not> nvok then do { q \<leftarrow> queue_entry_free q e; Some (None, q, ms) }
        else do {
          q \<leftarrow> upd_entry q e (\<lambda>x. x\<lparr>qe_operation := operation, qe_key := key, qe_ksize := opt_size key,
            qe_val := val, qe_vsize := opt_size val, qe_newval := newval, qe_nvsize := opt_size newval\<rparr>);
          let (rok, ms) = malloc ms;
          if \<not> rok then do {
            q \<leftarrow> upd_entry q e (\<lambda>x. x\<lparr>qe_req := NullReq\<rparr>);
            q \<leftarrow> queue_entry_free q e;
            Some (None, q, ms)
          }
          else do {
            let (cok, ms) = malloc ms;
            if \<not> cok then do {
              q \<leftarrow> upd_entry q e (\<lambda>x. x\<lparr>qe_req := Owned (req\<lparr>r_clisa := None\<rparr>)\<rparr>);
              q \<leftarrow> queue_entry_free q e;
              Some (None, q, ms)
            }
            else do {
              clisa \<leftarrow> r_clisa req;
              clisa \<leftarrow> rd clisa 0 (unat (r_clilen req));
              q \<leftarrow> upd_entry q e (\<lambda>x. x\<lparr>qe_req :=
                Owned (req\<lparr>r_clisa := Some clisa, r_payload := None, r_psize := 0\<rparr>)\<rparr>);
              Some (e, q, ms)
            }
          }
        })"

definition put_in_queue_long ::
  "server \<Rightarrow> req_info \<Rightarrow> u32 \<Rightarrow> bool \<Rightarrow> bytes option \<Rightarrow> bytes option \<Rightarrow> bytes option \<Rightarrow>
     (bool \<times> server) option" where
  "put_in_queue_long s req operation sync key val newval = do {
     (e, q, ms) \<leftarrow> make_queue_long_entry (sv_queue s) (sv_ms s) req operation key val newval;
     if e = None then Some (False, s\<lparr>sv_queue := q, sv_ms := ms\<rparr>)
     else do {
       q \<leftarrow> queue_lock q;
       q \<leftarrow> queue_put q e;
       q \<leftarrow> queue_unlock q;
       Some (True, s\<lparr>sv_queue := if sync then queue_signal q else q, sv_ms := ms\<rparr>)
     }
   }"

definition put_in_queue ::
  "server \<Rightarrow> req_info \<Rightarrow> u32 \<Rightarrow> bool \<Rightarrow> bytes option \<Rightarrow> bytes option \<Rightarrow> (bool \<times> server) option" where
  "put_in_queue s req operation sync key val = put_in_queue_long s req operation sync key val None"

section \<open>Helpers of the handlers\<close>

definition bump :: "server \<Rightarrow> (stats \<Rightarrow> stats) \<Rightarrow> server" where
  "bump s f = s\<lparr>sv_stats := f (sv_stats s)\<rparr>"

definition cache_only :: "req_info \<Rightarrow> bool" where
  "cache_only req \<longleftrightarrow> r_flags req AND FLAGS_CACHE_ONLY \<noteq> 0"

definition sync :: "req_info \<Rightarrow> bool" where
  "sync req \<longleftrightarrow> r_flags req AND FLAGS_SYNC \<noteq> 0"

text \<open>\<^verbatim>\<open>FILL_CACHE_FLAG(OP)\<close>, given the two counters' increments.\<close>

definition fill_cache_flag :: "server \<Rightarrow> req_info \<Rightarrow> (stats \<Rightarrow> stats) \<Rightarrow> (stats \<Rightarrow> stats) \<Rightarrow> server" where
  "fill_cache_flag s req c d = bump s (if cache_only req then c else d)"

definition broken :: "server \<Rightarrow> req_info \<Rightarrow> server" where
  "broken s req = reply_err (bump s (st_net_broken_req_update (\<lambda>n. n + 1))) req ERR_BROKEN"

definition load_size :: "bytes \<Rightarrow> nat \<Rightarrow> u32 option" where
  "load_size mem off = map_option ntohl (load32 mem off)"

text \<open>What a handler does when queueing failed.\<close>

definition queued_or_err :: "req_info \<Rightarrow> (bool \<times> server) option \<Rightarrow> server option" where
  "queued_or_err req r = do {
     (rv, s) \<leftarrow> r;
     Some (if rv then s else reply_err s req ERR_MEM)
   }"

section \<open>The handlers\<close>

definition parse_get :: "server \<Rightarrow> req_info \<Rightarrow> bytes \<Rightarrow> server option" where
  "parse_get s req mem = do {
     p \<leftarrow> r_payload req;
     ksize \<leftarrow> load_size mem p;
     if r_psize req < ucast ksize then Some (broken s req)
     else do {
       let s = fill_cache_flag s req (st_cache_get_update (\<lambda>n. n + 1)) (st_db_get_update (\<lambda>n. n + 1));
       key \<leftarrow> rd mem (p + 4) (unat ksize);
       (hit, val, vsize) \<leftarrow> cache_get (sv_cache s) key;
       if cache_only req \<and> hit = 0 then
         Some (reply_mini (bump s (st_cache_misses_update (\<lambda>n. n + 1))) req REP_CACHE_MISS)
       else if \<not> cache_only req \<and> hit = 0 then
         queued_or_err req (put_in_queue s req REQ_GET True (Some key) None)
       else reply_long (bump s (st_cache_hits_update (\<lambda>n. n + 1))) req REP_CACHE_HIT val vsize
     }
   }"

definition parse_set :: "server \<Rightarrow> req_info \<Rightarrow> bytes \<Rightarrow> server option" where
  "parse_set s req mem = do {
     p \<leftarrow> r_payload req;
     ksize \<leftarrow> load_size mem p;
     vsize \<leftarrow> load_size mem (p + 4);
     let max = 65536;
     if r_psize req < ucast ksize \<or> r_psize req < ucast vsize \<or> ksize > max \<or> vsize > max \<or>
       ksize + vsize > max
     then Some (broken s req)
     else if se_read_only (sv_settings s) then Some (reply_err s req ERR_RO)
     else do {
       let s = fill_cache_flag s req (st_cache_set_update (\<lambda>n. n + 1)) (st_db_set_update (\<lambda>n. n + 1));
       key \<leftarrow> rd mem (p + 8) (unat ksize);
       val \<leftarrow> rd mem (p + 8 + unat ksize) (unat vsize);
       (rv, c, ms) \<leftarrow> cache_set (sv_cache s) key val (sv_ms s);
       let s = s\<lparr>sv_cache := c, sv_ms := ms\<rparr>;
       if rv \<noteq> 0 then Some (reply_err s req ERR_MEM)
       else if \<not> cache_only req then do {
         (rv, s) \<leftarrow> put_in_queue s req REQ_SET (sync req) (Some key) (Some val);
         if \<not> rv then Some (reply_err s req ERR_MEM)
         else if \<not> sync req then Some (reply_mini s req REP_OK)
         else Some s
       }
       else Some (reply_mini s req REP_OK)
     }
   }"

definition parse_del :: "server \<Rightarrow> req_info \<Rightarrow> bytes \<Rightarrow> server option" where
  "parse_del s req mem = do {
     p \<leftarrow> r_payload req;
     ksize \<leftarrow> load_size mem p;
     if r_psize req < ucast ksize then Some (broken s req)
     else if se_read_only (sv_settings s) then Some (reply_err s req ERR_RO)
     else do {
       let s = fill_cache_flag s req (st_cache_del_update (\<lambda>n. n + 1)) (st_db_del_update (\<lambda>n. n + 1));
       key \<leftarrow> rd mem (p + 4) (unat ksize);
       (hit, c) \<leftarrow> cache_del (sv_cache s) key;
       let s = s\<lparr>sv_cache := c\<rparr>;
       if cache_only req \<and> hit \<noteq> 0 then Some (reply_mini s req REP_OK)
       else if cache_only req \<and> hit = 0 then Some (reply_mini s req REP_NOTIN)
       else do {
         (rv, s) \<leftarrow> put_in_queue s req REQ_DEL (sync req) (Some key) None;
         if \<not> rv then Some (reply_err s req ERR_MEM)
         else if \<not> sync req then Some (reply_mini s req REP_OK)
         else Some s
       }
     }
   }"

definition parse_cas :: "server \<Rightarrow> req_info \<Rightarrow> bytes \<Rightarrow> server option" where
  "parse_cas s req mem = do {
     p \<leftarrow> r_payload req;
     ksize \<leftarrow> load_size mem p;
     ovsize \<leftarrow> load_size mem (p + 4);
     nvsize \<leftarrow> load_size mem (p + 8);
     let max = 65536;
     if r_psize req < ucast ksize \<or> r_psize req < ucast ovsize \<or> r_psize req < ucast nvsize \<or>
       ksize > max \<or> ovsize > max \<or> nvsize > max \<or> ksize + ovsize + nvsize > max
     then Some (broken s req)
     else if se_read_only (sv_settings s) then Some (reply_err s req ERR_RO)
     else do {
       let s = fill_cache_flag s req (st_cache_cas_update (\<lambda>n. n + 1)) (st_db_cas_update (\<lambda>n. n + 1));
       key \<leftarrow> rd mem (p + 12) (unat ksize);
       oldval \<leftarrow> rd mem (p + 12 + unat ksize) (unat ovsize);
       newval \<leftarrow> rd mem (p + 12 + unat ksize + unat ovsize) (unat nvsize);
       (rv, c, ms) \<leftarrow> cache_cas (sv_cache s) key oldval newval (sv_ms s);
       let s = s\<lparr>sv_cache := c, sv_ms := ms\<rparr>;
       if rv = - 1 then Some (reply_mini s req REP_NOMATCH)
       else if rv = - 3 then Some (reply_err s req ERR_MEM)
       else if cache_only req then
         (if rv = 0 then Some (reply_mini s req REP_OK) else Some (reply_mini s req REP_NOTIN))
       else queued_or_err req
         (put_in_queue_long s req REQ_CAS True (Some key) (Some oldval) (Some newval))
     }
   }"

text \<open>The sum \<^verbatim>\<open>ksize + 8\<close> is an unsigned 32-bit sum.\<close>

definition parse_incr :: "server \<Rightarrow> req_info \<Rightarrow> bytes \<Rightarrow> server option" where
  "parse_incr s req mem = do {
     p \<leftarrow> r_payload req;
     ksize \<leftarrow> load_size mem p;
     let max = 65536;
     if r_psize req < ucast (ksize + 8) \<or> ksize + 8 > max then Some (broken s req)
     else if se_read_only (sv_settings s) then Some (reply_err s req ERR_RO)
     else do {
       let s = fill_cache_flag s req (st_cache_incr_update (\<lambda>n. n + 1)) (st_db_incr_update (\<lambda>n. n + 1));
       increment \<leftarrow> load64 mem (p + 4 + unat ksize);
       let increment = ntohll increment;
       key \<leftarrow> rd mem (p + 4) (unat ksize);
       (cres, newval, c, ms) \<leftarrow> cache_incr (sv_cache s) key increment (sv_ms s);
       let s = s\<lparr>sv_cache := c, sv_ms := ms\<rparr>;
       if cres = - 3 then Some (reply_err s req ERR_MEM)
       else if cres = - 2 then Some (reply_mini s req REP_NOMATCH)
       else if \<not> cache_only req then
         queued_or_err req (put_in_queue s req REQ_INCR True (Some key) (Some (store64 increment)))
       else if cres = - 1 then Some (reply_mini s req REP_NOTIN)
       else do {
         newval \<leftarrow> newval;
         reply_long s req REP_OK (Some (store64 (htonll newval))) 8
       }
     }
   }"

definition parse_firstkey :: "server \<Rightarrow> req_info \<Rightarrow> server option" where
  "parse_firstkey s req =
     (let s = bump s (st_db_firstkey_update (\<lambda>n. n + 1)) in
      queued_or_err req (put_in_queue s req REQ_FIRSTKEY True None None))"

definition parse_nextkey :: "server \<Rightarrow> req_info \<Rightarrow> bytes \<Rightarrow> server option" where
  "parse_nextkey s req mem = do {
     p \<leftarrow> r_payload req;
     ksize \<leftarrow> load_size mem p;
     if r_psize req < ucast ksize then Some (broken s req)
     else do {
       let s = bump s (st_db_nextkey_update (\<lambda>n. n + 1));
       key \<leftarrow> rd mem (p + 4) (unat ksize);
       queued_or_err req (put_in_queue s req REQ_NEXTKEY True (Some key) None)
     }
   }"

definition stats_fields :: "stats \<Rightarrow> u64 list" where
  "stats_fields st = [st_cache_get st, st_cache_set st, st_cache_del st, st_cache_cas st, st_cache_incr st,
     st_db_get st, st_db_set st, st_db_del st, st_db_cas st, st_db_incr st,
     st_cache_hits st, st_cache_misses st, st_db_hits st, st_db_misses st,
     st_msg_tipc st, st_msg_tcp st, st_msg_udp st, st_msg_sctp st,
     st_net_version_mismatch st, st_net_broken_req st, st_net_unk_req st,
     st_db_firstkey st, st_db_nextkey st]"

definition parse_stats :: "server \<Rightarrow> req_info \<Rightarrow> server option" where
  "parse_stats s req =
     (let response = concat (map (\<lambda>x. store64 (htonll x)) (stats_fields (sv_stats s))) in
      reply_long s req REP_OK (Some response) (of_nat (STATS_REPLY_SIZE * 8)))"

section \<open>Dispatch\<close>

definition parse_message :: "server \<Rightarrow> req_info \<Rightarrow> bytes \<Rightarrow> u64 \<Rightarrow> (int \<times> req_info \<times> server) option" where
  "parse_message s req mem len = do {
     hdr \<leftarrow> load32 mem 0;
     let hdr = htonl hdr;
     let ver = drop_bit 28 (hdr AND 0xF0000000);
     let id = hdr AND 0x0FFFFFFF;
     let req = req\<lparr>r_id := id\<rparr>;
     cmd \<leftarrow> load16 mem 4;
     flags \<leftarrow> load16 mem 6;
     let cmd = ntohs cmd;
     let flags = ntohs flags;
     if ver \<noteq> PROTO_VER then
       Some (0, req, reply_err (bump s (st_net_version_mismatch_update (\<lambda>n. n + 1))) req ERR_VER)
     else do {
       let psize = len - 8;
       let req = req\<lparr>r_id := htonl id, r_cmd := cmd, r_flags := flags, r_payload := Some 8, r_psize := psize\<rparr>;
       s \<leftarrow> (if cmd = REQ_GET then parse_get s req mem
         else if cmd = REQ_SET then parse_set s req mem
         else if cmd = REQ_DEL then parse_del s req mem
         else if cmd = REQ_CAS then parse_cas s req mem
         else if cmd = REQ_INCR then parse_incr s req mem
         else if cmd = REQ_FIRSTKEY then parse_firstkey s req
         else if cmd = REQ_NEXTKEY then parse_nextkey s req mem
         else if cmd = REQ_STATS then parse_stats s req
         else Some (reply_err (bump s (st_net_unk_req_update (\<lambda>n. n + 1))) req ERR_UNKREQ));
       Some (1, req, s)
     }
   }"

end
