(* ===== verification/Recv.thy ===== *)
theory Recv
  imports Parse
begin

text \<open>
  The receiving halves of the transports: \<^verbatim>\<open>tipc_recv()\<close>, \<^verbatim>\<open>udp_recv()\<close>, \<^verbatim>\<open>sctp_recv()\<close>,
  and for TCP \<^verbatim>\<open>tcp_newconnection()\<close>, \<^verbatim>\<open>tcp_recv()\<close> and \<^verbatim>\<open>process_buf()\<close>, which cuts the byte
  stream into messages. What the kernel delivers (data, an error, the peer's address, the
  outcome of \<^verbatim>\<open>accept()\<close> and \<^verbatim>\<open>fcntl()\<close>) is a parameter of each call. A datagram longer than the
  buffer is cut by the kernel.
\<close>

section \<open>Receiving\<close>

definition SBSIZE :: nat where "SBSIZE = 68 * 1024"

datatype recv_result = RecvErr int | Recv bytes bytes

text \<open>The buffer after \<^verbatim>\<open>recv()\<close> stored \<open>bs\<close> at its start.\<close>

definition recv_into :: "bytes \<Rightarrow> bytes \<Rightarrow> bytes" where
  "recv_into buf bs = take SBSIZE bs @ drop (length (take SBSIZE bs)) buf"

text \<open>
  The local \<^verbatim>\<open>struct req_info req\<close> is not initialised; \<^verbatim>\<open>parse_message()\<close> assigns the fields
  that are zero here before anything reads them.
\<close>

definition make_req :: "transport \<Rightarrow> int \<Rightarrow> bytes \<Rightarrow> req_info" where
  "make_req t fd clisa = \<lparr>r_fd = fd, r_type = REQTYPE t, r_clisa = Some clisa, r_clilen = of_nat (length clisa),
     r_id = 0, r_cmd = 0, r_flags = 0, r_payload = None, r_psize = 0,
     r_reply_mini = t, r_reply_err = t, r_reply_long = t\<rparr>"

definition udp_recv :: "server \<Rightarrow> int \<Rightarrow> recv_result \<Rightarrow> server option" where
  "udp_recv s fd r = (case r of
     RecvErr errno \<Rightarrow> Some s
   | Recv bs clisa \<Rightarrow>
       let buf = recv_into (sv_bufs s UDP) bs; rv = length (take SBSIZE bs);
         s = s\<lparr>sv_bufs := (sv_bufs s)(UDP := buf)\<rparr> in
       if rv < 8 then Some (bump s (st_net_broken_req_update (\<lambda>n. n + 1)))
       else do {
         let s = bump s (st_msg_udp_update (\<lambda>n. n + 1));
         (_, _, s) \<leftarrow> parse_message s (make_req UDP fd clisa) buf (of_nat rv);
         Some s
       })"

definition sctp_recv :: "server \<Rightarrow> int \<Rightarrow> recv_result \<Rightarrow> server option" where
  "sctp_recv s fd r = (case r of
     RecvErr errno \<Rightarrow> Some s
   | Recv bs clisa \<Rightarrow>
       let buf = recv_into (sv_bufs s SCTP) bs; rv = length (take SBSIZE bs);
         s = s\<lparr>sv_bufs := (sv_bufs s)(SCTP := buf)\<rparr> in
       if rv < 8 then Some (bump s (st_net_broken_req_update (\<lambda>n. n + 1)))
       else do {
         let s = bump s (st_msg_sctp_update (\<lambda>n. n + 1));
         (_, _, s) \<leftarrow> parse_message s (make_req SCTP fd clisa) buf (of_nat rv);
         Some s
       })"

text \<open>TIPC returns undeliverable messages as empty ones, which are ignored.\<close>

definition tipc_recv :: "server \<Rightarrow> int \<Rightarrow> recv_result \<Rightarrow> server option" where
  "tipc_recv s fd r = (case r of
     RecvErr errno \<Rightarrow> Some s
   | Recv bs clisa \<Rightarrow>
       let buf = recv_into (sv_bufs s TIPC) bs; rv = length (take SBSIZE bs);
         s = s\<lparr>sv_bufs := (sv_bufs s)(TIPC := buf)\<rparr> in
       if rv = 0 then Some s
       else if rv < 8 then Some (bump s (st_net_broken_req_update (\<lambda>n. n + 1)))
       else do {
         let s = bump s (st_msg_tipc_update (\<lambda>n. n + 1));
         (_, _, s) \<leftarrow> parse_message s (make_req TIPC fd clisa) buf (of_nat rv);
         Some s
       })"

section \<open>TCP\<close>

record tcp_socket =
  ts_fd :: int
  ts_clisa :: bytes
  ts_clilen :: u32
  ts_buf :: "bytes option"
  ts_pktsize :: u64
  ts_len :: u64
  ts_req :: req_info
  ts_excess :: u64

definition init_req :: "tcp_socket \<Rightarrow> tcp_socket" where
  "init_req ts = ts\<lparr>ts_req := (ts_req ts)\<lparr>r_fd := ts_fd ts, r_type := REQTYPE TCP,
     r_clisa := Some (ts_clisa ts), r_clilen := ts_clilen ts,
     r_reply_mini := TCP, r_reply_err := TCP, r_reply_long := TCP\<rparr>\<rparr>"

text \<open>
  \<^verbatim>\<open>accept()\<close> gives a descriptor and the peer's address; \<open>nonblock\<close> says whether \<^verbatim>\<open>fcntl()\<close>
  returned 0. \<open>None\<close> in the first component means that no connection was set up.
\<close>

definition tcp_newconnection :: "server \<Rightarrow> int \<Rightarrow> bytes \<Rightarrow> bool \<Rightarrow> tcp_socket option \<times> server" where
  "tcp_newconnection s newfd clisa nonblock =
     (let (ok, ms) = malloc (sv_ms s); s = s\<lparr>sv_ms := ms\<rparr> in
      if \<not> ok then (None, s)
      else let (ok, ms) = malloc (sv_ms s); s = s\<lparr>sv_ms := ms\<rparr> in
        if \<not> ok then (None, s)
        else if \<not> nonblock then (None, s)
        else (Some \<lparr>ts_fd = newfd, ts_clisa = clisa, ts_clilen = of_nat (length clisa), ts_buf = None,
          ts_pktsize = 0, ts_len = 0, ts_req = make_req TCP newfd clisa, ts_excess = 0\<rparr>, s))"

text \<open>
  \<^verbatim>\<open>process_buf()\<close> works on the socket's own buffer (\<open>own\<close>) or on the static one. The result
  is the socket, or \<open>None\<close> when the connection was closed and the socket freed.
\<close>

definition tcp_buf :: "server \<Rightarrow> tcp_socket \<Rightarrow> bool \<Rightarrow> bytes option" where
  "tcp_buf s ts own = (if own then ts_buf ts else Some (sv_bufs s TCP))"

definition set_tcp_buf :: "server \<Rightarrow> tcp_socket \<Rightarrow> bool \<Rightarrow> bytes \<Rightarrow> tcp_socket \<times> server" where
  "set_tcp_buf s ts own b = (if own then (ts\<lparr>ts_buf := Some b\<rparr>, s)
     else (ts, s\<lparr>sv_bufs := (sv_bufs s)(TCP := b)\<rparr>))"

definition memmove_front :: "bytes \<Rightarrow> nat \<Rightarrow> nat \<Rightarrow> bytes option" where
  "memmove_front b off n = map_option (\<lambda>x. x @ drop n b) (rd b off n)"

text \<open>
  What a block of \<open>n\<close> bytes that \<^verbatim>\<open>malloc()\<close> has just returned holds: anything. The contents of
  the blocks to come are a list, zeros when it is used up.
\<close>

definition fresh_block :: "nat \<Rightarrow> server \<Rightarrow> bytes \<times> server" where
  "fresh_block n s = (case sv_fresh s of
     [] \<Rightarrow> (replicate n 0, s)
   | b # bs \<Rightarrow> (take n (b @ replicate n 0), s\<lparr>sv_fresh := bs\<rparr>))"

lemma fresh_blockE:
  obtains blk fr where "fresh_block n s = (blk, s\<lparr>sv_fresh := fr\<rparr>)" and "length blk = n"
proof (cases "sv_fresh s")
  case Nil
  have "s = s\<lparr>sv_fresh := sv_fresh s\<rparr>" by simp
  with Nil show ?thesis by (intro that [of "replicate n 0" "sv_fresh s"]) (simp_all add: fresh_block_def)
next
  case (Cons b bs)
  then show ?thesis by (intro that [of "take n (b @ replicate n 0)" bs]) (simp_all add: fresh_block_def)
qed

definition save_partial :: "server \<Rightarrow> tcp_socket \<Rightarrow> bytes \<Rightarrow> u64 \<Rightarrow> u32 \<Rightarrow> (tcp_socket option \<times> server) option" where
  "save_partial s ts buf len totaltoget =
     (if ts_buf ts = None then
        (let (ok, ms) = malloc (sv_ms s); s = s\<lparr>sv_ms := ms\<rparr> in
         if \<not> ok then Some (None, s)
         else do {
           let (blk, s) = fresh_block SBSIZE s;
           b \<leftarrow> rd buf 0 (unat len);
           blk \<leftarrow> memcpy (Some blk) b;
           Some (Some (ts\<lparr>ts_buf := Some blk, ts_len := len, ts_pktsize := ucast totaltoget\<rparr>), s)
         })
      else Some (Some (ts\<lparr>ts_len := len, ts_pktsize := ucast totaltoget\<rparr>), s))"

partial_function (option) process_buf ::
  "server \<Rightarrow> tcp_socket \<Rightarrow> bool \<Rightarrow> u64 \<Rightarrow> (tcp_socket option \<times> server) option" where
  "process_buf s ts own len =
     Option.bind (tcp_buf s ts own) (\<lambda>buf.
     Option.bind (if len \<ge> 4 then load_size buf 0 else Some 4) (\<lambda>totaltoget.
     if len \<ge> 4 \<and> (totaltoget > 64 * 1024 \<or> totaltoget \<le> 8) then Some (None, s)
     else if ucast totaltoget > len then save_partial s ts buf len totaltoget
     else let ts = (if ucast totaltoget < len then ts\<lparr>ts_excess := len - ucast totaltoget\<rparr> else ts);
         len = (if ucast totaltoget < len then ucast totaltoget else len);
         s = bump s (st_msg_tcp_update (\<lambda>n. n + 1)) in
       Option.bind (parse_message s (ts_req ts) (drop 4 buf) (len - 4)) (\<lambda>(r, req, s).
       let ts = ts\<lparr>ts_req := req\<rparr> in
       if r = 0 then Some (None, s)
       else if ts_excess ts \<noteq> 0 then
         Option.bind (memmove_front buf (unat len) (unat (ts_excess ts))) (\<lambda>b.
         let (ts, s) = set_tcp_buf s ts own b;
           ts = init_req (ts\<lparr>ts_len := ts_excess ts, ts_excess := 0\<rparr>) in
         process_buf s ts own len)
       else if ts_buf ts \<noteq> None then
         Some (Some (ts\<lparr>ts_buf := None, ts_len := 0, ts_pktsize := 0, ts_excess := 0\<rparr>), s)
       else Some (Some ts, s))))"

declare process_buf.simps [code]

definition tcp_recv :: "server \<Rightarrow> tcp_socket \<Rightarrow> recv_result \<Rightarrow> (tcp_socket option \<times> server) option" where
  "tcp_recv s ts r =
     (case ts_buf ts of
        None \<Rightarrow>
          (case r of
             RecvErr errno \<Rightarrow> if errno = EAGAIN then Some (Some ts, s) else Some (None, s)
           | Recv bs _ \<Rightarrow>
               let buf = recv_into (sv_bufs s TCP) bs; rv = length (take SBSIZE bs);
                 s = s\<lparr>sv_bufs := (sv_bufs s)(TCP := buf)\<rparr> in
               if rv = 0 then Some (None, s)
               else process_buf s (init_req ts) False (of_nat rv))
      | Some buf \<Rightarrow>
          let maxtoread = unat (ts_pktsize ts - ts_len ts) in
          (case r of
             RecvErr errno \<Rightarrow> if errno = EAGAIN then Some (Some ts, s) else Some (None, s)
           | Recv bs _ \<Rightarrow>
               let bs = take maxtoread bs; rv = length bs in
               if length buf < unat (ts_len ts) + rv then None
               else let buf = take (unat (ts_len ts)) buf @ bs @ drop (unat (ts_len ts) + rv) buf in
               if rv = 0 then Some (None, s)
               else let ts = ts\<lparr>ts_buf := Some buf, ts_len := ts_len ts + of_nat rv\<rparr> in
                 process_buf s ts True (ts_len ts)))"

end
