(* ===== verification/Proto.thy ===== *)
theory Proto
  imports Cache_Theorems Recv
begin

text \<open>
  The protocol seen from outside: the requests that read or change the store, the messages
  that carry them (\<^verbatim>\<open>doc/network.rst\<close> and the comments in \<^verbatim>\<open>parse.c\<close>), and what a store that
  executes requests one after the other holds and answers. The operations are those of the
  cache's reference store; a flag says whether the request is synchronous.
\<close>

section \<open>Messages\<close>

definition hdr32 :: "u32 \<Rightarrow> u32" where
  "hdr32 rid = push_bit 28 PROTO_VER OR rid"

definition header :: "u32 \<Rightarrow> u16 \<Rightarrow> u16 \<Rightarrow> bytes" where
  "header rid cmd flags = store32 (htonl (hdr32 rid)) @ store16 (htons cmd) @ store16 (htons flags)"

definition be32 :: "nat \<Rightarrow> bytes" where
  "be32 n = store32 (htonl (of_nat n))"

fun op_cmd :: "cache_op \<Rightarrow> u16" where
  "op_cmd (CGet k) = REQ_GET"
| "op_cmd (CSet k v) = REQ_SET"
| "op_cmd (CDel k) = REQ_DEL"
| "op_cmd (CCas k ov nv) = REQ_CAS"
| "op_cmd (CIncr k i) = REQ_INCR"

fun op_flags :: "bool \<Rightarrow> cache_op \<Rightarrow> u16" where
  "op_flags sy (CSet k v) = (if sy then FLAGS_SYNC else 0)"
| "op_flags sy (CDel k) = (if sy then FLAGS_SYNC else 0)"
| "op_flags sy _ = 0"

fun op_payload :: "cache_op \<Rightarrow> bytes" where
  "op_payload (CGet k) = be32 (length k) @ k"
| "op_payload (CSet k v) = be32 (length k) @ be32 (length v) @ k @ v"
| "op_payload (CDel k) = be32 (length k) @ k"
| "op_payload (CCas k ov nv) = be32 (length k) @ be32 (length ov) @ be32 (length nv) @ k @ ov @ nv"
| "op_payload (CIncr k i) = be32 (length k) @ k @ store64 (htonll i)"

definition encode :: "u32 \<Rightarrow> bool \<Rightarrow> cache_op \<Rightarrow> bytes" where
  "encode rid sy x = header rid (op_cmd x) (op_flags sy x) @ op_payload x"

text \<open>Requests within the sizes the protocol allows; empty values are left out.\<close>

fun op_fits :: "cache_op \<Rightarrow> bool" where
  "op_fits (CGet k) \<longleftrightarrow> length k < 2 ^ 16"
| "op_fits (CSet k v) \<longleftrightarrow> length k + length v \<le> 2 ^ 16 \<and> v \<noteq> []"
| "op_fits (CDel k) \<longleftrightarrow> length k < 2 ^ 16"
| "op_fits (CCas k ov nv) \<longleftrightarrow> length k + length ov + length nv \<le> 2 ^ 16 \<and> nv \<noteq> []"
| "op_fits (CIncr k i) \<longleftrightarrow> length k + 8 \<le> 2 ^ 16"

section \<open>What the server reads back\<close>

lemma length_header [simp]: "length (header rid cmd flags) = 8"
  by (simp add: header_def)

lemma length_be32 [simp]: "length (be32 n) = 4"
  by (simp add: be32_def)

lemma htonl_htonl [simp]: "htonl (htonl w) = w"
  using ntohl_htonl [of w] by (simp add: ntohl_def htonl_def)

lemma load32_front: "load32 (store32 w @ ys) 0 = Some w"
  using load32_store32 [of 0 "[]"] by simp

lemma load16_store16: "off = length xs \<Longrightarrow> load16 (xs @ store16 w @ ys) off = Some w"
  by (simp add: load16_def rd_def)

lemma load64_store64: "off = length xs \<Longrightarrow> load64 (xs @ store64 w @ ys) off = Some w"
  by (simp add: load64_def rd_def)

lemma load_size_be32:
  "off = length xs \<Longrightarrow> load_size (xs @ be32 n @ ys) off = Some (of_nat n)"
  by (simp add: load_size_def be32_def load32_store32 del: store32_htonl)

lemma rd_middle: "off = length xs \<Longrightarrow> n = length bs \<Longrightarrow> rd (xs @ bs @ ys) off n = Some bs"
  by (simp add: rd_def)

lemma hdr32_fields:
  assumes "rid < 2 ^ 28"
  shows "drop_bit 28 (hdr32 rid AND 0xF0000000) = 1" and "hdr32 rid AND 0x0FFFFFFF = rid"
proof -
  have m: "(0x0FFFFFFF :: u32) = mask 28"
    by (simp add: mask_eq_exp_minus_1)
  have "uint rid < 2 ^ 28" using assms by (simp add: word_less_def)
  then have "uint (take_bit 28 rid) = uint rid"
    by (simp add: unsigned_take_bit_eq take_bit_int_eq_self)
  then have t: "take_bit 28 rid = rid" by (rule unsigned_word_eqI)
  show "hdr32 rid AND 0x0FFFFFFF = rid"
    unfolding m by (simp add: hdr32_def take_bit_or t flip: take_bit_eq_mask)
  have "drop_bit 28 rid = 0"
    using t by (metis drop_bit_take_bit take_bit_0 diff_self_eq_0)
  then show "drop_bit 28 (hdr32 rid AND 0xF0000000) = 1"
    by (simp add: hdr32_def drop_bit_and drop_bit_or)
qed

end
