(* ===== verification/Parse_Queue.thy ===== *)
theory Parse_Queue
  imports Proto
begin

text \<open>
  What the handlers put into the queue: the entry that \<^verbatim>\<open>make_queue_long_entry()\<close> builds while
  memory lasts, and that \<^verbatim>\<open>put_in_queue()\<close> appends exactly that entry and leaves the lock free.
\<close>

definition mk_entry ::
  "req_info \<Rightarrow> u32 \<Rightarrow> bytes option \<Rightarrow> bytes option \<Rightarrow> bytes option \<Rightarrow> queue_entry" where
  "mk_entry req operation key val newval =
     \<lparr>qe_operation = operation, qe_req = Owned (req\<lparr>r_payload := None, r_psize := 0\<rparr>),
      qe_key = key, qe_val = val, qe_newval = newval,
      qe_ksize = opt_size key, qe_vsize = opt_size val, qe_nvsize = opt_size newval, qe_prev = None\<rparr>"

lemma malloc_copy_good:
  assumes "good ms"
  obtains ms' where "malloc_copy b ms = (True, ms')" and "good ms'"
proof (cases "b = None")
  case True
  with assms show thesis by (intro that) (simp_all add: malloc_copy_def)
next
  case False
  obtain ms' where "malloc ms = (True, ms')" "good ms'" using assms by (rule malloc_good)
  with False show thesis by (intro that [of ms']) (auto simp: malloc_copy_def)
qed

text \<open>The peer's address of a request, in full.\<close>

definition has_addr :: "req_info \<Rightarrow> bool" where
  "has_addr req \<longleftrightarrow> (\<exists>a. r_clisa req = Some a \<and> unat (r_clilen req) = length a)"

lemma make_queue_long_entry_ok:
  assumes "good ms" and "has_addr req"
  obtains ms' where "good ms'" and "make_queue_long_entry q ms req operation key val newval =
    Some (Some (q_next q), q\<lparr>q_heap := (q_heap q)(q_next q \<mapsto> mk_entry req operation key val newval),
      q_next := Suc (q_next q)\<rparr>, ms')"
proof -
  obtain a where a: "r_clisa req = Some a" "unat (r_clilen req) = length a"
    using assms(2) by (auto simp: has_addr_def)
  obtain ms1 where m1: "malloc ms = (True, ms1)" "good ms1" using assms(1) by (rule malloc_good)
  obtain ms2 where m2: "malloc_copy key ms1 = (True, ms2)" "good ms2" using m1(2) by (rule malloc_copy_good)
  obtain ms3 where m3: "malloc_copy val ms2 = (True, ms3)" "good ms3" using m2(2) by (rule malloc_copy_good)
  obtain ms4 where m4: "malloc_copy newval ms3 = (True, ms4)" "good ms4" using m3(2) by (rule malloc_copy_good)
  obtain ms5 where m5: "malloc ms4 = (True, ms5)" "good ms5" using m4(2) by (rule malloc_good)
  obtain ms6 where m6: "malloc ms5 = (True, ms6)" "good ms6" using m5(2) by (rule malloc_good)
  have eq: "req\<lparr>r_clisa := Some a, r_payload := None, r_psize := 0\<rparr> = req\<lparr>r_payload := None, r_psize := 0\<rparr>"
    using a(1) by simp
  show thesis
    by (intro that [OF m6(2)], cases q)
      (simp add: make_queue_long_entry_def queue_entry_create_def m1 m2 m3 m4 m5 m6 a rd_def upd_entry_def
        new_queue_entry_def mk_entry_def eq)
qed

lemma mk_entry_owned [simp]: "entry_owned (mk_entry req operation key val newval)"
  by (simp add: entry_owned_def mk_entry_def)

lemma body_mk_entry [simp]: "body (mk_entry req operation key val newval) = mk_entry req operation key val newval"
  by (simp add: body_def mk_entry_def)

lemma queue_grows_frame:
  assumes "queue_grows (q\<lparr>q_locked := b\<rparr>) q' es"
  shows "queue_grows q (q'\<lparr>q_locked := q_locked q\<rparr>) es"
    and "queue_grows q (q'\<lparr>q_locked := q_locked q, q_signals := n\<rparr>) es"
  using assms by (auto simp: queue_grows_def)

lemma put_in_queue_long_ok:
  assumes "queue_ok (sv_queue s)" and "\<not> q_locked (sv_queue s)" and "good (sv_ms s)" and "has_addr req"
  obtains q ms where "good ms" and "queue_grows (sv_queue s) q [mk_entry req operation key val newval]"
    and "put_in_queue_long s req operation sy key val newval = Some (True, s\<lparr>sv_queue := q, sv_ms := ms\<rparr>)"
proof -
  let ?q = "sv_queue s" and ?e = "mk_entry req operation key val newval"
  obtain ms where ms: "good ms" "make_queue_long_entry ?q (sv_ms s) req operation key val newval =
    Some (Some (q_next ?q), ?q\<lparr>q_heap := (q_heap ?q)(q_next ?q \<mapsto> ?e), q_next := Suc (q_next ?q)\<rparr>, ms)"
    using assms(3,4) by (rule make_queue_long_entry_ok)
  let ?ql = "?q\<lparr>q_locked := True\<rparr>"
  obtain q' where q': "enqueue ?ql ?e = Some q'" "queue_grows ?ql q' [?e]"
    using assms(1) by (metis enqueue_grows queue_ok_frame(1) mk_entry_owned)
  have lk: "q_locked q'" using q'(2) by (simp add: queue_grows_def)
  have "?ql\<lparr>q_heap := (q_heap ?q)(q_next ?q \<mapsto> ?e), q_next := Suc (q_next ?q)\<rparr> =
      ?q\<lparr>q_heap := (q_heap ?q)(q_next ?q \<mapsto> ?e), q_next := Suc (q_next ?q), q_locked := True\<rparr>"
    by simp
  with q'(1) have put: "queue_put (?q\<lparr>q_heap := (q_heap ?q)(q_next ?q \<mapsto> ?e), q_next := Suc (q_next ?q),
      q_locked := True\<rparr>) (Some (q_next ?q)) = Some q'"
    by (simp add: enqueue_def)
  let ?q' = "if sy then queue_signal (q'\<lparr>q_locked := False\<rparr>) else q'\<lparr>q_locked := False\<rparr>"
  have "queue_grows ?q ?q' [?e]"
    using queue_grows_frame [OF q'(2)] assms(2) by (simp add: queue_signal_def)
  moreover have "put_in_queue_long s req operation sy key val newval = Some (True, s\<lparr>sv_queue := ?q', sv_ms := ms\<rparr>)"
    using assms(2) put lk by (simp add: put_in_queue_long_def ms(2) queue_lock_def queue_unlock_def)
  ultimately show thesis using ms(1) by (intro that)
qed

lemma make_req_addr: "length a < 2 ^ 32 \<Longrightarrow> r_clisa req = Some a \<Longrightarrow> r_clilen req = of_nat (length a) \<Longrightarrow> has_addr req"
  by (simp add: has_addr_def unat_of_nat take_bit_nat_eq_self)

end
