(* ===== verification/Parse_Ok.thy ===== *)
theory Parse_Ok
  imports Parse_Queue
begin

text \<open>
  The network thread's side of the store: what handling one request does to the cache, to
  the queue and to the replies, stated against the reference store. A request is either
  answered at once from the cache, and then does not change the store, or it is queued for
  the database; an asynchronous set or delete is queued and answered at once.
\<close>

section \<open>Replies as a client reads them\<close>

datatype areply = ROk | RNotin | RNomatch | RVal bytes | ROther bytes

definition decode_reply :: "bytes \<Rightarrow> bytes \<times> areply" where
  "decode_reply b = (take 4 b,
     let code = take 4 (drop 4 b) in
     if code = be32 0x804 \<and> length b = 8 then RNotin
     else if code = be32 0x805 \<and> length b = 8 then RNomatch
     else if code = be32 0x803 \<and> length b = 8 then ROk
     else if (code = be32 0x803 \<or> code = be32 0x801) \<and> 12 \<le> length b \<and>
       take 4 (drop 8 b) = be32 (length (drop 12 b)) then RVal (drop 12 b)
     else ROther (drop 4 b))"

text \<open>Where a reply went, the request's identifier in it, and what it says.\<close>

definition pkt_view :: "packet \<Rightarrow> int \<times> bytes option \<times> bytes \<times> areply" where
  "pkt_view p = (case p of (fd, to, b) \<Rightarrow> (fd, to,
     if to \<noteq> None then decode_reply b
     else if take 4 b = be32 (length b) then decode_reply (drop 4 b)
     else ([], ROther b)))"

text \<open>
  A value from the cache and one from the database come with different codes, which
  \<open>decode_reply\<close> does not tell apart; only the first is a hit.
\<close>

definition is_hit :: "bytes \<Rightarrow> bool" where
  "is_hit r \<longleftrightarrow> take 4 (drop 4 r) = be32 0x801"

definition hit_pkt :: "packet \<Rightarrow> bool" where
  "hit_pkt p \<longleftrightarrow> (case p of (fd, to, b) \<Rightarrow> is_hit (if to \<noteq> None then b else drop 4 b))"

fun spec_reply :: "bool \<Rightarrow> cache_op \<Rightarrow> (bytes \<rightharpoonup> bytes) \<Rightarrow> areply" where
  "spec_reply sy (CGet k) m = (case m k of None \<Rightarrow> RNotin | Some v \<Rightarrow> RVal v)"
| "spec_reply sy (CSet k v) m = ROk"
| "spec_reply sy (CDel k) m = (if sy \<and> m k = None then RNotin else ROk)"
| "spec_reply sy (CCas k ov nv) m = (case m k of None \<Rightarrow> RNotin | Some v \<Rightarrow> if v = ov then ROk else RNomatch)"
| "spec_reply sy (CIncr k i) m = (case m k of None \<Rightarrow> RNotin
     | Some v \<Rightarrow> if numeric v then RVal (store64 (htonll (val_num v + i))) else RNomatch)"

text \<open>Whether the reply comes from the database thread if the request is queued.\<close>

fun late :: "bool \<Rightarrow> cache_op \<Rightarrow> bool" where
  "late sy (CSet k v) = sy"
| "late sy (CDel k) = sy"
| "late sy _ = True"

fun entry_of :: "req_info \<Rightarrow> cache_op \<Rightarrow> queue_entry" where
  "entry_of req (CGet k) = mk_entry req REQ_GET (Some k) None None"
| "entry_of req (CSet k v) = mk_entry req REQ_SET (Some k) (Some v) None"
| "entry_of req (CDel k) = mk_entry req REQ_DEL (Some k) None None"
| "entry_of req (CCas k ov nv) = mk_entry req REQ_CAS (Some k) (Some ov) (Some nv)"
| "entry_of req (CIncr k i) = mk_entry req REQ_INCR (Some k) (Some (store64 i)) None"

definition dest :: "req_info \<Rightarrow> bytes option" where
  "dest req = (if r_reply_mini req = TCP then None else r_clisa req)"

text \<open>A request as the transports fill it in: one transport's functions, the peer's address.\<close>

definition req_ok :: "req_info \<Rightarrow> bool" where
  "req_ok req \<longleftrightarrow> has_addr req \<and> r_reply_err req = r_reply_mini req \<and> r_reply_long req = r_reply_mini req"

definition srv_ok :: "server \<Rightarrow> bool" where
  "srv_ok s \<longleftrightarrow> cache_wf (sv_cache s) \<and> queue_ok (sv_queue s) \<and> \<not> q_locked (sv_queue s) \<and> good (sv_ms s) \<and>
     sv_sends s = [] \<and> \<not> se_passive (sv_settings s) \<and> \<not> se_read_only (sv_settings s)"

definition handled :: "server \<Rightarrow> server \<Rightarrow> req_info \<Rightarrow> bool \<Rightarrow> cache_op \<Rightarrow> (bytes \<rightharpoonup> bytes) \<Rightarrow> bool" where
  "handled s s' req sy x m \<longleftrightarrow> srv_ok s' \<and> lookup (sv_cache s') \<subseteq>\<^sub>m ref_step x m \<and>
     (\<exists>ps. sv_out s' = sv_out s @ ps \<and>
        (if queue_grows (sv_queue s) (sv_queue s') [] then
           ref_step x m = m \<and> map pkt_view ps = [(r_fd req, dest req, store32 (r_id req), spec_reply sy x m)]
         else queue_grows (sv_queue s) (sv_queue s') [entry_of req x] \<and>
           map pkt_view ps = (if late sy x then []
             else [(r_fd req, dest req, store32 (r_id req), spec_reply sy x m)])) \<and>
        (\<forall>p\<in>set ps. hit_pkt p \<longrightarrow> (\<exists>k. x = CGet k)))"

section \<open>Sending and reading back\<close>

lemma be32_codes:
  "be32 0x803 = [0, 0, 8, 3]" "be32 0x804 = [0, 0, 8, 4]" "be32 0x805 = [0, 0, 8, 5]" "be32 0x801 = [0, 0, 8, 1]"
  unfolding be32_def store32_htonl by (simp_all add: mem_simps)

lemma store32_htonl_codes:
  "store32 (htonl REP_OK) = [0, 0, 8, 3]" "store32 (htonl REP_NOTIN) = [0, 0, 8, 4]"
  "store32 (htonl REP_NOMATCH) = [0, 0, 8, 5]" "store32 (htonl REP_CACHE_HIT) = [0, 0, 8, 1]"
  unfolding store32_htonl by (simp_all add: mem_simps)

lemma decode_mini:
  "decode_reply (store32 i @ store32 (htonl REP_OK)) = (store32 i, ROk)"
  "decode_reply (store32 i @ store32 (htonl REP_NOTIN)) = (store32 i, RNotin)"
  "decode_reply (store32 i @ store32 (htonl REP_NOMATCH)) = (store32 i, RNomatch)"
  by (simp_all add: decode_reply_def be32_codes store32_htonl_codes del: store32_htonl)

lemma decode_long:
  "decode_reply (store32 i @ store32 (htonl REP_OK) @ store32 (htonl (of_nat (length v))) @ v) = (store32 i, RVal v)"
  "decode_reply (store32 i @ store32 (htonl REP_CACHE_HIT) @ store32 (htonl (of_nat (length v))) @ v) = (store32 i, RVal v)"
  by (simp_all add: decode_reply_def be32_codes store32_htonl_codes be32_def del: store32_htonl)

lemma emit_view:
  assumes "\<not> se_passive (sv_settings s)" and "has_addr req" and "t = r_reply_mini req"
  shows "\<exists>p. emit s req t b = s\<lparr>sv_out := sv_out s @ [p]\<rparr> \<and> pkt_view p = (r_fd req, dest req, decode_reply b) \<and>
    hit_pkt p = is_hit b"
  using assms by (auto simp: emit_def pkt_view_def hit_pkt_def frame_def dest_def has_addr_def be32_def simp del: store32_htonl)

lemma store32_eq_iff: "store32 a = store32 b \<longleftrightarrow> a = b"
  by (metis load32_front append_Nil2 option.inject)

lemma not_hit_code: "r \<noteq> REP_CACHE_HIT \<Longrightarrow> \<not> is_hit (store32 i @ store32 (htonl r) @ rest)"
proof -
  assume r: "r \<noteq> REP_CACHE_HIT"
  have "htonl r \<noteq> htonl REP_CACHE_HIT" using r by (metis htonl_htonl)
  then show ?thesis by (simp add: is_hit_def be32_def store32_eq_iff del: store32_htonl)
qed

lemma rep_not_hit: "REP_OK \<noteq> REP_CACHE_HIT" "REP_NOTIN \<noteq> REP_CACHE_HIT" "REP_NOMATCH \<noteq> REP_CACHE_HIT"
  by simp_all

lemma reply_mini_view:
  assumes "sv_sends s = []" and "\<not> se_passive (sv_settings s)" and "req_ok req"
  obtains p where "reply_mini s req r = s\<lparr>sv_out := sv_out s @ [p]\<rparr>"
    and "pkt_view p = (r_fd req, dest req, decode_reply (store32 (r_id req) @ store32 (htonl r)))"
    and "r \<noteq> REP_CACHE_HIT \<Longrightarrow> \<not> hit_pkt p"
proof -
  let ?b = "store32 (r_id req) @ store32 (htonl r)"
  have "\<exists>p. emit s req (r_reply_mini req) ?b = s\<lparr>sv_out := sv_out s @ [p]\<rparr> \<and>
      pkt_view p = (r_fd req, dest req, decode_reply ?b) \<and> hit_pkt p = is_hit ?b"
    by (rule emit_view) (use assms in \<open>simp_all add: req_ok_def\<close>)
  then obtain p where p: "emit s req (r_reply_mini req) ?b = s\<lparr>sv_out := sv_out s @ [p]\<rparr>"
    "pkt_view p = (r_fd req, dest req, decode_reply ?b)" "hit_pkt p = is_hit ?b" by blast
  moreover have "reply_mini s req r = emit s req (r_reply_mini req) ?b" using assms(1) by (rule reply_mini_wire)
  ultimately show thesis using not_hit_code [of r "r_id req" "[]"] by (intro that [of p]) simp_all
qed

lemma reply_long_view:
  assumes "sv_sends s = []" and "\<not> se_passive (sv_settings s)" and "req_ok req" and "good (sv_ms s)"
    and "length v < 2 ^ 32"
  obtains p ms where "good ms" and "reply_long s req r (Some v) (sz v) = Some (s\<lparr>sv_ms := ms, sv_out := sv_out s @ [p]\<rparr>)"
    and "pkt_view p = (r_fd req, dest req, decode_reply (store32 (r_id req) @ store32 (htonl r) @
      store32 (htonl (of_nat (length v))) @ v))"
    and "r \<noteq> REP_CACHE_HIT \<Longrightarrow> \<not> hit_pkt p"
proof -
  let ?b = "store32 (r_id req) @ store32 (htonl r) @ store32 (htonl (of_nat (length v))) @ v"
  obtain ms where ms: "good ms" "reply_long s req r (Some v) (sz v) =
      Some (emit (s\<lparr>sv_ms := ms\<rparr>) req (r_reply_long req) ?b)"
    using assms(1,4,5) by (rule reply_long_wire)
  have "\<exists>p. emit (s\<lparr>sv_ms := ms\<rparr>) req (r_reply_long req) ?b =
      s\<lparr>sv_ms := ms, sv_out := sv_out s @ [p]\<rparr> \<and> pkt_view p = (r_fd req, dest req, decode_reply ?b) \<and> hit_pkt p = is_hit ?b"
    using emit_view [of "s\<lparr>sv_ms := ms\<rparr>" req "r_reply_long req" ?b] assms(2,3) by (simp add: req_ok_def)
  with ms that not_hit_code show thesis by metis
qed

section \<open>Steps of the handlers\<close>

lemma bump_simps [simp]:
  "sv_cache (bump s f) = sv_cache s" "sv_queue (bump s f) = sv_queue s" "sv_out (bump s f) = sv_out s"
  "sv_ms (bump s f) = sv_ms s" "sv_sends (bump s f) = sv_sends s" "sv_settings (bump s f) = sv_settings s"
  by (simp_all add: bump_def)

lemma srv_ok_bump [simp]: "srv_ok (bump s f) = srv_ok s"
  by (simp add: srv_ok_def)

lemma fill_cache_flag_bump: "\<not> cache_only req \<Longrightarrow> fill_cache_flag s req c d = bump s d"
  by (simp add: fill_cache_flag_def)

lemma queue_step:
  assumes "srv_ok s" and "req_ok req"
  obtains s' where "put_in_queue_long s req operation b key val newval = Some (True, s')" and "srv_ok s'"
    and "sv_cache s' = sv_cache s" and "sv_out s' = sv_out s"
    and "queue_grows (sv_queue s) (sv_queue s') [mk_entry req operation key val newval]"
proof -
  have a: "queue_ok (sv_queue s)" "\<not> q_locked (sv_queue s)" "good (sv_ms s)" "has_addr req"
    using assms by (simp_all add: srv_ok_def req_ok_def)
  obtain q ms where q: "good ms" "queue_grows (sv_queue s) q [mk_entry req operation key val newval]"
    "put_in_queue_long s req operation b key val newval = Some (True, s\<lparr>sv_queue := q, sv_ms := ms\<rparr>)"
    using a by (rule put_in_queue_long_ok)
  then show thesis
    using assms(1) by (intro that [OF q(3)]) (auto simp: srv_ok_def queue_grows_def)
qed

lemma reply_mini_step:
  assumes "srv_ok s" and "req_ok req"
  obtains p where "reply_mini s req r = s\<lparr>sv_out := sv_out s @ [p]\<rparr>"
    and "srv_ok (s\<lparr>sv_out := sv_out s @ [p]\<rparr>)"
    and "pkt_view p = (r_fd req, dest req, decode_reply (store32 (r_id req) @ store32 (htonl r)))"
    and "r \<noteq> REP_CACHE_HIT \<Longrightarrow> \<not> hit_pkt p"
proof -
  have a: "sv_sends s = []" "\<not> se_passive (sv_settings s)" using assms(1) by (simp_all add: srv_ok_def)
  show thesis
    by (rule reply_mini_view [OF a assms(2), of r]) (use assms(1) in \<open>auto intro!: that simp: srv_ok_def\<close>)
qed

lemma reply_long_step:
  assumes "srv_ok s" and "req_ok req" and "length v < 2 ^ 32"
  obtains p s' where "reply_long s req r (Some v) (sz v) = Some s'" and "srv_ok s'"
    and "sv_cache s' = sv_cache s" and "sv_queue s' = sv_queue s" and "sv_out s' = sv_out s @ [p]"
    and "pkt_view p = (r_fd req, dest req, decode_reply (store32 (r_id req) @ store32 (htonl r) @
      store32 (htonl (of_nat (length v))) @ v))"
    and "r \<noteq> REP_CACHE_HIT \<Longrightarrow> \<not> hit_pkt p"
proof -
  have a: "sv_sends s = []" "\<not> se_passive (sv_settings s)" "good (sv_ms s)"
    using assms(1) by (simp_all add: srv_ok_def)
  obtain p ms where p: "good ms" "reply_long s req r (Some v) (sz v) = Some (s\<lparr>sv_ms := ms, sv_out := sv_out s @ [p]\<rparr>)"
    "pkt_view p = (r_fd req, dest req, decode_reply (store32 (r_id req) @ store32 (htonl r) @
      store32 (htonl (of_nat (length v))) @ v))" "r \<noteq> REP_CACHE_HIT \<Longrightarrow> \<not> hit_pkt p"
    using a(1,2) assms(2) a(3) assms(3) by (rule reply_long_view [where r = r]) blast
  then show thesis using assms(1) by (intro that [OF p(2)]) (simp_all add: srv_ok_def)
qed

lemma handled_answer:
  assumes "srv_ok s'" and "queue_ok (sv_queue s)" and "lookup (sv_cache s') \<subseteq>\<^sub>m m" and "ref_step x m = m"
    and "sv_queue s' = sv_queue s" and "sv_out s' = sv_out s @ [p]"
    and "pkt_view p = (r_fd req, dest req, store32 (r_id req), spec_reply sy x m)"
    and "hit_pkt p \<Longrightarrow> \<exists>k. x = CGet k"
  shows "handled s s' req sy x m"
  using assms by (simp add: handled_def queue_grows_refl)

lemma queue_grows_one: "queue_grows q q' [e] \<Longrightarrow> \<not> queue_grows q q' []"
  by (simp add: queue_grows_def)

lemma handled_late:
  assumes "srv_ok s'" and "lookup (sv_cache s') \<subseteq>\<^sub>m ref_step x m" and "late sy x" and "sv_out s' = sv_out s"
    and "queue_grows (sv_queue s) (sv_queue s') [entry_of req x]"
  shows "handled s s' req sy x m"
  using assms by (simp add: handled_def queue_grows_one)

lemma handled_early:
  assumes "srv_ok s'" and "lookup (sv_cache s') \<subseteq>\<^sub>m ref_step x m" and "\<not> late sy x"
    and "sv_out s' = sv_out s @ [p]" and "pkt_view p = (r_fd req, dest req, store32 (r_id req), spec_reply sy x m)"
    and "queue_grows (sv_queue s) (sv_queue s') [entry_of req x]" and "\<not> hit_pkt p"
  shows "handled s s' req sy x m"
  using assms by (simp add: handled_def queue_grows_one)

section \<open>The handlers\<close>

definition vals_ok :: "(bytes \<rightharpoonup> bytes) \<Rightarrow> bool" where
  "vals_ok m \<longleftrightarrow> (\<forall>k v. m k = Some v \<longrightarrow> v \<noteq> [] \<and> length v \<le> 2 ^ 16)"

definition call_ok :: "server \<Rightarrow> (bytes \<rightharpoonup> bytes) \<Rightarrow> req_info \<Rightarrow> bool \<Rightarrow> cache_op \<Rightarrow> bool" where
  "call_ok s m req sy x \<longleftrightarrow> srv_ok s \<and> lookup (sv_cache s) \<subseteq>\<^sub>m m \<and> vals_ok m \<and> req_ok req \<and>
     r_payload req = Some 8 \<and> r_psize req = of_nat (length (op_payload x)) \<and>
     r_flags req = op_flags sy x \<and> op_fits x"

lemma call_okD:
  assumes "call_ok s m req sy x"
  shows "srv_ok s" "lookup (sv_cache s) \<subseteq>\<^sub>m m" "vals_ok m" "req_ok req" "r_payload req = Some 8"
    "r_psize req = of_nat (length (op_payload x))" "r_flags req = op_flags sy x" "op_fits x"
    "queue_ok (sv_queue s)" "cache_wf (sv_cache s)" "good (sv_ms s)" "\<not> se_read_only (sv_settings s)"
  using assms by (simp_all add: call_ok_def srv_ok_def)

lemma call_not_cache_only:
  "call_ok s m req sy x \<Longrightarrow> \<not> cache_only req"
  by (cases x) (auto simp: call_ok_def cache_only_def)

lemma unat_of_nat_u32: "n < 2 ^ 32 \<Longrightarrow> unat (of_nat n :: u32) = n"
  by (simp add: unat_of_nat take_bit_nat_eq_self)

lemma size_ok:
  assumes "n \<le> p" and "p < 2 ^ 32"
  shows "\<not> (of_nat p :: u64) < ucast (of_nat n :: u32)"
  using assms by (simp add: word_less_nat_alt unat_ucast_u32_u64 unat_of_nat_u32 unat_of_nat_u64)

lemma size_max: "n \<le> 65536 \<Longrightarrow> \<not> (of_nat n :: u32) > 65536"
  by (simp add: word_less_nat_alt unat_of_nat_u32)

lemma parse_get_ok:
  assumes c: "call_ok s m req sy (CGet k)" and h: "length h = 8"
  shows "\<exists>s'. parse_get s req (h @ op_payload (CGet k) @ junk) = Some s' \<and> handled s s' req sy (CGet k) m"
proof -
  note c' = call_okD [OF c]
  have kl: "length k < 2 ^ 16" using c'(8) by simp
  let ?mem = "h @ op_payload (CGet k) @ junk"
  let ?s = "bump s (st_db_get_update (\<lambda>n. n + 1))"
  have ld: "load_size ?mem 8 = Some (of_nat (length k))" using h by (simp add: load_size_be32)
  have rk: "rd ?mem 12 (length k) = Some k"
    using h rd_middle [of 12 "h @ be32 (length k)" "length k" k junk] by simp
  have pg: "parse_get s req ?mem = do {
     (hit, val, vsize) \<leftarrow> cache_get (sv_cache s) k;
     if hit = 0 then queued_or_err req (put_in_queue ?s req REQ_GET True (Some k) None)
     else reply_long (bump ?s (st_cache_hits_update (\<lambda>n. n + 1))) req REP_CACHE_HIT val vsize }"
    using c' ld rk kl size_ok [of "length k" "4 + length k"] call_not_cache_only [OF c]
    by (simp add: parse_get_def fill_cache_flag_bump unat_of_nat_u32 Let_def)
  have f: "fits k" using kl by simp
  show ?thesis
  proof (cases "lookup (sv_cache s) k")
    case None
    then have g: "cache_get (sv_cache s) k = Some (0, None, 0)" using nc.get_law [OF c'(10) f] by simp
    obtain s' where s': "put_in_queue_long ?s req REQ_GET True (Some k) None None = Some (True, s')" "srv_ok s'"
      "sv_cache s' = sv_cache ?s" "sv_out s' = sv_out ?s"
      "queue_grows (sv_queue ?s) (sv_queue s') [mk_entry req REQ_GET (Some k) None None]"
      using queue_step [of ?s req] c'(1,4) by (metis srv_ok_bump)
    then have "handled s s' req sy (CGet k) m"
      using c'(2) by (intro handled_late) simp_all
    with pg g s'(1) show ?thesis by (simp add: put_in_queue_def queued_or_err_def)
  next
    case (Some v)
    then have g: "cache_get (sv_cache s) k = Some (1, Some v, sz v)" using nc.get_law [OF c'(10) f] by simp
    have mk: "m k = Some v" using c'(2) Some by (rule map_le_SomeD)
    then have vl: "length v < 2 ^ 32" using c'(3) by (fastforce simp: vals_ok_def)
    let ?s2 = "bump ?s (st_cache_hits_update (\<lambda>n. n + 1))"
    have ok2: "srv_ok ?s2" using c'(1) by simp
    obtain p s' where s': "reply_long ?s2 req REP_CACHE_HIT (Some v) (sz v) = Some s'" "srv_ok s'"
      "sv_cache s' = sv_cache ?s2" "sv_queue s' = sv_queue ?s2" "sv_out s' = sv_out ?s2 @ [p]"
      "pkt_view p = (r_fd req, dest req, decode_reply (store32 (r_id req) @ store32 (htonl REP_CACHE_HIT) @
        store32 (htonl (of_nat (length v))) @ v))"
      using ok2 c'(4) vl by (rule reply_long_step)
    then have "handled s s' req sy (CGet k) m"
      using c'(2,9) mk by (intro handled_answer [where p = p]) (simp_all add: decode_long del: store32_htonl)
    with pg g s'(1) show ?thesis by simp
  qed
qed

lemma queue_then_reply:
  assumes "srv_ok s1" and "req_ok req" and "sv_queue s1 = sv_queue s" and "sv_out s1 = sv_out s"
    and "lookup (sv_cache s1) \<subseteq>\<^sub>m ref_step x m" and "late sy x = sy"
    and "entry_of req x = mk_entry req operation key val None" and "\<not> sy \<Longrightarrow> spec_reply sy x m = ROk"
  shows "\<exists>s'. do {
      (rv, s) \<leftarrow> put_in_queue s1 req operation sy key val;
      if \<not> rv then Some (reply_err s req ERR_MEM)
      else if \<not> sy then Some (reply_mini s req REP_OK)
      else Some s } = Some s' \<and> handled s s' req sy x m"
proof -
  obtain s2 where s2: "put_in_queue_long s1 req operation sy key val None = Some (True, s2)" "srv_ok s2"
    "sv_cache s2 = sv_cache s1" "sv_out s2 = sv_out s1"
    "queue_grows (sv_queue s1) (sv_queue s2) [mk_entry req operation key val None]"
    using assms(1,2) by (rule queue_step)
  show ?thesis
  proof (cases sy)
    case True
    then have "handled s s2 req sy x m" using s2 assms by (intro handled_late) simp_all
    with True s2(1) show ?thesis by (simp add: put_in_queue_def)
  next
    case False
    obtain p where p: "reply_mini s2 req REP_OK = s2\<lparr>sv_out := sv_out s2 @ [p]\<rparr>"
      "srv_ok (s2\<lparr>sv_out := sv_out s2 @ [p]\<rparr>)" "pkt_view p = (r_fd req, dest req, store32 (r_id req), ROk)"
      "\<not> hit_pkt p"
      using reply_mini_step [OF s2(2) assms(2), of REP_OK] by (metis decode_mini(1) rep_not_hit(1))
    then have "handled s (s2\<lparr>sv_out := sv_out s2 @ [p]\<rparr>) req sy x m"
      using False s2 assms by (intro handled_early) simp_all
    with False s2(1) p(1) show ?thesis by (simp add: put_in_queue_def)
  qed
qed

lemma call_sync:
  "call_ok s m req sy (CSet k v) \<Longrightarrow> sync req = sy" "call_ok s m req sy (CDel k) \<Longrightarrow> sync req = sy"
  by (auto simp: call_ok_def sync_def)

lemma parse_del_ok:
  assumes c: "call_ok s m req sy (CDel k)" and h: "length h = 8"
  shows "\<exists>s'. parse_del s req (h @ op_payload (CDel k) @ junk) = Some s' \<and> handled s s' req sy (CDel k) m"
proof -
  note c' = call_okD [OF c]
  have kl: "length k < 2 ^ 16" and f: "fits k" using c'(8) by simp_all
  let ?mem = "h @ op_payload (CDel k) @ junk"
  let ?s = "bump s (st_db_del_update (\<lambda>n. n + 1))"
  have ld: "load_size ?mem 8 = Some (of_nat (length k))" using h by (simp add: load_size_be32)
  have rk: "rd ?mem 12 (length k) = Some k"
    using h rd_middle [of 12 "h @ be32 (length k)" "length k" k junk] by simp
  obtain rv cd where d: "cache_del (sv_cache s) k = Some (rv, cd)" "cache_wf cd" "lookup cd \<subseteq>\<^sub>m m(k := None)"
    using c'(10) f c'(2) by (rule nc.del_below)
  let ?s1 = "?s\<lparr>sv_cache := cd\<rparr>"
  have ok1: "srv_ok ?s1" using c'(1) d(2) by (simp add: srv_ok_def)
  have pd: "parse_del s req ?mem = do {
      (rv, s) \<leftarrow> put_in_queue ?s1 req REQ_DEL (sync req) (Some k) None;
      if \<not> rv then Some (reply_err s req ERR_MEM)
      else if \<not> sync req then Some (reply_mini s req REP_OK)
      else Some s }"
    using c' ld rk kl size_ok [of "length k" "4 + length k"] call_not_cache_only [OF c] d(1)
    by (simp add: parse_del_def fill_cache_flag_bump unat_of_nat_u32 Let_def)
  show ?thesis
    unfolding pd call_sync(2) [OF c]
    by (rule queue_then_reply [OF ok1 c'(4)]) (use d(3) in simp_all)
qed

lemma parse_set_ok:
  assumes c: "call_ok s m req sy (CSet k v)" and h: "length h = 8"
  shows "\<exists>s'. parse_set s req (h @ op_payload (CSet k v) @ junk) = Some s' \<and> handled s s' req sy (CSet k v) m"
proof -
  note c' = call_okD [OF c]
  have kl: "length k + length v \<le> 2 ^ 16" and f: "fits k" "fits v" using c'(8) by simp_all
  let ?mem = "h @ op_payload (CSet k v) @ junk"
  let ?s = "bump s (st_db_set_update (\<lambda>n. n + 1))"
  have ld: "load_size ?mem 8 = Some (of_nat (length k))" "load_size ?mem 12 = Some (of_nat (length v))"
    using h load_size_be32 [of 12 "h @ be32 (length k)" "length v" "k @ v @ junk"]
    by (simp_all add: load_size_be32)
  have rk: "rd ?mem 16 (length k) = Some k" "rd ?mem (16 + length k) (length v) = Some v"
    using h rd_middle [of 16 "h @ be32 (length k) @ be32 (length v)" "length k" k "v @ junk"]
      rd_middle [of "16 + length k" "h @ be32 (length k) @ be32 (length v) @ k" "length v" v junk] by simp_all
  obtain cd ms where d: "cache_set (sv_cache s) k v (sv_ms s) = Some (0, cd, ms)" "good ms" "cache_wf cd"
    "lookup cd \<subseteq>\<^sub>m m(k \<mapsto> v)"
    using c'(10) f c'(11,2) by (rule nc.put_below)
  let ?s1 = "?s\<lparr>sv_cache := cd, sv_ms := ms\<rparr>"
  have ok1: "srv_ok ?s1" using c'(1) d(2,3) by (simp add: srv_ok_def)
  have pd: "parse_set s req ?mem = do {
      (rv, s) \<leftarrow> put_in_queue ?s1 req REQ_SET (sync req) (Some k) (Some v);
      if \<not> rv then Some (reply_err s req ERR_MEM)
      else if \<not> sync req then Some (reply_mini s req REP_OK)
      else Some s }"
    using c' ld rk kl size_ok [of "length k" "8 + (length k + length v)"] size_ok [of "length v" "8 + (length k + length v)"]
      size_max [of "length k"] size_max [of "length v"] size_max [of "length k + length v"]
      call_not_cache_only [OF c] d(1)
    by (simp add: parse_set_def fill_cache_flag_bump unat_of_nat_u32 Let_def)
  show ?thesis
    unfolding pd call_sync(1) [OF c]
    by (rule queue_then_reply [OF ok1 c'(4)]) (use d(4) in simp_all)
qed

lemma queue_late:
  assumes "srv_ok s1" and "req_ok req" and "sv_queue s1 = sv_queue s" and "sv_out s1 = sv_out s"
    and "lookup (sv_cache s1) \<subseteq>\<^sub>m ref_step x m" and "late sy x"
    and "entry_of req x = mk_entry req operation key val newval"
  shows "\<exists>s'. queued_or_err req (put_in_queue_long s1 req operation True key val newval) = Some s' \<and>
    handled s s' req sy x m"
proof -
  obtain s2 where s2: "put_in_queue_long s1 req operation True key val newval = Some (True, s2)" "srv_ok s2"
    "sv_cache s2 = sv_cache s1" "sv_out s2 = sv_out s1"
    "queue_grows (sv_queue s1) (sv_queue s2) [mk_entry req operation key val newval]"
    using assms(1,2) by (rule queue_step)
  then have "handled s s2 req sy x m" using assms by (intro handled_late) simp_all
  with s2(1) show ?thesis by (simp add: queued_or_err_def)
qed

lemma answer_mini:
  assumes "srv_ok s1" and "req_ok req" and "sv_queue s1 = sv_queue s" and "sv_out s1 = sv_out s"
    and "lookup (sv_cache s1) \<subseteq>\<^sub>m m" and "ref_step x m = m"
    and "snd (decode_reply (store32 (r_id req) @ store32 (htonl r))) = spec_reply sy x m" and "r \<noteq> REP_CACHE_HIT"
  shows "handled s (reply_mini s1 req r) req sy x m"
proof -
  obtain p where p: "reply_mini s1 req r = s1\<lparr>sv_out := sv_out s1 @ [p]\<rparr>" "srv_ok (s1\<lparr>sv_out := sv_out s1 @ [p]\<rparr>)"
    "pkt_view p = (r_fd req, dest req, decode_reply (store32 (r_id req) @ store32 (htonl r)))" "r \<noteq> REP_CACHE_HIT \<Longrightarrow> \<not> hit_pkt p"
    using assms(1,2) by (rule reply_mini_step [where r = r]) blast
  have "decode_reply (store32 (r_id req) @ store32 (htonl r)) = (store32 (r_id req), spec_reply sy x m)"
    using assms(7) by (simp add: decode_reply_def del: store32_htonl)
  with p assms show ?thesis
    unfolding p(1) by (intro handled_answer [where p = p]) (simp_all add: srv_ok_def)
qed

lemma parse_cas_ok:
  assumes c: "call_ok s m req sy (CCas k ov nv)" and h: "length h = 8"
  shows "\<exists>s'. parse_cas s req (h @ op_payload (CCas k ov nv) @ junk) = Some s' \<and>
    handled s s' req sy (CCas k ov nv) m"
proof -
  note c' = call_okD [OF c]
  have kl: "length k + length ov + length nv \<le> 2 ^ 16" and f: "fits k" "fits ov" "fits nv"
    using c'(8) by simp_all
  let ?mem = "h @ op_payload (CCas k ov nv) @ junk"
  let ?hs = "h @ be32 (length k) @ be32 (length ov) @ be32 (length nv)"
  let ?p = "12 + (length k + (length ov + length nv))"
  let ?s = "bump s (st_db_cas_update (\<lambda>n. n + 1))"
  have ld: "load_size ?mem 8 = Some (of_nat (length k))" "load_size ?mem 12 = Some (of_nat (length ov))"
    "load_size ?mem 16 = Some (of_nat (length nv))"
    using h load_size_be32 [of 12 "h @ be32 (length k)" "length ov" "be32 (length nv) @ k @ ov @ nv @ junk"]
      load_size_be32 [of 16 "h @ be32 (length k) @ be32 (length ov)" "length nv" "k @ ov @ nv @ junk"]
    by (simp_all add: load_size_be32)
  have rk: "rd ?mem 20 (length k) = Some k" "rd ?mem (20 + length k) (length ov) = Some ov"
    "rd ?mem (20 + length k + length ov) (length nv) = Some nv"
    using h rd_middle [of 20 ?hs "length k" k "ov @ nv @ junk"]
      rd_middle [of "20 + length k" "?hs @ k" "length ov" ov "nv @ junk"]
      rd_middle [of "20 + length k + length ov" "?hs @ k @ ov" "length nv" nv junk] by simp_all
  obtain rv cd ms where d: "cache_cas (sv_cache s) k ov nv (sv_ms s) = Some (rv, cd, ms)" "good ms" "cache_wf cd"
    "rv \<in> {0, - 1, - 2}" "rv = 0 \<longrightarrow> m k = Some ov" "rv = - 1 \<longrightarrow> (\<exists>v. m k = Some v \<and> v \<noteq> ov)" "rv = - 1 \<longrightarrow> lookup cd \<subseteq>\<^sub>m m"
    "lookup cd \<subseteq>\<^sub>m (if m k = Some ov then m(k \<mapsto> nv) else m)"
    using c'(10) f c'(11,2) by (rule nc.cas_below)
  let ?s1 = "?s\<lparr>sv_cache := cd, sv_ms := ms\<rparr>"
  have ok1: "srv_ok ?s1" using c'(1) d(2,3) by (simp add: srv_ok_def)
  have pd: "parse_cas s req ?mem =
      (if rv = - 1 then Some (reply_mini ?s1 req REP_NOMATCH)
       else queued_or_err req (put_in_queue_long ?s1 req REQ_CAS True (Some k) (Some ov) (Some nv)))"
    using c' ld rk kl size_ok [of "length k" ?p] size_ok [of "length ov" ?p] size_ok [of "length nv" ?p]
      size_max [of "length k"] size_max [of "length ov"] size_max [of "length nv"]
      size_max [of "length k + length ov + length nv"] call_not_cache_only [OF c] d(1,4)
    by (auto simp: parse_cas_def fill_cache_flag_bump unat_of_nat_u32 Let_def)
  show ?thesis
  proof (cases "rv = - 1")
    case True
    have "handled s (reply_mini ?s1 req REP_NOMATCH) req sy (CCas k ov nv) m"
      by (rule answer_mini [OF ok1 c'(4)]) (use d(6,7) True decode_mini(3) in \<open>auto simp del: store32_htonl\<close>)
    with pd True show ?thesis by simp
  next
    case False
    have "\<exists>s'. queued_or_err req (put_in_queue_long ?s1 req REQ_CAS True (Some k) (Some ov) (Some nv)) = Some s' \<and>
        handled s s' req sy (CCas k ov nv) m"
      by (rule queue_late [OF ok1 c'(4)]) (use d(8) in simp_all)
    with pd False show ?thesis by simp
  qed
qed

lemma parse_incr_ok:
  assumes c: "call_ok s m req sy (CIncr k i)" and h: "length h = 8"
  shows "fine (incr_fits (CIncr k i) m) (parse_incr s req (h @ op_payload (CIncr k i) @ junk))
    (\<lambda>s'. handled s s' req sy (CIncr k i) m)"
proof -
  note c' = call_okD [OF c]
  have kl: "length k + 8 \<le> 2 ^ 16" and f: "fits k" using c'(8) by simp_all
  let ?mem = "h @ op_payload (CIncr k i) @ junk"
  let ?s = "bump s (st_db_incr_update (\<lambda>n. n + 1))"
  have ld: "load_size ?mem 8 = Some (of_nat (length k))" using h by (simp add: load_size_be32)
  have rk: "rd ?mem 12 (length k) = Some k"
    using h rd_middle [of 12 "h @ be32 (length k)" "length k" k "store64 (htonll i) @ junk"] by simp
  have li: "load64 ?mem (12 + length k) = Some (htonll i)"
    using h load64_store64 [of "12 + length k" "h @ be32 (length k) @ k" "htonll i" junk] by simp
  have ne: "m k \<noteq> Some []" using c'(3) by (auto simp: vals_ok_def)
  have und: "parse_incr s req ?mem = None" if "cache_incr (sv_cache s) k i (sv_ms s) = None"
    using c' ld rk li kl size_ok [of "length k + 8" "12 + length k"] size_max [of "length k + 8"]
      call_not_cache_only [OF c] that
    by (auto simp: parse_incr_def fill_cache_flag_bump unat_of_nat_u32 Let_def put_in_queue_def)
  show ?thesis
  proof (cases "sum_fits (lookup (sv_cache s)) k i")
    case False
    with nc.incr_undefined [OF c'(10) f c'(2) ne] und show ?thesis by simp
  next
    case fit: True
    obtain rv w cd ms where d: "cache_incr (sv_cache s) k i (sv_ms s) = Some (rv, w, cd, ms)" "good ms" "cache_wf cd"
      "rv \<in> {0, - 1, - 2}" "rv = 0 \<longrightarrow> (\<exists>v. m k = Some v \<and> numeric v \<and> w = Some (val_num v + i))"
      "rv = - 2 \<longrightarrow> (\<exists>v. m k = Some v \<and> \<not> numeric v)"
      "lookup cd \<subseteq>\<^sub>m (case m k of None \<Rightarrow> m
         | Some v \<Rightarrow> if numeric v then m(k \<mapsto> num_val v (val_num v + i)) else m)"
      using c'(10) f c'(11,2) ne fit by (rule nc.incr_below [where inc = i])
    let ?s1 = "?s\<lparr>sv_cache := cd, sv_ms := ms\<rparr>"
    have ok1: "srv_ok ?s1" using c'(1) d(2,3) by (simp add: srv_ok_def)
    have pd: "parse_incr s req ?mem =
        (if rv = - 2 then Some (reply_mini ?s1 req REP_NOMATCH)
         else queued_or_err req (put_in_queue_long ?s1 req REQ_INCR True (Some k) (Some (store64 i)) None))"
      using c' ld rk li kl size_ok [of "length k + 8" "12 + length k"] size_max [of "length k + 8"]
        call_not_cache_only [OF c] d(1,4)
      by (auto simp: parse_incr_def fill_cache_flag_bump unat_of_nat_u32 Let_def put_in_queue_def)
    show ?thesis
    proof (cases "rv = - 2")
      case True
      have "handled s (reply_mini ?s1 req REP_NOMATCH) req sy (CIncr k i) m"
        by (rule answer_mini [OF ok1 c'(4)]) (use d(6,7) True decode_mini(3) in \<open>auto simp del: store32_htonl\<close>)
      with pd True show ?thesis by simp
    next
      case False
      have "\<exists>s'. queued_or_err req (put_in_queue_long ?s1 req REQ_INCR True (Some k) (Some (store64 i)) None) = Some s' \<and>
          handled s s' req sy (CIncr k i) m"
        by (rule queue_late [OF ok1 c'(4)]) (use d(7) in simp_all)
      with pd False show ?thesis by auto
    qed
  qed
qed

section \<open>Whole messages\<close>

text \<open>The request descriptor after the header has been read.\<close>

definition parsed_req :: "req_info \<Rightarrow> u32 \<Rightarrow> bool \<Rightarrow> cache_op \<Rightarrow> req_info" where
  "parsed_req req rid sy x = req\<lparr>r_id := htonl rid, r_cmd := op_cmd x, r_flags := op_flags sy x,
     r_payload := Some 8, r_psize := of_nat (length (op_payload x))\<rparr>"

lemma encode_loads:
  "load32 (encode rid sy x @ junk) 0 = Some (htonl (hdr32 rid))"
  "load16 (encode rid sy x @ junk) 4 = Some (htons (op_cmd x))"
  "load16 (encode rid sy x @ junk) 6 = Some (htons (op_flags sy x))"
proof -
  let ?a = "store32 (htonl (hdr32 rid))" and ?b = "store16 (htons (op_cmd x))" and ?c = "store16 (htons (op_flags sy x))"
  show "load32 (encode rid sy x @ junk) 0 = Some (htonl (hdr32 rid))"
    by (simp add: encode_def header_def load32_front del: store32_htonl store16_htons)
  show "load16 (encode rid sy x @ junk) 4 = Some (htons (op_cmd x))"
    using load16_store16 [of 4 ?a "htons (op_cmd x)" "?c @ op_payload x @ junk"]
    by (simp add: encode_def header_def del: store32_htonl store16_htons)
  show "load16 (encode rid sy x @ junk) 6 = Some (htons (op_flags sy x))"
    using load16_store16 [of 6 "?a @ ?b" "htons (op_flags sy x)" "op_payload x @ junk"]
    by (simp add: encode_def header_def del: store32_htonl store16_htons)
qed

lemma length_encode: "length (encode rid sy x) = 8 + length (op_payload x)"
  by (simp add: encode_def)

definition handler :: "cache_op \<Rightarrow> server \<Rightarrow> req_info \<Rightarrow> bytes \<Rightarrow> server option" where
  "handler x = (case x of CGet _ \<Rightarrow> parse_get | CSet _ _ \<Rightarrow> parse_set | CDel _ \<Rightarrow> parse_del
     | CCas _ _ _ \<Rightarrow> parse_cas | CIncr _ _ \<Rightarrow> parse_incr)"

lemma parse_message_dispatch:
  assumes "rid < 2 ^ 28"
  shows "parse_message s req (encode rid sy x @ junk) (of_nat (length (encode rid sy x))) =
    do { s \<leftarrow> handler x s (parsed_req req rid sy x) (encode rid sy x @ junk);
         Some (1, parsed_req req rid sy x, s) }"
  by (cases x) (simp_all add: parse_message_def encode_loads hdr32_fields [OF assms]
      hdr32_fields(1) [OF assms, simplified] length_encode
      handler_def parsed_req_def Let_def)

lemma handler_ok:
  assumes "call_ok s m req sy x" and "length h = 8"
  shows "fine (incr_fits x m) (handler x s req (h @ op_payload x @ junk)) (\<lambda>s'. handled s s' req sy x m)"
proof (cases x)
  case (CGet k)
  with assms parse_get_ok show ?thesis by (intro fine_ex) (simp add: handler_def)
next
  case (CSet k v)
  with assms parse_set_ok show ?thesis by (intro fine_ex) (simp add: handler_def)
next
  case (CDel k)
  with assms parse_del_ok show ?thesis by (intro fine_ex) (simp add: handler_def)
next
  case (CCas k ov nv)
  with assms parse_cas_ok show ?thesis by (intro fine_ex) (simp add: handler_def)
next
  case (CIncr k i)
  with assms parse_incr_ok show ?thesis by (simp add: handler_def)
qed

lemma parse_message_ok:
  assumes "srv_ok s" and "lookup (sv_cache s) \<subseteq>\<^sub>m m" and "vals_ok m" and "req_ok req" and "op_fits x"
    and "rid < 2 ^ 28"
  shows "fine (incr_fits x m) (parse_message s req (encode rid sy x @ junk) (of_nat (length (encode rid sy x))))
    (\<lambda>(r, req', s'). r = 1 \<and> req' = parsed_req req rid sy x \<and> handled s s' (parsed_req req rid sy x) sy x m)"
proof -
  have r: "req_ok (parsed_req req rid sy x)"
    using assms(4) by (simp add: req_ok_def parsed_req_def has_addr_def)
  have "call_ok s m (parsed_req req rid sy x) sy x"
    using assms r by (simp add: call_ok_def parsed_req_def)
  then have "fine (incr_fits x m) (handler x s (parsed_req req rid sy x) (encode rid sy x @ junk))
      (\<lambda>s'. handled s s' (parsed_req req rid sy x) sy x m)"
    using handler_ok length_header by (simp add: encode_def)
  then show ?thesis
    unfolding parse_message_dispatch [OF assms(6)] by (cases rule: fineE) simp_all
qed

end
