(* ===== verification/Recv_Ok.thy ===== *)
theory Recv_Ok
  imports Parse_Ok
begin

text \<open>
  The transports deliver: a request that arrives whole, as one datagram or as one TCP
  segment on a connection between messages, is handled exactly as \<^verbatim>\<open>parse_message()\<close> handles
  it, whatever the static buffer held before.
\<close>

text \<open>One incoming request: transport, descriptor, peer, identifier, sync flag, operation.\<close>

record event =
  ev_t :: transport
  ev_fd :: int
  ev_addr :: bytes
  ev_id :: u32
  ev_sync :: bool
  ev_op :: cache_op

definition ev_msg :: "event \<Rightarrow> bytes" where
  "ev_msg ev = encode (ev_id ev) (ev_sync ev) (ev_op ev)"

definition ev_req :: "event \<Rightarrow> req_info" where
  "ev_req ev = parsed_req (make_req (ev_t ev) (ev_fd ev) (ev_addr ev)) (ev_id ev) (ev_sync ev) (ev_op ev)"

text \<open>TCP limits the framed message to 64 kB, which the other transports do not.\<close>

definition ev_ok :: "event \<Rightarrow> bool" where
  "ev_ok ev \<longleftrightarrow> op_fits (ev_op ev) \<and> ev_id ev < 2 ^ 28 \<and> length (ev_addr ev) < 2 ^ 32 \<and>
     (ev_t ev = TCP \<longrightarrow> length (ev_msg ev) + 4 \<le> 2 ^ 16)"

lemma req_ok_make_req [simp]: "length a < 2 ^ 32 \<Longrightarrow> req_ok (make_req t fd a)"
  by (simp add: req_ok_def make_req_def has_addr_def unat_of_nat take_bit_nat_eq_self)

lemma length_payload: "op_fits x \<Longrightarrow> 4 \<le> length (op_payload x) \<and> length (op_payload x) \<le> 65548"
  by (cases x) simp_all

lemma length_ev_msg: "ev_ok ev \<Longrightarrow> 12 \<le> length (ev_msg ev) \<and> length (ev_msg ev) \<le> 65556"
  using length_payload [of "ev_op ev"] by (simp add: ev_ok_def ev_msg_def length_encode)

text \<open>The state of the server when \<^verbatim>\<open>parse_message()\<close> is entered.\<close>

definition entered :: "server \<Rightarrow> server \<Rightarrow> bool" where
  "entered s s1 \<longleftrightarrow> (srv_ok s1 \<longleftrightarrow> srv_ok s) \<and> sv_cache s1 = sv_cache s \<and> sv_queue s1 = sv_queue s \<and> sv_out s1 = sv_out s"

lemma entered_bump_bufs: "entered s (bump (s\<lparr>sv_bufs := b\<rparr>) f)"
  by (simp add: entered_def srv_ok_def)

lemma handled_entered:
  assumes "entered s s1" and "handled s1 s' req sy x m"
  shows "handled s s' req sy x m"
proof -
  have e: "sv_queue s1 = sv_queue s" "sv_out s1 = sv_out s" using assms(1) by (simp_all add: entered_def)
  show ?thesis using assms(2) unfolding handled_def e .
qed

lemma recv_into_fits:
  "length bs \<le> SBSIZE \<Longrightarrow> recv_into buf bs = bs @ drop (length bs) buf"
  by (simp add: recv_into_def)

definition dgram_recv :: "transport \<Rightarrow> server \<Rightarrow> int \<Rightarrow> recv_result \<Rightarrow> server option" where
  "dgram_recv t = (case t of TIPC \<Rightarrow> tipc_recv | UDP \<Rightarrow> udp_recv | SCTP \<Rightarrow> sctp_recv | TCP \<Rightarrow> (\<lambda>s fd r. None))"

lemma dgram_recv_parse:
  assumes "ev_ok ev" and "ev_t ev \<noteq> TCP"
  obtains s1 junk where "entered s s1" and "dgram_recv (ev_t ev) s (ev_fd ev) (Recv (ev_msg ev) (ev_addr ev)) =
    map_option (snd \<circ> snd) (parse_message s1 (make_req (ev_t ev) (ev_fd ev) (ev_addr ev)) (ev_msg ev @ junk)
      (of_nat (length (ev_msg ev))))"
proof -
  have len: "8 \<le> length (ev_msg ev)" "length (ev_msg ev) \<le> SBSIZE" "ev_msg ev \<noteq> []"
    using length_ev_msg [OF assms(1)] by (auto simp: SBSIZE_def)
  let ?junk = "drop (length (ev_msg ev)) (sv_bufs s (ev_t ev))"
  let ?b = "(sv_bufs s)(ev_t ev := ev_msg ev @ ?junk)"
  let ?f = "case ev_t ev of TIPC \<Rightarrow> st_msg_tipc_update (\<lambda>n. n + 1) | UDP \<Rightarrow> st_msg_udp_update (\<lambda>n. n + 1)
    | SCTP \<Rightarrow> st_msg_sctp_update (\<lambda>n. n + 1) | TCP \<Rightarrow> (\<lambda>x. x)"
  let ?s1 = "bump (s\<lparr>sv_bufs := ?b\<rparr>) ?f"
  have m: "(do { (_, _, s') \<leftarrow> p; Some s' }) = map_option (snd \<circ> snd) p" for p :: "(int \<times> req_info \<times> server) option"
    by (cases p) (auto split: prod.splits)
  have "dgram_recv (ev_t ev) s (ev_fd ev) (Recv (ev_msg ev) (ev_addr ev)) =
    map_option (snd \<circ> snd) (parse_message ?s1 (make_req (ev_t ev) (ev_fd ev) (ev_addr ev)) (ev_msg ev @ ?junk)
      (of_nat (length (ev_msg ev))))"
    using assms(2) len
    by (cases "ev_t ev") (simp_all add: dgram_recv_def udp_recv_def sctp_recv_def tipc_recv_def
        recv_into_fits Let_def m)
  then show thesis by (rule that [OF entered_bump_bufs])
qed

lemma parse_event_ok:
  assumes "srv_ok s" and "lookup (sv_cache s) \<subseteq>\<^sub>m m" and "vals_ok m" and "req_ok req" and "ev_ok ev"
    and "parsed_req req (ev_id ev) (ev_sync ev) (ev_op ev) = ev_req ev"
  shows "fine (incr_fits (ev_op ev) m) (parse_message s req (ev_msg ev @ junk) (of_nat (length (ev_msg ev))))
    (\<lambda>(r, req', s'). r = 1 \<and> req' = ev_req ev \<and> handled s s' (ev_req ev) (ev_sync ev) (ev_op ev) m)"
  using parse_message_ok [OF assms(1-4), of "ev_op ev" "ev_id ev" "ev_sync ev" junk] assms(5)
  unfolding assms(6) ev_msg_def by (simp add: ev_ok_def)

lemma dgram_recv_ok:
  assumes "srv_ok s" and "lookup (sv_cache s) \<subseteq>\<^sub>m m" and "vals_ok m" and "ev_ok ev" and "ev_t ev \<noteq> TCP"
  shows "fine (incr_fits (ev_op ev) m) (dgram_recv (ev_t ev) s (ev_fd ev) (Recv (ev_msg ev) (ev_addr ev)))
    (\<lambda>s'. handled s s' (ev_req ev) (ev_sync ev) (ev_op ev) m)"
proof -
  obtain s1 junk where s1: "entered s s1" "dgram_recv (ev_t ev) s (ev_fd ev) (Recv (ev_msg ev) (ev_addr ev)) =
    map_option (snd \<circ> snd) (parse_message s1 (make_req (ev_t ev) (ev_fd ev) (ev_addr ev)) (ev_msg ev @ junk)
      (of_nat (length (ev_msg ev))))"
    using assms(4,5) by (rule dgram_recv_parse)
  have a: "srv_ok s1" "lookup (sv_cache s1) \<subseteq>\<^sub>m m" using s1(1) assms(1,2) by (simp_all add: entered_def)
  have e: "req_ok (make_req (ev_t ev) (ev_fd ev) (ev_addr ev))" using assms(4) by (simp add: ev_ok_def)
  from parse_event_ok [OF a assms(3) e assms(4) ev_req_def [symmetric], of junk] show ?thesis
    unfolding s1(2) by (cases rule: fineE) (auto intro: handled_entered [OF s1(1)])
qed

text \<open>A connection that is not in the middle of a message.\<close>

definition conn_idle :: "event \<Rightarrow> tcp_socket \<Rightarrow> bool" where
  "conn_idle ev ts \<longleftrightarrow> ts_buf ts = None \<and> ts_excess ts = 0 \<and> ts_fd ts = ev_fd ev \<and> ts_clisa ts = ev_addr ev \<and>
     ts_clilen ts = of_nat (length (ev_addr ev))"

lemma parsed_init_req:
  "conn_idle ev ts \<Longrightarrow> ev_t ev = TCP \<Longrightarrow>
    parsed_req (ts_req (init_req ts)) (ev_id ev) (ev_sync ev) (ev_op ev) = ev_req ev"
  by (simp add: parsed_req_def init_req_def ev_req_def make_req_def conn_idle_def)

lemma tcp_recv_parse:
  assumes "ev_ok ev" and "ev_t ev = TCP" and "conn_idle ev ts"
  obtains s1 junk where "entered s s1" and "fine True (parse_message s1 (ts_req (init_req ts)) (ev_msg ev @ junk)
      (of_nat (length (ev_msg ev)))) (\<lambda>(r, req, s'). r = 1 \<longrightarrow>
        tcp_recv s ts (Recv (frame TCP (ev_msg ev)) a) = Some (Some (init_req ts\<lparr>ts_req := req\<rparr>), s')) \<or>
      parse_message s1 (ts_req (init_req ts)) (ev_msg ev @ junk) (of_nat (length (ev_msg ev))) = None \<and>
        tcp_recv s ts (Recv (frame TCP (ev_msg ev)) a) = None"
proof -
  let ?f = "frame TCP (ev_msg ev)" and ?n = "4 + length (ev_msg ev)"
  have n: "16 \<le> ?n" "?n \<le> 2 ^ 16" "length ?f = ?n"
    using length_ev_msg [OF assms(1)] assms(1,2) by (simp_all add: ev_ok_def frame_def)
  let ?junk = "drop ?n (sv_bufs s TCP)"
  let ?buf = "?f @ ?junk"
  let ?s1 = "bump (s\<lparr>sv_bufs := (sv_bufs s)(TCP := ?buf)\<rparr>) (st_msg_tcp_update (\<lambda>n. n + 1))"
  have buf: "recv_into (sv_bufs s TCP) ?f = ?buf" "take SBSIZE ?f = ?f"
    using n by (simp_all add: recv_into_fits SBSIZE_def)
  have ld: "load_size ?buf 0 = Some (of_nat ?n)" "drop 4 ?buf = ev_msg ev @ ?junk"
    by (simp_all add: load_size_def frame_def load32_front del: store32_htonl of_nat_add)
  have w: "\<not> (of_nat ?n :: u32) > 64 * 1024" "\<not> (of_nat ?n :: u32) \<le> 8"
    "(ucast (of_nat ?n :: u32) :: u64) = of_nat ?n" "(4 :: u64) \<le> of_nat ?n"
    using n by (simp_all add: word_less_nat_alt word_le_nat_alt unat_of_nat_u32 unat_of_nat_u64
        word_unat_eq_iff unat_ucast_u32_u64 del: of_nat_add)
  have w': "(of_nat ?n - 4 :: u64) = of_nat (length (ev_msg ev))" by simp
  have i: "ts_buf (init_req ts) = None" "ts_excess (init_req ts) = 0"
    using assms(3) by (simp_all add: conn_idle_def init_req_def)
  let ?p = "parse_message ?s1 (ts_req (init_req ts)) (ev_msg ev @ ?junk) (of_nat (length (ev_msg ev)))"
  have r: "tcp_recv s ts (Recv ?f a) = process_buf (s\<lparr>sv_bufs := (sv_bufs s)(TCP := ?buf)\<rparr>) (init_req ts) False (of_nat ?n)"
    using n buf assms(3) by (simp add: tcp_recv_def conn_idle_def Let_def del: of_nat_add)
  show thesis
  proof (rule that [OF entered_bump_bufs])
    show "fine True ?p (\<lambda>(r, req, s'). r = 1 \<longrightarrow> tcp_recv s ts (Recv ?f a) = Some (Some (init_req ts\<lparr>ts_req := req\<rparr>), s')) \<or>
        ?p = None \<and> tcp_recv s ts (Recv ?f a) = None"
    proof (cases ?p)
      case None
      with ld w w' i show ?thesis
        unfolding r by (subst process_buf.simps) (simp add: tcp_buf_def Let_def del: of_nat_add)
    next
      case (Some x)
      obtain rv req s' where x: "x = (rv, req, s')" by (cases x)
      with Some ld w w' i show ?thesis
        unfolding r by (subst process_buf.simps) (simp add: tcp_buf_def Let_def del: of_nat_add)
    qed
  qed
qed

lemma req_ok_init_req:
  "conn_idle ev ts \<Longrightarrow> length (ev_addr ev) < 2 ^ 32 \<Longrightarrow> req_ok (ts_req (init_req ts))"
  by (simp add: req_ok_def init_req_def has_addr_def conn_idle_def unat_of_nat take_bit_nat_eq_self)

lemma tcp_recv_ok:
  assumes "srv_ok s" and "lookup (sv_cache s) \<subseteq>\<^sub>m m" and "vals_ok m" and "ev_ok ev" and "ev_t ev = TCP"
    and "conn_idle ev ts"
  shows "fine (incr_fits (ev_op ev) m) (tcp_recv s ts (Recv (frame TCP (ev_msg ev)) a))
    (\<lambda>(r, s'). \<exists>ts'. r = Some ts' \<and> conn_idle ev ts' \<and> handled s s' (ev_req ev) (ev_sync ev) (ev_op ev) m)"
proof -
  obtain s1 junk where s1: "entered s s1" "fine True (parse_message s1 (ts_req (init_req ts)) (ev_msg ev @ junk)
      (of_nat (length (ev_msg ev)))) (\<lambda>(r, req, s'). r = 1 \<longrightarrow>
        tcp_recv s ts (Recv (frame TCP (ev_msg ev)) a) = Some (Some (init_req ts\<lparr>ts_req := req\<rparr>), s')) \<or>
      parse_message s1 (ts_req (init_req ts)) (ev_msg ev @ junk) (of_nat (length (ev_msg ev))) = None \<and>
        tcp_recv s ts (Recv (frame TCP (ev_msg ev)) a) = None"
    using assms(4-6) by (rule tcp_recv_parse) blast
  have b: "srv_ok s1" "lookup (sv_cache s1) \<subseteq>\<^sub>m m" using s1(1) assms(1,2) by (simp_all add: entered_def)
  have e: "req_ok (ts_req (init_req ts))" using assms(4,6) req_ok_init_req by (simp add: ev_ok_def)
  have i: "conn_idle ev (init_req ts\<lparr>ts_req := x\<rparr>)" for x
    using assms(6) by (simp add: conn_idle_def init_req_def)
  from parse_event_ok [OF b assms(3) e assms(4) parsed_init_req [OF assms(6,5)], of junk] show ?thesis
  proof (cases rule: fineE)
    case undef
    with s1(2) show ?thesis by simp
  next
    case (val x)
    then show ?thesis using s1(2) i handled_entered [OF s1(1)] by auto
  qed
qed

end
