(* ===== verification/Tcp_Feed.thy ===== *)
theory Tcp_Feed
  imports Recv_Ok
begin

text \<open>
  Putting TCP messages together: however the stream cuts a message into pieces, the server
  handles it as if it had arrived whole, and the connection is between messages again.
\<close>

section \<open>A connection that is fed\<close>

text \<open>The most bytes the next \<^verbatim>\<open>recv()\<close> on the connection asks for.\<close>

definition room :: "tcp_socket \<Rightarrow> nat" where
  "room ts = (if ts_buf ts = None then SBSIZE else unat (ts_pktsize ts - ts_len ts))"

text \<open>
  One call of \<^verbatim>\<open>tcp_recv()\<close> after another for as long as the kernel has bytes, which it hands out
  in the pieces in which they came, or in parts of them; it stops when the connection is closed.
\<close>

function tcp_feed :: "server \<Rightarrow> tcp_socket \<Rightarrow> bytes list \<Rightarrow> (tcp_socket option \<times> server) option" where
  "tcp_feed s ts [] = Some (Some ts, s)"
| "tcp_feed s ts (c # cs) =
     Option.bind (tcp_recv s ts (Recv (take (room ts) c) [])) (\<lambda>(r, s').
       case r of
         None \<Rightarrow> Some (None, s')
       | Some ts' \<Rightarrow>
           if 0 < room ts \<and> room ts < length c then tcp_feed s' ts' (drop (room ts) c # cs)
           else tcp_feed s' ts' cs)"
  by pat_completeness auto
termination
  by (relation "measure (\<lambda>(s, ts, cs). sum_list (map length cs) + length cs)") auto

lemma tcp_feed_step:
  assumes "tcp_recv s ts (Recv (take (room ts) c) []) = Some (Some ts', s')" and "0 < room ts"
  shows "tcp_feed s ts (c # cs) = tcp_feed s' ts' (if room ts < length c then drop (room ts) c # cs else cs)"
  using assms by simp

section \<open>In the middle of a message\<close>

abbreviation wire :: "event \<Rightarrow> bytes" where
  "wire ev \<equiv> frame TCP (ev_msg ev)"

definition tcp_ev :: "event \<Rightarrow> bool" where
  "tcp_ev ev \<longleftrightarrow> ev_ok ev \<and> ev_t ev = TCP"

lemma wire_size: "tcp_ev ev \<Longrightarrow> 16 \<le> length (wire ev) \<and> length (wire ev) \<le> 2 ^ 16"
  using length_ev_msg [of ev] by (simp add: tcp_ev_def ev_ok_def frame_def)

text \<open>The size field, once it is there.\<close>

lemma wire_load:
  assumes "tcp_ev ev" and "take k buf = take k (wire ev)" and "4 \<le> k" and "k \<le> length buf"
  shows "load_size buf 0 = Some (of_nat (length (wire ev)))"
proof -
  have "take 4 buf = take 4 (wire ev)" using assms(2,3) by (metis min.absorb1 take_take)
  also have "\<dots> = store32 (htonl (of_nat (length (wire ev))))" by (simp add: frame_def del: store32_htonl)
  finally have "rd buf 0 4 = Some (store32 (htonl (of_nat (length (wire ev)))))"
    using assms(3,4) by (simp add: rd_def del: store32_htonl)
  then show ?thesis by (simp add: load_size_def load32_def del: store32_htonl)
qed

lemma wire_words:
  assumes "tcp_ev ev" and "k \<le> length (wire ev)"
  shows "\<not> (of_nat (length (wire ev)) :: u32) > 64 * 1024" and "\<not> (of_nat (length (wire ev)) :: u32) \<le> 8"
    and "(ucast (of_nat (length (wire ev)) :: u32) :: u64) = of_nat (length (wire ev))"
    and "(4 :: u64) \<le> of_nat k \<longleftrightarrow> 4 \<le> k" and "(of_nat (length (wire ev)) :: u64) > of_nat k \<longleftrightarrow> k < length (wire ev)"
    and "unat (of_nat k :: u64) = k"
  using wire_size [OF assms(1)] assms(2)
  by (simp_all add: word_less_nat_alt word_le_nat_alt unat_of_nat_u32 unat_of_nat_u64
      word_unat_eq_iff unat_ucast_u32_u64)

text \<open>What the message still to come is asked for after \<open>k\<close> bytes: first its size, then the rest.\<close>

definition target :: "event \<Rightarrow> nat \<Rightarrow> nat" where
  "target ev k = (if k < 4 then 4 else length (wire ev))"

definition mid :: "event \<Rightarrow> tcp_socket \<Rightarrow> nat \<Rightarrow> tcp_socket \<Rightarrow> bool" where
  "mid ev ts0 k ts \<longleftrightarrow> 0 < k \<and> k < length (wire ev) \<and> (\<exists>b. length b = SBSIZE \<and> take k b = take k (wire ev) \<and>
     ts = (init_req ts0)\<lparr>ts_buf := Some b, ts_len := of_nat k, ts_pktsize := of_nat (target ev k)\<rparr>)"

text \<open>An incomplete buffer is kept, in a buffer of the connection's own.\<close>

lemma process_partial:
  assumes "tcp_ev ev" and "0 < k" and "k < length (wire ev)" and "take k buf = take k (wire ev)"
    and "k \<le> length buf" and "tcp_buf s ts own = Some buf"
  shows "process_buf s ts own (of_nat k) = save_partial s ts buf (of_nat k) (of_nat (target ev k))"
proof -
  note w = wire_words [OF assms(1) less_imp_le [OF assms(3)]]
  show ?thesis
  proof (cases "4 \<le> k")
    case True
    have "load_size buf 0 = Some (of_nat (length (wire ev)))" using wire_load [OF assms(1,4) True assms(5)] .
    with True assms(3,6) w show ?thesis
      by (subst process_buf.simps) (simp add: target_def del: of_nat_add)
  next
    case False
    then have "(4 :: u64) > of_nat k" using w(4) by simp
    with False assms(6) w(4) show ?thesis
      by (subst process_buf.simps) (simp add: target_def)
  qed
qed

lemma ucast_target:
  assumes "tcp_ev ev"
  shows "(ucast (of_nat (target ev k) :: u32) :: u64) = of_nat (target ev k)" and "target ev k \<le> 2 ^ 16"
proof -
  show t: "target ev k \<le> 2 ^ 16" using wire_size [OF assms] by (simp add: target_def)
  then have "target ev k < 2 ^ 32" "target ev k < 2 ^ 64" by simp_all
  then show "(ucast (of_nat (target ev k) :: u32) :: u64) = of_nat (target ev k)"
    by (simp add: unsigned_of_nat take_bit_nat_eq_self)
qed

text \<open>The first piece.\<close>

lemma feed_first:
  assumes "tcp_ev ev" and "conn_idle ev ts" and "good (sv_ms s)" and "wire ev = c @ rest" and "c \<noteq> []" and "rest \<noteq> []"
  shows "\<exists>ts' ms bufs fr. tcp_recv s ts (Recv c []) = Some (Some ts', s\<lparr>sv_bufs := bufs, sv_ms := ms, sv_fresh := fr\<rparr>) \<and>
    mid ev ts (length c) ts' \<and> good ms"
proof -
  let ?k = "length c" and ?buf = "c @ drop (length c) (sv_bufs s TCP)"
  let ?s = "s\<lparr>sv_bufs := (sv_bufs s)(TCP := ?buf)\<rparr>" and ?ts = "init_req ts"
  have k: "0 < ?k" "?k < length (wire ev)" using assms(4-6) by simp_all
  have sb: "?k \<le> SBSIZE" "take SBSIZE c = c" using k(2) wire_size [OF assms(1)] by (simp_all add: SBSIZE_def)
  have c: "take ?k ?buf = take ?k (wire ev)" "?k \<le> length ?buf" using assms(4) by simp_all
  have i: "ts_buf ts = None" "ts_buf ?ts = None" using assms(2) by (simp_all add: conn_idle_def init_req_def)
  obtain ms where ms: "malloc (sv_ms s) = (True, ms)" "good ms" using assms(3) by (rule malloc_good)
  have u: "unat (of_nat ?k :: u64) = ?k" using wire_words(6) [OF assms(1) less_imp_le [OF k(2)]] .
  have rdc: "rd ?buf 0 ?k = Some c" by (simp add: rd_def)
  obtain blk fr where bl: "fresh_block SBSIZE (?s\<lparr>sv_ms := ms\<rparr>) = (blk, ?s\<lparr>sv_ms := ms, sv_fresh := fr\<rparr>)" "length blk = SBSIZE"
    by (rule fresh_blockE)
  let ?ts' = "?ts\<lparr>ts_buf := Some (c @ drop ?k blk), ts_len := of_nat ?k, ts_pktsize := of_nat (target ev ?k)\<rparr>"
  have "process_buf ?s ?ts False (of_nat ?k) = save_partial ?s ?ts ?buf (of_nat ?k) (of_nat (target ev ?k))"
    by (rule process_partial [OF assms(1) k c]) (simp add: tcp_buf_def)
  also have "\<dots> = Some (Some ?ts', s\<lparr>sv_bufs := (sv_bufs s)(TCP := ?buf), sv_ms := ms, sv_fresh := fr\<rparr>)"
    using i ms(1) rdc sb(1) u bl ucast_target(1) [OF assms(1)] by (simp add: save_partial_def memcpy_def)
  finally have "tcp_recv s ts (Recv c []) = Some (Some ?ts', s\<lparr>sv_bufs := (sv_bufs s)(TCP := ?buf), sv_ms := ms, sv_fresh := fr\<rparr>)"
    using i sb assms(5) by (simp add: tcp_recv_def Let_def recv_into_fits)
  moreover have "mid ev ts ?k ?ts'"
    unfolding mid_def using k sb assms(4) bl(2) by (intro conjI exI [of _ "c @ drop ?k blk"]) simp_all
  ultimately show ?thesis using ms(2) by blast
qed

lemma target_room:
  assumes "tcp_ev ev" and "mid ev ts0 k ts"
  shows "room ts = target ev k - k" and "0 < room ts" and "k + room ts \<le> length (wire ev)"
    and "4 \<le> k \<Longrightarrow> k + room ts = length (wire ev)"
proof -
  have k: "0 < k" "k < length (wire ev)" and t: "k < target ev k" "target ev k \<le> length (wire ev)"
    using assms(2) wire_size [OF assms(1)] by (auto simp: mid_def target_def)
  have "unat (of_nat (target ev k) - of_nat k :: u64) = target ev k - k"
  proof -
    have "target ev k < 2 ^ 64" "k < 2 ^ 64" using ucast_target(2) [OF assms(1), of k] t by simp_all
    then show ?thesis using t by (simp add: unat_sub_if_size unsigned_of_nat take_bit_nat_eq_self word_le_nat_alt)
  qed
  then show r: "room ts = target ev k - k" using assms(2) by (auto simp: mid_def room_def)
  with t show "0 < room ts" "k + room ts \<le> length (wire ev)" by simp_all
  show "4 \<le> k \<Longrightarrow> k + room ts = length (wire ev)" using r t k by (simp add: target_def)
qed

text \<open>A further piece.\<close>

lemma recv_mid:
  assumes "tcp_ev ev" and "mid ev ts0 k ts" and "c \<noteq> []" and "length c \<le> room ts" and "drop k (wire ev) = c @ rest"
  obtains b where "length b = SBSIZE" and "take (k + length c) b = take (k + length c) (wire ev)"
    and "k + length c \<le> length (wire ev)"
    and "tcp_recv s ts (Recv c []) = process_buf s ((init_req ts0)\<lparr>ts_buf := Some b, ts_len := of_nat (k + length c),
      ts_pktsize := of_nat (target ev k)\<rparr>) True (of_nat (k + length c))"
proof -
  obtain b where b: "length b = SBSIZE" "take k b = take k (wire ev)" "0 < k" "k < length (wire ev)"
    "ts = (init_req ts0)\<lparr>ts_buf := Some b, ts_len := of_nat k, ts_pktsize := of_nat (target ev k)\<rparr>"
    using assms(2) by (auto simp: mid_def)
  note r = target_room [OF assms(1,2)]
  have kc: "k + length c \<le> length (wire ev)" using r(3) assms(4) by simp
  have sb: "k + length c \<le> SBSIZE" using kc wire_size [OF assms(1)] by (simp add: SBSIZE_def)
  have u: "unat (of_nat k :: u64) = k" using wire_words(6) [OF assms(1) less_imp_le [OF b(4)]] .
  have room: "unat (ts_pktsize ts - ts_len ts) = room ts" using b(5) by (simp add: room_def)
  let ?b = "take k b @ c @ drop (k + length c) b"
  have "take (k + length c) ?b = take k (wire ev) @ c" using b(1,2,4) sb by simp
  also have "\<dots> = take (k + length c) (wire ev)" using assms(5) by (simp add: take_add)
  finally have t: "take (k + length c) ?b = take (k + length c) (wire ev)" .
  have l: "length ?b = SBSIZE" using b(1) sb by simp
  have upd: "r\<lparr>ts_pktsize := z, ts_buf := x, ts_len := y\<rparr> = r\<lparr>ts_buf := x, ts_len := y, ts_pktsize := z\<rparr>"
    for r :: tcp_socket and x y z by (cases r) simp
  show thesis
    by (rule that [OF l t kc]) (use b(1,5) room u sb assms(3,4) in \<open>simp add: tcp_recv_def Let_def upd\<close>)
qed

lemma feed_more:
  assumes "tcp_ev ev" and "mid ev ts0 k ts" and "c \<noteq> []" and "length c \<le> room ts" and "drop k (wire ev) = c @ rest"
    and "rest \<noteq> []"
  shows "\<exists>ts'. tcp_recv s ts (Recv c []) = Some (Some ts', s) \<and> mid ev ts0 (k + length c) ts'"
proof -
  obtain b where b: "length b = SBSIZE" "take (k + length c) b = take (k + length c) (wire ev)"
    "k + length c \<le> length (wire ev)"
    "tcp_recv s ts (Recv c []) = process_buf s ((init_req ts0)\<lparr>ts_buf := Some b, ts_len := of_nat (k + length c),
      ts_pktsize := of_nat (target ev k)\<rparr>) True (of_nat (k + length c))"
    by (rule recv_mid [OF assms(1-5)])
  let ?k = "k + length c"
  let ?ts = "(init_req ts0)\<lparr>ts_buf := Some b, ts_len := of_nat ?k, ts_pktsize := of_nat (target ev k)\<rparr>"
  have "length (wire ev) - k = length c + length rest" using arg_cong [OF assms(5), of length] by simp
  moreover have "0 < length c" "0 < length rest" using assms(3,6) by simp_all
  ultimately have k: "0 < ?k" "?k < length (wire ev)" by linarith+
  have kb: "?k \<le> length b" using b(1) k(2) wire_size [OF assms(1)] by (simp add: SBSIZE_def)
  have "process_buf s ?ts True (of_nat ?k) = save_partial s ?ts b (of_nat ?k) (of_nat (target ev ?k))"
    by (rule process_partial [OF assms(1) k b(2) kb]) (simp add: tcp_buf_def)
  also have "\<dots> = Some (Some (?ts\<lparr>ts_pktsize := of_nat (target ev ?k)\<rparr>), s)"
    using ucast_target(1) [OF assms(1)] by (simp add: save_partial_def)
  finally have "tcp_recv s ts (Recv c []) = Some (Some (?ts\<lparr>ts_pktsize := of_nat (target ev ?k)\<rparr>), s)" unfolding b(4) .
  moreover have "mid ev ts0 ?k (?ts\<lparr>ts_pktsize := of_nat (target ev ?k)\<rparr>)"
    unfolding mid_def using k b(1,2) by (intro conjI exI [of _ b]) simp_all
  ultimately show ?thesis by blast
qed

text \<open>One message at the front of a buffer.\<close>

definition after_req :: "event \<Rightarrow> tcp_socket \<Rightarrow> bool" where
  "after_req ev ts \<longleftrightarrow> req_ok (ts_req ts) \<and> parsed_req (ts_req ts) (ev_id ev) (ev_sync ev) (ev_op ev) = ev_req ev \<and>
     ts_excess ts = 0"

lemma process_front:
  assumes "tcp_ev ev" and "after_req ev ts" and "tcp_buf s ts own = Some buf"
    and "take (length (wire ev)) buf = wire ev" and "length (wire ev) \<le> n" and "n \<le> length buf" and "n \<le> SBSIZE"
    and "srv_ok s" and "lookup (sv_cache s) \<subseteq>\<^sub>m m" and "vals_ok m"
  defines "l \<equiv> length (wire ev)"
  obtains (overflow) "process_buf s ts own (of_nat n) = None" and "\<not> incr_fits (ev_op ev) m"
  | (parsed) s' where "handled s s' (ev_req ev) (ev_sync ev) (ev_op ev) m"
    and "process_buf s ts own (of_nat n) =
      (if l < n then
         (let (ts2, s2) = set_tcp_buf s' (ts\<lparr>ts_excess := of_nat (n - l), ts_req := ev_req ev\<rparr>) own
            (take (n - l) (drop l buf) @ drop (n - l) buf);
            ts2 = init_req (ts2\<lparr>ts_len := ts_excess ts2, ts_excess := 0\<rparr>) in
          process_buf s2 ts2 own (of_nat l))
       else if ts_buf ts \<noteq> None then
         Some (Some (ts\<lparr>ts_req := ev_req ev, ts_buf := None, ts_len := 0, ts_pktsize := 0, ts_excess := 0\<rparr>), s')
       else Some (Some (ts\<lparr>ts_req := ev_req ev\<rparr>), s'))"
proof -
  let ?s = "bump s (st_msg_tcp_update (\<lambda>n. n + 1))" and ?junk = "drop l buf"
  note w = wire_words [OF assms(1) order_refl, folded l_def] and sz = wire_size [OF assms(1), folded l_def]
  have b: "take l buf = wire ev" "l \<le> n" "n \<le> length buf" using assms(4-6) by (simp_all add: l_def)
  have "buf = wire ev @ ?junk" using b(1) by (metis append_take_drop_id)
  then have "drop 4 buf = drop 4 (wire ev @ ?junk)" by simp
  then have d4: "drop 4 buf = ev_msg ev @ ?junk" by (simp add: frame_def)
  have ld: "load_size buf 0 = Some (of_nat l)"
    unfolding l_def by (rule wire_load [OF assms(1), where k = l]) (use b sz in \<open>simp_all add: l_def\<close>)
  have l4: "l = 4 + length (ev_msg ev)" by (simp add: l_def frame_def)
  have len: "(of_nat l - 4 :: u64) = of_nat (length (ev_msg ev))" unfolding l4 by simp
  have ev: "ev_ok ev" using assms(1) by (simp add: tcp_ev_def)
  have e: "req_ok (ts_req ts)" "op_fits (ev_op ev)" "ev_id ev < 2 ^ 28"
    using ev assms(2) by (simp_all add: ev_ok_def after_req_def)
  have so: "srv_ok ?s" "lookup (sv_cache ?s) \<subseteq>\<^sub>m m" using assms(8,9) by simp_all
  have pr: "parsed_req (ts_req ts) (ev_id ev) (ev_sync ev) (ev_op ev) = ev_req ev" using assms(2) by (simp add: after_req_def)
  have pm: "fine (incr_fits (ev_op ev) m) (parse_message ?s (ts_req ts) (drop 4 buf) (of_nat l - 4))
    (\<lambda>(r, req', s'). r = 1 \<and> req' = ev_req ev \<and> handled ?s s' (ev_req ev) (ev_sync ev) (ev_op ev) m)"
    unfolding d4 len using so assms(10) e(1) ev pr by (rule parse_event_ok)
  have n64: "n < 2 ^ 64" "l < 2 ^ 64" using assms(7) b(2) by (simp_all add: SBSIZE_def)
  have un: "unat (of_nat n :: u64) = n" "unat (of_nat l :: u64) = l" using n64 by (simp_all add: unat_of_nat_u64)
  have g: "(4 :: u64) \<le> of_nat n" "(of_nat l > (of_nat n :: u64)) \<longleftrightarrow> n < l" "((of_nat l :: u64) < of_nat n) \<longleftrightarrow> l < n"
    using b(2) sz un by (simp_all add: word_le_nat_alt word_less_nat_alt)
  have nl: "(of_nat n - of_nat l :: u64) = of_nat (n - l)" using b(2) by simp
  have unl: "unat (of_nat (n - l) :: u64) = n - l" "l < n \<Longrightarrow> (of_nat (n - l) :: u64) \<noteq> 0"
    using n64 by (simp_all add: unat_of_nat_u64 word_unat_eq_iff del: of_nat_diff)
  have ex: "ts_excess ts = 0" using assms(2) by (simp add: after_req_def)
  have mm: "memmove_front buf l (n - l) = Some (take (n - l) (drop l buf) @ drop (n - l) buf)"
    using b by (simp add: memmove_front_def rd_def)
  from pm show thesis
  proof (cases rule: fineE)
    case undef
    have "process_buf s ts own (of_nat n) = None"
      using assms(3) ld w(1-3) g nl undef(1) b(2)
      by (cases "l = n"; subst process_buf.simps) (simp_all add: Let_def split_beta del: of_nat_diff)
    then show thesis using undef(2) by (rule overflow)
  next
    case (val x)
    obtain s' where p: "parse_message ?s (ts_req ts) (drop 4 buf) (of_nat l - 4) = Some (1, ev_req ev, s')"
      and hs: "handled ?s s' (ev_req ev) (ev_sync ev) (ev_op ev) m" using val by (cases x) auto
    have h: "handled s s' (ev_req ev) (ev_sync ev) (ev_op ev) m"
      by (rule handled_entered [OF _ hs]) (simp add: entered_def)
    show thesis
    proof (rule parsed [OF h], cases "l < n")
      case True
      then show "process_buf s ts own (of_nat n) =
        (if l < n then
           (let (ts2, s2) = set_tcp_buf s' (ts\<lparr>ts_excess := of_nat (n - l), ts_req := ev_req ev\<rparr>) own
              (take (n - l) (drop l buf) @ drop (n - l) buf);
              ts2 = init_req (ts2\<lparr>ts_len := ts_excess ts2, ts_excess := 0\<rparr>) in
            process_buf s2 ts2 own (of_nat l))
         else if ts_buf ts \<noteq> None then
           Some (Some (ts\<lparr>ts_req := ev_req ev, ts_buf := None, ts_len := 0, ts_pktsize := 0, ts_excess := 0\<rparr>), s')
         else Some (Some (ts\<lparr>ts_req := ev_req ev\<rparr>), s'))"
        using assms(3) ld w(1-3) g p nl unl un mm b(2)
        by (subst process_buf.simps) (simp add: Let_def split_beta del: of_nat_diff)
    next
      case False
      then have n: "n = l" using b(2) by simp
      show "process_buf s ts own (of_nat n) =
        (if l < n then
           (let (ts2, s2) = set_tcp_buf s' (ts\<lparr>ts_excess := of_nat (n - l), ts_req := ev_req ev\<rparr>) own
              (take (n - l) (drop l buf) @ drop (n - l) buf);
              ts2 = init_req (ts2\<lparr>ts_len := ts_excess ts2, ts_excess := 0\<rparr>) in
            process_buf s2 ts2 own (of_nat l))
         else if ts_buf ts \<noteq> None then
           Some (Some (ts\<lparr>ts_req := ev_req ev, ts_buf := None, ts_len := 0, ts_pktsize := 0, ts_excess := 0\<rparr>), s')
         else Some (Some (ts\<lparr>ts_req := ev_req ev\<rparr>), s'))"
        using assms(3) ld w(1-3) g p ex unfolding n
        by (subst process_buf.simps) (simp add: Let_def)
    qed
  qed
qed

lemma process_front_fits:
  assumes "tcp_ev ev" and "after_req ev ts" and "tcp_buf s ts own = Some buf"
    and "take (length (wire ev)) buf = wire ev" and "length (wire ev) \<le> n" and "n \<le> length buf" and "n \<le> SBSIZE"
    and "srv_ok s" and "lookup (sv_cache s) \<subseteq>\<^sub>m m" and "vals_ok m"
    and "incr_fits (ev_op ev) m"
  shows "\<exists>s'. handled s s' (ev_req ev) (ev_sync ev) (ev_op ev) m \<and>
    process_buf s ts own (of_nat n) =
      (if length (wire ev) < n then
         (let (ts2, s2) = set_tcp_buf s' (ts\<lparr>ts_excess := of_nat (n - length (wire ev)), ts_req := ev_req ev\<rparr>) own
            (take (n - length (wire ev)) (drop (length (wire ev)) buf) @ drop (n - length (wire ev)) buf);
            ts2 = init_req (ts2\<lparr>ts_len := ts_excess ts2, ts_excess := 0\<rparr>) in
          process_buf s2 ts2 own (of_nat (length (wire ev))))
       else if ts_buf ts \<noteq> None then
         Some (Some (ts\<lparr>ts_req := ev_req ev, ts_buf := None, ts_len := 0, ts_pktsize := 0, ts_excess := 0\<rparr>), s')
       else Some (Some (ts\<lparr>ts_req := ev_req ev\<rparr>), s'))"
  by (rule process_front [OF assms(1-10)]) (use assms(11) in blast)+

text \<open>The last piece: the message is parsed and the connection's buffer freed.\<close>

lemma feed_last:
  assumes "tcp_ev ev" and "conn_idle ev ts0" and "mid ev ts0 k ts" and "drop k (wire ev) = c" and "length c \<le> room ts"
    and "srv_ok s" and "lookup (sv_cache s) \<subseteq>\<^sub>m m" and "vals_ok m"
  shows "fine (incr_fits (ev_op ev) m) (tcp_recv s ts (Recv c [])) (\<lambda>(r, s'). \<exists>ts'. r = Some ts' \<and> conn_idle ev ts' \<and>
    handled s s' (ev_req ev) (ev_sync ev) (ev_op ev) m)"
proof -
  let ?n = "length (wire ev)"
  have k: "0 < k" "k < ?n" using assms(3) by (auto simp: mid_def)
  have ne: "c \<noteq> []" using assms(4) k by auto
  have kc: "k + length c = ?n" using assms(4) k by auto
  have dr: "drop k (wire ev) = c @ []" using assms(4) by simp
  obtain b where b: "length b = SBSIZE" "take (k + length c) b = take (k + length c) (wire ev)"
    "k + length c \<le> length (wire ev)"
    "tcp_recv s ts (Recv c []) = process_buf s ((init_req ts0)\<lparr>ts_buf := Some b, ts_len := of_nat (k + length c),
      ts_pktsize := of_nat (target ev k)\<rparr>) True (of_nat (k + length c))"
    by (rule recv_mid [OF assms(1,3) ne assms(5) dr])
  let ?ts = "(init_req ts0)\<lparr>ts_buf := Some b, ts_len := of_nat ?n, ts_pktsize := of_nat (target ev k)\<rparr>"
  have tb: "take ?n b = wire ev" using b(2) unfolding kc by simp
  have bsz: "?n \<le> length b" "?n \<le> SBSIZE" using b(1) wire_size [OF assms(1)] by (simp_all add: SBSIZE_def)
  have ex: "ts_excess (init_req ts0) = 0" using assms(2) by (simp add: conn_idle_def init_req_def)
  have "after_req ev ?ts"
    using assms(1) req_ok_init_req [OF assms(2)] parsed_init_req [OF assms(2)] ex
    by (simp add: after_req_def tcp_ev_def ev_ok_def)
  moreover have "tcp_buf s ?ts True = Some b" by (simp add: tcp_buf_def)
  moreover have "conn_idle ev (?ts\<lparr>ts_req := ev_req ev, ts_buf := None, ts_len := 0, ts_pktsize := 0, ts_excess := 0\<rparr>)"
    using assms(2) by (simp add: conn_idle_def init_req_def)
  ultimately show ?thesis
    unfolding b(4) kc
    by (rule_tac process_front [OF assms(1) _ _ tb order_refl bsz assms(6-8)]) auto
qed

section \<open>Whole messages\<close>

lemma feed_mid:
  assumes "tcp_ev ev" and "conn_idle ev ts0" and "mid ev ts0 k ts" and "concat cs = drop k (wire ev)" and "[] \<notin> set cs"
    and "srv_ok s" and "lookup (sv_cache s) \<subseteq>\<^sub>m m" and "vals_ok m"
  shows "fine (incr_fits (ev_op ev) m) (tcp_feed s ts cs) (\<lambda>(r, s'). \<exists>ts'. r = Some ts' \<and> conn_idle ev ts' \<and>
    handled s s' (ev_req ev) (ev_sync ev) (ev_op ev) m)"
  using assms(3-5)
proof (induction "length (wire ev) - k" arbitrary: k ts cs rule: less_induct)
  case less
  have k: "k < length (wire ev)" using less.prems(1) by (simp add: mid_def)
  then have "concat cs \<noteq> []" using less.prems(2) by simp
  then obtain c cs' where cs: "cs = c # cs'" "c \<noteq> []" using less.prems(3) by (cases cs) auto
  note r = target_room [OF assms(1) less.prems(1)]
  let ?c = "take (room ts) c" and ?cs = "if room ts < length c then drop (room ts) c # cs' else cs'"
  have c: "?c \<noteq> []" "length ?c \<le> room ts" using cs(2) r(2) by simp_all
  have "concat cs = ?c @ concat ?cs" by (simp add: cs(1))
  then have dr: "drop k (wire ev) = ?c @ concat ?cs" using less.prems(2) by simp
  show ?case
  proof (cases "concat ?cs = []")
    case True
    then have last: "drop k (wire ev) = ?c" using dr by simp
    have "xs = []" if "\<forall>x\<in>set xs. x = []" "[] \<notin> set xs" for xs :: "bytes list" using that by (cases xs) auto
    then have "?cs = []" using True less.prems(3) cs(1) by (auto split: if_splits)
    with feed_last [OF assms(1,2) less.prems(1) last c(2) assms(6-8)] r(2) show ?thesis
      unfolding cs(1) by (cases rule: fineE) (auto split: if_splits)
  next
    case False
    obtain ts' where ts': "tcp_recv s ts (Recv ?c []) = Some (Some ts', s)" "mid ev ts0 (k + length ?c) ts'"
      using feed_more [OF assms(1) less.prems(1) c dr False] by blast
    have "concat ?cs = drop (k + length ?c) (wire ev)"
      using arg_cong [OF dr, of "drop (length ?c)"] by (simp add: add.commute)
    moreover have "[] \<notin> set ?cs" using less.prems(3) cs(1) by auto
    moreover have "length (wire ev) - (k + length ?c) < length (wire ev) - k" using k c(1) by (simp add: diff_less_mono2)
    ultimately have "fine (incr_fits (ev_op ev) m) (tcp_feed s ts' ?cs) (\<lambda>(r, s'). \<exists>ts'. r = Some ts' \<and> conn_idle ev ts' \<and>
        handled s s' (ev_req ev) (ev_sync ev) (ev_op ev) m)"
      using less.hyps [OF _ ts'(2)] by blast
    then show ?thesis unfolding cs(1) using tcp_feed_step [OF ts'(1) r(2)] by simp
  qed
qed

lemma tcp_feed_ok:
  assumes "srv_ok s" and "lookup (sv_cache s) \<subseteq>\<^sub>m m" and "vals_ok m" and "ev_ok ev" and "ev_t ev = TCP"
    and "conn_idle ev ts" and "concat cs = frame TCP (ev_msg ev)" and "[] \<notin> set cs"
  shows "fine (incr_fits (ev_op ev) m) (tcp_feed s ts cs) (\<lambda>(r, s'). \<exists>ts'. r = Some ts' \<and> conn_idle ev ts' \<and>
    handled s s' (ev_req ev) (ev_sync ev) (ev_op ev) m)"
proof -
  have t: "tcp_ev ev" using assms(4,5) by (simp add: tcp_ev_def)
  note sz = wire_size [OF t]
  then have "wire ev \<noteq> []" by auto
  then obtain c cs' where cs: "cs = c # cs'" "c \<noteq> []" using assms(7,8) by (cases cs) auto
  have w: "wire ev = c @ concat cs'" using assms(7) cs(1) by simp
  then have l: "length c \<le> length (wire ev)" by simp
  have r: "room ts = SBSIZE" "0 < room ts" "take (room ts) c = c" "\<not> room ts < length c"
    using assms(6) l sz by (simp_all add: room_def conn_idle_def SBSIZE_def)
  show ?thesis
  proof (cases "concat cs' = []")
    case True
    then have "cs' = []" using assms(8) cs(1) by (cases cs') auto
    then have c: "c = wire ev" "cs = [c]" using w cs(1) by simp_all
    have "tcp_feed s ts cs = Option.bind (tcp_recv s ts (Recv (wire ev) [])) (\<lambda>(r, s'). Some (r, s'))"
      using r c(1) unfolding c(2) by (cases "tcp_recv s ts (Recv (wire ev) [])") (auto split: option.splits)
    then show ?thesis using tcp_recv_ok [OF assms(1-6), of "[]"] by simp
  next
    case False
    have g: "good (sv_ms s)" using assms(1) by (simp add: srv_ok_def)
    obtain ts' ms bufs fr where f: "tcp_recv s ts (Recv c []) = Some (Some ts', s\<lparr>sv_bufs := bufs, sv_ms := ms, sv_fresh := fr\<rparr>)"
      "mid ev ts (length c) ts'" "good ms"
      using feed_first [OF t assms(6) g w cs(2) False] by blast
    let ?s = "s\<lparr>sv_bufs := bufs, sv_ms := ms, sv_fresh := fr\<rparr>"
    have so: "srv_ok ?s" "lookup (sv_cache ?s) \<subseteq>\<^sub>m m" using assms(1,2) f(3) by (simp_all add: srv_ok_def)
    have e: "entered s ?s" using so assms(1) by (simp add: entered_def)
    have "concat cs' = drop (length c) (wire ev)" "[] \<notin> set cs'" using w assms(8) cs(1) by simp_all
    from feed_mid [OF t assms(6) f(2) this so assms(3)]
    have "fine (incr_fits (ev_op ev) m) (tcp_feed ?s ts' cs') (\<lambda>(r, s'). \<exists>ts'. r = Some ts' \<and> conn_idle ev ts' \<and>
        handled s s' (ev_req ev) (ev_sync ev) (ev_op ev) m)"
      by (rule fine_mono) (auto intro: handled_entered [OF e])
    moreover have "tcp_feed s ts cs = tcp_feed ?s ts' cs'" using f(1) r cs(1) by (simp add: tcp_feed_step)
    ultimately show ?thesis by simp
  qed
qed

section \<open>Connections\<close>

text \<open>
  An open connection and the bytes of the next message it has already received: between
  messages, or in the middle of one.
\<close>

definition idle_at :: "int \<Rightarrow> tcp_socket \<Rightarrow> bool" where
  "idle_at fd ts \<longleftrightarrow> ts_buf ts = None \<and> ts_excess ts = 0 \<and> ts_fd ts = fd \<and> ts_clilen ts = of_nat (length (ts_clisa ts))"

definition conn_ok :: "int \<Rightarrow> tcp_socket \<Rightarrow> bytes \<Rightarrow> bool" where
  "conn_ok fd ts got \<longleftrightarrow> (\<exists>ts0. idle_at fd ts0 \<and> (got = [] \<and> ts = ts0 \<or>
     (\<exists>ev. tcp_ev ev \<and> take (length got) (wire ev) = got \<and> mid ev ts0 (length got) ts)))"

lemma conn_idle_at: "conn_idle ev ts \<longleftrightarrow> idle_at (ev_fd ev) ts \<and> ts_clisa ts = ev_addr ev"
  by (auto simp: conn_idle_def idle_at_def)

lemma mid_clisa: "mid ev ts0 k ts \<Longrightarrow> ts_clisa ts = ts_clisa ts0"
  by (auto simp: mid_def init_req_def)

text \<open>What the connection waits for depends only on what it has.\<close>

lemma mid_cong:
  assumes "mid ev ts0 k ts" and "tcp_ev ev" and "tcp_ev ev'" and "take k (wire ev) = take k (wire ev')"
    and "k < length (wire ev')"
  shows "mid ev' ts0 k ts"
proof -
  have k: "k < length (wire ev)" using assms(1) by (simp add: mid_def)
  have "target ev k = target ev' k"
  proof (cases "k < 4")
    case False
    then have "load_size (wire ev) 0 = Some (of_nat (length (wire ev)))"
      using wire_load [OF assms(2), of k "wire ev"] k by simp
    moreover have "load_size (wire ev) 0 = Some (of_nat (length (wire ev')))"
      using wire_load [OF assms(3), of k "wire ev"] False k assms(4) by simp
    ultimately have "unat (of_nat (length (wire ev)) :: u32) = unat (of_nat (length (wire ev')) :: u32)" by simp
    then show ?thesis
      using False wire_size [OF assms(2)] wire_size [OF assms(3)] by (simp add: target_def unat_of_nat_u32)
  qed (simp add: target_def)
  with assms show ?thesis unfolding mid_def by simp
qed

text \<open>The next piece of a message on an open connection.\<close>

lemma entered_bufs: "good ms \<Longrightarrow> good (sv_ms s) \<Longrightarrow> entered s (s\<lparr>sv_bufs := b, sv_ms := ms, sv_fresh := fr\<rparr>)"
  by (simp add: entered_def srv_ok_def)

lemma piece_ok:
  assumes "conn_ok fd ts got" and "tcp_ev ev" and "ev_fd ev = fd" and "ev_addr ev = ts_clisa ts"
    and "bs \<noteq> []" and "length bs \<le> room ts" and "wire ev = got @ bs @ rest"
    and "srv_ok s" and "lookup (sv_cache s) \<subseteq>\<^sub>m m" and "vals_ok m"
  shows "fine (rest = [] \<longrightarrow> incr_fits (ev_op ev) m) (tcp_recv s ts (Recv bs [])) (\<lambda>(r, s'). \<exists>ts'. r = Some ts' \<and>
    conn_ok fd ts' (if rest = [] then [] else got @ bs) \<and>
    (if rest = [] then handled s s' (ev_req ev) (ev_sync ev) (ev_op ev) m else entered s s'))"
proof -
  obtain ts0 where t0: "idle_at fd ts0" "got = [] \<and> ts = ts0 \<or>
     (\<exists>ev. tcp_ev ev \<and> take (length got) (wire ev) = got \<and> mid ev ts0 (length got) ts)"
    using assms(1) by (auto simp: conn_ok_def)
  have g: "good (sv_ms s)" using assms(8) by (simp add: srv_ok_def)
  have le: "ev_ok ev" "ev_t ev = TCP" using assms(2) by (simp_all add: tcp_ev_def)
  show ?thesis
  proof (cases "got = []")
    case True
    then have ts: "ts = ts0" using t0(2) by (auto simp: mid_def)
    have idle: "conn_idle ev ts" using t0(1) ts assms(3,4) by (simp add: conn_idle_at)
    show ?thesis
    proof (cases "rest = []")
      case rest: True
      then have "wire ev = bs" using assms(7) True by simp
      with tcp_recv_ok [OF assms(8-10) le idle, of "[]"] have "fine (incr_fits (ev_op ev) m) (tcp_recv s ts (Recv bs []))
        (\<lambda>(r, s'). \<exists>ts'. r = Some ts' \<and> conn_idle ev ts' \<and> handled s s' (ev_req ev) (ev_sync ev) (ev_op ev) m)" by simp
      from this rest assms(3) show ?thesis by (cases rule: fineE) (auto simp: conn_ok_def conn_idle_at)
    next
      case rest: False
      have w: "wire ev = bs @ rest" using assms(7) True by simp
      obtain ts' ms bufs fr where f: "tcp_recv s ts (Recv bs []) = Some (Some ts', s\<lparr>sv_bufs := bufs, sv_ms := ms, sv_fresh := fr\<rparr>)"
        "mid ev ts (length bs) ts'" "good ms"
        using feed_first [OF assms(2) idle g w assms(5) rest] by blast
      have "conn_ok fd ts' bs" unfolding conn_ok_def
        using t0(1) ts f(2) assms(2) w by (intro exI [of _ ts0]) auto
      with f rest True entered_bufs [OF f(3) g] show ?thesis by auto
    qed
  next
    case False
    then obtain ev0 where e: "tcp_ev ev0" "take (length got) (wire ev0) = got" "mid ev0 ts0 (length got) ts"
      using t0(2) by auto
    have tk: "take (length got) (wire ev) = got" "length got < length (wire ev)" using assms(5,7) by simp_all
    have m: "mid ev ts0 (length got) ts" by (rule mid_cong [OF e(3,1) assms(2)]) (use e(2) tk in simp_all)
    have idle: "conn_idle ev ts0" using t0(1) assms(3,4) mid_clisa [OF m] by (simp add: conn_idle_at)
    have dr: "drop (length got) (wire ev) = bs @ rest" using assms(7) by simp
    show ?thesis
    proof (cases "rest = []")
      case rest: True
      then have "drop (length got) (wire ev) = bs" using dr by simp
      from feed_last [OF assms(2) idle m this assms(6) assms(8-10)] rest assms(3) show ?thesis
        by (cases rule: fineE) (auto simp: conn_ok_def conn_idle_at)
    next
      case rest: False
      obtain ts' where ts': "tcp_recv s ts (Recv bs []) = Some (Some ts', s)" "mid ev ts0 (length got + length bs) ts'"
        using feed_more [OF assms(2) m assms(5,6) dr rest] by blast
      have "conn_ok fd ts' (got @ bs)" unfolding conn_ok_def
        using t0(1) ts'(2) assms(2,7) by (intro exI [of _ ts0] conjI disjI2 exI [of _ ev]) simp_all
      with ts'(1) rest show ?thesis by (auto simp: entered_def)
    qed
  qed
qed

text \<open>Opening a connection, and what ends one: nothing more to read, or an error.\<close>

lemma newconnection_ok:
  assumes "good (sv_ms s)"
  shows "\<exists>ms r. tcp_newconnection s fd a nb = (r, s\<lparr>sv_ms := ms\<rparr>) \<and> good ms \<and> (\<forall>ts. r = Some ts \<longrightarrow> conn_ok fd ts [])"
proof -
  obtain ms where ms: "malloc (sv_ms s) = (True, ms)" "good ms" using assms by (rule malloc_good)
  obtain ms' where ms': "malloc ms = (True, ms')" "good ms'" using ms(2) by (rule malloc_good)
  let ?ts = "\<lparr>ts_fd = fd, ts_clisa = a, ts_clilen = of_nat (length a), ts_buf = None, ts_pktsize = 0, ts_len = 0,
    ts_req = make_req TCP fd a, ts_excess = 0\<rparr>"
  have "tcp_newconnection s fd a nb = (if nb then Some ?ts else None, s\<lparr>sv_ms := ms'\<rparr>)"
    using ms(1) ms'(1) by (simp add: tcp_newconnection_def Let_def)
  moreover have "idle_at fd ?ts" by (simp add: idle_at_def)
  then have "conn_ok fd ?ts []" by (auto simp: conn_ok_def)
  ultimately show ?thesis using ms'(2) by (intro exI conjI) (assumption, auto)
qed

lemma hangup_ok:
  assumes "conn_ok fd ts got" and "r = Recv [] a \<or> r = RecvErr e"
  shows "\<exists>r' b. tcp_recv s ts r = Some (r', s\<lparr>sv_bufs := b\<rparr>) \<and> (\<forall>ts'. r' = Some ts' \<longrightarrow> ts' = ts)"
proof -
  have same: "\<exists>b. s = s\<lparr>sv_bufs := b\<rparr>" by (rule exI [of _ "sv_bufs s"]) simp
  show ?thesis
  proof (cases "ts_buf ts")
    case None
    then show ?thesis using assms(2) same by (auto simp: tcp_recv_def Let_def)
  next
    case (Some b)
    then obtain ev ts0 where m: "tcp_ev ev" "mid ev ts0 (length got) ts"
      using assms(1) by (auto simp: conn_ok_def idle_at_def)
    then have "unat (ts_len ts) < length (wire ev)" "length b = SBSIZE"
      using wire_words(6) [OF m(1), of "length got"] Some by (auto simp: mid_def)
    then have "\<not> length b < unat (ts_len ts)" using wire_size [OF m(1)] by (simp add: SBSIZE_def)
    with Some assms(2) same show ?thesis by (auto simp: tcp_recv_def Let_def)
  qed
qed

end
