(* ===== verification/Backend.thy ===== *)
theory Backend
  imports Req
begin

text \<open>
  The database interface (\<^verbatim>\<open>nmdb/be.h\<close>, \<^verbatim>\<open>nmdb/be.c\<close>) and the backends behind it
  (\<^verbatim>\<open>nmdb/be-tdb.c\<close>, \<^verbatim>\<open>be-bdb.c\<close>, \<^verbatim>\<open>be-tc.c\<close>, \<^verbatim>\<open>be-qdbm.c\<close>, \<^verbatim>\<open>be-leveldb.c\<close>, \<^verbatim>\<open>be-null.c\<close>).
  The database libraries are not part of nmdb: their functions are the fields of a record
  that is a parameter of the backend's definitions, and what the server relies on is the
  predicate \<open>lawful\<close> below, a statement about an opened connection.

  \<^verbatim>\<open>conn\<close> is the library's handle, \<open>None\<close> being NULL; a call may change what it refers to and
  returns the new state. A function that fills a caller's buffer takes the buffer's size and
  returns the bytes it stored, whose number is what \<^verbatim>\<open>*vsize\<close> is set to.
\<close>

section \<open>\<^verbatim>\<open>struct db_conn\<close>\<close>

type_synonym 'c set_fn = "'c option \<Rightarrow> bytes \<Rightarrow> bytes \<Rightarrow> (int \<times> 'c option) option"
type_synonym 'c get_fn = "'c option \<Rightarrow> bytes \<Rightarrow> nat \<Rightarrow> (int \<times> bytes \<times> 'c option) option"
type_synonym 'c del_fn = "'c option \<Rightarrow> bytes \<Rightarrow> (int \<times> 'c option) option"
type_synonym 'c first_fn = "'c option \<Rightarrow> nat \<Rightarrow> (int \<times> bytes \<times> 'c option) option"
type_synonym 'c close_fn = "'c option \<Rightarrow> int option"

record 'c db_conn =
  dc_conn :: "'c option"
  dc_set :: "'c set_fn"
  dc_get :: "'c get_fn"
  dc_del :: "'c del_fn"
  dc_firstkey :: "'c first_fn option"
  dc_nextkey :: "'c get_fn option"
  dc_close :: "'c close_fn"

abbreviation bool_int :: "bool \<Rightarrow> int" where
  "bool_int b \<equiv> if b then 1 else 0"

text \<open>
  Copying \<open>b\<close> into a buffer of \<open>n\<close> bytes: more than fits is undefined.
\<close>

definition fill :: "bytes \<Rightarrow> nat \<Rightarrow> bytes option" where
  "fill b n = (if length b \<le> n then Some b else None)"

section \<open>\<^verbatim>\<open>be-null.c\<close>\<close>

definition null_set :: "'c set_fn" where
  "null_set c k v = Some (1, c)"

definition null_get :: "'c get_fn" where
  "null_get c k n = Some (0, [], c)"

definition null_del :: "'c del_fn" where
  "null_del c k = Some (0, c)"

definition null_close :: "'c close_fn" where
  "null_close c = Some 1"

definition null_open :: "alloc \<Rightarrow> 'c db_conn option \<times> alloc" where
  "null_open ms = (let (ok, ms) = malloc ms in
     (if ok then Some \<lparr>dc_conn = None, dc_set = null_set, dc_get = null_get, dc_del = null_del,
        dc_firstkey = None, dc_nextkey = None, dc_close = null_close\<rparr> else None, ms))"

section \<open>\<^verbatim>\<open>be-tdb.c\<close>\<close>

record 'c tdb_lib =
  tdb_open :: "string \<Rightarrow> 'c option"
  tdb_close :: "'c \<Rightarrow> int"
  tdb_store :: "'c \<Rightarrow> bytes \<Rightarrow> bytes \<Rightarrow> int \<times> 'c"
  tdb_fetch :: "'c \<Rightarrow> bytes \<Rightarrow> bytes option"
  tdb_delete :: "'c \<Rightarrow> bytes \<Rightarrow> int \<times> 'c"
  tdb_firstkey :: "'c \<Rightarrow> bytes option"
  tdb_nextkey :: "'c \<Rightarrow> bytes \<Rightarrow> bytes option"

definition xtdb_set :: "'c tdb_lib \<Rightarrow> 'c set_fn" where
  "xtdb_set lib conn k v = do {
     c \<leftarrow> conn;
     let (rv, c) = tdb_store lib c k v;
     Some (bool_int (rv = 0), Some c)
   }"

definition xtdb_get :: "'c tdb_lib \<Rightarrow> 'c get_fn" where
  "xtdb_get lib conn k vsize = do {
     c \<leftarrow> conn;
     (case tdb_fetch lib c k of
        None \<Rightarrow> Some (0, [], Some c)
      | Some v \<Rightarrow>
          if length v > vsize then Some (0, [], Some c)
          else do { b \<leftarrow> fill v vsize; Some (1, b, Some c) })
   }"

definition xtdb_del :: "'c tdb_lib \<Rightarrow> 'c del_fn" where
  "xtdb_del lib conn k = do {
     c \<leftarrow> conn;
     let (rv, c) = tdb_delete lib c k;
     Some (bool_int (rv = 0), Some c)
   }"

definition xtdb_firstkey :: "'c tdb_lib \<Rightarrow> 'c first_fn" where
  "xtdb_firstkey lib conn ksize = do {
     c \<leftarrow> conn;
     (case tdb_firstkey lib c of
        None \<Rightarrow> Some (0, [], Some c)
      | Some k \<Rightarrow> do { b \<leftarrow> fill k ksize; Some (1, b, Some c) })
   }"

definition xtdb_nextkey :: "'c tdb_lib \<Rightarrow> 'c get_fn" where
  "xtdb_nextkey lib conn key nksize = do {
     c \<leftarrow> conn;
     (case tdb_nextkey lib c key of
        None \<Rightarrow> Some (0, [], Some c)
      | Some k \<Rightarrow> do { b \<leftarrow> fill k nksize; Some (1, b, Some c) })
   }"

definition xtdb_close :: "'c tdb_lib \<Rightarrow> 'c close_fn" where
  "xtdb_close lib conn = do { c \<leftarrow> conn; Some (bool_int (tdb_close lib c = 0)) }"

definition xtdb_open :: "'c tdb_lib \<Rightarrow> string \<Rightarrow> alloc \<Rightarrow> 'c db_conn option \<times> alloc" where
  "xtdb_open lib name ms = (case tdb_open lib name of
     None \<Rightarrow> (None, ms)
   | Some c \<Rightarrow> let (ok, ms) = malloc ms in
       (if ok then Some \<lparr>dc_conn = Some c, dc_set = xtdb_set lib, dc_get = xtdb_get lib, dc_del = xtdb_del lib,
          dc_firstkey = Some (xtdb_firstkey lib), dc_nextkey = Some (xtdb_nextkey lib),
          dc_close = xtdb_close lib\<rparr> else None, ms))"

section \<open>\<^verbatim>\<open>be-bdb.c\<close>\<close>

text \<open>
  \<^verbatim>\<open>get\<close> with \<^verbatim>\<open>DB_DBT_USERMEM\<close> stores at most \<^verbatim>\<open>ulen\<close> bytes and gives the data's size.
\<close>

record 'c bdb_lib =
  bdb_lib_create :: int
  bdb_lib_open :: "string \<Rightarrow> int \<times> 'c"
  bdb_lib_close :: "'c \<Rightarrow> int"
  bdb_lib_put :: "'c \<Rightarrow> bytes \<Rightarrow> bytes \<Rightarrow> int \<times> 'c"
  bdb_lib_get :: "'c \<Rightarrow> bytes \<Rightarrow> nat \<Rightarrow> int \<times> bytes"
  bdb_lib_del :: "'c \<Rightarrow> bytes \<Rightarrow> int \<times> 'c"

definition bdb_set :: "'c bdb_lib \<Rightarrow> 'c set_fn" where
  "bdb_set lib conn k v = do {
     c \<leftarrow> conn;
     let (rv, c) = bdb_lib_put lib c k v;
     if rv \<noteq> 0 then Some (0, Some c) else Some (1, Some c)
   }"

definition bdb_get :: "'c bdb_lib \<Rightarrow> 'c get_fn" where
  "bdb_get lib conn k vsize = do {
     c \<leftarrow> conn;
     let (rv, v) = bdb_lib_get lib c k vsize;
     if rv \<noteq> 0 then Some (0, [], Some c) else do { b \<leftarrow> fill v vsize; Some (1, b, Some c) }
   }"

definition bdb_del :: "'c bdb_lib \<Rightarrow> 'c del_fn" where
  "bdb_del lib conn k = do {
     c \<leftarrow> conn;
     let (rv, c) = bdb_lib_del lib c k;
     if rv \<noteq> 0 then Some (0, Some c) else Some (1, Some c)
   }"

definition bdb_close :: "'c bdb_lib \<Rightarrow> 'c close_fn" where
  "bdb_close lib conn = do {
     c \<leftarrow> conn;
     if bdb_lib_close lib c \<noteq> 0 then Some 0 else Some 1
   }"

definition bdb_open :: "'c bdb_lib \<Rightarrow> string \<Rightarrow> alloc \<Rightarrow> 'c db_conn option \<times> alloc" where
  "bdb_open lib name ms =
     (if bdb_lib_create lib \<noteq> 0 then (None, ms)
      else let (rv, c) = bdb_lib_open lib name in
        if rv \<noteq> 0 then (None, ms)
        else let (ok, ms) = malloc ms in
          (if ok then Some \<lparr>dc_conn = Some c, dc_set = bdb_set lib, dc_get = bdb_get lib, dc_del = bdb_del lib,
             dc_firstkey = None, dc_nextkey = None, dc_close = bdb_close lib\<rparr> else None, ms))"

section \<open>\<^verbatim>\<open>be-tc.c\<close> and \<^verbatim>\<open>be-qdbm.c\<close>\<close>

text \<open>
  Both libraries return the number of bytes stored in the buffer (at most its size), or -1.
\<close>

record 'c tc_lib =
  tchdbopen :: "string \<Rightarrow> bool \<times> 'c"
  tchdbclose :: "'c \<Rightarrow> int"
  tchdbput :: "'c \<Rightarrow> bytes \<Rightarrow> bytes \<Rightarrow> int \<times> 'c"
  tchdbget3 :: "'c \<Rightarrow> bytes \<Rightarrow> nat \<Rightarrow> int \<times> bytes"
  tchdbout :: "'c \<Rightarrow> bytes \<Rightarrow> int \<times> 'c"

definition tc_set :: "'c tc_lib \<Rightarrow> 'c set_fn" where
  "tc_set lib conn k v = do { c \<leftarrow> conn; let (rv, c) = tchdbput lib c k v; Some (rv, Some c) }"

definition tc_get :: "'c tc_lib \<Rightarrow> 'c get_fn" where
  "tc_get lib conn k vsize = do {
     c \<leftarrow> conn;
     let (rv, v) = tchdbget3 lib c k vsize;
     if rv \<ge> 0 then Some (1, take (nat rv) v, Some c) else Some (0, [], Some c)
   }"

definition tc_del :: "'c tc_lib \<Rightarrow> 'c del_fn" where
  "tc_del lib conn k = do { c \<leftarrow> conn; let (rv, c) = tchdbout lib c k; Some (rv, Some c) }"

definition tc_close :: "'c tc_lib \<Rightarrow> 'c close_fn" where
  "tc_close lib conn = do { c \<leftarrow> conn; Some (tchdbclose lib c) }"

definition tc_open :: "'c tc_lib \<Rightarrow> string \<Rightarrow> alloc \<Rightarrow> 'c db_conn option \<times> alloc" where
  "tc_open lib name ms = (let (ok, c) = tchdbopen lib name in
     if \<not> ok then (None, ms)
     else let (ok, ms) = malloc ms in
       (if ok then Some \<lparr>dc_conn = Some c, dc_set = tc_set lib, dc_get = tc_get lib, dc_del = tc_del lib,
          dc_firstkey = None, dc_nextkey = None, dc_close = tc_close lib\<rparr> else None, ms))"

record 'c qdbm_lib =
  dpopen :: "string \<Rightarrow> 'c option"
  dpclose :: "'c \<Rightarrow> int"
  dpput :: "'c \<Rightarrow> bytes \<Rightarrow> bytes \<Rightarrow> int \<times> 'c"
  dpgetwb :: "'c \<Rightarrow> bytes \<Rightarrow> nat \<Rightarrow> int \<times> bytes"
  dpout :: "'c \<Rightarrow> bytes \<Rightarrow> int \<times> 'c"

definition qdbm_set :: "'c qdbm_lib \<Rightarrow> 'c set_fn" where
  "qdbm_set lib conn k v = do { c \<leftarrow> conn; let (rv, c) = dpput lib c k v; Some (rv, Some c) }"

definition qdbm_get :: "'c qdbm_lib \<Rightarrow> 'c get_fn" where
  "qdbm_get lib conn k vsize = do {
     c \<leftarrow> conn;
     let (rv, v) = dpgetwb lib c k vsize;
     if rv \<ge> 0 then Some (1, take (nat rv) v, Some c) else Some (0, [], Some c)
   }"

definition qdbm_del :: "'c qdbm_lib \<Rightarrow> 'c del_fn" where
  "qdbm_del lib conn k = do { c \<leftarrow> conn; let (rv, c) = dpout lib c k; Some (rv, Some c) }"

definition qdbm_close :: "'c qdbm_lib \<Rightarrow> 'c close_fn" where
  "qdbm_close lib conn = do { c \<leftarrow> conn; Some (dpclose lib c) }"

definition qdbm_open :: "'c qdbm_lib \<Rightarrow> string \<Rightarrow> alloc \<Rightarrow> 'c db_conn option \<times> alloc" where
  "qdbm_open lib name ms = (case dpopen lib name of
     None \<Rightarrow> (None, ms)
   | Some c \<Rightarrow> let (ok, ms) = malloc ms in
       (if ok then Some \<lparr>dc_conn = Some c, dc_set = qdbm_set lib, dc_get = qdbm_get lib, dc_del = qdbm_del lib,
          dc_firstkey = None, dc_nextkey = None, dc_close = qdbm_close lib\<rparr> else None, ms))"

section \<open>\<^verbatim>\<open>be-leveldb.c\<close>\<close>

text \<open>
  LevelDB reports an error by replacing the string behind \<^verbatim>\<open>err\<close>; the flag says whether it
  did (the one byte that the code allocates for the string is only there to be replaced). An iterator is a position: the key it is at, or none when it is not valid.
\<close>

record 'c leveldb_lib =
  leveldb_options_create :: bool
  leveldb_open :: "string \<Rightarrow> 'c option"
  leveldb_put :: "'c \<Rightarrow> bytes \<Rightarrow> bytes \<Rightarrow> bool \<times> 'c"
  leveldb_get :: "'c \<Rightarrow> bytes \<Rightarrow> bool \<times> bytes option"
  leveldb_delete :: "'c \<Rightarrow> bytes \<Rightarrow> bool \<times> 'c"
  leveldb_iter_seek_to_first :: "'c \<Rightarrow> bytes option"
  leveldb_iter_seek :: "'c \<Rightarrow> bytes \<Rightarrow> bytes option"
  leveldb_iter_next :: "'c \<Rightarrow> bytes \<Rightarrow> bytes option"

definition xleveldb_set :: "'c leveldb_lib \<Rightarrow> 'c set_fn" where
  "xleveldb_set lib conn k v = do {
     c \<leftarrow> conn;
     let (err, c) = leveldb_put lib c k v;
     Some (bool_int (\<not> err), Some c)
   }"

definition xleveldb_get :: "'c leveldb_lib \<Rightarrow> 'c get_fn" where
  "xleveldb_get lib conn k vsize = do {
     c \<leftarrow> conn;
     let (err, v) = leveldb_get lib c k;
     (if err then Some (0, [], Some c)
      else case v of
        None \<Rightarrow> Some (0, [], Some c)
      | Some v \<Rightarrow> if length v > vsize then Some (0, [], Some c)
          else do { b \<leftarrow> fill v vsize; Some (1, b, Some c) })
   }"

definition xleveldb_del :: "'c leveldb_lib \<Rightarrow> 'c del_fn" where
  "xleveldb_del lib conn k = do {
     c \<leftarrow> conn;
     let (err, c) = leveldb_delete lib c k;
     Some (bool_int (\<not> err), Some c)
   }"

definition xleveldb_firstkey :: "'c leveldb_lib \<Rightarrow> 'c first_fn" where
  "xleveldb_firstkey lib conn ksize = do {
     c \<leftarrow> conn;
     (case leveldb_iter_seek_to_first lib c of
        None \<Rightarrow> Some (0, [], Some c)
      | Some k \<Rightarrow> if length k > ksize then Some (0, [], Some c)
          else do { b \<leftarrow> fill k ksize; Some (1, b, Some c) })
   }"

definition xleveldb_nextkey :: "'c leveldb_lib \<Rightarrow> 'c get_fn" where
  "xleveldb_nextkey lib conn key nksize = do {
     c \<leftarrow> conn;
     (case leveldb_iter_seek lib c key of
        None \<Rightarrow> Some (0, [], Some c)
      | Some k \<Rightarrow>
          (case leveldb_iter_next lib c k of
             None \<Rightarrow> Some (0, [], Some c)
           | Some k \<Rightarrow> if length k > nksize then Some (0, [], Some c)
               else do { b \<leftarrow> fill k nksize; Some (1, b, Some c) }))
   }"

definition xleveldb_close :: "'c close_fn" where
  "xleveldb_close conn = do { c \<leftarrow> conn; Some 1 }"

definition xleveldb_open :: "'c leveldb_lib \<Rightarrow> string \<Rightarrow> alloc \<Rightarrow> 'c db_conn option \<times> alloc" where
  "xleveldb_open lib name ms = (if \<not> leveldb_options_create lib then (None, ms)
   else case leveldb_open lib name of
     None \<Rightarrow> (None, ms)
   | Some c \<Rightarrow> let (ok, ms) = malloc ms in
       (if ok then Some \<lparr>dc_conn = Some c, dc_set = xleveldb_set lib, dc_get = xleveldb_get lib,
          dc_del = xleveldb_del lib, dc_firstkey = Some (xleveldb_firstkey lib),
          dc_nextkey = Some (xleveldb_nextkey lib), dc_close = xleveldb_close\<rparr> else None, ms))"

section \<open>\<^verbatim>\<open>be.c\<close>\<close>

text \<open>Which backends were compiled in (\<^verbatim>\<open>BE_ENABLE_*\<close>); one that was not opens as NULL.\<close>

record be_enable =
  en_qdbm :: bool
  en_bdb :: bool
  en_tc :: bool
  en_tdb :: bool
  en_leveldb :: bool
  en_null :: bool

record 'c be_libs =
  lib_qdbm :: "'c qdbm_lib"
  lib_bdb :: "'c bdb_lib"
  lib_tc :: "'c tc_lib"
  lib_tdb :: "'c tdb_lib"
  lib_leveldb :: "'c leveldb_lib"

text \<open>
  The openers of backends that are not compiled in. The one of \<^verbatim>\<open>be-leveldb.c\<close> is called
  \<^verbatim>\<open>leveldb_open()\<close>, while \<^verbatim>\<open>be.c\<close> calls \<^verbatim>\<open>xleveldb_open()\<close>, so a server without LevelDB does not
  link; \<open>db_open\<close> takes it for the one that was meant.
\<close>

definition qdbm_open_stub :: "string \<Rightarrow> alloc \<Rightarrow> 'c db_conn option \<times> alloc" where
  "qdbm_open_stub name ms = (None, ms)"
definition bdb_open_stub :: "string \<Rightarrow> alloc \<Rightarrow> 'c db_conn option \<times> alloc" where
  "bdb_open_stub name ms = (None, ms)"
definition tc_open_stub :: "string \<Rightarrow> alloc \<Rightarrow> 'c db_conn option \<times> alloc" where
  "tc_open_stub name ms = (None, ms)"
definition xtdb_open_stub :: "string \<Rightarrow> alloc \<Rightarrow> 'c db_conn option \<times> alloc" where
  "xtdb_open_stub name ms = (None, ms)"
definition leveldb_open_stub :: "string \<Rightarrow> alloc \<Rightarrow> 'c db_conn option \<times> alloc" where
  "leveldb_open_stub name ms = (None, ms)"
definition null_open_stub :: "string \<Rightarrow> alloc \<Rightarrow> 'c db_conn option \<times> alloc" where
  "null_open_stub name ms = (None, ms)"

lemmas open_stubs = qdbm_open_stub_def bdb_open_stub_def tc_open_stub_def xtdb_open_stub_def leveldb_open_stub_def null_open_stub_def

definition db_open ::
  "be_enable \<Rightarrow> 'c be_libs \<Rightarrow> backend_type \<Rightarrow> string \<Rightarrow> alloc \<Rightarrow> 'c db_conn option \<times> alloc" where
  "db_open en libs type name ms = (case type of
     BE_QDBM \<Rightarrow> if en_qdbm en then qdbm_open (lib_qdbm libs) name ms else qdbm_open_stub name ms
   | BE_BDB \<Rightarrow> if en_bdb en then bdb_open (lib_bdb libs) name ms else bdb_open_stub name ms
   | BE_TC \<Rightarrow> if en_tc en then tc_open (lib_tc libs) name ms else tc_open_stub name ms
   | BE_TDB \<Rightarrow> if en_tdb en then xtdb_open (lib_tdb libs) name ms else xtdb_open_stub name ms
   | BE_LEVELDB \<Rightarrow> if en_leveldb en then xleveldb_open (lib_leveldb libs) name ms else leveldb_open_stub name ms
   | BE_NULL \<Rightarrow> if en_null en then null_open ms else null_open_stub name ms
   | _ \<Rightarrow> (None, ms))"

definition be_type_from_str :: "be_enable \<Rightarrow> string \<Rightarrow> backend_type" where
  "be_type_from_str en name =
     (if name = ''qdbm'' then (if en_qdbm en then BE_QDBM else BE_UNSUPPORTED)
      else if name = ''bdb'' then (if en_bdb en then BE_BDB else BE_UNSUPPORTED)
      else if name = ''tc'' then (if en_tc en then BE_TC else BE_UNSUPPORTED)
      else if name = ''tdb'' then (if en_tdb en then BE_TDB else BE_UNSUPPORTED)
      else if name = ''leveldb'' then (if en_leveldb en then BE_LEVELDB else BE_UNSUPPORTED)
      else if name = ''null'' then (if en_null en then BE_NULL else BE_UNSUPPORTED)
      else BE_UNKNOWN)"

definition be_str_from_type :: "backend_type \<Rightarrow> string" where
  "be_str_from_type type =
     (if type = BE_QDBM then ''qdbm''
      else if type = BE_BDB then ''bdb''
      else if type = BE_TC then ''tc''
      else if type = BE_TDB then ''tdb''
      else if type = BE_LEVELDB then ''leveldb''
      else if type = BE_NULL then ''null''
      else ''unknown'')"

text \<open>The \<^verbatim>\<open>DEFAULT_BE\<close> of \<^verbatim>\<open>be.h\<close>; with no backend enabled the header does not compile.\<close>

definition DEFAULT_BE :: "be_enable \<Rightarrow> backend_type option" where
  "DEFAULT_BE en =
     (if en_tdb en then Some BE_TDB
      else if en_tc en then Some BE_TC
      else if en_qdbm en then Some BE_QDBM
      else if en_bdb en then Some BE_BDB
      else if en_leveldb en then Some BE_LEVELDB
      else if en_null en then Some BE_NULL
      else None)"

text \<open>Its name, and the list of the backends that were compiled in, for the help text.\<close>

definition DEFAULT_BE_NAME :: "be_enable \<Rightarrow> string option" where
  "DEFAULT_BE_NAME en =
     (if en_tdb en then Some ''tdb''
      else if en_tc en then Some ''tc''
      else if en_qdbm en then Some ''qdbm''
      else if en_bdb en then Some ''bdb''
      else if en_leveldb en then Some ''leveldb''
      else if en_null en then Some ''null''
      else None)"

definition SUPPORTED_BE :: "be_enable \<Rightarrow> string" where
  "SUPPORTED_BE en =
     (if en_qdbm en then ''qdbm '' else []) @ (if en_bdb en then ''bdb '' else []) @
     (if en_tc en then ''tc '' else []) @ (if en_tdb en then ''tdb '' else []) @
     (if en_leveldb en then ''leveldb '' else []) @ (if en_null en then ''null '' else [])"

text \<open>The help text names what the option for the backend accepts.\<close>

lemma default_be_name: "DEFAULT_BE en = Some be \<Longrightarrow> DEFAULT_BE_NAME en = Some (be_str_from_type be)"
  by (auto simp: DEFAULT_BE_def DEFAULT_BE_NAME_def be_str_from_type_def split: if_splits)

lemma supported_be: "SUPPORTED_BE en = concat (map (\<lambda>name. if be_type_from_str en name = BE_UNSUPPORTED then [] else name @ '' '')
    [''qdbm'', ''bdb'', ''tc'', ''tdb'', ''leveldb'', ''null''])"
  by (simp add: SUPPORTED_BE_def be_type_from_str_def)

section \<open>What the server relies on\<close>

text \<open>
  A connection behaves as a map \<open>view c\<close>: storing succeeds and updates it, fetching a value
  that fits the buffer gives the value, deleting removes the key and says whether it was there.
\<close>

definition lawful :: "'c db_conn \<Rightarrow> ('c \<Rightarrow> bytes \<Rightarrow> bytes option) \<Rightarrow> bool" where
  "lawful db view \<longleftrightarrow>
     (\<forall>c k v. \<exists>rv c'. dc_set db (Some c) k v = Some (rv, Some c') \<and> rv \<noteq> 0 \<and> view c' = (view c)(k \<mapsto> v)) \<and>
     (\<forall>c k n. (\<forall>v. view c k = Some v \<longrightarrow> length v \<le> n) \<longrightarrow>
        (\<exists>rv b c'. dc_get db (Some c) k n = Some (rv, b, Some c') \<and> view c' = view c \<and>
           (case view c k of None \<Rightarrow> rv = 0 | Some v \<Rightarrow> rv \<noteq> 0 \<and> b = v))) \<and>
     (\<forall>c k. \<exists>rv c'. dc_del db (Some c) k = Some (rv, Some c') \<and> (rv = 0 \<longleftrightarrow> view c k = None) \<and>
        view c' = (view c)(k := None))"

lemma lawful_set:
  assumes "lawful db view"
  obtains rv c' where "dc_set db (Some c) k v = Some (rv, Some c')" and "rv \<noteq> 0" and "view c' = (view c)(k \<mapsto> v)"
  using assms unfolding lawful_def by metis

lemma lawful_get:
  assumes "lawful db view" and "\<And>v. view c k = Some v \<Longrightarrow> length v \<le> n"
  obtains rv b c' where "dc_get db (Some c) k n = Some (rv, b, Some c')" and "view c' = view c"
    and "case view c k of None \<Rightarrow> rv = 0 | Some v \<Rightarrow> rv \<noteq> 0 \<and> b = v"
  using assms unfolding lawful_def by meson

lemma lawful_del:
  assumes "lawful db view"
  obtains rv c' where "dc_del db (Some c) k = Some (rv, Some c')" and "rv = 0 \<longleftrightarrow> view c k = None"
    and "view c' = (view c)(k := None)"
  using assms unfolding lawful_def by metis

text \<open>The documented behaviour of the libraries, from which the backends' lawfulness follows.\<close>

definition tdb_laws :: "'c tdb_lib \<Rightarrow> ('c \<Rightarrow> bytes \<Rightarrow> bytes option) \<Rightarrow> bool" where
  "tdb_laws lib view \<longleftrightarrow>
     (\<forall>c k v. fst (tdb_store lib c k v) = 0 \<and> view (snd (tdb_store lib c k v)) = (view c)(k \<mapsto> v)) \<and>
     (\<forall>c k. tdb_fetch lib c k = view c k) \<and>
     (\<forall>c k. (fst (tdb_delete lib c k) = 0 \<longleftrightarrow> view c k \<noteq> None) \<and>
        view (snd (tdb_delete lib c k)) = (view c)(k := None))"

definition bdb_laws :: "'c bdb_lib \<Rightarrow> ('c \<Rightarrow> bytes \<Rightarrow> bytes option) \<Rightarrow> bool" where
  "bdb_laws lib view \<longleftrightarrow>
     (\<forall>c k v. fst (bdb_lib_put lib c k v) = 0 \<and> view (snd (bdb_lib_put lib c k v)) = (view c)(k \<mapsto> v)) \<and>
     (\<forall>c k n. case view c k of None \<Rightarrow> fst (bdb_lib_get lib c k n) \<noteq> 0
        | Some v \<Rightarrow> if length v \<le> n then bdb_lib_get lib c k n = (0, v) else fst (bdb_lib_get lib c k n) \<noteq> 0) \<and>
     (\<forall>c k. (fst (bdb_lib_del lib c k) = 0 \<longleftrightarrow> view c k \<noteq> None) \<and>
        view (snd (bdb_lib_del lib c k)) = (view c)(k := None))"

text \<open>Tokyo Cabinet and QDBM store a prefix when the value does not fit.\<close>

definition hash_laws :: "('c \<Rightarrow> bytes \<Rightarrow> bytes \<Rightarrow> int \<times> 'c) \<Rightarrow> ('c \<Rightarrow> bytes \<Rightarrow> nat \<Rightarrow> int \<times> bytes) \<Rightarrow>
    ('c \<Rightarrow> bytes \<Rightarrow> int \<times> 'c) \<Rightarrow> ('c \<Rightarrow> bytes \<Rightarrow> bytes option) \<Rightarrow> bool" where
  "hash_laws pt gt dl view \<longleftrightarrow>
     (\<forall>c k v. fst (pt c k v) \<noteq> 0 \<and> view (snd (pt c k v)) = (view c)(k \<mapsto> v)) \<and>
     (\<forall>c k n. gt c k n = (case view c k of None \<Rightarrow> (- 1, []) | Some v \<Rightarrow> (int (min n (length v)), take n v))) \<and>
     (\<forall>c k. (fst (dl c k) = 0 \<longleftrightarrow> view c k = None) \<and> view (snd (dl c k)) = (view c)(k := None))"

lemma xtdb_lawful:
  assumes "tdb_laws lib view" and "xtdb_open lib name ms = (Some db, ms')"
  shows "lawful db view"
proof -
  have db: "dc_set db = xtdb_set lib" "dc_get db = xtdb_get lib" "dc_del db = xtdb_del lib"
    using assms(2) by (auto simp: xtdb_open_def split: option.splits prod.splits if_splits)
  from assms(1) show ?thesis
    unfolding lawful_def db
    by (auto simp: tdb_laws_def xtdb_set_def xtdb_get_def xtdb_del_def fill_def split_beta not_less
        split: option.splits)
qed

lemma bdb_lawful:
  assumes "bdb_laws lib view" and "bdb_open lib name ms = (Some db, ms')"
  shows "lawful db view"
proof -
  have db: "dc_set db = bdb_set lib" "dc_get db = bdb_get lib" "dc_del db = bdb_del lib"
    using assms(2) by (auto simp: bdb_open_def split: prod.splits if_splits)
  have g: "\<exists>rv b c'. bdb_get lib (Some c) k n = Some (rv, b, Some c') \<and> view c' = view c \<and>
      (case view c k of None \<Rightarrow> rv = 0 | Some v \<Rightarrow> rv \<noteq> 0 \<and> b = v)"
    if "\<forall>v. view c k = Some v \<longrightarrow> length v \<le> n" for c k n
  proof (cases "view c k")
    case None
    with assms(1) have "fst (bdb_lib_get lib c k n) \<noteq> 0" by (simp add: bdb_laws_def option.case_eq_if)
    with None show ?thesis by (simp add: bdb_get_def split_beta)
  next
    case (Some v)
    with assms(1) that have "bdb_lib_get lib c k n = (0, v)" by (auto simp: bdb_laws_def option.case_eq_if)
    with Some that show ?thesis by (simp add: bdb_get_def fill_def)
  qed
  from assms(1) g show ?thesis
    unfolding lawful_def db by (auto simp: bdb_laws_def bdb_set_def bdb_del_def split_beta)
qed

lemma tc_lawful:
  assumes "hash_laws (tchdbput lib) (tchdbget3 lib) (tchdbout lib) view" and "tc_open lib name ms = (Some db, ms')"
  shows "lawful db view"
proof -
  have db: "dc_set db = tc_set lib" "dc_get db = tc_get lib" "dc_del db = tc_del lib"
    using assms(2) by (auto simp: tc_open_def split: prod.splits if_splits)
  from assms(1) show ?thesis
    unfolding lawful_def db
    by (auto simp: hash_laws_def tc_set_def tc_get_def tc_del_def split_beta split: option.splits)
qed

lemma qdbm_lawful:
  assumes "hash_laws (dpput lib) (dpgetwb lib) (dpout lib) view" and "qdbm_open lib name ms = (Some db, ms')"
  shows "lawful db view"
proof -
  have db: "dc_set db = qdbm_set lib" "dc_get db = qdbm_get lib" "dc_del db = qdbm_del lib"
    using assms(2) by (auto simp: qdbm_open_def split: option.splits prod.splits if_splits)
  from assms(1) show ?thesis
    unfolding lawful_def db
    by (auto simp: hash_laws_def qdbm_set_def qdbm_get_def qdbm_del_def split_beta split: option.splits)
qed

end
