(* ===== verification/Dbloop.thy ===== *)
theory Dbloop
  imports Backend Parse
begin

text \<open>
  The database thread (\<^verbatim>\<open>nmdb/dbloop.c\<close>): \<^verbatim>\<open>process_op()\<close> performs one queued operation and
  sends its reply; \<^verbatim>\<open>db_loop()\<close> waits for entries, takes them off the queue and processes
  them. The loop is cut at the points where the other thread can run: before the queue is
  locked, while \<^verbatim>\<open>queue_timedwait()\<close> has released the lock, and between taking an entry and
  processing it.
\<close>

section \<open>One operation\<close>

definition DBBUF :: nat where "DBBUF = 64 * 1024"

text \<open>\<^verbatim>\<open>malloc()\<close> for a result buffer, in the server's state.\<close>

definition db_malloc :: "server \<Rightarrow> bool \<times> server" where
  "db_malloc s = (let (ok, ms) = malloc (sv_ms s) in (ok, s\<lparr>sv_ms := ms\<rparr>))"

definition op_set :: "server \<Rightarrow> 'c db_conn \<Rightarrow> queue_entry \<Rightarrow> req_info \<Rightarrow> (server \<times> 'c db_conn) option" where
  "op_set s db e req = do {
     k \<leftarrow> qe_key e;
     v \<leftarrow> qe_val e;
     (rv, c) \<leftarrow> dc_set db (dc_conn db) k v;
     let db = db\<lparr>dc_conn := c\<rparr>;
     if r_flags req AND FLAGS_SYNC = 0 then Some (s, db)
     else if rv = 0 then Some (reply_err s req ERR_DB, db)
     else Some (reply_mini s req REP_OK, db)
   }"

definition op_get :: "server \<Rightarrow> 'c db_conn \<Rightarrow> queue_entry \<Rightarrow> req_info \<Rightarrow> (server \<times> 'c db_conn) option" where
  "op_get s db e req =
     (let (ok, s) = db_malloc s in
      if \<not> ok then Some (reply_err s req ERR_MEM, db)
      else do {
        k \<leftarrow> qe_key e;
        (rv, val, c) \<leftarrow> dc_get db (dc_conn db) k DBBUF;
        let db = db\<lparr>dc_conn := c\<rparr>;
        if rv = 0 then Some (reply_mini s req REP_NOTIN, db)
        else do {
          s \<leftarrow> reply_long s req REP_OK (Some val) (sz val);
          Some (s, db)
        }
      })"

definition op_del :: "server \<Rightarrow> 'c db_conn \<Rightarrow> queue_entry \<Rightarrow> req_info \<Rightarrow> (server \<times> 'c db_conn) option" where
  "op_del s db e req = do {
     k \<leftarrow> qe_key e;
     (rv, c) \<leftarrow> dc_del db (dc_conn db) k;
     let db = db\<lparr>dc_conn := c\<rparr>;
     if r_flags req AND FLAGS_SYNC = 0 then Some (s, db)
     else if rv = 0 then Some (reply_mini s req REP_NOTIN, db)
     else Some (reply_mini s req REP_OK, db)
   }"

definition op_cas :: "server \<Rightarrow> 'c db_conn \<Rightarrow> queue_entry \<Rightarrow> req_info \<Rightarrow> (server \<times> 'c db_conn) option" where
  "op_cas s db e req =
     (let (ok, s) = db_malloc s in
      if \<not> ok then Some (reply_err s req ERR_MEM, db)
      else do {
        k \<leftarrow> qe_key e;
        (rv, dbval, c) \<leftarrow> dc_get db (dc_conn db) k DBBUF;
        let db = db\<lparr>dc_conn := c\<rparr>;
        if rv = 0 then Some (reply_mini s req REP_NOTIN, db)
        else do {
          eq \<leftarrow> (if qe_vsize e = sz dbval then memcmp_eq dbval (qe_val e) else Some False);
          if eq then do {
            nv \<leftarrow> qe_newval e;
            (rv, c) \<leftarrow> dc_set db (dc_conn db) k nv;
            let db = db\<lparr>dc_conn := c\<rparr>;
            if rv = 0 then Some (reply_err s req ERR_DB, db)
            else Some (reply_mini s req REP_OK, db)
          }
          else Some (reply_mini s req REP_NOMATCH, db)
        }
      })"

text \<open>
  The buffer has 64 kB, of which the first \<^verbatim>\<open>dbvsize\<close> bytes are known; \<^verbatim>\<open>snprintf()\<close> writes 24
  bytes, so what the buffer holds beyond a shorter value does not matter. A sum that overflows is undefined.
\<close>

definition op_incr :: "server \<Rightarrow> 'c db_conn \<Rightarrow> queue_entry \<Rightarrow> req_info \<Rightarrow> (server \<times> 'c db_conn) option" where
  "op_incr s db e req =
     (let (ok, s) = db_malloc s in
      if \<not> ok then Some (reply_err s req ERR_MEM, db)
      else do {
        k \<leftarrow> qe_key e;
        (rv, dbval, c) \<leftarrow> dc_get db (dc_conn db) k DBBUF;
        let db = db\<lparr>dc_conn := c\<rparr>;
        if rv = 0 then Some (reply_mini s req REP_NOTIN, db)
        else do {
          z \<leftarrow> rd dbval (unat (sz dbval - 1)) 1;
          if z \<noteq> [0] then Some (reply_mini s req REP_NOMATCH, db)
          else do {
            intval \<leftarrow> strtoll dbval;
            v \<leftarrow> qe_val e;
            inc \<leftarrow> load64 v 0;
            intval \<leftarrow> ll_add intval inc;
            let buf = dbval @ replicate (24 - length dbval) 0;
            dbval \<leftarrow> snprintf23 (Some buf) (length buf) intval;
            (rv, c) \<leftarrow> dc_set db (dc_conn db) k dbval;
            let db = db\<lparr>dc_conn := c\<rparr>;
            if rv = 0 then Some (reply_err s req ERR_DB, db)
            else do {
              s \<leftarrow> reply_long s req REP_OK (Some (store64 (htonll intval))) 8;
              Some (s, db)
            }
          }
        }
      })"

definition op_firstkey :: "server \<Rightarrow> 'c db_conn \<Rightarrow> req_info \<Rightarrow> (server \<times> 'c db_conn) option" where
  "op_firstkey s db req = (case dc_firstkey db of
     None \<Rightarrow> Some (reply_err s req ERR_DB, db)
   | Some f \<Rightarrow>
      let (ok, s) = db_malloc s in
      if \<not> ok then Some (reply_err s req ERR_MEM, db)
      else do {
        (rv, key, c) \<leftarrow> f (dc_conn db) DBBUF;
        let db = db\<lparr>dc_conn := c\<rparr>;
        if rv = 0 then Some (reply_mini s req REP_NOTIN, db)
        else do {
          s \<leftarrow> reply_long s req REP_OK (Some key) (sz key);
          Some (s, db)
        }
      })"

definition op_nextkey :: "server \<Rightarrow> 'c db_conn \<Rightarrow> queue_entry \<Rightarrow> req_info \<Rightarrow> (server \<times> 'c db_conn) option" where
  "op_nextkey s db e req = (case dc_nextkey db of
     None \<Rightarrow> Some (reply_err s req ERR_DB, db)
   | Some f \<Rightarrow>
      let (ok, s) = db_malloc s in
      if \<not> ok then Some (reply_err s req ERR_MEM, db)
      else do {
        k \<leftarrow> qe_key e;
        (rv, newkey, c) \<leftarrow> f (dc_conn db) k DBBUF;
        let db = db\<lparr>dc_conn := c\<rparr>;
        if rv = 0 then Some (reply_mini s req REP_NOTIN, db)
        else do {
          s \<leftarrow> reply_long s req REP_OK (Some newkey) (sz newkey);
          Some (s, db)
        }
      })"

text \<open>An unknown operation is only logged.\<close>

definition process_op :: "server \<Rightarrow> 'c db_conn \<Rightarrow> queue_entry \<Rightarrow> (server \<times> 'c db_conn) option" where
  "process_op s db e = (case qe_req e of
     Owned req \<Rightarrow>
       (if qe_operation e = REQ_SET then op_set s db e req
        else if qe_operation e = REQ_GET then op_get s db e req
        else if qe_operation e = REQ_DEL then op_del s db e req
        else if qe_operation e = REQ_CAS then op_cas s db e req
        else if qe_operation e = REQ_INCR then op_incr s db e req
        else if qe_operation e = REQ_FIRSTKEY then op_firstkey s db req
        else if qe_operation e = REQ_NEXTKEY then op_nextkey s db e req
        else Some (s, db))
   | _ \<Rightarrow> None)"

section \<open>The loop\<close>

definition ETIMEDOUT :: int where "ETIMEDOUT = 110"

text \<open>
  Where the database thread is: at the top of the loop, inside \<^verbatim>\<open>queue_timedwait()\<close>, holding
  an entry it took, or past the loop.
\<close>

datatype db_pc = DbTop | DbWait | DbGot nat | DbDone

text \<open>
  What follows the wait once it is over with result \<open>rv\<close>, the lock being held. A failed wait
  goes back to the top of the loop without unlocking.
\<close>

definition db_take :: "server \<Rightarrow> bool \<Rightarrow> int \<Rightarrow> (db_pc \<times> server) option" where
  "db_take s stop rv =
     (if rv \<noteq> 0 \<and> rv \<noteq> ETIMEDOUT then Some (DbTop, s)
      else do {
        (e, q) \<leftarrow> queue_get (sv_queue s);
        q \<leftarrow> queue_unlock q;
        let s = s\<lparr>sv_queue := q\<rparr>;
        Some (case e of
          None \<Rightarrow> (if stop then DbDone else DbTop, s)
        | Some a \<Rightarrow> (DbGot a, s))
      })"

text \<open>While waiting, the thread does not hold the lock.\<close>

definition db_wait :: "server \<Rightarrow> (db_pc \<times> server) option" where
  "db_wait s = do {
     q \<leftarrow> queue_unlock (sv_queue s);
     Some (DbWait, s\<lparr>sv_queue := q\<rparr>)
   }"

definition db_top :: "server \<Rightarrow> bool \<Rightarrow> (db_pc \<times> server) option" where
  "db_top s stop = do {
     q \<leftarrow> queue_lock (sv_queue s);
     let s = s\<lparr>sv_queue := q\<rparr>;
     if queue_isempty q then db_wait s else db_take s stop 0
   }"

text \<open>\<^verbatim>\<open>queue_timedwait()\<close> returns \<open>rv\<close>: it has taken the lock again.\<close>

definition db_wake :: "server \<Rightarrow> bool \<Rightarrow> int \<Rightarrow> (db_pc \<times> server) option" where
  "db_wake s stop rv = do {
     q \<leftarrow> queue_lock (sv_queue s);
     (rv, q) \<leftarrow> queue_timedwait q rv;
     let s = s\<lparr>sv_queue := q\<rparr>;
     if queue_isempty q \<and> rv = 0 then db_wait s else db_take s stop rv
   }"

definition db_work :: "server \<Rightarrow> 'c db_conn \<Rightarrow> nat \<Rightarrow> (db_pc \<times> server \<times> 'c db_conn) option" where
  "db_work s db a = do {
     e \<leftarrow> entry_at (sv_queue s) (Some a);
     (s, db) \<leftarrow> process_op s db e;
     q \<leftarrow> queue_entry_free (sv_queue s) (Some a);
     Some (DbTop, s\<lparr>sv_queue := q\<rparr>, db)
   }"

end
