(* ===== verification/Db_Ok.thy ===== *)
theory Db_Ok
  imports Parse_Ok Dbloop
begin

text \<open>
  The database thread's side of the store: performing a queued operation on a lawful
  backend is one step of the reference store, and the reply it sends is the reference
  store's reply at that moment.
\<close>

lemma lawful_conn [simp]: "lawful (db\<lparr>dc_conn := c\<rparr>) view = lawful db view"
  by (simp add: lawful_def)

lemma body_fields:
  "qe_key (body e) = qe_key e" "qe_val (body e) = qe_val e" "qe_newval (body e) = qe_newval e"
  "qe_vsize (body e) = qe_vsize e" "qe_req (body e) = qe_req e" "qe_operation (body e) = qe_operation e"
  by (simp_all add: body_def)

lemma op_body:
  "op_set s db (body e) req = op_set s db e req" "op_get s db (body e) req = op_get s db e req"
  "op_del s db (body e) req = op_del s db e req" "op_cas s db (body e) req = op_cas s db e req"
  "op_incr s db (body e) req = op_incr s db e req" "op_nextkey s db (body e) req = op_nextkey s db e req"
  unfolding op_set_def op_get_def op_del_def op_cas_def op_incr_def op_nextkey_def body_fields
  by (rule refl)+

lemma process_op_body: "process_op s db (body e) = process_op s db e"
  unfolding process_op_def op_body body_fields by (rule refl)

lemma vals_okD: "vals_ok m \<Longrightarrow> m k = Some v \<Longrightarrow> v \<noteq> [] \<and> length v \<le> 2 ^ 16"
  by (simp add: vals_ok_def)

lemma vals_ok_upd: "vals_ok m \<Longrightarrow> v \<noteq> [] \<Longrightarrow> length v \<le> 2 ^ 16 \<Longrightarrow> vals_ok (m(k \<mapsto> v))"
  by (simp add: vals_ok_def)

lemma vals_ok_step:
  assumes "op_fits x" and "vals_ok m"
  shows "vals_ok (ref_step x m)"
proof (cases x)
  case (CIncr k i)
  then show ?thesis
    using assms(2) vals_okD [OF assms(2), of k]
    by (auto simp: length_num_val num_val_def intro!: vals_ok_upd split: option.splits)
next
  case (CDel k)
  with assms(2) show ?thesis by (simp add: vals_ok_def)
qed (use assms in \<open>simp_all add: vals_ok_upd\<close>)

text \<open>What performing an operation achieved.\<close>

definition performed :: "server \<Rightarrow> server \<Rightarrow> req_info \<Rightarrow> bool \<Rightarrow> cache_op \<Rightarrow> (bytes \<rightharpoonup> bytes) \<Rightarrow> bool" where
  "performed s s' req sy x m \<longleftrightarrow> srv_ok s' \<and> sv_cache s' = sv_cache s \<and> sv_queue s' = sv_queue s \<and>
     (\<exists>ps. sv_out s' = sv_out s @ ps \<and> map pkt_view ps =
        (if late sy x then [(r_fd req, dest req, store32 (r_id req), spec_reply sy x m)] else []) \<and>
        (\<forall>p\<in>set ps. \<not> hit_pkt p))"

lemma performed_silent: "srv_ok s \<Longrightarrow> \<not> late sy x \<Longrightarrow> performed s s req sy x m"
  by (simp add: performed_def)

lemma performed_mini:
  assumes "srv_ok s1" and "req_ok req" and "late sy x" and "sv_cache s1 = sv_cache s"
    and "sv_queue s1 = sv_queue s" and "sv_out s1 = sv_out s"
    and "decode_reply (store32 (r_id req) @ store32 (htonl r)) = (store32 (r_id req), spec_reply sy x m)"
    and "r \<noteq> REP_CACHE_HIT"
  shows "performed s (reply_mini s1 req r) req sy x m"
proof -
  obtain p where p: "reply_mini s1 req r = s1\<lparr>sv_out := sv_out s1 @ [p]\<rparr>" "srv_ok (s1\<lparr>sv_out := sv_out s1 @ [p]\<rparr>)"
    "pkt_view p = (r_fd req, dest req, decode_reply (store32 (r_id req) @ store32 (htonl r)))"
    "r \<noteq> REP_CACHE_HIT \<Longrightarrow> \<not> hit_pkt p"
    using assms(1,2) by (rule reply_mini_step [where r = r]) blast
  with assms show ?thesis unfolding performed_def by (simp del: store32_htonl)
qed

lemma performed_long:
  assumes "srv_ok s1" and "req_ok req" and "late sy x" and "sv_cache s1 = sv_cache s"
    and "sv_queue s1 = sv_queue s" and "sv_out s1 = sv_out s" and "length v < 2 ^ 32"
    and "spec_reply sy x m = RVal v"
  shows "\<exists>s'. reply_long s1 req REP_OK (Some v) (sz v) = Some s' \<and> performed s s' req sy x m"
proof -
  obtain p s' where p: "reply_long s1 req REP_OK (Some v) (sz v) = Some s'" "srv_ok s'"
    "sv_cache s' = sv_cache s1" "sv_queue s' = sv_queue s1" "sv_out s' = sv_out s1 @ [p]"
    "pkt_view p = (r_fd req, dest req, decode_reply (store32 (r_id req) @ store32 (htonl REP_OK) @
      store32 (htonl (of_nat (length v))) @ v))" "\<not> hit_pkt p"
    using assms(1,2,7) by (rule reply_long_step [where r = REP_OK]) simp
  with assms show ?thesis unfolding performed_def by (simp add: decode_long del: store32_htonl)
qed

lemma db_malloc_ok:
  assumes "srv_ok s"
  obtains ms where "db_malloc s = (True, s\<lparr>sv_ms := ms\<rparr>)" and "srv_ok (s\<lparr>sv_ms := ms\<rparr>)"
proof -
  have "good (sv_ms s)" using assms by (simp add: srv_ok_def)
  then obtain ms where "malloc (sv_ms s) = (True, ms)" "good ms" by (rule malloc_good)
  with assms show thesis by (intro that) (simp_all add: db_malloc_def srv_ok_def)
qed

definition dbcall_ok :: "server \<Rightarrow> 'c db_conn \<Rightarrow> ('c \<Rightarrow> bytes \<rightharpoonup> bytes) \<Rightarrow> 'c \<Rightarrow> req_info \<Rightarrow> bool \<Rightarrow> cache_op \<Rightarrow> bool" where
  "dbcall_ok s db view c req sy x \<longleftrightarrow> srv_ok s \<and> req_ok req \<and> lawful db view \<and> dc_conn db = Some c \<and>
     vals_ok (view c) \<and> op_fits x \<and> r_flags req = op_flags sy x"

lemma dbcall_okD:
  assumes "dbcall_ok s db view c req sy x"
  shows "srv_ok s" "req_ok req" "lawful db view" "dc_conn db = Some c" "vals_ok (view c)" "op_fits x"
    "r_flags req = op_flags sy x"
  using assms by (simp_all add: dbcall_ok_def)

text \<open>Fetching a value into the 64 kB buffer.\<close>

lemma db_fetch:
  assumes "lawful db view" and "dc_conn db = Some c" and "vals_ok (view c)"
  obtains rv b c' where "dc_get db (dc_conn db) k DBBUF = Some (rv, b, Some c')" and "view c' = view c"
    and "case view c k of None \<Rightarrow> rv = 0 | Some v \<Rightarrow> rv \<noteq> 0 \<and> b = v"
proof -
  have "\<And>v. view c k = Some v \<Longrightarrow> length v \<le> DBBUF"
    using assms(3) by (fastforce simp: vals_ok_def DBBUF_def)
  then show thesis
    by (rule lawful_get [OF assms(1)]) (use that assms(2) in simp_all)
qed

text \<open>The database and the replies are right, and the operation is defined unless it overflows.\<close>

definition served :: "(server \<times> 'c db_conn) option \<Rightarrow> server \<Rightarrow> 'c db_conn \<Rightarrow> ('c \<Rightarrow> bytes \<rightharpoonup> bytes) \<Rightarrow> 'c \<Rightarrow>
    req_info \<Rightarrow> bool \<Rightarrow> cache_op \<Rightarrow> bool" where
  "served r s db view c req sy x \<longleftrightarrow> fine (incr_fits x (view c)) r (\<lambda>(s', db'). \<exists>c'. db' = db\<lparr>dc_conn := Some c'\<rparr> \<and>
     view c' = ref_step x (view c) \<and> performed s s' req sy x (view c))"

lemma servedI:
  "r = Some (s', db\<lparr>dc_conn := Some c'\<rparr>) \<Longrightarrow> view c' = ref_step x (view c) \<Longrightarrow>
    performed s s' req sy x (view c) \<Longrightarrow> served r s db view c req sy x"
  by (auto simp: served_def)

lemma op_set_ok:
  assumes "dbcall_ok s db view c req sy (CSet k v)" and "qe_key e = Some k" and "qe_val e = Some v"
  shows "served (op_set s db e req) s db view c req sy (CSet k v)"
proof -
  note c' = dbcall_okD [OF assms(1)]
  obtain rv c1 where st: "dc_set db (Some c) k v = Some (rv, Some c1)" "rv \<noteq> 0" "view c1 = (view c)(k \<mapsto> v)"
    using c'(3) by (rule lawful_set)
  show ?thesis
  proof (cases sy)
    case True
    have "performed s (reply_mini s req REP_OK) req sy (CSet k v) (view c)"
      by (rule performed_mini [OF c'(1,2)]) (use True decode_mini(1) in simp_all)
    with st c' assms(2,3) True show ?thesis by (intro servedI) (simp_all add: op_set_def)
  next
    case False
    with st c' assms(2,3) show ?thesis
      by (intro servedI [where s' = s and c' = c1] performed_silent) (simp_all add: op_set_def)
  qed
qed

lemma op_del_ok:
  assumes "dbcall_ok s db view c req sy (CDel k)" and "qe_key e = Some k"
  shows "served (op_del s db e req) s db view c req sy (CDel k)"
proof -
  note c' = dbcall_okD [OF assms(1)]
  obtain rv c1 where st: "dc_del db (Some c) k = Some (rv, Some c1)" "rv = 0 \<longleftrightarrow> view c k = None"
    "view c1 = (view c)(k := None)"
    using c'(3) by (rule lawful_del)
  show ?thesis
  proof (cases sy)
    case True
    let ?r = "if rv = 0 then REP_NOTIN else REP_OK"
    have "performed s (reply_mini s req ?r) req sy (CDel k) (view c)"
      by (rule performed_mini [OF c'(1,2)]) (use True st(2) decode_mini in simp_all)
    with st c' assms(2) True show ?thesis
      by (intro servedI [where c' = c1 and s' = "reply_mini s req ?r"]) (simp_all add: op_del_def Let_def)
  next
    case False
    with st c' assms(2) show ?thesis
      by (intro servedI [where s' = s and c' = c1] performed_silent) (simp_all add: op_del_def)
  qed
qed

lemma op_get_ok:
  assumes "dbcall_ok s db view c req sy (CGet k)" and "qe_key e = Some k"
  shows "served (op_get s db e req) s db view c req sy (CGet k)"
proof -
  note c' = dbcall_okD [OF assms(1)]
  obtain ms where m: "db_malloc s = (True, s\<lparr>sv_ms := ms\<rparr>)" "srv_ok (s\<lparr>sv_ms := ms\<rparr>)"
    using c'(1) by (rule db_malloc_ok)
  obtain rv b c1 where g: "dc_get db (dc_conn db) k DBBUF = Some (rv, b, Some c1)" "view c1 = view c"
    "case view c k of None \<Rightarrow> rv = 0 | Some v \<Rightarrow> rv \<noteq> 0 \<and> b = v"
    using c'(3-5) by (rule db_fetch)
  show ?thesis
  proof (cases "view c k")
    case None
    have "performed s (reply_mini (s\<lparr>sv_ms := ms\<rparr>) req REP_NOTIN) req sy (CGet k) (view c)"
      by (rule performed_mini [OF m(2) c'(2)]) (use None decode_mini in simp_all)
    with None g m(1) assms(2) show ?thesis
      by (intro servedI [where c' = c1]) (simp_all add: op_get_def)
  next
    case (Some v)
    then have "length v < 2 ^ 32" using c'(5) by (fastforce simp: vals_ok_def)
    then obtain s' where "reply_long (s\<lparr>sv_ms := ms\<rparr>) req REP_OK (Some v) (sz v) = Some s'"
      "performed s s' req sy (CGet k) (view c)"
      using performed_long [OF m(2) c'(2), of sy "CGet k" s v "view c"] Some by auto
    with Some g m(1) assms(2) show ?thesis
      by (intro servedI [where c' = c1]) (simp_all add: op_get_def)
  qed
qed

lemma op_cas_ok:
  assumes "dbcall_ok s db view c req sy (CCas k ov nv)" and "qe_key e = Some k" and "qe_val e = Some ov"
    and "qe_vsize e = sz ov" and "qe_newval e = Some nv"
  shows "served (op_cas s db e req) s db view c req sy (CCas k ov nv)"
proof -
  note c' = dbcall_okD [OF assms(1)]
  obtain ms where m: "db_malloc s = (True, s\<lparr>sv_ms := ms\<rparr>)" "srv_ok (s\<lparr>sv_ms := ms\<rparr>)"
    using c'(1) by (rule db_malloc_ok)
  let ?s = "s\<lparr>sv_ms := ms\<rparr>"
  obtain rv b c1 where g: "dc_get db (dc_conn db) k DBBUF = Some (rv, b, Some c1)" "view c1 = view c"
    "case view c k of None \<Rightarrow> rv = 0 | Some v \<Rightarrow> rv \<noteq> 0 \<and> b = v"
    using c'(3-5) by (rule db_fetch)
  show ?thesis
  proof (cases "view c k")
    case None
    have "performed s (reply_mini ?s req REP_NOTIN) req sy (CCas k ov nv) (view c)"
      by (rule performed_mini [OF m(2) c'(2)]) (use None decode_mini in simp_all)
    with None g m(1) assms(2) show ?thesis
      by (intro servedI [where c' = c1]) (simp_all add: op_cas_def)
  next
    case (Some v)
    have len: "length v < 2 ^ 64" "length ov < 2 ^ 64" using vals_okD [OF c'(5) Some] c'(6) by simp_all
    have cmp: "(sz ov :: u64) = sz v \<Longrightarrow> memcmp_eq v (Some ov) = Some (ov = v)"
      using len by (simp add: of_nat_u64_eq_iff memcmp_eq_def)
    show ?thesis
    proof (cases "ov = v")
      case True
      obtain rv2 c2 where st: "dc_set db (Some c1) k nv = Some (rv2, Some c2)" "rv2 \<noteq> 0"
        "view c2 = (view c1)(k \<mapsto> nv)"
        using c'(3) by (rule lawful_set)
      have "performed s (reply_mini ?s req REP_OK) req sy (CCas k ov nv) (view c)"
        by (rule performed_mini [OF m(2) c'(2)]) (use Some True decode_mini in simp_all)
      with Some g m(1) assms True st show ?thesis
        by (intro servedI [where c' = c2]) (simp_all add: op_cas_def Let_def cmp)
    next
      case False
      have "performed s (reply_mini ?s req REP_NOMATCH) req sy (CCas k ov nv) (view c)"
        by (rule performed_mini [OF m(2) c'(2)]) (use Some False decode_mini in simp_all)
      with Some g m(1) assms False show ?thesis
        by (intro servedI [where c' = c1]) (simp_all add: op_cas_def Let_def cmp)
    qed
  qed
qed

lemma op_incr_ok:
  assumes "dbcall_ok s db view c req sy (CIncr k i)" and "qe_key e = Some k" and "qe_val e = Some (store64 i)"
  shows "served (op_incr s db e req) s db view c req sy (CIncr k i)"
proof -
  note c' = dbcall_okD [OF assms(1)]
  obtain ms where m: "db_malloc s = (True, s\<lparr>sv_ms := ms\<rparr>)" "srv_ok (s\<lparr>sv_ms := ms\<rparr>)"
    using c'(1) by (rule db_malloc_ok)
  let ?s = "s\<lparr>sv_ms := ms\<rparr>"
  obtain rv b c1 where g: "dc_get db (dc_conn db) k DBBUF = Some (rv, b, Some c1)" "view c1 = view c"
    "case view c k of None \<Rightarrow> rv = 0 | Some v \<Rightarrow> rv \<noteq> 0 \<and> b = v"
    using c'(3-5) by (rule db_fetch)
  show ?thesis
  proof (cases "view c k")
    case None
    have "performed s (reply_mini ?s req REP_NOTIN) req sy (CIncr k i) (view c)"
      by (rule performed_mini [OF m(2) c'(2)]) (use None decode_mini in simp_all)
    with None g m(1) assms(2) show ?thesis
      by (intro servedI [where c' = c1]) (simp_all add: op_incr_def)
  next
    case (Some v)
    have v: "v \<noteq> []" "length v \<le> 2 ^ 16" using vals_okD [OF c'(5) Some] by simp_all
    have z: "rd v (unat (sz v - 1)) 1 = Some [last v]" using v by (intro rd_last) simp_all
    show ?thesis
    proof (cases "last v = 0")
      case False
      have "performed s (reply_mini ?s req REP_NOMATCH) req sy (CIncr k i) (view c)"
        by (rule performed_mini [OF m(2) c'(2)]) (use Some False decode_mini in \<open>simp_all add: numeric_def\<close>)
      with Some g m(1) assms z False show ?thesis
        by (intro servedI [where c' = c1]) (simp_all add: op_incr_def numeric_def)
    next
      case True
      then have n: "numeric v" using v by (simp add: numeric_def)
      let ?w = "val_num v + i"
      have ld: "load64 (store64 i) 0 = Some i" using load64_store64 [of 0 "[]" i "[]"] by simp
      show ?thesis
      proof (cases "ll_fits (val_num v) i")
        case False
        then have "op_incr s db e req = None"
          using Some g m(1) assms(2,3) z True numeric_strtoll [OF n] ld by (simp add: op_incr_def Let_def ll_add_def)
        with False Some n show ?thesis by (simp add: served_def sum_fits_def)
      next
        case fit: True
        have sp: "snprintf23 (Some (v @ replicate (24 - length v) 0)) (length (v @ replicate (24 - length v) 0)) ?w
            = Some (num_val v ?w)"
          by (subst snprintf23_big) (auto simp: num_val_def)
        obtain rv2 c2 where st: "dc_set db (Some c1) k (num_val v ?w) = Some (rv2, Some c2)" "rv2 \<noteq> 0"
          "view c2 = (view c1)(k \<mapsto> num_val v ?w)"
          using c'(3) by (rule lawful_set)
        obtain s' where s': "reply_long ?s req REP_OK (Some (store64 (htonll ?w))) (sz (store64 (htonll ?w))) = Some s'"
          "performed s s' req sy (CIncr k i) (view c)"
          using performed_long [OF m(2) c'(2), of sy "CIncr k i" s "store64 (htonll ?w)" "view c"] Some n by auto
        have "op_incr s db e req = Some (s', db\<lparr>dc_conn := Some c2\<rparr>)"
          using Some g m(1) assms(2,3) z True numeric_strtoll [OF n] sp ld st s'(1)
          by (simp add: op_incr_def Let_def ll_add_def fit)
        with Some g n st s'(2) show ?thesis by (intro servedI [where c' = c2]) simp_all
      qed
    qed
  qed
qed

lemma process_op_ok:
  assumes "dbcall_ok s db view c req sy x" and "body e = entry_of req x"
  shows "served (process_op s db e) s db view c (req\<lparr>r_payload := None, r_psize := 0\<rparr>) sy x"
proof -
  let ?r = "req\<lparr>r_payload := None, r_psize := 0\<rparr>" and ?e = "entry_of req x"
  have c: "dbcall_ok s db view c ?r sy x"
    using assms(1) by (simp add: dbcall_ok_def req_ok_def has_addr_def)
  have "served (process_op s db ?e) s db view c ?r sy x"
  proof (cases x)
    case (CGet k)
    then show ?thesis using op_get_ok [of s db view c ?r sy k ?e] c by (simp add: process_op_def mk_entry_def)
  next
    case (CSet k v)
    then show ?thesis using op_set_ok [of s db view c ?r sy k v ?e] c by (simp add: process_op_def mk_entry_def)
  next
    case (CDel k)
    then show ?thesis using op_del_ok [of s db view c ?r sy k ?e] c by (simp add: process_op_def mk_entry_def)
  next
    case (CCas k ov nv)
    then show ?thesis using op_cas_ok [of s db view c ?r sy k ov nv ?e] c
      by (simp add: process_op_def mk_entry_def opt_size_def)
  next
    case (CIncr k i)
    then show ?thesis using op_incr_ok [of s db view c ?r sy k i ?e] c by (simp add: process_op_def mk_entry_def)
  qed
  with assms(2) process_op_body [of s db e] show ?thesis by simp
qed

end
