(* ===== verification/System.thy ===== *)
theory System
  imports Tcp_Feed Db_Ok "HOL-Library.Multiset"
begin

text \<open>
  The two threads together. A step relation interleaves the network thread, one received
  request at a time, on TCP in any pieces, with the three steps of the database thread, in any order; the history
  records the requests in the order in which they were received. The theorems compare a
  run with a store that executes the history sequentially.
\<close>

section \<open>The sequential store\<close>

definition ev_step :: "event \<Rightarrow> (bytes \<rightharpoonup> bytes) \<Rightarrow> (bytes \<rightharpoonup> bytes)" where
  "ev_step ev m = ref_step (ev_op ev) m"

definition run_history :: "event list \<Rightarrow> (bytes \<rightharpoonup> bytes) \<Rightarrow> (bytes \<rightharpoonup> bytes)" where
  "run_history h m = fold ev_step h m"

definition ev_reply :: "event \<Rightarrow> (bytes \<rightharpoonup> bytes) \<Rightarrow> int \<times> bytes option \<times> bytes \<times> areply" where
  "ev_reply ev m = (ev_fd ev, if ev_t ev = TCP then None else Some (ev_addr ev), store32 (htonl (ev_id ev)),
     spec_reply (ev_sync ev) (ev_op ev) m)"

fun replies :: "event list \<Rightarrow> (bytes \<rightharpoonup> bytes) \<Rightarrow> (int \<times> bytes option \<times> bytes \<times> areply) list" where
  "replies [] m = []"
| "replies (ev # evs) m = ev_reply ev m # replies evs (ev_step ev m)"

fun late_replies :: "event list \<Rightarrow> (bytes \<rightharpoonup> bytes) \<Rightarrow> (int \<times> bytes option \<times> bytes \<times> areply) list" where
  "late_replies [] m = []"
| "late_replies (ev # evs) m =
     (if late (ev_sync ev) (ev_op ev) then [ev_reply ev m] else []) @ late_replies evs (ev_step ev m)"

lemma run_history_Nil [simp]: "run_history [] m = m"
  by (simp add: run_history_def)

lemma run_history_Cons [simp]: "run_history (ev # evs) m = run_history evs (ev_step ev m)"
  by (simp add: run_history_def)

lemma run_history_snoc [simp]: "run_history (evs @ [ev]) m = ev_step ev (run_history evs m)"
  by (simp add: run_history_def)

lemma replies_snoc: "replies (evs @ [ev]) m = replies evs m @ [ev_reply ev (run_history evs m)]"
  by (induction evs arbitrary: m) simp_all

lemma late_replies_snoc:
  "late_replies (evs @ [ev]) m = late_replies evs m @
     (if late (ev_sync ev) (ev_op ev) then [ev_reply ev (run_history evs m)] else [])"
  by (induction evs arbitrary: m) simp_all

text \<open>No increment of the history overflows.\<close>

fun no_overflow :: "event list \<Rightarrow> (bytes \<rightharpoonup> bytes) \<Rightarrow> bool" where
  "no_overflow [] m \<longleftrightarrow> True"
| "no_overflow (ev # evs) m \<longleftrightarrow> incr_fits (ev_op ev) m \<and> no_overflow evs (ev_step ev m)"

lemma no_overflow_append: "no_overflow (h @ h') m \<longleftrightarrow> no_overflow h m \<and> no_overflow h' (run_history h m)"
  by (induction h arbitrary: m) simp_all

lemma vals_ok_run: "list_all ev_ok evs \<Longrightarrow> vals_ok m \<Longrightarrow> vals_ok (run_history evs m)"
  by (induction evs arbitrary: m) (simp_all add: ev_step_def vals_ok_step ev_ok_def)

section \<open>The step relation\<close>

text \<open>
  The open TCP connections, by descriptor: the server's state for each, and the bytes it has
  received of the message it is in the middle of.
\<close>

type_synonym conns = "int \<rightharpoonup> tcp_socket \<times> bytes"

text \<open>
  The network thread receives a datagram, accepts a connection, reads the next piece of a
  message from any of its connections, or finds one closed or without data; between any two of
  these the database thread may move. A request over TCP enters the history with its last byte.
\<close>

inductive sys_step ::
  "server \<Rightarrow> 'c db_conn \<Rightarrow> db_pc \<Rightarrow> conns \<Rightarrow> event list \<Rightarrow> server \<Rightarrow> 'c db_conn \<Rightarrow> db_pc \<Rightarrow> conns \<Rightarrow> bool" where
  dgram: "ev_ok ev \<Longrightarrow> ev_t ev \<noteq> TCP \<Longrightarrow>
    dgram_recv (ev_t ev) s (ev_fd ev) (Recv (ev_msg ev) (ev_addr ev)) = Some s' \<Longrightarrow>
    sys_step s db pc cs [ev] s' db pc cs"
| connect: "cs fd = None \<Longrightarrow> tcp_newconnection s fd a nonblock = (r, s') \<Longrightarrow>
    sys_step s db pc cs [] s' db pc (cs(fd := map_option (\<lambda>ts. (ts, [])) r))"
| piece: "cs (ev_fd ev) = Some (ts, got) \<Longrightarrow> ev_ok ev \<Longrightarrow> ev_t ev = TCP \<Longrightarrow>
    ev_addr ev = ts_clisa ts \<Longrightarrow> bs \<noteq> [] \<Longrightarrow> length bs \<le> room ts \<Longrightarrow> frame TCP (ev_msg ev) = got @ bs @ rest \<Longrightarrow>
    tcp_recv s ts (Recv bs []) = Some (r, s') \<Longrightarrow>
    sys_step s db pc cs (if rest = [] then [ev] else []) s' db pc
      (cs(ev_fd ev := map_option (\<lambda>ts. (ts, if rest = [] then [] else got @ bs)) r))"
| hangup: "cs fd = Some (ts, got) \<Longrightarrow> res = Recv [] a \<or> res = RecvErr e \<Longrightarrow>
    tcp_recv s ts res = Some (r, s') \<Longrightarrow> sys_step s db pc cs [] s' db pc (cs(fd := map_option (\<lambda>ts. (ts, got)) r))"
| top: "db_top s stop = Some (pc, s') \<Longrightarrow> sys_step s db DbTop cs [] s' db pc cs"
| wake: "rv = 0 \<or> rv = ETIMEDOUT \<Longrightarrow>
    db_wake s stop rv = Some (pc, s') \<Longrightarrow> sys_step s db DbWait cs [] s' db pc cs"
| work: "db_work s db a = Some (pc, s', db') \<Longrightarrow> sys_step s db (DbGot a) cs [] s' db' pc cs"

text \<open>What the server can reach from its start, with the requests it has received.\<close>

inductive reach ::
  "server \<Rightarrow> 'c db_conn \<Rightarrow> event list \<Rightarrow> server \<Rightarrow> 'c db_conn \<Rightarrow> db_pc \<Rightarrow> conns \<Rightarrow> bool" for s0 db0 where
  start: "reach s0 db0 [] s0 db0 DbTop Map.empty"
| more: "reach s0 db0 h s db pc cs \<Longrightarrow> sys_step s db pc cs evs s' db' pc' cs' \<Longrightarrow>
    reach s0 db0 (h @ evs) s' db' pc' cs'"

lemma reach_silent: "reach s0 db0 h s db pc cs \<Longrightarrow> sys_step s db pc cs [] s' db' pc' cs' \<Longrightarrow> reach s0 db0 h s' db' pc' cs'"
  using reach.more by fastforce

section \<open>The invariant\<close>

text \<open>The entry the database thread holds, if it does.\<close>

definition in_flight :: "db_pc \<Rightarrow> queue \<Rightarrow> queue_entry list" where
  "in_flight pc q = (case pc of DbGot a \<Rightarrow> [body (the (q_heap q a))] | _ \<Rightarrow> [])"

definition pc_ok :: "db_pc \<Rightarrow> queue \<Rightarrow> bool" where
  "pc_ok pc q \<longleftrightarrow> (case pc of DbGot a \<Rightarrow> q_heap q a \<noteq> None \<and> a \<notin> set (queue_addrs q) | _ \<Rightarrow> True)"

text \<open>A value sent as a cache hit answers a get.\<close>

definition hits_ok :: "event list \<Rightarrow> (bytes \<rightharpoonup> bytes) \<Rightarrow> packet list \<Rightarrow> bool" where
  "hits_ok h m0 ps \<longleftrightarrow> (\<forall>p\<in>set ps. hit_pkt p \<longrightarrow> (\<exists>h1 ev h2 k. h = h1 @ ev # h2 \<and> ev_op ev = CGet k \<and>
     pkt_view p = ev_reply ev (run_history h1 m0)))"

lemma hits_ok_snoc: "hits_ok h m0 ps \<Longrightarrow> hits_ok (h @ [ev]) m0 ps"
  unfolding hits_ok_def by fastforce

lemma hits_ok_append: "hits_ok h m0 (ps @ qs) \<longleftrightarrow> hits_ok h m0 ps \<and> hits_ok h m0 qs"
  by (auto simp: hits_ok_def)

lemma hits_ok_new:
  assumes "\<And>p. p \<in> set ps \<Longrightarrow> hit_pkt p \<Longrightarrow> \<exists>k. ev_op ev = CGet k"
    and "\<And>p. p \<in> set ps \<Longrightarrow> pkt_view p = ev_reply ev (run_history h m0)"
  shows "hits_ok (h @ [ev]) m0 ps"
  unfolding hits_ok_def using assms by blast

text \<open>
  The requests \<open>pend\<close> that are in flight or queued lead from what the database holds to what
  the sequential store holds; the cache holds nothing else; and the replies sent, with those
  the pending requests will get, are the sequential store's replies.
\<close>

definition sys_inv :: "('c \<Rightarrow> bytes \<rightharpoonup> bytes) \<Rightarrow> (bytes \<rightharpoonup> bytes) \<Rightarrow> event list \<Rightarrow> server \<Rightarrow> 'c db_conn \<Rightarrow> db_pc \<Rightarrow>
    'c \<Rightarrow> event list \<Rightarrow> bool" where
  "sys_inv view m0 h s db pc c pend \<longleftrightarrow>
     srv_ok s \<and> lawful db view \<and> dc_conn db = Some c \<and> list_all ev_ok h \<and> vals_ok m0 \<and>
     pc_ok pc (sv_queue s) \<and> vals_ok (view c) \<and> list_all ev_ok pend \<and>
     in_flight pc (sv_queue s) @ queue_items (sv_queue s) = map (\<lambda>ev. entry_of (ev_req ev) (ev_op ev)) pend \<and>
     run_history pend (view c) = run_history h m0 \<and>
     lookup (sv_cache s) \<subseteq>\<^sub>m run_history h m0 \<and>
     mset (map pkt_view (sv_out s)) + mset (late_replies pend (view c)) = mset (replies h m0) \<and>
     hits_ok h m0 (sv_out s) \<and> (no_overflow h m0 \<longrightarrow> no_overflow pend (view c))"

lemma sys_invD:
  assumes "sys_inv view m0 h s db pc c pend"
  shows "srv_ok s" "lawful db view" "dc_conn db = Some c" "list_all ev_ok h" "vals_ok m0" "pc_ok pc (sv_queue s)"
    "vals_ok (view c)" "list_all ev_ok pend"
    "in_flight pc (sv_queue s) @ queue_items (sv_queue s) = map (\<lambda>ev. entry_of (ev_req ev) (ev_op ev)) pend"
    "run_history pend (view c) = run_history h m0" "lookup (sv_cache s) \<subseteq>\<^sub>m run_history h m0"
    "mset (map pkt_view (sv_out s)) + mset (late_replies pend (view c)) = mset (replies h m0)"
    "hits_ok h m0 (sv_out s)" "no_overflow h m0 \<Longrightarrow> no_overflow pend (view c)"
  using assms unfolding sys_inv_def by blast+

text \<open>
  What a step sends comes after what was sent before, and only a get that is answered in the very
  step that receives it is answered as a cache hit.
\<close>

definition sends_on :: "event list \<Rightarrow> (bytes \<rightharpoonup> bytes) \<Rightarrow> event list \<Rightarrow> server \<Rightarrow> server \<Rightarrow> bool" where
  "sends_on h m0 evs s s' \<longleftrightarrow> (\<exists>ps. sv_out s' = sv_out s @ ps \<and> (\<forall>p\<in>set ps. hit_pkt p \<longrightarrow>
     (\<exists>ev k. evs = [ev] \<and> ev_op ev = CGet k \<and> pkt_view p = ev_reply ev (run_history h m0))))"

lemma sends_on_same: "sv_out s' = sv_out s \<Longrightarrow> sends_on h m0 evs s s'"
  by (simp add: sends_on_def)

lemma in_flight_grows:
  assumes "pc_ok pc q" and "queue_grows q q' es"
  shows "in_flight pc q' = in_flight pc q" and "pc_ok pc q'"
  using assms by (auto simp: pc_ok_def in_flight_def queue_grows_def split: db_pc.splits)

lemma ev_reply_view:
  "(r_fd (ev_req ev), dest (ev_req ev), store32 (r_id (ev_req ev)), spec_reply (ev_sync ev) (ev_op ev) m) = ev_reply ev m"
  by (simp add: ev_reply_def ev_req_def parsed_req_def make_req_def dest_def)

text \<open>Receiving a request keeps the invariant, whether it is answered at once or queued.\<close>

lemma inv_handled:
  assumes "sys_inv view m0 h s db pc c pend" and "ev_ok ev"
    and "handled s s' (ev_req ev) (ev_sync ev) (ev_op ev) (run_history h m0)"
  shows "\<exists>pend'. sys_inv view m0 (h @ [ev]) s' db pc c pend' \<and> sends_on h m0 [ev] s s'"
proof -
  note i = sys_invD [OF assms(1)]
  let ?m = "run_history h m0" and ?q = "sv_queue s" and ?q' = "sv_queue s'"
  from assms(3) obtain ps where ps: "srv_ok s'" "lookup (sv_cache s') \<subseteq>\<^sub>m ev_step ev ?m" "sv_out s' = sv_out s @ ps"
    "if queue_grows ?q ?q' [] then ev_step ev ?m = ?m \<and> map pkt_view ps = [ev_reply ev ?m]
     else queue_grows ?q ?q' [entry_of (ev_req ev) (ev_op ev)] \<and>
       map pkt_view ps = (if late (ev_sync ev) (ev_op ev) then [] else [ev_reply ev ?m])"
    "\<forall>p\<in>set ps. hit_pkt p \<longrightarrow> (\<exists>k. ev_op ev = CGet k)"
    unfolding handled_def ev_step_def ev_reply_view by blast
  have view: "pkt_view p = ev_reply ev ?m" if "p \<in> set ps" for p
  proof -
    have "pkt_view p \<in> set (map pkt_view ps)" using that by simp
    then show ?thesis using ps(4) by (auto split: if_splits)
  qed
  then have "hits_ok (h @ [ev]) m0 ps" using ps(5) by (intro hits_ok_new) blast+
  then have hits: "hits_ok (h @ [ev]) m0 (sv_out s')"
    unfolding ps(3) hits_ok_append using hits_ok_snoc [OF i(13)] by blast
  have on: "sends_on h m0 [ev] s s'" using ps(3,5) view by (auto simp: sends_on_def)
  show ?thesis
  proof (cases "queue_grows ?q ?q' []")
    case True
    then have "queue_items ?q' = queue_items ?q" by (simp add: queue_grows_def)
    then have "sys_inv view m0 (h @ [ev]) s' db pc c pend"
      using True i ps assms(2) in_flight_grows [OF i(6) True] hits [unfolded ps(3)]
      by (simp add: sys_inv_def replies_snoc no_overflow_append flip: i(12))
    with on show ?thesis by blast
  next
    case False
    with ps(4) have g: "queue_grows ?q ?q' [entry_of (ev_req ev) (ev_op ev)]" by simp
    then have "queue_items ?q' = queue_items ?q @ [entry_of (ev_req ev) (ev_op ev)]" by (simp add: queue_grows_def)
    then have "sys_inv view m0 (h @ [ev]) s' db pc c (pend @ [ev])"
      using False i ps assms(2) in_flight_grows [OF i(6) g] hits [unfolded ps(3)]
      by (simp add: sys_inv_def replies_snoc late_replies_snoc no_overflow_append flip: i(12) append_assoc)
    with on show ?thesis by blast
  qed
qed

section \<open>Steps of the database thread\<close>

text \<open>The queue before and after the thread looked for an entry.\<close>

definition db_moved :: "db_pc \<Rightarrow> queue \<Rightarrow> queue \<Rightarrow> bool" where
  "db_moved pc q q' \<longleftrightarrow>
     (pc = DbTop \<or> pc = DbWait \<or> pc = DbDone) \<and> q' = q \<or>
     (\<exists>a as. pc = DbGot a \<and> queue_addrs q = a # as \<and> queue_ok q' \<and> queue_addrs q' = as \<and>
        q_heap q' = q_heap q \<and> \<not> q_locked q' \<and> a \<notin> set as \<and> q_heap q a \<noteq> None)"

lemma relock: "\<not> q_locked q \<Longrightarrow> q\<lparr>q_locked := False\<rparr> = q"
  by simp

lemma db_take_ok:
  assumes "queue_ok (sv_queue s)" and "\<not> q_locked (sv_queue s)" and "rv = 0 \<or> rv = ETIMEDOUT"
  shows "\<exists>pc q'. db_take (s\<lparr>sv_queue := (sv_queue s)\<lparr>q_locked := True\<rparr>\<rparr>) stop rv = Some (pc, s\<lparr>sv_queue := q'\<rparr>) \<and>
    db_moved pc (sv_queue s) q' \<and> (queue_addrs (sv_queue s) \<noteq> [] \<longrightarrow> (\<exists>a. pc = DbGot a))"
proof -
  let ?q = "sv_queue s" and ?ql = "(sv_queue s)\<lparr>q_locked := True\<rparr>"
  have ql: "queue_ok ?ql" "queue_addrs ?ql = queue_addrs ?q" using assms(1) by simp_all
  show ?thesis
  proof (cases "queue_addrs ?q")
    case Nil
    then have "queue_get ?ql = Some (None, ?ql)" using ql by (simp add: queue_get_ok_Nil)
    then have "db_take (s\<lparr>sv_queue := ?ql\<rparr>) stop rv = Some (if stop then DbDone else DbTop, s\<lparr>sv_queue := ?q\<rparr>)"
      using assms(2,3) by (auto simp: db_take_def queue_unlock_def relock)
    with Nil show ?thesis by (auto simp: db_moved_def)
  next
    case (Cons a as)
    then have addrs: "queue_addrs ?ql = a # as" using ql by simp
    obtain q1 where q1: "queue_get ?ql = Some (Some a, q1)" "queue_ok q1" "queue_addrs q1 = as"
      "q_heap q1 = q_heap ?ql" "q_locked q1 = q_locked ?ql" "a \<notin> set as" "q_heap ?ql a \<noteq> None"
      using ql(1) addrs by (rule queue_get_ok_Cons)
    have "db_take (s\<lparr>sv_queue := ?ql\<rparr>) stop rv = Some (DbGot a, s\<lparr>sv_queue := q1\<lparr>q_locked := False\<rparr>\<rparr>)"
      using q1(1,5) assms(3) by (auto simp: db_take_def queue_unlock_def)
    with Cons q1 show ?thesis by (auto simp: db_moved_def)
  qed
qed

lemma db_wait_ok:
  "\<not> q_locked (sv_queue s) \<Longrightarrow>
    db_wait (s\<lparr>sv_queue := (sv_queue s)\<lparr>q_locked := True\<rparr>\<rparr>) = Some (DbWait, s\<lparr>sv_queue := sv_queue s\<rparr>)"
  by (simp add: db_wait_def queue_unlock_def)

lemma db_top_ok:
  assumes "queue_ok (sv_queue s)" and "\<not> q_locked (sv_queue s)"
  shows "\<exists>pc q'. db_top s stop = Some (pc, s\<lparr>sv_queue := q'\<rparr>) \<and> db_moved pc (sv_queue s) q' \<and>
    (queue_addrs (sv_queue s) \<noteq> [] \<longrightarrow> pc = DbWait \<or> (\<exists>a. pc = DbGot a))"
proof (cases "q_size (sv_queue s) = 0")
  case True
  then have "db_top s stop = Some (DbWait, s\<lparr>sv_queue := sv_queue s\<rparr>)"
    using assms(2) db_wait_ok [of s] by (simp add: db_top_def queue_lock_def queue_isempty_def)
  with True show ?thesis by (fastforce simp: db_moved_def)
next
  case False
  then have "db_top s stop = db_take (s\<lparr>sv_queue := (sv_queue s)\<lparr>q_locked := True\<rparr>\<rparr>) stop 0"
    using assms(2) by (simp add: db_top_def queue_lock_def queue_isempty_def)
  with False db_take_ok [OF assms, of 0 stop] show ?thesis by auto
qed

lemma db_wake_ok:
  assumes "queue_ok (sv_queue s)" and "\<not> q_locked (sv_queue s)" and "rv = 0 \<or> rv = ETIMEDOUT"
  shows "\<exists>pc q'. db_wake s stop rv = Some (pc, s\<lparr>sv_queue := q'\<rparr>) \<and> db_moved pc (sv_queue s) q' \<and>
    (queue_addrs (sv_queue s) \<noteq> [] \<and> rv = ETIMEDOUT \<longrightarrow> (\<exists>a. pc = DbGot a))"
proof (cases "q_size (sv_queue s) = 0 \<and> rv = 0")
  case True
  then have "db_wake s stop rv = Some (DbWait, s\<lparr>sv_queue := sv_queue s\<rparr>)"
    using assms(2) db_wait_ok [of s] by (simp add: db_wake_def queue_lock_def queue_timedwait_def queue_isempty_def)
  with True show ?thesis by (fastforce simp: db_moved_def ETIMEDOUT_def)
next
  case False
  then have "db_wake s stop rv = db_take (s\<lparr>sv_queue := (sv_queue s)\<lparr>q_locked := True\<rparr>\<rparr>) stop rv"
    using assms(2) by (auto simp: db_wake_def queue_lock_def queue_timedwait_def queue_isempty_def)
  with db_take_ok [OF assms, of stop] show ?thesis by auto
qed

lemma inv_moved:
  assumes "sys_inv view m0 h s db pc c pend" and "pc = DbTop \<or> pc = DbWait"
    and "db_moved pc' (sv_queue s) q'"
  shows "sys_inv view m0 h (s\<lparr>sv_queue := q'\<rparr>) db pc' c pend"
proof -
  note i = sys_invD [OF assms(1)]
  have fl: "in_flight pc (sv_queue s) = []" using assms(2) by (auto simp: in_flight_def)
  show ?thesis
  proof (cases "\<exists>a. pc' = DbGot a")
    case False
    then have "q' = sv_queue s" "in_flight pc' q' = []" "pc_ok pc' q'"
      using assms(3) by (auto simp: db_moved_def in_flight_def pc_ok_def)
    with i fl show ?thesis by (simp add: sys_inv_def)
  next
    case True
    then obtain a as where a: "pc' = DbGot a" "queue_addrs (sv_queue s) = a # as" "queue_ok q'" "queue_addrs q' = as"
      "q_heap q' = q_heap (sv_queue s)" "\<not> q_locked q'" "a \<notin> set as" "q_heap (sv_queue s) a \<noteq> None"
      using assms(3) by (auto simp: db_moved_def)
    then have "in_flight pc' q' @ queue_items q' = queue_items (sv_queue s)" "pc_ok pc' q'"
      by (simp_all add: in_flight_def queue_items_def pc_ok_def)
    with i fl a(3,6) show ?thesis by (simp add: sys_inv_def srv_ok_def)
  qed
qed

lemma inv_work:
  assumes "sys_inv view m0 h s db (DbGot a) c pend"
  shows "fine (no_overflow h m0) (db_work s db a) (\<lambda>(pc, s', db'). pc = DbTop \<and> (\<exists>c' ev pend'. pend = ev # pend' \<and>
    sys_inv view m0 h s' db' DbTop c' pend') \<and> sends_on h m0 [] s s')"
proof -
  note i = sys_invD [OF assms]
  let ?q = "sv_queue s"
  obtain e where e: "q_heap ?q a = Some e" "a \<notin> set (queue_addrs ?q)" using i(6) by (auto simp: pc_ok_def)
  obtain ev pend' where p: "pend = ev # pend'" "body e = entry_of (ev_req ev) (ev_op ev)"
    "queue_items ?q = map (\<lambda>ev. entry_of (ev_req ev) (ev_op ev)) pend'"
    using i(9) e(1) by (cases pend) (auto simp: in_flight_def)
  have ev: "ev_ok ev" "list_all ev_ok pend'" using i(8) p(1) by simp_all
  have r: "req_ok (ev_req ev)" "r_flags (ev_req ev) = op_flags (ev_sync ev) (ev_op ev)"
    using ev(1) req_ok_make_req [of "ev_addr ev" "ev_t ev" "ev_fd ev"]
    by (simp_all add: ev_ok_def ev_req_def parsed_req_def req_ok_def has_addr_def)
  have "dbcall_ok s db view c (ev_req ev) (ev_sync ev) (ev_op ev)"
    using i r ev(1) by (simp add: dbcall_ok_def ev_ok_def)
  from process_op_ok [OF this p(2), unfolded served_def] show ?thesis
  proof (cases rule: fineE)
    case undef
    then have "db_work s db a = None" "\<not> no_overflow h m0"
      using e(1) i(14) p(1) by (auto simp: db_work_def entry_at_def)
    then show ?thesis by simp
  next
    case (val x)
    obtain s1 c1 where s1:
      "process_op s db e = Some (s1, db\<lparr>dc_conn := Some c1\<rparr>)" "view c1 = ev_step ev (view c)" "srv_ok s1"
      "sv_cache s1 = sv_cache s" "sv_queue s1 = ?q"
      "\<exists>ps. sv_out s1 = sv_out s @ ps \<and> map pkt_view ps =
         (if late (ev_sync ev) (ev_op ev) then [ev_reply ev (view c)] else []) \<and> (\<forall>p\<in>set ps. \<not> hit_pkt p)"
      using val unfolding performed_def ev_step_def by (auto simp: dest_def simp flip: ev_reply_view)
    have "qe_req (body e) \<noteq> Indeterminate" unfolding p(2) by (cases "ev_op ev") (simp_all add: mk_entry_def)
    then have ne: "qe_req e \<noteq> Indeterminate" by (simp add: body_fields)
    have qok: "queue_ok ?q" using i(1) by (simp add: srv_ok_def)
    obtain q' where q': "queue_entry_free ?q (Some a) = Some q'" "queue_ok q'" "queue_addrs q' = queue_addrs ?q"
      "queue_items q' = queue_items ?q" "q_locked q' = q_locked ?q"
      using qok e(2,1) ne by (rule queue_free_ok)
    let ?s' = "s1\<lparr>sv_queue := q'\<rparr>" and ?db = "db\<lparr>dc_conn := Some c1\<rparr>"
    have w: "db_work s db a = Some (DbTop, ?s', ?db)"
      using e(1) s1(1,5) q'(1) by (simp add: db_work_def entry_at_def)
    have "srv_ok ?s'" using s1(3,5) q'(2,5) by (simp add: srv_ok_def)
    moreover have "vals_ok (view c1)"
      using s1(2) i(7) ev(1) by (simp add: ev_step_def vals_ok_step ev_ok_def)
    moreover have "mset (map pkt_view (sv_out ?s')) + mset (late_replies pend' (view c1)) = mset (replies h m0)"
    proof -
      obtain ps where ps: "sv_out s1 = sv_out s @ ps" "map pkt_view ps =
          (if late (ev_sync ev) (ev_op ev) then [ev_reply ev (view c)] else [])" using s1(6) by blast
      then have "mset (map pkt_view (sv_out ?s')) = mset (map pkt_view (sv_out s)) +
          mset (if late (ev_sync ev) (ev_op ev) then [ev_reply ev (view c)] else [])"
        by (simp flip: ps(2))
      then show ?thesis using s1(2) i(12) p(1) by (simp add: add.assoc)
    qed
    moreover have "hits_ok h m0 (sv_out ?s')" using s1(6) i(13) by (auto simp: hits_ok_def)
    ultimately have "sys_inv view m0 h ?s' ?db DbTop c1 pend'"
      using i ev(2) p s1(2,4) q'(4) by (simp add: sys_inv_def pc_ok_def in_flight_def)
    moreover have "sends_on h m0 [] s ?s'" using s1(6) by (auto simp: sends_on_def)
    ultimately show ?thesis using w p(1) by auto
  qed
qed

lemma inv_entered:
  "sys_inv view m0 h s db pc c pend \<Longrightarrow> entered s s' \<Longrightarrow> sys_inv view m0 h s' db pc c pend \<and> sends_on h m0 evs s s'"
  unfolding sys_inv_def entered_def sends_on_def by simp

definition conns_ok :: "conns \<Rightarrow> bool" where
  "conns_ok cs \<longleftrightarrow> (\<forall>fd ts got. cs fd = Some (ts, got) \<longrightarrow> conn_ok fd ts got)"

lemma conns_ok_upd: "conns_ok cs \<Longrightarrow> (\<And>ts got. x = Some (ts, got) \<Longrightarrow> conn_ok fd ts got) \<Longrightarrow> conns_ok (cs(fd := x))"
  by (simp add: conns_ok_def)

lemma conns_okD: "conns_ok cs \<Longrightarrow> cs fd = Some (ts, got) \<Longrightarrow> conn_ok fd ts got"
  by (simp add: conns_ok_def)

text \<open>The steps of the network thread on its connections.\<close>

lemma inv_piece:
  assumes "sys_inv view m0 h s db pc c pend" and "conns_ok cs" and "cs (ev_fd ev) = Some (ts, got)"
    and "ev_ok ev" and "ev_t ev = TCP" and "ev_addr ev = ts_clisa ts" and "bs \<noteq> []" and "length bs \<le> room ts"
    and "frame TCP (ev_msg ev) = got @ bs @ rest"
  shows "fine (rest = [] \<longrightarrow> incr_fits (ev_op ev) (run_history h m0)) (tcp_recv s ts (Recv bs [])) (\<lambda>(r, s'). \<exists>ts' pend'.
    r = Some ts' \<and> sys_inv view m0 (h @ (if rest = [] then [ev] else [])) s' db pc c pend' \<and>
    sends_on h m0 (if rest = [] then [ev] else []) s s' \<and>
    conns_ok (cs(ev_fd ev \<mapsto> (ts', if rest = [] then [] else got @ bs))))"
proof -
  note d = sys_invD [OF assms(1)]
  have t: "tcp_ev ev" using assms(4,5) by (simp add: tcp_ev_def)
  from piece_ok [OF conns_okD [OF assms(2,3)] t refl assms(6-9) d(1,11) vals_ok_run [OF d(4,5)]] show ?thesis
  proof (rule fine_mono, clarify)
    fix s' ts'
    assume p: "conn_ok (ev_fd ev) ts' (if rest = [] then [] else got @ bs)"
      "if rest = [] then handled s s' (ev_req ev) (ev_sync ev) (ev_op ev) (run_history h m0) else entered s s'"
    have "\<exists>pend'. sys_inv view m0 (h @ (if rest = [] then [ev] else [])) s' db pc c pend' \<and>
        sends_on h m0 (if rest = [] then [ev] else []) s s'"
      using p(2) inv_handled [OF assms(1,4)] inv_entered [OF assms(1)] by (cases "rest = []") auto
    moreover have "conns_ok (cs(ev_fd ev \<mapsto> (ts', if rest = [] then [] else got @ bs)))"
      by (rule conns_ok_upd [OF assms(2)]) (use p(1) in auto)
    ultimately show "\<exists>ts'a pend'. Some ts' = Some ts'a \<and>
        sys_inv view m0 (h @ (if rest = [] then [ev] else [])) s' db pc c pend' \<and>
        sends_on h m0 (if rest = [] then [ev] else []) s s' \<and>
        conns_ok (cs(ev_fd ev \<mapsto> (ts'a, if rest = [] then [] else got @ bs)))" by blast
  qed
qed

lemma inv_connect:
  assumes "sys_inv view m0 h s db pc c pend" and "conns_ok cs" and "tcp_newconnection s fd a nb = (r, s')"
  shows "sys_inv view m0 h s' db pc c pend \<and> sends_on h m0 [] s s' \<and>
    conns_ok (cs(fd := map_option (\<lambda>ts. (ts, [])) r))"
proof -
  have g: "good (sv_ms s)" using sys_invD(1) [OF assms(1)] by (simp add: srv_ok_def)
  obtain ms where ms: "s' = s\<lparr>sv_ms := ms\<rparr>" "good ms" "\<forall>ts. r = Some ts \<longrightarrow> conn_ok fd ts []"
    using newconnection_ok [OF g, of fd a nb] assms(3) by auto
  then have "entered s s'" using g by (simp add: entered_def srv_ok_def)
  moreover have "conns_ok (cs(fd := map_option (\<lambda>ts. (ts, [])) r))"
    by (rule conns_ok_upd [OF assms(2)]) (use ms(3) in auto)
  ultimately show ?thesis using inv_entered [OF assms(1)] by blast
qed

lemma inv_hangup:
  assumes "sys_inv view m0 h s db pc c pend" and "conns_ok cs" and "cs fd = Some (ts, got)"
    and "r = Recv [] a \<or> r = RecvErr e"
  shows "\<exists>r' s'. tcp_recv s ts r = Some (r', s') \<and> sys_inv view m0 h s' db pc c pend \<and>
    sends_on h m0 [] s s' \<and> conns_ok (cs(fd := map_option (\<lambda>ts. (ts, got)) r'))"
proof -
  note co = conns_okD [OF assms(2,3)]
  from hangup_ok [OF co assms(4), of s] obtain r' b where h: "tcp_recv s ts r = Some (r', s\<lparr>sv_bufs := b\<rparr>)"
    "\<forall>ts'. r' = Some ts' \<longrightarrow> ts' = ts" by blast
  have "entered s (s\<lparr>sv_bufs := b\<rparr>)" by (simp add: entered_def srv_ok_def)
  moreover have "conns_ok (cs(fd := map_option (\<lambda>ts. (ts, got)) r'))"
    by (rule conns_ok_upd [OF assms(2)]) (use h(2) co in auto)
  ultimately show ?thesis using h(1) inv_entered [OF assms(1)] by blast
qed

lemma inv_step:
  assumes "sys_step s db pc cs evs s' db' pc' cs'" and "sys_inv view m0 h s db pc c pend" and "conns_ok cs"
  shows "\<exists>c pend. sys_inv view m0 (h @ evs) s' db' pc' c pend \<and> conns_ok cs' \<and> sends_on h m0 evs s s'"
  using assms
proof (induction rule: sys_step.induct)
  case (dgram ev s s' db pc cs)
  note d = sys_invD [OF dgram(4)]
  have "handled s s' (ev_req ev) (ev_sync ev) (ev_op ev) (run_history h m0)"
    using dgram_recv_ok [OF d(1,11) vals_ok_run [OF d(4,5)] dgram(1,2)] dgram(3) by (rule fine_val)
  with dgram(5) inv_handled [OF dgram(4,1)] show ?case by fastforce
next
  case (connect cs fd s a nonblock r s' db pc)
  from inv_connect [OF connect(3,4,2)] show ?case unfolding append_Nil2 by blast
next
  case (piece cs ev ts got bs rest s r s' db pc)
  from fine_val [OF inv_piece [OF piece(9,10,1-7)] piece(8)] obtain ts1 pend1 where p: "r = Some ts1"
    "sys_inv view m0 (h @ (if rest = [] then [ev] else [])) s' db pc c pend1"
    "sends_on h m0 (if rest = [] then [ev] else []) s s'"
    "conns_ok (cs(ev_fd ev \<mapsto> (ts1, if rest = [] then [] else got @ bs)))" unfolding prod.case by blast
  show ?case unfolding p(1) option.map using p(2-4) by blast
next
  case (hangup cs fd ts got res a e s r s' db pc)
  from inv_hangup [OF hangup(4,5,1,2)] hangup(3) show ?case unfolding append_Nil2 by (metis option.inject prod.inject)
next
  case (top s stop pc s' db cs)
  then have "queue_ok (sv_queue s)" "\<not> q_locked (sv_queue s)" by (simp_all add: sys_inv_def srv_ok_def)
  then show ?case
    using db_top_ok [of s stop] top(1,3) inv_moved [OF top(2)] by (fastforce simp: sends_on_same)
next
  case (wake rv s stop pc s' db cs)
  then have "queue_ok (sv_queue s)" "\<not> q_locked (sv_queue s)" by (simp_all add: sys_inv_def srv_ok_def)
  then show ?case
    using db_wake_ok [of s rv stop] wake(1,2,4) inv_moved [OF wake(3)] by (fastforce simp: sends_on_same)
next
  case (work s db a pc s' db' cs)
  from fine_val [OF inv_work [OF work(2)] work(1)] work(3) show ?case by auto
qed

lemma inv_reach:
  assumes "reach s0 db0 h s db pc cs" and "sys_inv view m0 [] s0 db0 DbTop c0 []"
  shows "\<exists>c pend. sys_inv view m0 h s db pc c pend \<and> conns_ok cs"
  using assms
proof (induction rule: reach.induct)
  case start
  then show ?case by (auto simp: conns_ok_def)
next
  case (more h s db pc cs evs s' db' pc' cs')
  then show ?case using inv_step [OF more(2)] by blast
qed

section \<open>Draining\<close>

text \<open>What the database thread can do by itself, in one step and in several.\<close>

inductive db_step :: "server \<Rightarrow> 'c db_conn \<Rightarrow> db_pc \<Rightarrow> server \<Rightarrow> 'c db_conn \<Rightarrow> db_pc \<Rightarrow> bool" where
  top: "db_top s stop = Some (pc, s') \<Longrightarrow> db_step s db DbTop s' db pc"
| wake: "rv = 0 \<or> rv = ETIMEDOUT \<Longrightarrow> db_wake s stop rv = Some (pc, s') \<Longrightarrow> db_step s db DbWait s' db pc"
| work: "db_work s db a = Some (pc, s', db') \<Longrightarrow> db_step s db (DbGot a) s' db' pc"

inductive db_runs :: "server \<Rightarrow> 'c db_conn \<Rightarrow> db_pc \<Rightarrow> server \<Rightarrow> 'c db_conn \<Rightarrow> db_pc \<Rightarrow> bool" for s db pc where
  stay: "db_runs s db pc s db pc"
| step: "db_runs s db pc s1 db1 pc1 \<Longrightarrow> db_step s1 db1 pc1 s2 db2 pc2 \<Longrightarrow> db_runs s db pc s2 db2 pc2"

lemma db_step_sys: "db_step s db pc s' db' pc' \<Longrightarrow> sys_step s db pc cs [] s' db' pc' cs"
  by (induction rule: db_step.induct) (blast intro: sys_step.intros)+

lemma db_runs_one: "db_step s db pc s' db' pc' \<Longrightarrow> db_runs s db pc s' db' pc'"
  by (rule db_runs.step [OF db_runs.stay])

lemma db_runs_trans: "db_runs s1 db1 pc1 s2 db2 pc2 \<Longrightarrow> db_runs s db pc s1 db1 pc1 \<Longrightarrow> db_runs s db pc s2 db2 pc2"
  by (induction rule: db_runs.induct) (blast intro: db_runs.step)+

lemma reach_runs: "db_runs s db pc s' db' pc' \<Longrightarrow> reach s0 db0 h s db pc cs \<Longrightarrow> reach s0 db0 h s' db' pc' cs"
  by (induction rule: db_runs.induct) (blast intro: reach_silent db_step_sys)+

lemma drain_wait:
  assumes "sys_inv view m0 h s db DbWait c pend" and "queue_addrs (sv_queue s) \<noteq> []"
  shows "\<exists>a s'. db_runs s db DbWait s' db (DbGot a) \<and> sys_inv view m0 h s' db (DbGot a) c pend"
proof -
  have "queue_ok (sv_queue s)" "\<not> q_locked (sv_queue s)"
    using assms(1) by (simp_all add: sys_inv_def srv_ok_def)
  then obtain a q' where w: "db_wake s False ETIMEDOUT = Some (DbGot a, s\<lparr>sv_queue := q'\<rparr>)"
    "db_moved (DbGot a) (sv_queue s) q'"
    using db_wake_ok [of s ETIMEDOUT False] assms(2) by auto
  show ?thesis
    using db_runs_one [OF db_step.wake [OF _ w(1)]] inv_moved [OF assms(1) _ w(2)] by blast
qed

lemma drain_top:
  assumes "sys_inv view m0 h s db DbTop c pend" and "queue_addrs (sv_queue s) \<noteq> []"
  shows "\<exists>a s'. db_runs s db DbTop s' db (DbGot a) \<and> sys_inv view m0 h s' db (DbGot a) c pend"
proof -
  have "queue_ok (sv_queue s)" "\<not> q_locked (sv_queue s)"
    using assms(1) by (simp_all add: sys_inv_def srv_ok_def)
  then obtain pc q' where t: "db_top s False = Some (pc, s\<lparr>sv_queue := q'\<rparr>)" "db_moved pc (sv_queue s) q'"
    "pc = DbWait \<or> (\<exists>a. pc = DbGot a)"
    using db_top_ok [of s False] assms(2) by auto
  have r: "db_runs s db DbTop (s\<lparr>sv_queue := q'\<rparr>) db pc" by (rule db_runs_one [OF db_step.top [OF t(1)]])
  have i: "sys_inv view m0 h (s\<lparr>sv_queue := q'\<rparr>) db pc c pend" using inv_moved [OF assms(1) _ t(2)] by simp
  show ?thesis
  proof (cases "pc = DbWait")
    case True
    then have "q' = sv_queue s" using t(2) by (simp add: db_moved_def)
    with True r i assms(2) drain_wait [of view m0 h "s\<lparr>sv_queue := q'\<rparr>" db c pend] show ?thesis
      by simp (metis db_runs_trans)
  next
    case False
    with t(3) r i show ?thesis by blast
  qed
qed

lemma drain_runs:
  assumes "sys_inv view m0 h s db pc c pend" and "pc \<noteq> DbDone" and "no_overflow h m0"
  shows "\<exists>s' db' pc' c'. db_runs s db pc s' db' pc' \<and> (pc' = DbTop \<or> pc' = DbWait) \<and> sys_inv view m0 h s' db' pc' c' []"
  using assms(1,2)
proof (induction "length pend" arbitrary: s db pc c pend rule: less_induct)
  case less
  show ?case
  proof (cases pend)
    case Nil
    then have "in_flight pc (sv_queue s) = []" using less.prems(1) by (simp add: sys_inv_def)
    with less.prems Nil show ?thesis by (cases pc) (auto simp: in_flight_def intro: db_runs.stay)
  next
    case (Cons ev evs)
    have "\<exists>a s'. db_runs s db pc s' db (DbGot a) \<and> sys_inv view m0 h s' db (DbGot a) c pend"
    proof (cases "\<exists>a. pc = DbGot a")
      case True
      with less.prems show ?thesis by (blast intro: db_runs.stay)
    next
      case False
      then have "queue_items (sv_queue s) \<noteq> []"
        using less.prems(1) Cons by (cases pc) (auto simp: sys_inv_def in_flight_def)
      then have ne: "queue_addrs (sv_queue s) \<noteq> []" by (simp add: queue_items_def)
      from False less.prems(2) consider "pc = DbTop" | "pc = DbWait" by (cases pc) auto
      then show ?thesis
        using less.prems(1) ne drain_top [of view m0 h s db c pend] drain_wait [of view m0 h s db c pend] by cases simp_all
    qed
    then obtain a s1 where g: "db_runs s db pc s1 db (DbGot a)" "sys_inv view m0 h s1 db (DbGot a) c pend" by blast
    obtain s2 db2 c2 ev2 pend2 where w: "db_work s1 db a = Some (DbTop, s2, db2)" "pend = ev2 # pend2"
      "sys_inv view m0 h s2 db2 DbTop c2 pend2"
      using fine_total [OF inv_work [OF g(2)] assms(3)] by auto
    have "db_runs s db pc s2 db2 DbTop" by (rule db_runs.step [OF g(1) db_step.work [OF w(1)]])
    moreover obtain s' db' pc' c' where "db_runs s2 db2 DbTop s' db' pc'" "pc' = DbTop \<or> pc' = DbWait"
      "sys_inv view m0 h s' db' pc' c' []"
      using less.hyps [of pend2 s2 db2 DbTop c2] w by auto
    ultimately show ?thesis using db_runs_trans by blast
  qed
qed

lemma drain:
  assumes "reach s0 db0 h s db pc cs" and "sys_inv view m0 h s db pc c pend" and "pc \<noteq> DbDone" and "no_overflow h m0"
  shows "\<exists>s' db' pc' c'. reach s0 db0 h s' db' pc' cs \<and> (pc' = DbTop \<or> pc' = DbWait) \<and> sys_inv view m0 h s' db' pc' c' []"
  using drain_runs [OF assms(2-4)] reach_runs [OF _ assms(1)] by blast

end
