(* ===== verification/Server_Theorems.thy ===== *)
theory Server_Theorems
  imports System
begin

text \<open>
  The theorems about the server as a whole: for every interleaving of the two threads, a
  server that booted on a lawful database is never undefined, its cache never disagrees with
  the sequential store, each request is answered as that store answers it, and draining the
  queue leaves the database in that store's state.
\<close>

text \<open>
  A server ready to serve: well-formed cache holding nothing but what the database holds,
  empty queue, memory and sends that do not fail, not passive and not read-only.
\<close>

definition boot :: "('c \<Rightarrow> bytes \<rightharpoonup> bytes) \<Rightarrow> (bytes \<rightharpoonup> bytes) \<Rightarrow> server \<Rightarrow> 'c db_conn \<Rightarrow> bool" where
  "boot view m0 s db \<longleftrightarrow> srv_ok s \<and> queue_items (sv_queue s) = [] \<and> sv_out s = [] \<and>
     lookup (sv_cache s) \<subseteq>\<^sub>m m0 \<and> vals_ok m0 \<and> lawful db view \<and> (\<exists>c. dc_conn db = Some c \<and> view c = m0)"

lemma boot_inv:
  assumes "boot view m0 s db"
  obtains c where "sys_inv view m0 [] s db DbTop c []"
  using assms by (auto simp: boot_def sys_inv_def pc_ok_def in_flight_def hits_ok_def)

lemma boot_reach:
  assumes "boot view m0 s0 db0" and "reach s0 db0 h s db pc cs"
  obtains c pend where "sys_inv view m0 h s db pc c pend" and "conns_ok cs"
  using assms inv_reach boot_inv by metis

section \<open>A concrete server\<close>

text \<open>
  A server on an empty cache and an empty database; the database library is a map, opened
  through the TDB backend. It has received one request: a set over UDP.
\<close>

definition map_tdb :: "(bytes \<Rightarrow> bytes option) tdb_lib" where
  "map_tdb = \<lparr>tdb_open = (\<lambda>name. Some Map.empty), tdb_close = (\<lambda>c. 0),
     tdb_store = (\<lambda>c k v. (0, c(k \<mapsto> v))), tdb_fetch = (\<lambda>c k. c k),
     tdb_delete = (\<lambda>c k. (if c k = None then - 1 else 0, c(k := None))),
     tdb_firstkey = (\<lambda>c. None), tdb_nextkey = (\<lambda>c k. None)\<rparr>"

lemma map_tdb_laws: "tdb_laws map_tdb (\<lambda>c. c)"
  by (simp add: tdb_laws_def map_tdb_def)

definition demo_db :: "(bytes \<Rightarrow> bytes option) db_conn" where
  "demo_db = the (fst (xtdb_open map_tdb ''database'' []))"

definition demo_settings :: settings where
  "demo_settings = \<lparr>se_tipc_lower = 10, se_tipc_upper = 10, se_tcp_addr = None, se_tcp_port = 26010,
     se_udp_addr = None, se_udp_port = 26010, se_sctp_addr = None, se_sctp_port = 26010, se_numobjs = 4,
     se_foreground = False, se_passive = False, se_read_only = False, se_dbname = None, se_logfname = None,
     se_backend = BE_TDB, se_pidfile = None\<rparr>"

definition zero_stats :: stats where
  "zero_stats = \<lparr>st_cache_get = 0, st_cache_set = 0, st_cache_del = 0, st_cache_cas = 0, st_cache_incr = 0,
     st_db_get = 0, st_db_set = 0, st_db_del = 0, st_db_cas = 0, st_db_incr = 0, st_cache_hits = 0,
     st_cache_misses = 0, st_db_hits = 0, st_db_misses = 0, st_msg_tipc = 0, st_msg_tcp = 0, st_msg_udp = 0,
     st_msg_sctp = 0, st_net_version_mismatch = 0, st_net_broken_req = 0, st_net_unk_req = 0,
     st_db_firstkey = 0, st_db_nextkey = 0\<rparr>"

definition demo_server :: server where
  "demo_server = \<lparr>sv_cache = demo_cache, sv_queue = the (fst (queue_create [])), sv_settings = demo_settings,
     sv_stats = zero_stats, sv_ms = [], sv_sends = [], sv_out = [], sv_bufs = (\<lambda>t. replicate SBSIZE 0), sv_fresh = []\<rparr>"

lemma queue_create_ok: "queue_create ms = (Some q, ms') \<Longrightarrow> queue_ok q \<and> queue_items q = [] \<and> \<not> q_locked q"
  by (auto simp: queue_create_def queue_ok_def queue_wf_def queue_rep_def queue_items_def queue_addrs_def
      split: prod.splits if_splits)

lemma demo_srv_ok: "srv_ok demo_server"
  using queue_create_ok [of "[]"]
  by (simp add: srv_ok_def demo_server_def demo_cache_wf demo_settings_def queue_create_def)

lemma demo_boot: "boot (\<lambda>c. c) Map.empty demo_server demo_db"
proof -
  have d: "xtdb_open map_tdb ''database'' [] = (Some demo_db, [])"
    by (simp add: demo_db_def xtdb_open_def map_tdb_def)
  have "dc_conn demo_db = Some Map.empty" by (simp add: demo_db_def xtdb_open_def map_tdb_def)
  moreover have "sv_out demo_server = []" "lookup (sv_cache demo_server) = Map.empty"
    by (simp_all add: demo_server_def demo_cache_empty)
  moreover have "queue_items (sv_queue demo_server) = []"
    using queue_create_ok [of "[]"] by (simp add: demo_server_def queue_create_def)
  ultimately show ?thesis
    using demo_srv_ok xtdb_lawful [OF map_tdb_laws d] by (simp add: boot_def vals_ok_def)
qed

definition demo_event :: event where
  "demo_event = \<lparr>ev_t = UDP, ev_fd = 5, ev_addr = [127, 0, 0, 1], ev_id = 1, ev_sync = True,
     ev_op = CSet [1, 2] [50, 0]\<rparr>"

lemma demo_event_ok: "ev_ok demo_event" "ev_t demo_event \<noteq> TCP"
  by (simp_all add: ev_ok_def demo_event_def)

lemma demo_event_fits: "incr_fits (ev_op demo_event) m" "no_overflow [demo_event] m"
  by (simp_all add: demo_event_def)

lemma demo_reach: "\<exists>s. reach demo_server demo_db [demo_event] s demo_db DbTop Map.empty"
proof -
  have "lookup (sv_cache demo_server) \<subseteq>\<^sub>m Map.empty" by (simp add: demo_server_def demo_cache_empty)
  from fine_total [OF dgram_recv_ok [OF demo_srv_ok this _ demo_event_ok]] obtain s where
    "dgram_recv (ev_t demo_event) demo_server (ev_fd demo_event)
      (Recv (ev_msg demo_event) (ev_addr demo_event)) = Some s"
    using demo_event_fits by (auto simp: vals_ok_def)
  then have "reach demo_server demo_db ([] @ [demo_event]) s demo_db DbTop Map.empty"
    using reach.more [OF reach.start sys_step.dgram [OF demo_event_ok]] by blast
  then show ?thesis by auto
qed


section \<open>The theorems\<close>

text \<open>
  Property C2: every reply the server has sent is the reply of a sequential store that
  executes the requests in the order of their arrival: as multisets of (descriptor, peer,
  identifier, answer), what was sent is below the sequential store's replies, whatever the
  interleaving of network and database thread and whether the cache or the database answered.
\<close>

theorem server_replies_sequential:
  assumes "boot view m0 s0 db0" and "reach s0 db0 h s db pc cs"
  shows "mset (map pkt_view (sv_out s)) \<subseteq># mset (replies h m0)"
proof -
  obtain c pend where "sys_inv view m0 h s db pc c pend" "conns_ok cs" using assms by (rule boot_reach)
  from sys_invD(12) [OF this(1)] show ?thesis by (metis mset_subset_eq_add_left)
qed

theorem server_replies_sequential_witness:
  "\<exists>s. reach demo_server demo_db [demo_event] s demo_db DbTop Map.empty \<and>
    mset (map pkt_view (sv_out s)) \<subseteq># mset (replies [demo_event] Map.empty)"
  using demo_reach server_replies_sequential [OF demo_boot] by blast

text \<open>
  Property C4: once the queue is empty and the database thread holds no entry, every request
  received has been answered exactly once, and the database holds exactly what the sequential
  store holds after the whole history.
\<close>

theorem server_drained_state:
  assumes "boot view m0 s0 db0" and "reach s0 db0 h s db pc cs"
    and "queue_items (sv_queue s) = []" and "in_flight pc (sv_queue s) = []"
  shows "mset (map pkt_view (sv_out s)) = mset (replies h m0) \<and>
    (\<exists>c. dc_conn db = Some c \<and> view c = run_history h m0)"
proof -
  obtain c pend where i: "sys_inv view m0 h s db pc c pend" and cs: "conns_ok cs" using assms(1,2) by (rule boot_reach)
  from sys_invD(9) [OF i] assms(3,4) have "pend = []" by simp
  with sys_invD(3,10,12) [OF i] show ?thesis by auto
qed

theorem server_drained_state_witness:
  "mset (map pkt_view (sv_out demo_server)) = mset (replies [] Map.empty) \<and>
    (\<exists>c. dc_conn demo_db = Some c \<and> c = run_history [] Map.empty)"
  by (rule server_drained_state [OF demo_boot reach.start])
    (use demo_boot in \<open>simp_all add: boot_def in_flight_def\<close>)

text \<open>
  Property C5: the cache is coherent: at every moment, whatever is still queued, a key is
  either not cached or cached with the value that the sequential store holds for it.
\<close>

theorem server_cache_coherent:
  assumes "boot view m0 s0 db0" and "reach s0 db0 h s db pc cs"
  shows "cache_wf (sv_cache s) \<and> lookup (sv_cache s) \<subseteq>\<^sub>m run_history h m0"
proof -
  obtain c pend where "sys_inv view m0 h s db pc c pend" "conns_ok cs" using assms by (rule boot_reach)
  from sys_invD(1,11) [OF this(1)] show ?thesis by (simp add: srv_ok_def)
qed

theorem server_cache_coherent_witness:
  "\<exists>s. reach demo_server demo_db [demo_event] s demo_db DbTop Map.empty \<and> cache_wf (sv_cache s) \<and>
    lookup (sv_cache s) \<subseteq>\<^sub>m run_history [demo_event] Map.empty"
  using demo_reach server_cache_coherent [OF demo_boot] by blast

text \<open>
  Property C6: every reachable state is well formed: the cache, the queue and the buffers satisfy
  their representation invariants and the queue is unlocked, the entry the database thread works
  on is allocated and no longer in the queue, what it works on and what is queued are the entries of
  well-formed requests, every open connection is at a position inside a well-formed message, and
  all values in the database have the size of a value.
\<close>

theorem server_well_formed:
  assumes "boot view m0 s0 db0" and "reach s0 db0 h s db pc cs"
  shows "srv_ok s \<and> pc_ok pc (sv_queue s) \<and> conns_ok cs \<and>
    (\<exists>pend. list_all ev_ok pend \<and>
      in_flight pc (sv_queue s) @ queue_items (sv_queue s) = map (\<lambda>ev. entry_of (ev_req ev) (ev_op ev)) pend) \<and>
    (\<exists>c. dc_conn db = Some c \<and> vals_ok (view c))"
proof -
  obtain c pend where i: "sys_inv view m0 h s db pc c pend" and cs: "conns_ok cs" using assms by (rule boot_reach)
  from sys_invD(1,3,6,7,8,9) [OF i] cs show ?thesis by blast
qed

theorem server_well_formed_witness:
  "\<exists>s. reach demo_server demo_db [demo_event] s demo_db DbTop Map.empty \<and> srv_ok s \<and>
    pc_ok DbTop (sv_queue s) \<and> conns_ok Map.empty"
  using demo_reach server_well_formed [OF demo_boot] by blast



text \<open>
  Property C8: from every state a run can reach, unless the database thread has been told to
  stop, that thread's own steps lead to a state where the queue is empty and every request
  received so far has been answered. No increment received overflows in the sequential store, since
  the thread would be undefined at it.
\<close>

theorem server_eventually_answers:
  assumes "boot view m0 s0 db0" and "reach s0 db0 h s db pc cs" and "pc \<noteq> DbDone" and "no_overflow h m0"
  shows "\<exists>s' db' pc'. db_runs s db pc s' db' pc' \<and> queue_items (sv_queue s') = [] \<and>
    mset (map pkt_view (sv_out s')) = mset (replies h m0)"
proof -
  obtain c pend where i: "sys_inv view m0 h s db pc c pend" and cs: "conns_ok cs" using assms(1,2) by (rule boot_reach)
  obtain s' db' pc' c' where r: "db_runs s db pc s' db' pc'" "sys_inv view m0 h s' db' pc' c' []"
    using drain_runs [OF i assms(3,4)] by blast
  from sys_invD(9,12) [OF r(2)] have "queue_items (sv_queue s') = []"
    "mset (map pkt_view (sv_out s')) = mset (replies h m0)" by simp_all
  with r(1) show ?thesis by blast
qed

theorem server_eventually_answers_witness:
  "\<exists>s s' db' pc'. reach demo_server demo_db [demo_event] s demo_db DbTop Map.empty \<and> db_runs s demo_db DbTop s' db' pc' \<and>
    queue_items (sv_queue s') = [] \<and> mset (map pkt_view (sv_out s')) = mset (replies [demo_event] Map.empty)"
proof -
  obtain s where r: "reach demo_server demo_db [demo_event] s demo_db DbTop Map.empty" using demo_reach by blast
  from server_eventually_answers [OF demo_boot r _ demo_event_fits(2)] r show ?thesis by blast
qed

text \<open>
  Property C9: TCP is a stream: however it cuts a message into pieces, even inside the size
  field, and whatever is asked for, the server handles the request exactly as a datagram with the same
  message: the cache, the queue and the replies are those of the reference, and the connection is
  between messages again. Only an increment that overflows in the reference can be undefined, on
  either path.
\<close>

theorem tcp_reassembly:
  assumes "srv_ok s" and "lookup (sv_cache s) \<subseteq>\<^sub>m m" and "vals_ok m" and "ev_ok ev" and "ev_t ev = TCP"
    and "conn_idle ev ts" and "concat cs = frame TCP (ev_msg ev)" and "[] \<notin> set cs"
  shows "case tcp_feed s ts cs of
      None \<Rightarrow> \<not> incr_fits (ev_op ev) m
    | Some (r, s') \<Rightarrow> \<exists>ts'. r = Some ts' \<and> conn_idle ev ts' \<and> handled s s' (ev_req ev) (ev_sync ev) (ev_op ev) m"
  using tcp_feed_ok [OF assms] by (auto simp: fine_def split: option.splits)

theorem tcp_reassembly_witness:
  "\<exists>s' ts'. tcp_feed demo_server \<lparr>ts_fd = 5, ts_clisa = [127, 0, 0, 1], ts_clilen = 4, ts_buf = None, ts_pktsize = 0,
      ts_len = 0, ts_req = make_req TCP 5 [127, 0, 0, 1], ts_excess = 0\<rparr>
      (map (\<lambda>b. [b]) (frame TCP (ev_msg (demo_event\<lparr>ev_t := TCP\<rparr>)))) = Some (Some ts', s') \<and>
    ts_buf ts' = None \<and> ts_excess ts' = 0"
proof -
  let ?ev = "demo_event\<lparr>ev_t := TCP\<rparr>" and ?cs = "map (\<lambda>b. [b]) (frame TCP (ev_msg (demo_event\<lparr>ev_t := TCP\<rparr>)))"
  let ?ts = "\<lparr>ts_fd = 5, ts_clisa = [127, 0, 0, 1], ts_clilen = 4, ts_buf = None, ts_pktsize = 0,
      ts_len = 0, ts_req = make_req TCP 5 [127, 0, 0, 1], ts_excess = 0\<rparr>"
  have "op_fits (ev_op ?ev)" by (simp add: demo_event_def)
  then have e: "ev_ok ?ev" "ev_t ?ev = TCP"
    using demo_event_ok(1) by (simp_all add: ev_ok_def ev_msg_def length_encode demo_event_def)
  have c: "concat ?cs = frame TCP (ev_msg ?ev)" "[] \<notin> set ?cs" by auto
  have i: "conn_idle ?ev ?ts" by (simp add: conn_idle_def demo_event_def)
  have m: "lookup (sv_cache demo_server) \<subseteq>\<^sub>m Map.empty" "vals_ok Map.empty"
    by (simp_all add: demo_server_def demo_cache_empty vals_ok_def)
  have f: "incr_fits (ev_op ?ev) Map.empty" by (simp add: demo_event_def)
  from tcp_reassembly [OF demo_srv_ok m e i c] f show ?thesis
    by (auto simp: conn_idle_def split: option.splits)
qed

end
