(* ===== verification/Tcp_Pipeline.thy ===== *)
theory Tcp_Pipeline
  imports Server_Theorems
begin

text \<open>
  Several messages in one read: what \<^verbatim>\<open>process_buf()\<close> does with the bytes that follow the first
  message, which it processes by calling itself with the length of the message it has just handled.
\<close>

section \<open>Two messages in one read\<close>

abbreviation handles :: "server \<Rightarrow> server \<Rightarrow> event \<Rightarrow> (bytes \<rightharpoonup> bytes) \<Rightarrow> bool" where
  "handles s s' ev m \<equiv> handled s s' (ev_req ev) (ev_sync ev) (ev_op ev) m"

text \<open>What a request leaves is what the next one may rely on.\<close>

lemma handled_next:
  assumes "handles s s' ev m" and "vals_ok m" and "tcp_ev ev"
  shows "srv_ok s' \<and> lookup (sv_cache s') \<subseteq>\<^sub>m ref_step (ev_op ev) m \<and> vals_ok (ref_step (ev_op ev) m)"
  using assms by (auto simp: handled_def tcp_ev_def ev_ok_def intro: vals_ok_step)

lemma after_req_init: "conn_idle ev ts \<Longrightarrow> tcp_ev ev \<Longrightarrow> ts_excess ts' = 0 \<Longrightarrow> ts_fd ts' = ts_fd ts \<Longrightarrow>
    ts_clisa ts' = ts_clisa ts \<Longrightarrow> ts_clilen ts' = ts_clilen ts \<Longrightarrow> after_req ev (init_req ts')"
  using req_ok_init_req [of ev "ts'\<lparr>ts_buf := None\<rparr>"] parsed_init_req [of ev "ts'\<lparr>ts_buf := None\<rparr>"]
  by (simp add: after_req_def conn_idle_def init_req_def tcp_ev_def ev_ok_def)

text \<open>
  After the first message the buffer starts with what followed it, but the length that is
  processed is the first message's.
\<close>

lemma pipelined_first:
  assumes "tcp_ev ev1" and "conn_idle ev1 ts" and "rest \<noteq> []" and "length (wire ev1 @ rest) \<le> SBSIZE"
    and "srv_ok s" and "lookup (sv_cache s) \<subseteq>\<^sub>m m" and "vals_ok m"
    and "incr_fits (ev_op ev1) m"
  obtains s1 junk x where "handles s s1 ev1 m"
    and "tcp_recv s ts (Recv (wire ev1 @ rest) []) =
      process_buf (s1\<lparr>sv_bufs := (sv_bufs s1)(TCP := rest @ drop (length rest) (wire ev1 @ rest @ junk))\<rparr>)
        (init_req (ts\<lparr>ts_req := x, ts_len := of_nat (length rest)\<rparr>)) False (of_nat (length (wire ev1)))"
proof -
  let ?d = "wire ev1 @ rest" and ?l = "length (wire ev1)"
  let ?buf = "?d @ drop (length ?d) (sv_bufs s TCP)"
  let ?s = "s\<lparr>sv_bufs := (sv_bufs s)(TCP := ?buf)\<rparr>" and ?b = "rest @ drop (length rest) ?buf"
  have sb: "take SBSIZE ?d = ?d" "recv_into (sv_bufs s TCP) ?d = ?buf" using assms(4) by (simp_all add: recv_into_fits)
  have i: "ts_buf ts = None" "ts_excess ts = 0" using assms(2) by (simp_all add: conn_idle_def)
  have "srv_ok ?s" "lookup (sv_cache ?s) \<subseteq>\<^sub>m m" using assms(5,6) by (simp_all add: srv_ok_def)
  moreover have "after_req ev1 (init_req ts)" by (rule after_req_init [OF assms(2,1) i(2)]) simp_all
  moreover have "tcp_buf ?s (init_req ts) False = Some ?buf" by (simp add: tcp_buf_def)
  ultimately obtain s1 where s1: "handles ?s s1 ev1 m" "process_buf ?s (init_req ts) False (of_nat (length ?d)) =
      (let (ts2, s2) = set_tcp_buf s1 ((init_req ts)\<lparr>ts_excess := of_nat (length ?d - ?l), ts_req := ev_req ev1\<rparr>) False
            (take (length ?d - ?l) (drop ?l ?buf) @ drop (length ?d - ?l) ?buf);
            ts2 = init_req (ts2\<lparr>ts_len := ts_excess ts2, ts_excess := 0\<rparr>) in
          process_buf s2 ts2 False (of_nat ?l))"
    using process_front_fits [OF assms(1), of "init_req ts" ?s False ?buf "length ?d" m] assms(3,4,7,8) by fastforce
  have b: "take (length ?d - ?l) (drop ?l ?buf) @ drop (length ?d - ?l) ?buf = ?b" by simp
  have in2: "init_req ((init_req ts)\<lparr>ts_req := r, ts_len := n, ts_excess := 0\<rparr>) = init_req (ts\<lparr>ts_req := r, ts_len := n\<rparr>)"
    for r n using i by (cases ts) (simp add: init_req_def)
  have r: "tcp_recv s ts (Recv ?d []) = process_buf (s1\<lparr>sv_bufs := (sv_bufs s1)(TCP := ?b)\<rparr>)
        (init_req (ts\<lparr>ts_req := ev_req ev1, ts_len := of_nat (length rest)\<rparr>)) False (of_nat ?l)"
    using s1(2) sb i(1) assms(3) unfolding b by (simp add: tcp_recv_def Let_def set_tcp_buf_def in2)
  have "entered s ?s" by (simp add: entered_def srv_ok_def)
  then have h: "handles s s1 ev1 m" using s1(1) by (rule handled_entered)
  show thesis using that [OF h] r by simp
qed

lemma entered_bufs_only: "entered s (s\<lparr>sv_bufs := b\<rparr>)"
  by (simp add: entered_def srv_ok_def)

text \<open>The second message, when the length that is processed ends with it.\<close>

lemma pipelined_last:
  assumes "tcp_ev ev" and "conn_idle ev ts" and "take (length (wire ev)) b = wire ev"
    and "srv_ok s" and "lookup (sv_cache s) \<subseteq>\<^sub>m m" and "vals_ok m"
    and "incr_fits (ev_op ev) m"
  shows "\<exists>ts' s'. process_buf (s\<lparr>sv_bufs := (sv_bufs s)(TCP := b)\<rparr>) (init_req (ts\<lparr>ts_req := x, ts_len := y\<rparr>)) False
      (of_nat (length (wire ev))) = Some (Some ts', s') \<and> handles s s' ev m \<and> conn_idle ev ts'"
proof -
  let ?s = "s\<lparr>sv_bufs := (sv_bufs s)(TCP := b)\<rparr>" and ?ts = "init_req (ts\<lparr>ts_req := x, ts_len := y\<rparr>)"
  have i: "ts_buf ts = None" "ts_excess ts = 0" using assms(2) by (simp_all add: conn_idle_def)
  have l: "length (wire ev) \<le> length b" using assms(3) by (metis length_take min.cobounded1 order_refl min_def)
  have so: "srv_ok ?s" "lookup (sv_cache ?s) \<subseteq>\<^sub>m m" using assms(4,5) by (simp_all add: srv_ok_def)
  have a: "after_req ev ?ts" by (rule after_req_init [OF assms(2,1)]) (simp_all add: i)
  have t: "tcp_buf ?s ?ts False = Some b" by (simp add: tcp_buf_def)
  have sz: "length (wire ev) \<le> SBSIZE" using wire_size [OF assms(1)] by (simp add: SBSIZE_def)
  obtain s' where s': "handles ?s s' ev m" "process_buf ?s ?ts False (of_nat (length (wire ev))) =
      Some (Some (?ts\<lparr>ts_req := ev_req ev\<rparr>), s')"
    using process_front_fits [OF assms(1) a t assms(3) order_refl l sz so assms(6,7)] i by (auto simp: init_req_def)
  have "conn_idle ev (?ts\<lparr>ts_req := ev_req ev\<rparr>)" using assms(2) by (simp add: conn_idle_def init_req_def)
  with s' handled_entered [OF entered_bufs_only s'(1)] show ?thesis by blast
qed

lemma pipelined_same:
  assumes "tcp_ev ev1" and "tcp_ev ev2" and "conn_idle ev1 ts" and "conn_idle ev2 ts"
    and "length (wire ev2) = length (wire ev1)" and "length (wire ev1 @ wire ev2 @ rest) \<le> SBSIZE"
    and "srv_ok s" and "lookup (sv_cache s) \<subseteq>\<^sub>m m" and "vals_ok m"
    and "incr_fits (ev_op ev1) m" and "incr_fits (ev_op ev2) (ref_step (ev_op ev1) m)"
  shows "\<exists>ts' s1 s'. tcp_recv s ts (Recv (wire ev1 @ wire ev2 @ rest) []) = Some (Some ts', s') \<and> conn_idle ev2 ts' \<and>
    handles s s1 ev1 m \<and> handles s1 s' ev2 (ref_step (ev_op ev1) m)"
proof -
  have ne: "wire ev2 @ rest \<noteq> []" using wire_size [OF assms(2)] by auto
  obtain s1 junk x where s1: "handles s s1 ev1 m"
    "tcp_recv s ts (Recv (wire ev1 @ wire ev2 @ rest) []) =
      process_buf (s1\<lparr>sv_bufs := (sv_bufs s1)(TCP := (wire ev2 @ rest) @ drop (length (wire ev2 @ rest)) (wire ev1 @ (wire ev2 @ rest) @ junk))\<rparr>)
        (init_req (ts\<lparr>ts_req := x, ts_len := of_nat (length (wire ev2 @ rest))\<rparr>)) False (of_nat (length (wire ev1)))"
    by (rule pipelined_first [OF assms(1,3) ne assms(6-10)])
  note n = handled_next [OF s1(1) assms(9,1)]
  have "take (length (wire ev2)) ((wire ev2 @ rest) @ drop (length (wire ev2 @ rest)) (wire ev1 @ (wire ev2 @ rest) @ junk)) = wire ev2"
    by simp
  from pipelined_last [OF assms(2,4) this, where s = s1 and x = x and y = "of_nat (length (wire ev2 @ rest))"] n assms(11)
  show ?thesis unfolding assms(5) s1(2) [symmetric] using s1(1) by blast
qed

lemma pipelined_longer:
  assumes "tcp_ev ev1" and "tcp_ev ev2" and "conn_idle ev1 ts" and "conn_idle ev2 ts"
    and "length (wire ev1) < length (wire ev2)" and "length (wire ev1 @ wire ev2) \<le> SBSIZE"
    and "srv_ok s" and "lookup (sv_cache s) \<subseteq>\<^sub>m m" and "vals_ok m"
    and "incr_fits (ev_op ev1) m"
  shows "\<exists>ts' s1 s'. tcp_recv s ts (Recv (wire ev1 @ wire ev2) []) = Some (Some ts', s') \<and>
    conn_ok (ev_fd ev2) ts' (take (length (wire ev1)) (wire ev2)) \<and> handles s s1 ev1 m \<and> entered s1 s'"
proof -
  let ?k = "length (wire ev1)"
  have ne: "wire ev2 \<noteq> []" using wire_size [OF assms(2)] by auto
  obtain s1 junk x where s1: "handles s s1 ev1 m"
    "tcp_recv s ts (Recv (wire ev1 @ wire ev2) []) =
      process_buf (s1\<lparr>sv_bufs := (sv_bufs s1)(TCP := wire ev2 @ drop (length (wire ev2)) (wire ev1 @ wire ev2 @ junk))\<rparr>)
        (init_req (ts\<lparr>ts_req := x, ts_len := of_nat (length (wire ev2))\<rparr>)) False (of_nat ?k)"
    by (rule pipelined_first [OF assms(1,3) ne assms(6-10)])
  let ?b = "wire ev2 @ drop (length (wire ev2)) (wire ev1 @ wire ev2 @ junk)"
  let ?s = "s1\<lparr>sv_bufs := (sv_bufs s1)(TCP := ?b)\<rparr>"
  let ?t0 = "ts\<lparr>ts_req := x, ts_len := of_nat (length (wire ev2))\<rparr>"
  have so: "srv_ok s1" using handled_next [OF s1(1) assms(9,1)] by blast
  then have g: "good (sv_ms s1)" by (simp add: srv_ok_def)
  obtain ms where ms: "malloc (sv_ms s1) = (True, ms)" "good ms" using g by (rule malloc_good)
  have k: "0 < ?k" "?k \<le> SBSIZE" using wire_size [OF assms(1)] by (auto simp: SBSIZE_def)
  have u: "unat (of_nat ?k :: u64) = ?k" using wire_words(6) [OF assms(1) order_refl] .
  have tk: "take ?k ?b = take ?k (wire ev2)" "?k \<le> length ?b" using assms(5) by simp_all
  have i: "ts_buf (init_req ?t0) = None" using assms(4) by (simp add: conn_idle_def init_req_def)
  have rdb: "rd ?b 0 ?k = Some (take ?k (wire ev2))" using assms(5) by (simp add: rd_def)
  obtain blk fr where bl: "fresh_block SBSIZE (?s\<lparr>sv_ms := ms\<rparr>) = (blk, ?s\<lparr>sv_ms := ms, sv_fresh := fr\<rparr>)" "length blk = SBSIZE"
    by (rule fresh_blockE)
  let ?buf = "take ?k (wire ev2) @ drop ?k blk"
  let ?ts' = "(init_req ?t0)\<lparr>ts_buf := Some ?buf, ts_len := of_nat ?k, ts_pktsize := of_nat (target ev2 ?k)\<rparr>"
  have "process_buf ?s (init_req ?t0) False (of_nat ?k) = save_partial ?s (init_req ?t0) ?b (of_nat ?k) (of_nat (target ev2 ?k))"
    by (rule process_partial [OF assms(2) k(1) assms(5) tk]) (simp add: tcp_buf_def)
  also have "\<dots> = Some (Some ?ts', ?s\<lparr>sv_ms := ms, sv_fresh := fr\<rparr>)"
    using i ms(1) rdb k(2) u bl assms(5) ucast_target(1) [OF assms(2)] by (simp add: save_partial_def memcpy_def Let_def)
  finally have r: "tcp_recv s ts (Recv (wire ev1 @ wire ev2) []) = Some (Some ?ts', ?s\<lparr>sv_ms := ms, sv_fresh := fr\<rparr>)" unfolding s1(2) .
  have "mid ev2 ?t0 ?k ?ts'" unfolding mid_def
    using k assms(5) bl(2) by (intro conjI exI [of _ ?buf]) simp_all
  moreover have "idle_at (ev_fd ev2) ?t0" using assms(4) by (simp add: conn_idle_def idle_at_def)
  ultimately have "conn_ok (ev_fd ev2) ?ts' (take ?k (wire ev2))" unfolding conn_ok_def
    using assms(2,5) by (intro exI [of _ ?t0] conjI disjI2 exI [of _ ev2]) simp_all
  moreover have "entered s1 (?s\<lparr>sv_ms := ms, sv_fresh := fr\<rparr>)" using g ms(2) by (simp add: entered_def srv_ok_def)
  ultimately show ?thesis using r s1(1) by blast
qed

text \<open>
  A second message that is shorter than the first leaves the tail of the first in the buffer,
  and it is processed as a third message.
\<close>

lemma pipelined_shorter:
  assumes "tcp_ev ev1" and "tcp_ev ev2" and "tcp_ev ev3"
    and "conn_idle ev1 ts" and "conn_idle ev2 ts" and "conn_idle ev3 ts"
    and "length (wire ev3) = length (wire ev2)" and "take (length (wire ev2)) (drop (length (wire ev2)) (wire ev1)) = wire ev3"
    and "length (wire ev1 @ wire ev2) \<le> SBSIZE"
    and "srv_ok s" and "lookup (sv_cache s) \<subseteq>\<^sub>m m" and "vals_ok m"
    and "incrs_fit [ev_op ev1, ev_op ev2, ev_op ev3] m"
  shows "\<exists>ts' s1 s2 s'. tcp_recv s ts (Recv (wire ev1 @ wire ev2) []) = Some (Some ts', s') \<and> conn_idle ev3 ts' \<and>
    handles s s1 ev1 m \<and> handles s1 s2 ev2 (ref_step (ev_op ev1) m) \<and>
    handles s2 s' ev3 (ref_step (ev_op ev2) (ref_step (ev_op ev1) m))"
proof -
  have f: "incr_fits (ev_op ev1) m" "incr_fits (ev_op ev2) (ref_step (ev_op ev1) m)"
    "incr_fits (ev_op ev3) (ref_step (ev_op ev2) (ref_step (ev_op ev1) m))" using assms(13) by simp_all
  let ?k = "length (wire ev1)" and ?l = "length (wire ev2)"
  have ne: "wire ev2 \<noteq> []" "0 < ?l" using wire_size [OF assms(2)] by auto
  have "?l \<le> ?k - ?l" using arg_cong [OF assms(8), of length] assms(7) by (simp add: min_def split: if_splits)
  then have kl: "2 * ?l \<le> ?k" "?l < ?k" using ne(2) by linarith+
  obtain s1 junk x where s1: "handles s s1 ev1 m"
    "tcp_recv s ts (Recv (wire ev1 @ wire ev2) []) =
      process_buf (s1\<lparr>sv_bufs := (sv_bufs s1)(TCP := wire ev2 @ drop ?l (wire ev1 @ wire ev2 @ junk))\<rparr>)
        (init_req (ts\<lparr>ts_req := x, ts_len := of_nat ?l\<rparr>)) False (of_nat ?k)"
    by (rule pipelined_first [OF assms(1,4) ne(1) assms(9-12) f(1)])
  let ?b = "wire ev2 @ drop ?l (wire ev1 @ wire ev2 @ junk)"
  let ?s = "s1\<lparr>sv_bufs := (sv_bufs s1)(TCP := ?b)\<rparr>" and ?ts = "init_req (ts\<lparr>ts_req := x, ts_len := of_nat ?l\<rparr>)"
  have i: "ts_buf ts = None" "ts_excess ts = 0" using assms(5) by (simp_all add: conn_idle_def)
  note n1 = handled_next [OF s1(1) assms(12,1)]
  have so: "srv_ok ?s" "lookup (sv_cache ?s) \<subseteq>\<^sub>m ref_step (ev_op ev1) m" "vals_ok (ref_step (ev_op ev1) m)"
    using n1 by (simp_all add: srv_ok_def)
  have a: "after_req ev2 ?ts" by (rule after_req_init [OF assms(5,2)]) (simp_all add: i)
  have t: "tcp_buf ?s ?ts False = Some ?b" by (simp add: tcp_buf_def)
  have tk: "take ?l ?b = wire ev2" "?k \<le> length ?b" "?k \<le> SBSIZE" using kl assms(9) by simp_all
  let ?b2 = "take (?k - ?l) (drop ?l ?b) @ drop (?k - ?l) ?b"
  obtain s2 where s2: "handles ?s s2 ev2 (ref_step (ev_op ev1) m)" "process_buf ?s ?ts False (of_nat ?k) =
      (let (ts2, s2) = set_tcp_buf s2 (?ts\<lparr>ts_excess := of_nat (?k - ?l), ts_req := ev_req ev2\<rparr>) False ?b2;
            ts2 = init_req (ts2\<lparr>ts_len := ts_excess ts2, ts_excess := 0\<rparr>) in
          process_buf s2 ts2 False (of_nat ?l))"
    using process_front_fits [OF assms(2) a t tk(1) less_imp_le [OF kl(2)] tk(2,3) so f(2)] kl(2) by (auto simp del: of_nat_diff)
  have in2: "init_req ((init_req (ts\<lparr>ts_req := x, ts_len := z\<rparr>))\<lparr>ts_req := r, ts_len := n, ts_excess := 0\<rparr>) =
    init_req (ts\<lparr>ts_req := r, ts_len := n\<rparr>)" for r n z using i by (cases ts) (simp add: init_req_def)
  have p2: "process_buf ?s ?ts False (of_nat ?k) = process_buf (s2\<lparr>sv_bufs := (sv_bufs s2)(TCP := ?b2)\<rparr>)
      (init_req (ts\<lparr>ts_req := ev_req ev2, ts_len := of_nat (?k - ?l)\<rparr>)) False (of_nat (length (wire ev3)))"
    unfolding s2(2) assms(7) by (simp add: set_tcp_buf_def Let_def in2 del: of_nat_diff)
  have h2: "handles s1 s2 ev2 (ref_step (ev_op ev1) m)" using entered_bufs_only s2(1) by (rule handled_entered)
  note n2 = handled_next [OF s2(1) so(3) assms(2)]
  have "take (length (wire ev3)) ?b2 = take ?l (take (?k - ?l) (drop ?l (wire ev1)))"
    using kl by (simp add: assms(7))
  also have "\<dots> = wire ev3" using kl assms(8) by (simp add: min_def)
  finally have b2: "take (length (wire ev3)) ?b2 = wire ev3" .
  from pipelined_last [OF assms(3,6) b2, where s = s2 and x = "ev_req ev2" and y = "of_nat (?k - ?l)"] n2 f(3)
  show ?thesis unfolding s1(2) p2 using s1(1) h2 by blast
qed

section \<open>The theorems\<close>

text \<open>
  Property C34: what is lost when one read brings more than one request. When the second request
  has exactly the length of the first, these two are handled, in order, and whatever follows them in
  the same read is dropped, although the connection goes on as if nothing had been. When the second
  request is longer than the first, only as many of its bytes are kept as the first one had,
  although all of them had arrived, and the connection waits for the others. (A shorter second
  request is the subject of the next property.)
\<close>

theorem tcp_pipelining_loses:
  assumes "tcp_ev ev1" and "tcp_ev ev2" and "conn_idle ev1 ts" and "conn_idle ev2 ts"
    and "length (wire ev1 @ wire ev2 @ rest) \<le> SBSIZE"
    and "srv_ok s" and "lookup (sv_cache s) \<subseteq>\<^sub>m m" and "vals_ok m" and "incrs_fit [ev_op ev1, ev_op ev2] m"
  shows "(length (wire ev2) = length (wire ev1) \<longrightarrow>
      (\<exists>ts' s1 s'. tcp_recv s ts (Recv (wire ev1 @ wire ev2 @ rest) []) = Some (Some ts', s') \<and> conn_idle ev2 ts' \<and>
        handles s s1 ev1 m \<and> handles s1 s' ev2 (ref_step (ev_op ev1) m))) \<and>
    (length (wire ev1) < length (wire ev2) \<longrightarrow>
      (\<exists>ts' s1 s'. tcp_recv s ts (Recv (wire ev1 @ wire ev2) []) = Some (Some ts', s') \<and>
        conn_ok (ev_fd ev2) ts' (take (length (wire ev1)) (wire ev2)) \<and> handles s s1 ev1 m \<and> entered s1 s'))"
  using pipelined_same [OF assms(1-4) _ assms(5-8)] pipelined_longer [OF assms(1-4) _ _ assms(6-8)] assms(5,9) by simp

definition demo_ts :: tcp_socket where
  "demo_ts = \<lparr>ts_fd = 5, ts_clisa = [127, 0, 0, 1], ts_clilen = 4, ts_buf = None, ts_pktsize = 0,
     ts_len = 0, ts_req = make_req TCP 5 [127, 0, 0, 1], ts_excess = 0\<rparr>"

definition demo_tcp :: "cache_op \<Rightarrow> event" where
  "demo_tcp x = \<lparr>ev_t = TCP, ev_fd = 5, ev_addr = [127, 0, 0, 1], ev_id = 1, ev_sync = False, ev_op = x\<rparr>"

lemma demo_tcp_ev: "op_fits x \<Longrightarrow> length (op_payload x) \<le> 60000 \<Longrightarrow> tcp_ev (demo_tcp x)"
  by (simp add: tcp_ev_def ev_ok_def demo_tcp_def ev_msg_def length_encode)

lemma demo_tcp_idle: "conn_idle (demo_tcp x) demo_ts"
  by (simp add: conn_idle_def demo_tcp_def demo_ts_def)

lemma length_demo_tcp: "length (wire (demo_tcp x)) = 12 + length (op_payload x)"
  by (simp add: frame_def ev_msg_def length_encode demo_tcp_def)

lemma demo_store: "lookup (sv_cache demo_server) \<subseteq>\<^sub>m Map.empty" "vals_ok Map.empty"
  by (simp_all add: demo_server_def demo_cache_empty vals_ok_def)

theorem tcp_pipelining_loses_witness:
  "\<exists>ts' s'. tcp_recv demo_server demo_ts (Recv (wire (demo_tcp (CGet [1])) @ wire (demo_tcp (CDel [2])) @ wire (demo_tcp (CGet [3]))) []) =
    Some (Some ts', s') \<and> conn_idle (demo_tcp (CDel [2])) ts'"
proof -
  have e: "tcp_ev (demo_tcp (CGet [1]))" "tcp_ev (demo_tcp (CDel [2]))" by (simp_all add: demo_tcp_ev)
  have "length (wire (demo_tcp (CGet [1])) @ wire (demo_tcp (CDel [2])) @ wire (demo_tcp (CGet [3]))) \<le> SBSIZE"
    unfolding length_append length_demo_tcp by (simp add: SBSIZE_def)
  moreover have "incrs_fit [ev_op (demo_tcp (CGet [1])), ev_op (demo_tcp (CDel [2]))] Map.empty" by (simp add: demo_tcp_def)
  ultimately have "length (wire (demo_tcp (CDel [2]))) = length (wire (demo_tcp (CGet [1]))) \<Longrightarrow>
    \<exists>ts' s'. tcp_recv demo_server demo_ts (Recv (wire (demo_tcp (CGet [1])) @ wire (demo_tcp (CDel [2])) @ wire (demo_tcp (CGet [3]))) []) =
      Some (Some ts', s') \<and> conn_idle (demo_tcp (CDel [2])) ts'"
    using tcp_pipelining_loses [OF e demo_tcp_idle demo_tcp_idle _ demo_srv_ok demo_store] by blast
  then show ?thesis unfolding length_demo_tcp by simp
qed

text \<open>
  Property C35: a request that nobody sent is executed: when the second of two requests in one
  read is shorter than the first, the server goes on with bytes of the first one, at the offset of
  the second one's length, so that a value being stored that contains a request makes the
  server execute it.
\<close>

theorem tcp_stored_request_executed:
  assumes "tcp_ev ev1" and "tcp_ev ev2" and "tcp_ev ev3"
    and "conn_idle ev1 ts" and "conn_idle ev2 ts" and "conn_idle ev3 ts"
    and "length (wire ev3) = length (wire ev2)" and "take (length (wire ev2)) (drop (length (wire ev2)) (wire ev1)) = wire ev3"
    and "length (wire ev1 @ wire ev2) \<le> SBSIZE"
    and "srv_ok s" and "lookup (sv_cache s) \<subseteq>\<^sub>m m" and "vals_ok m"
    and "incrs_fit [ev_op ev1, ev_op ev2, ev_op ev3] m"
  shows "\<exists>ts' s1 s2 s'. tcp_recv s ts (Recv (wire ev1 @ wire ev2) []) = Some (Some ts', s') \<and> conn_idle ev3 ts' \<and>
    handles s s1 ev1 m \<and> handles s1 s2 ev2 (ref_step (ev_op ev1) m) \<and>
    handles s2 s' ev3 (ref_step (ev_op ev2) (ref_step (ev_op ev1) m))"
  using assms by (rule pipelined_shorter)

text \<open>Storing a value that holds a request to delete the key 2 2 2 2 2 2 2 2.\<close>

definition demo_del :: event where
  "demo_del = demo_tcp (CDel (replicate 8 2))"

definition demo_set :: event where
  "demo_set = demo_tcp (CSet [1] ([0, 0, 0] @ wire demo_del))"

lemma demo_set_holds: "take 24 (drop 24 (wire demo_set)) = wire demo_del"
proof -
  let ?del = "wire demo_del"
  let ?pre = "be32 (4 + length (ev_msg demo_set)) @ header 1 REQ_SET 0 @ be32 1 @ be32 (3 + length ?del) @ [1, 0, 0, 0]"
  have "wire demo_set = ?pre @ ?del"
    by (simp add: demo_set_def demo_tcp_def frame_def be32_def ev_msg_def encode_def del: store32_htonl of_nat_add)
  moreover have "length ?pre = 24" by simp
  moreover have "length ?del = 24" unfolding demo_del_def length_demo_tcp by simp
  ultimately show ?thesis by simp
qed

theorem tcp_stored_request_executed_witness:
  "\<exists>ts' s1 s2 s'. tcp_recv demo_server demo_ts (Recv (wire demo_set @ wire (demo_tcp (CGet (replicate 8 1)))) []) = Some (Some ts', s') \<and>
    handles demo_server s1 demo_set Map.empty \<and> handles s1 s2 (demo_tcp (CGet (replicate 8 1))) [[1] \<mapsto> [0, 0, 0] @ wire demo_del] \<and>
    handles s2 s' demo_del [[1] \<mapsto> [0, 0, 0] @ wire demo_del]"
proof -
  let ?get = "demo_tcp (CGet (replicate 8 1))"
  have l: "length (wire demo_del) = 24" "length (wire ?get) = 24" by (simp_all add: demo_del_def length_demo_tcp del: frame_def)
  have e: "tcp_ev demo_set" "tcp_ev ?get" "tcp_ev demo_del"
    using l(1) by (simp_all add: demo_set_def demo_del_def demo_tcp_ev)
  have i: "conn_idle demo_set demo_ts" "conn_idle ?get demo_ts" "conn_idle demo_del demo_ts"
    by (simp_all add: demo_set_def demo_del_def demo_tcp_idle)
  have t: "take (length (wire ?get)) (drop (length (wire ?get)) (wire demo_set)) = wire demo_del"
    unfolding l(2) by (rule demo_set_holds)
  have sz: "length (wire demo_set @ wire ?get) \<le> SBSIZE"
    using l by (simp add: demo_set_def length_demo_tcp SBSIZE_def)
  have f: "incrs_fit [ev_op demo_set, ev_op ?get, ev_op demo_del] Map.empty"
    by (simp add: demo_set_def demo_del_def demo_tcp_def)
  have "length (wire demo_del) = length (wire ?get)" using l by simp
  from tcp_stored_request_executed [OF e i this t sz demo_srv_ok demo_store f] show ?thesis
    by (simp add: demo_set_def demo_tcp_def) blast
qed

end
