(* ===== verification/Client_Net.thy ===== *)
theory Client_Net
  imports Req "HOL-Library.Product_Lexorder"
begin

text \<open>
  The client library's connections (\<^verbatim>\<open>libnmdb/tcp.c\<close>, \<^verbatim>\<open>libnmdb/udp.c\<close>, \<^verbatim>\<open>libnmdb/tipc.c\<close>,
  \<^verbatim>\<open>libnmdb/sctp.c\<close> and the transport-independent part of \<^verbatim>\<open>libnmdb/libnmdb.c\<close>): the sorted
  array of servers, complete sends and receives, and the four transports' request and reply
  functions.

  The process environment is a record of oracles: the outcomes of the \<^verbatim>\<open>malloc()\<close> calls to come,
  of the \<^verbatim>\<open>send()\<close> calls (a negative number is an error), and of the \<^verbatim>\<open>recv()\<close> calls (\<open>None\<close> is an
  error). When the list of receives is used up the peer has closed the connection. On a stream
  what a \<^verbatim>\<open>recv()\<close> does not take stays for the next one; a datagram longer than the buffer is
  cut. What was sent and which descriptors were closed is recorded. Sizes of objects are
  naturals; a size that goes on the wire is cut to 32 bits as \<^verbatim>\<open>htonl()\<close> does.
\<close>

section \<open>Data\<close>

abbreviation (input) TIPC_CONN :: int where "TIPC_CONN \<equiv> 1"
abbreviation (input) TCP_CONN :: int where "TCP_CONN \<equiv> 2"
abbreviation (input) UDP_CONN :: int where "UDP_CONN \<equiv> 3"
abbreviation (input) SCTP_CONN :: int where "SCTP_CONN \<equiv> 4"

abbreviation (input) ID_CODE :: u32 where "ID_CODE \<equiv> 1"

abbreviation (input) TIPC_SERVER_INST :: int where "TIPC_SERVER_INST \<equiv> 10"
abbreviation (input) TCP_SERVER_PORT :: int where "TCP_SERVER_PORT \<equiv> 26010"
abbreviation (input) UDP_SERVER_PORT :: int where "UDP_SERVER_PORT \<equiv> 26010"
abbreviation (input) SCTP_SERVER_PORT :: int where "SCTP_SERVER_PORT \<equiv> 26010"

text \<open>The union's two members side by side: \<^verbatim>\<open>info.tipc.port\<close>, and address and port of \<^verbatim>\<open>info.in\<close>.\<close>

record nmdb_srv =
  sr_fd :: int
  sr_type :: int
  sr_port :: u32
  sr_addr :: u32
  sr_inport :: u16

record nmdb_conn =
  nc_nservers :: u32
  nc_servers :: "nmdb_srv list"

record cworld =
  cw_ms :: alloc
  cw_sends :: "int list"
  cw_recvs :: "bytes option list"
  cw_sent :: "(int \<times> bytes) list"
  cw_closed :: "int list"

section \<open>System calls\<close>

definition c_malloc :: "cworld \<Rightarrow> bool \<times> cworld" where
  "c_malloc w = (let (ok, ms) = malloc (cw_ms w) in (ok, w\<lparr>cw_ms := ms\<rparr>))"

definition c_close :: "cworld \<Rightarrow> int \<Rightarrow> cworld" where
  "c_close w fd = w\<lparr>cw_closed := cw_closed w @ [fd]\<rparr>"

definition c_next_send :: "cworld \<Rightarrow> nat \<Rightarrow> int \<times> cworld" where
  "c_next_send w n = (case cw_sends w of [] \<Rightarrow> (int n, w)
     | r # rs \<Rightarrow> (min r (int n), w\<lparr>cw_sends := rs\<rparr>))"

definition c_send :: "cworld \<Rightarrow> int \<Rightarrow> bytes \<Rightarrow> int \<times> cworld" where
  "c_send w fd bs = (let (rv, w) = c_next_send w (length bs) in
     (rv, if rv \<le> 0 then w else w\<lparr>cw_sent := cw_sent w @ [(fd, take (nat rv) bs)]\<rparr>))"

definition c_sendto :: "cworld \<Rightarrow> int \<Rightarrow> bytes \<Rightarrow> int \<times> cworld" where
  "c_sendto w fd bs = (let (rv, w) = c_next_send w (length bs) in
     if rv < 0 then (rv, w) else (int (length bs), w\<lparr>cw_sent := cw_sent w @ [(fd, bs)]\<rparr>))"

definition recv_stream :: "cworld \<Rightarrow> nat \<Rightarrow> int \<times> bytes \<times> cworld" where
  "recv_stream w n = (case cw_recvs w of
     [] \<Rightarrow> (0, [], w)
   | None # rs \<Rightarrow> (- 1, [], w\<lparr>cw_recvs := rs\<rparr>)
   | Some bs # rs \<Rightarrow>
       if length bs \<le> n then (int (length bs), bs, w\<lparr>cw_recvs := rs\<rparr>)
       else (int n, take n bs, w\<lparr>cw_recvs := Some (drop n bs) # rs\<rparr>))"

definition recv_dgram :: "cworld \<Rightarrow> nat \<Rightarrow> int \<times> bytes \<times> cworld" where
  "recv_dgram w n = (case cw_recvs w of
     [] \<Rightarrow> (0, [], w)
   | None # rs \<Rightarrow> (- 1, [], w\<lparr>cw_recvs := rs\<rparr>)
   | Some bs # rs \<Rightarrow> (int (min n (length bs)), take n bs, w\<lparr>cw_recvs := rs\<rparr>))"

text \<open>Storing bytes at an offset of a block; outside it is undefined.\<close>

definition put_at :: "bytes \<Rightarrow> nat \<Rightarrow> bytes \<Rightarrow> bytes option" where
  "put_at buf off bs = (if off + length bs \<le> length buf
     then Some (take off buf @ bs @ drop (off + length bs) buf) else None)"

section \<open>The array of servers\<close>

definition compare_servers :: "nmdb_srv \<Rightarrow> nmdb_srv \<Rightarrow> int" where
  "compare_servers srv1 srv2 =
     (if sr_type srv1 \<noteq> sr_type srv2 then (if sr_type srv1 < sr_type srv2 then - 1 else 1)
      else if sr_type srv1 = TIPC_CONN then
        (if sr_port srv1 < sr_port srv2 then - 1
         else if sr_port srv1 = sr_port srv2 then 0
         else 1)
      else if sr_type srv1 = TCP_CONN \<or> sr_type srv1 = UDP_CONN \<or> sr_type srv1 = SCTP_CONN then
        (let a1 = sr_addr srv1; a2 = sr_addr srv2 in
         if a1 < a2 then - 1
         else if a1 = a2 then
           (let p1 = sr_inport srv1; p2 = sr_inport srv2 in
            if p1 < p2 then - 1
            else if p1 = p2 then 0
            else 1)
         else 1)
      else 0)"

text \<open>\<^verbatim>\<open>qsort()\<close> as the stable sort that the C library uses for small arrays.\<close>

fun insert_by :: "('a \<Rightarrow> 'a \<Rightarrow> int) \<Rightarrow> 'a \<Rightarrow> 'a list \<Rightarrow> 'a list" where
  "insert_by cmp x [] = [x]"
| "insert_by cmp x (y # ys) = (if cmp x y \<le> 0 then x # y # ys else y # insert_by cmp x ys)"

fun qsort :: "('a \<Rightarrow> 'a \<Rightarrow> int) \<Rightarrow> 'a list \<Rightarrow> 'a list" where
  "qsort cmp [] = []"
| "qsort cmp (x # xs) = insert_by cmp x (qsort cmp xs)"

definition nmdb_init :: "cworld \<Rightarrow> nmdb_conn option \<times> cworld" where
  "nmdb_init w = (let (ok, w) = c_malloc w in
     (if ok then Some \<lparr>nc_nservers = 0, nc_servers = []\<rparr> else None, w))"

definition nmdb_free :: "nmdb_conn \<Rightarrow> cworld \<Rightarrow> int \<times> cworld" where
  "nmdb_free db w = (1, foldl c_close w (map sr_fd (take (unat (nc_nservers db)) (nc_servers db))))"

text \<open>
  Adding a server. The results of \<^verbatim>\<open>socket()\<close>, \<^verbatim>\<open>setsockopt()\<close> and \<^verbatim>\<open>connect()\<close> are
  parameters. The new element of the array is at its end until \<^verbatim>\<open>qsort()\<close> moves it. Shrinking
  an array to no element gives NULL.
\<close>

definition grow :: "nmdb_conn \<Rightarrow> nmdb_srv \<Rightarrow> nmdb_conn" where
  "grow db s = db\<lparr>nc_nservers := nc_nservers db + 1, nc_servers := nc_servers db @ [s]\<rparr>"

definition sort_servers :: "nmdb_conn \<Rightarrow> nmdb_conn" where
  "sort_servers db = db\<lparr>nc_servers := qsort compare_servers (nc_servers db)\<rparr>"

definition nmdb_add_tipc_server :: "nmdb_conn \<Rightarrow> int \<Rightarrow> int \<Rightarrow> cworld \<Rightarrow> int \<times> nmdb_conn \<times> cworld" where
  "nmdb_add_tipc_server db port fd w =
     (if fd < 0 then (0, db, w)
      else let (ok, w) = c_malloc w in
        if \<not> ok then (0, db, c_close w fd)
        else let port = (if port < 0 then TIPC_SERVER_INST else port);
            newsrv = \<lparr>sr_fd = fd, sr_type = TIPC_CONN, sr_port = of_int port, sr_addr = 0, sr_inport = 0\<rparr>
          in (1, sort_servers (grow db newsrv), w))"

definition add_udp_server_addr :: "nmdb_conn \<Rightarrow> u32 \<Rightarrow> int \<Rightarrow> int \<Rightarrow> cworld \<Rightarrow> int \<times> nmdb_conn \<times> cworld" where
  "add_udp_server_addr db inetaddr port fd w =
     (if fd < 0 then (0, db, w)
      else let (ok, w) = c_malloc w in
        if \<not> ok then (0, db, c_close w fd)
        else let port = (if port < 0 then UDP_SERVER_PORT else port);
            newsrv = \<lparr>sr_fd = fd, sr_type = UDP_CONN, sr_port = 0, sr_addr = inetaddr, sr_inport = htons (of_int port)\<rparr>
          in (1, sort_servers (grow db newsrv), w))"

definition add_sctp_server_addr ::
  "nmdb_conn \<Rightarrow> u32 \<Rightarrow> int \<Rightarrow> int \<Rightarrow> int \<Rightarrow> cworld \<Rightarrow> int \<times> nmdb_conn \<times> cworld" where
  "add_sctp_server_addr db inetaddr port fd sockopt w =
     (if fd < 0 then (0, db, w)
      else if sockopt < 0 then (0, db, c_close w fd)
      else let (ok, w) = c_malloc w in
        if \<not> ok then (0, db, c_close w fd)
        else let port = (if port < 0 then SCTP_SERVER_PORT else port);
            newsrv = \<lparr>sr_fd = fd, sr_type = SCTP_CONN, sr_port = 0, sr_addr = inetaddr, sr_inport = htons (of_int port)\<rparr>
          in (1, sort_servers (grow db newsrv), w))"

definition tcp_error_exit :: "nmdb_conn \<Rightarrow> int \<Rightarrow> cworld \<Rightarrow> int \<times> nmdb_conn \<times> cworld" where
  "tcp_error_exit db fd w =
     (let w = c_close w fd; (ok, w) = c_malloc w in
      if \<not> ok \<or> nc_nservers db - 1 = 0 then (0, db\<lparr>nc_servers := [], nc_nservers := 0\<rparr>, w)
      else (0, db\<lparr>nc_servers := butlast (nc_servers db), nc_nservers := nc_nservers db - 1\<rparr>, w))"

definition add_tcp_server_addr ::
  "nmdb_conn \<Rightarrow> u32 \<Rightarrow> int \<Rightarrow> int \<Rightarrow> int \<Rightarrow> int \<Rightarrow> cworld \<Rightarrow> int \<times> nmdb_conn \<times> cworld" where
  "add_tcp_server_addr db inetaddr port fd connected sockopt w =
     (if fd < 0 then (0, db, w)
      else let (ok, w) = c_malloc w in
        if \<not> ok then (0, db, c_close w fd)
        else let port = (if port < 0 then TCP_SERVER_PORT else port);
            newsrv = \<lparr>sr_fd = fd, sr_type = TCP_CONN, sr_port = 0, sr_addr = inetaddr, sr_inport = htons (of_int port)\<rparr>;
            db = grow db newsrv in
          if connected < 0 then tcp_error_exit db fd w
          else if sockopt < 0 then tcp_error_exit db fd w
          else (1, sort_servers db, w))"

text \<open>
  Resolving a name: \<open>pton\<close> is what \<^verbatim>\<open>inet_pton()\<close> makes of it, \<open>host\<close> what \<^verbatim>\<open>gethostbyname()\<close>
  finds.
\<close>

definition resolve :: "(string \<Rightarrow> u32 option) \<Rightarrow> (string \<Rightarrow> u32 option) \<Rightarrow> string \<Rightarrow> u32 option" where
  "resolve pton host name = (case pton name of Some a \<Rightarrow> Some a | None \<Rightarrow> host name)"

definition nmdb_add_tcp_server ::
  "(string \<Rightarrow> u32 option) \<Rightarrow> (string \<Rightarrow> u32 option) \<Rightarrow> nmdb_conn \<Rightarrow> string \<Rightarrow> int \<Rightarrow> int \<Rightarrow> int \<Rightarrow> int \<Rightarrow> cworld \<Rightarrow>
     int \<times> nmdb_conn \<times> cworld" where
  "nmdb_add_tcp_server pton host db addr port fd connected sockopt w =
     (case resolve pton host addr of None \<Rightarrow> (0, db, w)
      | Some ia \<Rightarrow> add_tcp_server_addr db ia port fd connected sockopt w)"

definition nmdb_add_udp_server ::
  "(string \<Rightarrow> u32 option) \<Rightarrow> (string \<Rightarrow> u32 option) \<Rightarrow> nmdb_conn \<Rightarrow> string \<Rightarrow> int \<Rightarrow> int \<Rightarrow> cworld \<Rightarrow>
     int \<times> nmdb_conn \<times> cworld" where
  "nmdb_add_udp_server pton host db addr port fd w =
     (case resolve pton host addr of None \<Rightarrow> (0, db, w) | Some ia \<Rightarrow> add_udp_server_addr db ia port fd w)"

definition nmdb_add_sctp_server ::
  "(string \<Rightarrow> u32 option) \<Rightarrow> (string \<Rightarrow> u32 option) \<Rightarrow> nmdb_conn \<Rightarrow> string \<Rightarrow> int \<Rightarrow> int \<Rightarrow> int \<Rightarrow> cworld \<Rightarrow>
     int \<times> nmdb_conn \<times> cworld" where
  "nmdb_add_sctp_server pton host db addr port fd sockopt w =
     (case resolve pton host addr of None \<Rightarrow> (0, db, w)
      | Some ia \<Rightarrow> add_sctp_server_addr db ia port fd sockopt w)"

section \<open>Complete sends and receives\<close>

text \<open>\<^verbatim>\<open>ssend()\<close> with \<open>c\<close> bytes sent so far.\<close>

function ssend :: "cworld \<Rightarrow> int \<Rightarrow> bytes \<Rightarrow> nat \<Rightarrow> int \<times> cworld" where
  "ssend w fd buf c =
     (if c < length buf then
        (let (rv, w') = c_send w fd (drop c buf) in
         if rv = int (length buf) then (int (length buf), w')
         else if rv < 0 then (rv, w')
         else if rv = 0 then (int c, w')
         else ssend w' fd buf (c + nat rv))
      else (int (length buf), w))"
  by pat_completeness auto
termination
  by (relation "measure (\<lambda>(w, fd, buf, c). length buf - c)") auto

text \<open>\<^verbatim>\<open>srecv()\<close> of \<open>count\<close> bytes to offset \<open>off\<close> of \<open>buf\<close>, with \<open>c\<close> bytes received so far.\<close>

function srecv :: "cworld \<Rightarrow> bytes \<Rightarrow> nat \<Rightarrow> nat \<Rightarrow> nat \<Rightarrow> (int \<times> bytes \<times> cworld) option" where
  "srecv w buf off count c =
     (if c < count then
        (let (rv, bs, w') = recv_stream w (count - c) in
         case put_at buf (off + c) bs of
           None \<Rightarrow> None
         | Some buf' \<Rightarrow>
             if rv = int count then Some (int count, buf', w')
             else if rv < 0 then Some (rv, buf', w')
             else if rv = 0 then Some (int c, buf', w')
             else srecv w' buf' off count (c + nat rv))
      else Some (int count, buf, w))"
  by pat_completeness auto
termination
  by (relation "measure (\<lambda>(w, buf, off, count, c). count - c)") auto

declare ssend.simps [simp del] srecv.simps [simp del]

section \<open>Requests\<close>

definition tipc_srv_send :: "nmdb_srv \<Rightarrow> bytes \<Rightarrow> nat \<Rightarrow> cworld \<Rightarrow> (int \<times> bytes \<times> cworld) option" where
  "tipc_srv_send srv buf bsize w = do {
     bs \<leftarrow> rd buf 0 bsize;
     let (rv, w) = c_sendto w (sr_fd srv) bs;
     Some (if rv \<le> 0 then 0 else 1, buf, w)
   }"

definition udp_srv_send :: "nmdb_srv \<Rightarrow> bytes \<Rightarrow> nat \<Rightarrow> cworld \<Rightarrow> (int \<times> bytes \<times> cworld) option" where
  "udp_srv_send srv buf bsize w = do {
     bs \<leftarrow> rd buf 0 bsize;
     let (rv, w) = c_sendto w (sr_fd srv) bs;
     Some (if rv \<le> 0 then 0 else 1, buf, w)
   }"

definition sctp_srv_send :: "nmdb_srv \<Rightarrow> bytes \<Rightarrow> nat \<Rightarrow> cworld \<Rightarrow> (int \<times> bytes \<times> cworld) option" where
  "sctp_srv_send srv buf bsize w = do {
     bs \<leftarrow> rd buf 0 bsize;
     let (rv, w) = c_sendto w (sr_fd srv) bs;
     Some (if rv \<le> 0 then 0 else 1, buf, w)
   }"

definition tcp_srv_send :: "nmdb_srv \<Rightarrow> bytes \<Rightarrow> nat \<Rightarrow> cworld \<Rightarrow> (int \<times> bytes \<times> cworld) option" where
  "tcp_srv_send srv buf bsize w = do {
     let len = htonl (of_nat bsize);
     buf \<leftarrow> put_at buf 0 (store32 len);
     bs \<leftarrow> rd buf 0 bsize;
     let (rv, w) = ssend w (sr_fd srv) bs 0;
     Some (if rv \<noteq> int bsize then 0 else 1, buf, w)
   }"

section \<open>Replies\<close>

text \<open>
  A reply's code, where its payload starts in the buffer and how long it is (\<open>None\<close> when the
  out parameters are not assigned), and the buffer.
\<close>

type_synonym reply_result = "u32 \<times> (nat \<times> u64) option \<times> bytes \<times> cworld"

definition tipc_get_rep :: "nmdb_srv \<Rightarrow> bytes \<Rightarrow> nat \<Rightarrow> cworld \<Rightarrow> reply_result option" where
  "tipc_get_rep srv buf bsize w = do {
     let (rv, bs, w) = recv_dgram w bsize;
     buf \<leftarrow> put_at buf 0 bs;
     if rv < 4 + 4 then Some (- 1, None, buf, w)
     else do {
       id \<leftarrow> load32 buf 0;
       reply \<leftarrow> load32 buf 4;
       let id = ntohl id;
       let reply = ntohl reply;
       if id \<noteq> ID_CODE then Some (- 1, None, buf, w)
       else Some (reply, Some (4 + 4, of_int (rv - 4 - 4)), buf, w)
     }
   }"

definition udp_get_rep :: "nmdb_srv \<Rightarrow> bytes \<Rightarrow> nat \<Rightarrow> cworld \<Rightarrow> reply_result option" where
  "udp_get_rep srv buf bsize w = do {
     let (rv, bs, w) = recv_dgram w bsize;
     buf \<leftarrow> put_at buf 0 bs;
     if rv < 4 + 4 then Some (- 1, None, buf, w)
     else do {
       id \<leftarrow> load32 buf 0;
       reply \<leftarrow> load32 buf 4;
       let id = ntohl id;
       let reply = ntohl reply;
       if id \<noteq> ID_CODE then Some (- 1, None, buf, w)
       else Some (reply, Some (4 + 4, of_int (rv - 4 - 4)), buf, w)
     }
   }"

definition sctp_get_rep :: "nmdb_srv \<Rightarrow> bytes \<Rightarrow> nat \<Rightarrow> cworld \<Rightarrow> reply_result option" where
  "sctp_get_rep srv buf bsize w = do {
     let (rv, bs, w) = recv_dgram w bsize;
     buf \<leftarrow> put_at buf 0 bs;
     if rv < 4 + 4 then Some (- 1, None, buf, w)
     else do {
       id \<leftarrow> load32 buf 0;
       reply \<leftarrow> load32 buf 4;
       let id = ntohl id;
       let reply = ntohl reply;
       if id \<noteq> ID_CODE then Some (- 1, None, buf, w)
       else Some (reply, Some (4 + 4, of_int (rv - 4 - 4)), buf, w)
     }
   }"

text \<open>
  \<^verbatim>\<open>recv_msg()\<close>: at least the 4 bytes of the size, then the rest of the message. The early
  returns of its first part skip the second.
\<close>

definition recv_rest :: "cworld \<Rightarrow> bytes \<Rightarrow> nat \<Rightarrow> nat \<Rightarrow> (int \<times> bytes \<times> cworld) option" where
  "recv_rest w buf bsize rv = do {
     msgsize \<leftarrow> load32 buf 0;
     let msgsize = ntohl msgsize;
     if unat msgsize > bsize then Some (- 1, buf, w)
     else if rv < unat msgsize then do {
       (t, buf, w) \<leftarrow> srecv w buf rv (unat msgsize - rv) 0;
       if t \<le> 0 then Some (t, buf, w) else Some (int rv + t, buf, w)
     }
     else Some (int rv, buf, w)
   }"

definition recv_msg :: "cworld \<Rightarrow> bytes \<Rightarrow> nat \<Rightarrow> (int \<times> bytes \<times> cworld) option" where
  "recv_msg w buf bsize = do {
     let (rv, bs, w) = recv_stream w bsize;
     buf \<leftarrow> put_at buf 0 bs;
     if rv \<le> 0 then Some (rv, buf, w)
     else if rv < 4 then do {
       (t, buf, w) \<leftarrow> srecv w buf (nat rv) (4 - nat rv) 0;
       if t \<le> 0 then Some (t, buf, w) else recv_rest w buf bsize (nat (rv + t))
     }
     else recv_rest w buf bsize (nat rv)
   }"

definition tcp_get_rep :: "nmdb_srv \<Rightarrow> bytes \<Rightarrow> nat \<Rightarrow> cworld \<Rightarrow> reply_result option" where
  "tcp_get_rep srv buf bsize w = do {
     (rv, buf, w) \<leftarrow> recv_msg w buf bsize;
     if rv \<le> 0 then Some (- 1, None, buf, w)
     else do {
       id \<leftarrow> load32 buf 4;
       reply \<leftarrow> load32 buf 8;
       let id = ntohl id;
       let reply = ntohl reply;
       if id \<noteq> ID_CODE then Some (- 1, None, buf, w)
       else Some (reply, Some (4 + 4 + 4, of_int (rv - 4 - 4 - 4)), buf, w)
     }
   }"

end
