(* ===== verification/Client.thy ===== *)
theory Client
  imports Client_Net
begin

text \<open>
  The client library's requests (\<^verbatim>\<open>libnmdb/libnmdb.c\<close>): choosing a server, building the
  packet, sending it, reading the reply into the same buffer, and the functions of the
  interface. The caller's output buffer is a byte list of the size it says; a function that
  fills it returns it next to its result. A fresh block is shown as zeros: all of it that is
  ever read has been written first.
\<close>

section \<open>Dispatch on the connection's type\<close>

definition srv_send :: "nmdb_srv option \<Rightarrow> bytes \<Rightarrow> nat \<Rightarrow> cworld \<Rightarrow> (int \<times> bytes \<times> cworld) option" where
  "srv_send srv buf bsize w = (case srv of None \<Rightarrow> Some (0, buf, w)
   | Some srv \<Rightarrow>
       if sr_type srv = TIPC_CONN then tipc_srv_send srv buf bsize w
       else if sr_type srv = TCP_CONN then tcp_srv_send srv buf bsize w
       else if sr_type srv = UDP_CONN then udp_srv_send srv buf bsize w
       else if sr_type srv = SCTP_CONN then sctp_srv_send srv buf bsize w
       else Some (0, buf, w))"

definition get_rep :: "nmdb_srv option \<Rightarrow> bytes \<Rightarrow> nat \<Rightarrow> cworld \<Rightarrow> reply_result option" where
  "get_rep srv buf bsize w = (case srv of None \<Rightarrow> Some (- 1, None, buf, w)
   | Some srv \<Rightarrow>
       if sr_type srv = TIPC_CONN then tipc_get_rep srv buf bsize w
       else if sr_type srv = TCP_CONN then tcp_get_rep srv buf bsize w
       else if sr_type srv = UDP_CONN then udp_get_rep srv buf bsize w
       else if sr_type srv = SCTP_CONN then sctp_get_rep srv buf bsize w
       else Some (0, None, buf, w))"

definition srv_get_msg_offset :: "nmdb_srv option \<Rightarrow> nat" where
  "srv_get_msg_offset srv = (case srv of None \<Rightarrow> 0
   | Some srv \<Rightarrow>
       if sr_type srv = TIPC_CONN then 0
       else if sr_type srv = TCP_CONN then 4
       else if sr_type srv = UDP_CONN then 0
       else if sr_type srv = SCTP_CONN then 0
       else 0)"

section \<open>Choosing a server\<close>

text \<open>
  \<^verbatim>\<open>checksum()\<close>: \<open>sum += * (uint16_t *) buf++\<close> reads two bytes and advances by one, since
  \<^verbatim>\<open>buf\<close> points to bytes. The first argument counts the bytes that \<^verbatim>\<open>bsize\<close> says are left.
\<close>

fun sum_words :: "nat \<Rightarrow> bytes \<Rightarrow> u32 \<Rightarrow> (bytes \<times> nat \<times> u32) option" where
  "sum_words bsize buf acc =
     (if bsize > 1 then
        (case load16 buf 0 of None \<Rightarrow> None
         | Some x \<Rightarrow> sum_words (bsize - 2) (drop 1 buf) (acc + ucast x))
      else Some (buf, bsize, acc))"

declare sum_words.simps [simp del]

text \<open>The folding loop; every step makes a acc that does not fit 16 bits smaller.\<close>

function fold_sum :: "u32 \<Rightarrow> u32" where
  "fold_sum acc = (if drop_bit 16 acc \<noteq> 0 then fold_sum ((acc AND 0xffff) + drop_bit 16 acc) else acc)"
  by pat_completeness auto

lemma mod_plus_div_less:
  assumes "0 < n div (b :: nat)" and "1 < b"
  shows "n mod b + n div b < n"
proof -
  have "n div b * 1 < n div b * b" using assms by (intro mult_strict_left_mono) simp_all
  then show ?thesis using div_mult_mod_eq [of n b] by linarith
qed

lemma fold_sum_less:
  assumes "drop_bit 16 (acc :: u32) \<noteq> 0"
  shows "unat ((acc AND 0xffff) + drop_bit 16 acc) < unat acc"
proof -
  have m: "(0xffff :: u32) = mask 16" by (simp add: mask_eq_exp_minus_1)
  have hi: "unat (drop_bit 16 acc) = unat acc div 2 ^ 16"
    by (metis unat_drop_bit_eq drop_bit_eq_div)
  have lo: "unat (acc AND 0xffff) = unat acc mod 2 ^ 16"
    unfolding m by (metis take_bit_eq_mask unsigned_take_bit_eq take_bit_eq_mod)
  have "unat (drop_bit 16 acc) \<noteq> 0" using assms by (simp add: unat_eq_zero)
  then have "0 < unat acc div 2 ^ 16" using hi by simp
  then have less: "unat acc mod 2 ^ 16 + unat acc div 2 ^ 16 < unat acc" by (rule mod_plus_div_less) simp
  moreover have "unat ((acc AND 0xffff) + drop_bit 16 acc) \<le> unat acc mod 2 ^ 16 + unat acc div 2 ^ 16"
    by (simp add: unat_word_ariths hi lo)
  ultimately show ?thesis by linarith
qed

termination fold_sum
  by (relation "measure unat") (simp_all add: fold_sum_less)

declare fold_sum.simps [simp del]

definition checksum :: "bytes \<Rightarrow> u32 option" where
  "checksum key = do {
     (buf, bsize, acc) \<leftarrow> sum_words (length key) key 0;
     acc \<leftarrow> (if bsize > 0 then map_option (\<lambda>b. acc + ucast (hd b)) (rd buf 0 1) else Some acc);
     Some (NOT (fold_sum acc))
   }"

text \<open>The outer \<open>None\<close> is undefined behaviour, the inner one NULL.\<close>

definition select_srv :: "nmdb_conn \<Rightarrow> bytes \<Rightarrow> nmdb_srv option option" where
  "select_srv db key =
     (if nc_nservers db = 0 then Some None
      else do {
        c \<leftarrow> checksum key;
        let n = unat (c mod nc_nservers db);
        if n < length (nc_servers db) then Some (Some (nc_servers db ! n)) else None
      })"

section \<open>Building packets\<close>

text \<open>
  The result is the buffer (\<open>None\<close> is NULL), its size and the offset of the payload;
  \<open>payload_size\<close> is \<open>- 1\<close> when the reply's size is not known.
\<close>

definition new_packet ::
  "nmdb_srv option \<Rightarrow> u16 \<Rightarrow> u16 \<Rightarrow> int \<Rightarrow> cworld \<Rightarrow> (bytes option \<times> nat \<times> nat \<times> cworld) option" where
  "new_packet srv request flags payload_size w =
     (let moff = srv_get_msg_offset srv;
        bufsize = (if payload_size = - 1 then 68 * 1024 else moff + 8 + nat payload_size);
        (ok, w) = c_malloc w in
      if \<not> ok then Some (None, bufsize, moff + 8, w)
      else do {
        let buf = replicate bufsize 0;
        buf \<leftarrow> put_at buf moff (store32 (htonl (push_bit 28 PROTO_VER OR ID_CODE)));
        buf \<leftarrow> put_at buf (moff + 4) (store16 (htons request));
        buf \<leftarrow> put_at buf (moff + 6) (store16 (htons flags));
        Some (Some buf, bufsize, moff + 8, w)
      })"

definition append_1v :: "bytes \<Rightarrow> nat \<Rightarrow> bytes \<Rightarrow> (nat \<times> bytes) option" where
  "append_1v buf off datum = do {
     buf \<leftarrow> put_at buf off (store32 (htonl (of_nat (length datum))));
     buf \<leftarrow> put_at buf (off + 4) datum;
     Some (4 + length datum, buf)
   }"

definition append_2v :: "bytes \<Rightarrow> nat \<Rightarrow> bytes \<Rightarrow> bytes \<Rightarrow> (nat \<times> bytes) option" where
  "append_2v buf off datum1 datum2 = do {
     buf \<leftarrow> put_at buf off (store32 (htonl (of_nat (length datum1))));
     buf \<leftarrow> put_at buf (off + 4) (store32 (htonl (of_nat (length datum2))));
     buf \<leftarrow> put_at buf (off + 8) datum1;
     buf \<leftarrow> put_at buf (off + 8 + length datum1) datum2;
     Some (8 + length datum1 + length datum2, buf)
   }"

definition append_3v :: "bytes \<Rightarrow> nat \<Rightarrow> bytes \<Rightarrow> bytes \<Rightarrow> bytes \<Rightarrow> (nat \<times> bytes) option" where
  "append_3v buf off datum1 datum2 datum3 = do {
     buf \<leftarrow> put_at buf off (store32 (htonl (of_nat (length datum1))));
     buf \<leftarrow> put_at buf (off + 4) (store32 (htonl (of_nat (length datum2))));
     buf \<leftarrow> put_at buf (off + 8) (store32 (htonl (of_nat (length datum3))));
     buf \<leftarrow> put_at buf (off + 12) datum1;
     buf \<leftarrow> put_at buf (off + 12 + length datum1) datum2;
     buf \<leftarrow> put_at buf (off + 12 + length datum1 + length datum2) datum3;
     Some (12 + length datum1 + length datum2 + length datum3, buf)
   }"

section \<open>Requests\<close>

text \<open>
  What a get, a first-key and a next-key request do with a reply that carries a value:
  \<^verbatim>\<open>rv > (psize - 4) || rv > vsize\<close>, both sides being unsigned, then the copy.
\<close>

definition copy_value :: "bytes \<Rightarrow> nat \<Rightarrow> u64 \<Rightarrow> bytes \<Rightarrow> (int \<times> bytes) option" where
  "copy_value buf p psize val = do {
     rv \<leftarrow> load32 buf p;
     let rv = ntohl rv;
     if (ucast rv :: u64) > psize - 4 \<or> unat rv > length val then Some (- 2, val)
     else do {
       bs \<leftarrow> rd buf (p + 4) (unat rv);
       val \<leftarrow> put_at val 0 bs;
       Some (int (unat rv), val)
     }
   }"

definition do_get :: "nmdb_conn \<Rightarrow> bytes \<Rightarrow> bytes \<Rightarrow> u16 \<Rightarrow> cworld \<Rightarrow> (int \<times> bytes \<times> cworld) option" where
  "do_get db key val flags w = do {
     let flags = flags AND FLAGS_CACHE_ONLY;
     srv \<leftarrow> select_srv db key;
     (buf, bufsize, payload_offset, w) \<leftarrow> new_packet srv REQ_GET flags (- 1) w;
     (case buf of None \<Rightarrow> Some (- 1, val, w)
      | Some buf \<Rightarrow> do {
          (n, buf) \<leftarrow> append_1v buf payload_offset key;
          let reqsize = payload_offset + n;
          (t, buf, w) \<leftarrow> srv_send srv buf reqsize w;
          if t \<le> 0 then Some (- 2, val, w)
          else do {
            (reply, out, buf, w) \<leftarrow> get_rep srv buf bufsize w;
            if reply = REP_CACHE_MISS \<or> reply = REP_NOTIN then Some (- 1, val, w)
            else if reply = REP_ERR then Some (- 2, val, w)
            else if reply \<noteq> REP_OK \<and> reply \<noteq> REP_CACHE_HIT then Some (- 2, val, w)
            else do {
              (p, psize) \<leftarrow> out;
              (rv, val) \<leftarrow> copy_value buf p psize val;
              Some (rv, val, w)
            }
          }
        })
   }"

definition do_set :: "nmdb_conn \<Rightarrow> bytes \<Rightarrow> bytes \<Rightarrow> u16 \<Rightarrow> cworld \<Rightarrow> (int \<times> cworld) option" where
  "do_set db key val flags w = do {
     let flags = flags AND (FLAGS_CACHE_ONLY OR FLAGS_SYNC);
     srv \<leftarrow> select_srv db key;
     (buf, bufsize, payload_offset, w) \<leftarrow> new_packet srv REQ_SET flags (4 * 2 + int (length key) + int (length val)) w;
     (case buf of None \<Rightarrow> Some (- 1, w)
      | Some buf \<Rightarrow> do {
          (n, buf) \<leftarrow> append_2v buf payload_offset key val;
          let reqsize = payload_offset + n;
          (t, buf, w) \<leftarrow> srv_send srv buf reqsize w;
          if t \<le> 0 then Some (- 1, w)
          else do {
            (reply, out, buf, w) \<leftarrow> get_rep srv buf bufsize w;
            if reply = REP_OK then Some (1, w)
            else Some (- 1, w)
          }
        })
   }"

definition do_del :: "nmdb_conn \<Rightarrow> bytes \<Rightarrow> u16 \<Rightarrow> cworld \<Rightarrow> (int \<times> cworld) option" where
  "do_del db key flags w = do {
     let flags = flags AND (FLAGS_CACHE_ONLY OR FLAGS_SYNC);
     srv \<leftarrow> select_srv db key;
     (buf, bufsize, payload_offset, w) \<leftarrow> new_packet srv REQ_DEL flags (4 + int (length key)) w;
     (case buf of None \<Rightarrow> Some (- 1, w)
      | Some buf \<Rightarrow> do {
          (n, buf) \<leftarrow> append_1v buf payload_offset key;
          let reqsize = payload_offset + n;
          (t, buf, w) \<leftarrow> srv_send srv buf reqsize w;
          if t \<le> 0 then Some (- 1, w)
          else do {
            (reply, out, buf, w) \<leftarrow> get_rep srv buf bufsize w;
            if reply = REP_OK then Some (1, w)
            else if reply = REP_NOTIN then Some (0, w)
            else Some (- 1, w)
          }
        })
   }"

definition do_cas :: "nmdb_conn \<Rightarrow> bytes \<Rightarrow> bytes \<Rightarrow> bytes \<Rightarrow> u16 \<Rightarrow> cworld \<Rightarrow> (int \<times> cworld) option" where
  "do_cas db key oldval newval flags w = do {
     let flags = flags AND FLAGS_CACHE_ONLY;
     srv \<leftarrow> select_srv db key;
     (buf, bufsize, payload_offset, w) \<leftarrow> new_packet srv REQ_CAS flags
       (4 * 3 + int (length key) + int (length oldval) + int (length newval)) w;
     (case buf of None \<Rightarrow> Some (- 1, w)
      | Some buf \<Rightarrow> do {
          (n, buf) \<leftarrow> append_3v buf payload_offset key oldval newval;
          let reqsize = payload_offset + n;
          (t, buf, w) \<leftarrow> srv_send srv buf reqsize w;
          if t \<le> 0 then Some (- 1, w)
          else do {
            (reply, out, buf, w) \<leftarrow> get_rep srv buf bufsize w;
            if reply = REP_OK then Some (2, w)
            else if reply = REP_NOMATCH then Some (1, w)
            else if reply = REP_NOTIN then Some (0, w)
            else Some (- 1, w)
          }
        })
   }"

text \<open>
  The third component of the result is what was assigned to \<^verbatim>\<open>*newval\<close>, if anything was;
  \<open>want\<close> says that \<^verbatim>\<open>newval\<close> is not NULL.
\<close>

definition do_incr ::
  "nmdb_conn \<Rightarrow> bytes \<Rightarrow> u64 \<Rightarrow> bool \<Rightarrow> u16 \<Rightarrow> cworld \<Rightarrow> (int \<times> u64 option \<times> cworld) option" where
  "do_incr db key increment want flags w = do {
     let flags = flags AND FLAGS_CACHE_ONLY;
     srv \<leftarrow> select_srv db key;
     let increment = htonll increment;
     (buf, bufsize, payload_offset, w) \<leftarrow> new_packet srv REQ_INCR flags (4 + int (length key) + 8) w;
     (case buf of None \<Rightarrow> Some (- 1, None, w)
      | Some buf \<Rightarrow> do {
          (n, buf) \<leftarrow> append_1v buf payload_offset key;
          let reqsize = payload_offset + n;
          buf \<leftarrow> put_at buf reqsize (store64 increment);
          let reqsize = reqsize + 8;
          (t, buf, w) \<leftarrow> srv_send srv buf reqsize w;
          if t \<le> 0 then Some (- 1, None, w)
          else do {
            (reply, out, buf, w) \<leftarrow> get_rep srv buf bufsize w;
            if reply = REP_OK then do {
              (payload, psize) \<leftarrow> out;
              if want \<and> psize = 8 + 4 then do {
                newval \<leftarrow> load64 buf (payload + 4);
                Some (2, Some (ntohll newval), w)
              }
              else Some (2, None, w)
            }
            else if reply = REP_NOMATCH then Some (1, None, w)
            else if reply = REP_NOTIN then Some (0, None, w)
            else Some (- 1, None, w)
          }
        })
   }"

section \<open>The interface\<close>

definition nmdb_get ::
    "nmdb_conn \<Rightarrow> bytes \<Rightarrow> bytes \<Rightarrow> cworld \<Rightarrow> (int \<times> bytes \<times> cworld) option" where
  "nmdb_get db key val w = do_get db key val 0 w"
definition nmdb_cache_get ::
    "nmdb_conn \<Rightarrow> bytes \<Rightarrow> bytes \<Rightarrow> cworld \<Rightarrow> (int \<times> bytes \<times> cworld) option" where
  "nmdb_cache_get db key val w = do_get db key val FLAGS_CACHE_ONLY w"
definition nmdb_set ::
    "nmdb_conn \<Rightarrow> bytes \<Rightarrow> bytes \<Rightarrow> cworld \<Rightarrow> (int \<times> cworld) option" where
  "nmdb_set db key val w = do_set db key val 0 w"
definition nmdb_set_sync ::
    "nmdb_conn \<Rightarrow> bytes \<Rightarrow> bytes \<Rightarrow> cworld \<Rightarrow> (int \<times> cworld) option" where
  "nmdb_set_sync db key val w = do_set db key val FLAGS_SYNC w"
definition nmdb_cache_set ::
    "nmdb_conn \<Rightarrow> bytes \<Rightarrow> bytes \<Rightarrow> cworld \<Rightarrow> (int \<times> cworld) option" where
  "nmdb_cache_set db key val w = do_set db key val FLAGS_CACHE_ONLY w"
definition nmdb_del ::
    "nmdb_conn \<Rightarrow> bytes \<Rightarrow> cworld \<Rightarrow> (int \<times> cworld) option" where
  "nmdb_del db key w = do_del db key 0 w"
definition nmdb_del_sync ::
    "nmdb_conn \<Rightarrow> bytes \<Rightarrow> cworld \<Rightarrow> (int \<times> cworld) option" where
  "nmdb_del_sync db key w = do_del db key FLAGS_SYNC w"
definition nmdb_cache_del ::
    "nmdb_conn \<Rightarrow> bytes \<Rightarrow> cworld \<Rightarrow> (int \<times> cworld) option" where
  "nmdb_cache_del db key w = do_del db key FLAGS_CACHE_ONLY w"
definition nmdb_cas ::
    "nmdb_conn \<Rightarrow> bytes \<Rightarrow> bytes \<Rightarrow> bytes \<Rightarrow> cworld \<Rightarrow> (int \<times> cworld) option" where
  "nmdb_cas db key oldval newval w = do_cas db key oldval newval 0 w"
definition nmdb_cache_cas ::
    "nmdb_conn \<Rightarrow> bytes \<Rightarrow> bytes \<Rightarrow> bytes \<Rightarrow> cworld \<Rightarrow> (int \<times> cworld) option" where
  "nmdb_cache_cas db key oldval newval w = do_cas db key oldval newval FLAGS_CACHE_ONLY w"
definition nmdb_incr ::
    "nmdb_conn \<Rightarrow> bytes \<Rightarrow> u64 \<Rightarrow> bool \<Rightarrow> cworld \<Rightarrow> (int \<times> u64 option \<times> cworld) option" where
  "nmdb_incr db key increment want w = do_incr db key increment want 0 w"
definition nmdb_cache_incr ::
    "nmdb_conn \<Rightarrow> bytes \<Rightarrow> u64 \<Rightarrow> bool \<Rightarrow> cworld \<Rightarrow> (int \<times> u64 option \<times> cworld) option" where
  "nmdb_cache_incr db key increment want w = do_incr db key increment want FLAGS_CACHE_ONLY w"

definition nmdb_firstkey :: "nmdb_conn \<Rightarrow> bytes \<Rightarrow> cworld \<Rightarrow> (int \<times> bytes \<times> cworld) option" where
  "nmdb_firstkey db key w =
     (if nc_nservers db \<noteq> 1 then Some (- 2, key, w)
      else if nc_servers db = [] then None
      else do {
        let srv = Some (nc_servers db ! 0);
        (buf, bufsize, payload_offset, w) \<leftarrow> new_packet srv REQ_FIRSTKEY 0 (- 1) w;
        (case buf of None \<Rightarrow> Some (- 2, key, w)
         | Some buf \<Rightarrow> do {
             (t, buf, w) \<leftarrow> srv_send srv buf payload_offset w;
             if t \<le> 0 then Some (- 2, key, w)
             else do {
               (reply, out, buf, w) \<leftarrow> get_rep srv buf bufsize w;
               if reply = REP_NOTIN then Some (- 1, key, w)
               else if reply = REP_ERR then Some (- 2, key, w)
               else if reply \<noteq> REP_OK then Some (- 2, key, w)
               else do {
                 (p, psize) \<leftarrow> out;
                 (rv, key) \<leftarrow> copy_value buf p psize key;
                 Some (rv, key, w)
               }
             }
           })
      })"

definition nmdb_nextkey :: "nmdb_conn \<Rightarrow> bytes \<Rightarrow> bytes \<Rightarrow> cworld \<Rightarrow> (int \<times> bytes \<times> cworld) option" where
  "nmdb_nextkey db key newkey w =
     (if nc_nservers db \<noteq> 1 then Some (- 2, newkey, w)
      else if nc_servers db = [] then None
      else do {
        let srv = Some (nc_servers db ! 0);
        (buf, bufsize, payload_offset, w) \<leftarrow> new_packet srv REQ_NEXTKEY 0 (- 1) w;
        (case buf of None \<Rightarrow> Some (- 1, newkey, w)
         | Some buf \<Rightarrow> do {
             (n, buf) \<leftarrow> append_1v buf payload_offset key;
             let reqsize = payload_offset + n;
             (t, buf, w) \<leftarrow> srv_send srv buf reqsize w;
             if t \<le> 0 then Some (- 2, newkey, w)
             else do {
               (reply, out, buf, w) \<leftarrow> get_rep srv buf bufsize w;
               if reply = REP_NOTIN then Some (- 1, newkey, w)
               else if reply = REP_ERR then Some (- 2, newkey, w)
               else if reply \<noteq> REP_OK then Some (- 2, newkey, w)
               else do {
                 (p, psize) \<leftarrow> out;
                 (rv, newkey) \<leftarrow> copy_value buf p psize newkey;
                 Some (rv, newkey, w)
               }
             }
           })
      })"

text \<open>
  \<^verbatim>\<open>nmdb_stats()\<close>, from server \<open>i\<close> on: \<open>off\<close> is how far \<^verbatim>\<open>buf\<close> has advanced, \<open>nstats\<close> the
  number of counters so far. The array \<^verbatim>\<open>tmpbuf\<close> is on the stack and starts with whatever is
  there. With no memory for the request, TCP's \<^verbatim>\<open>memcpy()\<close> goes to NULL and the other transports'
  \<^verbatim>\<open>sendto()\<close> fails. The results are the return value, the caller's buffer, \<^verbatim>\<open>*nstats\<close>, and
  \<^verbatim>\<open>*nservers\<close> if it was assigned.
\<close>

fun stats_loop ::
  "nmdb_srv list \<Rightarrow> bytes \<Rightarrow> bytes \<Rightarrow> nat \<Rightarrow> u64 \<Rightarrow> u32 \<Rightarrow> cworld \<Rightarrow> (int \<times> bytes \<times> u32 \<times> cworld) option" where
  "stats_loop [] tmpbuf buf off bsize nstats w = Some (1, buf, nstats, w)"
| "stats_loop (srv # srvs) tmpbuf buf off bsize nstats w = do {
     (request, reqsize, _, w) \<leftarrow> new_packet (Some srv) REQ_STATS 0 0 w;
     (case request of None \<Rightarrow> if sr_type srv = TCP_CONN then None else Some (- 2, buf, nstats, w)
      | Some request \<Rightarrow> do {
          (t, _, w) \<leftarrow> srv_send (Some srv) request reqsize w;
          if t \<le> 0 then Some (- 2, buf, nstats, w)
          else do {
            (reply, out, tmpbuf, w) \<leftarrow> get_rep (Some srv) tmpbuf (length tmpbuf) w;
            if reply \<noteq> REP_OK then Some (- 1, buf, nstats, w)
            else do {
              (payload, psize) \<leftarrow> out;
              if bsize < psize then Some (- 3, buf, nstats, w)
              else do {
                bs \<leftarrow> rd tmpbuf (payload + 4) (unat psize);
                buf \<leftarrow> put_at buf off bs;
                let off = off + unat psize;
                let bsize = bsize - psize;
                if nstats = 0 then stats_loop srvs tmpbuf buf off bsize (ucast (psize div 8)) w
                else if ucast nstats \<noteq> psize div 8 then Some (- 4, buf, nstats, w)
                else stats_loop srvs tmpbuf buf off bsize nstats w
              }
            }
          }
        })
   }"

definition nmdb_stats ::
  "nmdb_conn \<Rightarrow> bytes \<Rightarrow> bytes \<Rightarrow> cworld \<Rightarrow> (int \<times> bytes \<times> u32 option \<times> u32 \<times> cworld) option" where
  "nmdb_stats db tmpbuf buf w = do {
     (rv, buf, nstats, w) \<leftarrow> stats_loop (take (unat (nc_nservers db)) (nc_servers db)) tmpbuf buf 0 (of_nat (length buf)) 0 w;
     Some (rv, buf, if rv = 1 then Some (nc_nservers db) else None, nstats, w)
   }"

end
