(* ===== verification/Client_Ok.thy ===== *)
theory Client_Ok
  imports Client Recv_Ok
begin

text \<open>
  What the client library's pieces do when memory lasts and the network delivers: the packet
  that is built is the protocol's message, \<^verbatim>\<open>recv_msg()\<close> puts a reply together however the
  stream is cut, and the reply's fields are read from where the server puts them.
\<close>

section \<open>Writing into a block\<close>

lemma put_at_append:
  assumes "off = length pre" and "length bs \<le> length z"
  shows "put_at (pre @ z) off bs = Some (pre @ bs @ drop (length bs) z)"
  using assms by (simp add: put_at_def)

lemma put_at_front: "length bs \<le> length buf \<Longrightarrow> put_at buf 0 bs = Some (bs @ drop (length bs) buf)"
  by (simp add: put_at_def)

lemma length_put_at: "put_at buf off bs = Some buf' \<Longrightarrow> length buf' = length buf"
  by (auto simp: put_at_def split: if_splits)

lemma put_at_Some: "off + length bs \<le> length buf \<Longrightarrow>
    put_at buf off bs = Some (take off buf @ bs @ drop (off + length bs) buf)"
  by (simp add: put_at_def)

section \<open>Servers\<close>

definition srv_valid :: "nmdb_srv \<Rightarrow> bool" where
  "srv_valid s \<longleftrightarrow> sr_type s = TIPC_CONN \<or> sr_type s = TCP_CONN \<or> sr_type s = UDP_CONN \<or> sr_type s = SCTP_CONN"

definition conn_transport :: "nmdb_srv \<Rightarrow> transport" where
  "conn_transport s = (if sr_type s = TIPC_CONN then TIPC else if sr_type s = TCP_CONN then TCP
     else if sr_type s = UDP_CONN then UDP else SCTP)"

definition conn_wf :: "nmdb_conn \<Rightarrow> bool" where
  "conn_wf db \<longleftrightarrow> unat (nc_nservers db) = length (nc_servers db) \<and> list_all srv_valid (nc_servers db)"

abbreviation moff :: "nmdb_srv \<Rightarrow> nat" where
  "moff s \<equiv> srv_get_msg_offset (Some s)"

lemma moff_transport: "srv_valid s \<Longrightarrow> moff s = (if conn_transport s = TCP then 4 else 0)"
  by (auto simp: srv_valid_def srv_get_msg_offset_def conn_transport_def)

lemma sum_words_total:
  assumes "n \<le> length buf"
  shows "\<exists>buf' n' acc'. sum_words n buf acc = Some (buf', n', acc') \<and> n' \<le> 1 \<and> n' \<le> length buf'"
  using assms
proof (induction n buf acc rule: sum_words.induct)
  case (1 n buf acc)
  show ?case
  proof (cases "n > 1")
    case False
    with 1 show ?thesis by (subst sum_words.simps) simp
  next
    case True
    with "1.prems" obtain x where x: "load16 buf 0 = Some x" by (auto simp: load16_def rd_def)
    have "n - 2 \<le> length (drop 1 buf)" using "1.prems" by simp
    with "1.IH" [OF True x] True x show ?thesis by (subst sum_words.simps) simp
  qed
qed

lemma checksum_total: "\<exists>c. checksum key = Some c"
proof -
  obtain buf n acc where s: "sum_words (length key) key 0 = Some (buf, n, acc)" "n \<le> length buf"
    using sum_words_total [of "length key" key 0] by auto
  show ?thesis
  proof (cases "n > 0")
    case True
    with s(2) have "rd buf 0 1 = Some (take 1 buf)" by (simp add: rd_def)
    with True s(1) show ?thesis by (simp add: checksum_def)
  next
    case False
    with s(1) show ?thesis by (simp add: checksum_def)
  qed
qed

lemma select_srv_ok:
  assumes "conn_wf db" and "nc_servers db \<noteq> []"
  obtains s where "select_srv db key = Some (Some s)" and "srv_valid s" and "s \<in> set (nc_servers db)"
proof -
  obtain c where c: "checksum key = Some c" using checksum_total by blast
  have n: "unat (nc_nservers db) = length (nc_servers db)" using assms(1) by (simp add: conn_wf_def)
  then have nz: "nc_nservers db \<noteq> 0" using assms(2) by auto
  let ?n = "unat (c mod nc_nservers db)"
  have "0 < unat (nc_nservers db)" using n assms(2) by simp
  then have "?n < length (nc_servers db)" unfolding unat_mod n [symmetric] by (rule mod_less_divisor)
  moreover from this have "srv_valid (nc_servers db ! ?n)" using assms(1) by (simp add: conn_wf_def list_all_length)
  ultimately show thesis
    using c nz by (intro that [of "nc_servers db ! ?n"]) (simp_all add: select_srv_def)
qed

section \<open>Packets\<close>

lemma hdr32_one: "push_bit 28 PROTO_VER OR ID_CODE = hdr32 1"
  by (simp add: hdr32_def)

lemma header_client:
  "header 1 cmd flags = store32 (htonl (push_bit 28 PROTO_VER OR ID_CODE)) @ store16 (htons cmd) @ store16 (htons flags)"
  by (simp add: header_def hdr32_def)

lemma new_packet_ok:
  assumes "good (cw_ms w)" and "psz = int n \<or> psz = - 1 \<and> n = 68 * 1024 - moff s - 8" and "srv_valid s"
  obtains ms where "good ms" and "new_packet (Some s) req fl psz w =
    Some (Some (replicate (moff s) 0 @ header 1 req fl @ replicate n 0), moff s + 8 + n, moff s + 8, w\<lparr>cw_ms := ms\<rparr>)"
proof -
  obtain ms where ms: "malloc (cw_ms w) = (True, ms)" "good ms" using assms(1) by (rule malloc_good)
  let ?m = "moff s"
  let ?a = "store32 (htonl (push_bit 28 PROTO_VER OR ID_CODE))" and ?b = "store16 (htons req)" and ?c = "store16 (htons fl)"
  have m: "?m \<le> 4" using assms(3) by (simp add: moff_transport)
  have size: "(if psz = - 1 then 68 * 1024 else ?m + 8 + nat psz) = ?m + 8 + n"
    using assms(2) m by auto
  have z: "replicate (?m + 8 + n) (0 :: u8) = replicate ?m 0 @ replicate (8 + n) 0"
    by (simp add: replicate_add)
  have "put_at (replicate (?m + 8 + n) 0) ?m ?a = Some (replicate ?m 0 @ ?a @ replicate (4 + n) 0)"
    unfolding z by (subst put_at_append) simp_all
  moreover have "put_at (replicate ?m 0 @ ?a @ replicate (4 + n) 0) (?m + 4) ?b =
      Some (replicate ?m 0 @ ?a @ ?b @ replicate (2 + n) 0)"
    using put_at_append [of "?m + 4" "replicate ?m 0 @ ?a" ?b "replicate (4 + n) 0"] by simp
  moreover have "put_at (replicate ?m 0 @ ?a @ ?b @ replicate (2 + n) 0) (?m + 6) ?c =
      Some (replicate ?m 0 @ ?a @ ?b @ ?c @ replicate n 0)"
    using put_at_append [of "?m + 6" "replicate ?m 0 @ ?a @ ?b" ?c "replicate (2 + n) 0"] by simp
  ultimately show thesis
    using ms size by (intro that [OF ms(2)]) (simp add: new_packet_def c_malloc_def Let_def header_client
      del: store32_htonl store16_htons)
qed

lemma append_1v_ok:
  assumes "off = length pre" and "4 + length k \<le> length z"
  shows "append_1v (pre @ z) off k = Some (4 + length k, pre @ be32 (length k) @ k @ drop (4 + length k) z)"
proof -
  let ?a = "be32 (length k)"
  have "put_at (pre @ z) off ?a = Some (pre @ ?a @ drop 4 z)"
    using assms by (simp add: put_at_append)
  moreover have "put_at (pre @ ?a @ drop 4 z) (off + 4) k = Some (pre @ ?a @ k @ drop (4 + length k) z)"
    using put_at_append [of "off + 4" "pre @ ?a" k "drop 4 z"] assms by (simp add: add.commute)
  ultimately show ?thesis by (simp add: append_1v_def be32_def del: store32_htonl)
qed

lemma append_2v_ok:
  assumes "off = length pre" and "8 + length k + length v \<le> length z"
  shows "append_2v (pre @ z) off k v = Some (8 + length k + length v,
    pre @ be32 (length k) @ be32 (length v) @ k @ v @ drop (8 + length k + length v) z)"
proof -
  let ?a = "be32 (length k)" and ?b = "be32 (length v)"
  have "put_at (pre @ z) off ?a = Some (pre @ ?a @ drop 4 z)"
    using assms by (simp add: put_at_append)
  moreover have "put_at (pre @ ?a @ drop 4 z) (off + 4) ?b = Some (pre @ ?a @ ?b @ drop 8 z)"
    using put_at_append [of "off + 4" "pre @ ?a" ?b "drop 4 z"] assms by simp
  moreover have "put_at (pre @ ?a @ ?b @ drop 8 z) (off + 8) k = Some (pre @ ?a @ ?b @ k @ drop (8 + length k) z)"
    using put_at_append [of "off + 8" "pre @ ?a @ ?b" k "drop 8 z"] assms by (simp add: add.commute)
  moreover have "put_at (pre @ ?a @ ?b @ k @ drop (8 + length k) z) (off + 8 + length k) v =
      Some (pre @ ?a @ ?b @ k @ v @ drop (8 + length k + length v) z)"
    using put_at_append [of "off + 8 + length k" "pre @ ?a @ ?b @ k" v "drop (8 + length k) z"] assms
    by (simp add: add.commute add.left_commute)
  ultimately show ?thesis by (simp add: append_2v_def be32_def del: store32_htonl)
qed

lemma append_3v_ok:
  assumes "off = length pre" and "12 + length k + length v + length u \<le> length z"
  shows "append_3v (pre @ z) off k v u = Some (12 + length k + length v + length u,
    pre @ be32 (length k) @ be32 (length v) @ be32 (length u) @ k @ v @ u @ drop (12 + length k + length v + length u) z)"
proof -
  let ?a = "be32 (length k)" and ?b = "be32 (length v)" and ?c = "be32 (length u)"
  have "put_at (pre @ z) off ?a = Some (pre @ ?a @ drop 4 z)"
    using assms by (simp add: put_at_append)
  moreover have "put_at (pre @ ?a @ drop 4 z) (off + 4) ?b = Some (pre @ ?a @ ?b @ drop 8 z)"
    using put_at_append [of "off + 4" "pre @ ?a" ?b "drop 4 z"] assms by simp
  moreover have "put_at (pre @ ?a @ ?b @ drop 8 z) (off + 8) ?c = Some (pre @ ?a @ ?b @ ?c @ drop 12 z)"
    using put_at_append [of "off + 8" "pre @ ?a @ ?b" ?c "drop 8 z"] assms by simp
  moreover have "put_at (pre @ ?a @ ?b @ ?c @ drop 12 z) (off + 12) k =
      Some (pre @ ?a @ ?b @ ?c @ k @ drop (12 + length k) z)"
    using put_at_append [of "off + 12" "pre @ ?a @ ?b @ ?c" k "drop 12 z"] assms by (simp add: add.commute)
  moreover have "put_at (pre @ ?a @ ?b @ ?c @ k @ drop (12 + length k) z) (off + 12 + length k) v =
      Some (pre @ ?a @ ?b @ ?c @ k @ v @ drop (12 + length k + length v) z)"
    using put_at_append [of "off + 12 + length k" "pre @ ?a @ ?b @ ?c @ k" v "drop (12 + length k) z"] assms
    by (simp add: add.commute add.left_commute)
  moreover have "put_at (pre @ ?a @ ?b @ ?c @ k @ v @ drop (12 + length k + length v) z) (off + 12 + length k + length v) u =
      Some (pre @ ?a @ ?b @ ?c @ k @ v @ u @ drop (12 + length k + length v + length u) z)"
    using put_at_append [of "off + 12 + length k + length v" "pre @ ?a @ ?b @ ?c @ k @ v" u "drop (12 + length k + length v) z"] assms
    by (simp add: add.commute add.left_commute)
  ultimately show ?thesis by (simp add: append_3v_def be32_def del: store32_htonl)
qed

section \<open>Sending a request\<close>

lemma ssend_all:
  assumes "cw_sends w = []" and "bs \<noteq> []"
  shows "ssend w fd bs 0 = (int (length bs), w\<lparr>cw_sent := cw_sent w @ [(fd, bs)]\<rparr>)"
  using assms by (subst ssend.simps) (simp add: c_send_def c_next_send_def)

lemma sendto_srv:
  assumes "cw_sends w = []" and "msg \<noteq> []"
  shows "udp_srv_send s (msg @ z) (length msg) w = Some (1, msg @ z, w\<lparr>cw_sent := cw_sent w @ [(sr_fd s, msg)]\<rparr>)"
    and "tipc_srv_send s (msg @ z) (length msg) w = Some (1, msg @ z, w\<lparr>cw_sent := cw_sent w @ [(sr_fd s, msg)]\<rparr>)"
    and "sctp_srv_send s (msg @ z) (length msg) w = Some (1, msg @ z, w\<lparr>cw_sent := cw_sent w @ [(sr_fd s, msg)]\<rparr>)"
  using assms by (simp_all add: udp_srv_send_def tipc_srv_send_def sctp_srv_send_def rd_def c_sendto_def c_next_send_def)

lemma srv_send_ok:
  assumes "srv_valid s" and "cw_sends w = []" and "msg \<noteq> []"
  shows "srv_send (Some s) (replicate (moff s) 0 @ msg @ z) (moff s + length msg) w =
    Some (1, frame (conn_transport s) msg @ z,
      w\<lparr>cw_sent := cw_sent w @ [(sr_fd s, frame (conn_transport s) msg)]\<rparr>)"
proof (cases "conn_transport s = TCP")
  case False
  with assms have m: "moff s = 0" by (simp add: moff_transport)
  from False assms(1) show ?thesis
    unfolding m using sendto_srv [OF assms(2,3), of s z]
    by (auto simp: srv_valid_def conn_transport_def srv_send_def frame_def)
next
  case True
  with assms have m: "moff s = 4" by (simp add: moff_transport)
  have ty: "sr_type s = TCP_CONN" using True assms(1) by (auto simp: srv_valid_def conn_transport_def split: if_splits)
  let ?len = "store32 (htonl (of_nat (4 + length msg)))"
  have "put_at (replicate 4 0 @ msg @ z) 0 ?len = Some (?len @ msg @ z)"
    by (simp add: put_at_def del: store32_htonl)
  moreover have "rd (?len @ msg @ z) 0 (4 + length msg) = Some (?len @ msg)" by (simp add: rd_def)
  moreover have "ssend w (sr_fd s) (?len @ msg) 0 = (4 + int (length msg), w\<lparr>cw_sent := cw_sent w @ [(sr_fd s, ?len @ msg)]\<rparr>)"
    using ssend_all [OF assms(2), of "?len @ msg" "sr_fd s"] assms(3) by simp
  ultimately show ?thesis
    unfolding m using ty True
    by (simp add: srv_send_def tcp_srv_send_def frame_def Let_def del: store32_htonl of_nat_add)
qed

section \<open>Receiving a reply\<close>

text \<open>The bytes that are on their way on a stream, in whatever pieces.\<close>

definition on_stream :: "cworld \<Rightarrow> bytes \<Rightarrow> bytes option list \<Rightarrow> bool" where
  "on_stream w bs rest \<longleftrightarrow> (\<exists>cs. cw_recvs w = map Some cs @ rest \<and> [] \<notin> set cs \<and> concat cs = bs)"

lemma on_stream_end: "on_stream w [] rest \<longleftrightarrow> cw_recvs w = rest"
proof -
  have "[] \<notin> set cs \<Longrightarrow> concat cs = [] \<Longrightarrow> cs = []" for cs :: "bytes list" by (cases cs) auto
  then show ?thesis by (auto simp: on_stream_def intro: exI [of _ "[]"])
qed

lemma recv_stream_ok:
  assumes "on_stream w bs rest" and "bs \<noteq> []" and "0 < n"
  obtains m rs where "recv_stream w n = (int m, take m bs, w\<lparr>cw_recvs := rs\<rparr>)" and "0 < m" and "m \<le> n"
    and "m \<le> length bs" and "on_stream (w\<lparr>cw_recvs := rs\<rparr>) (drop m bs) rest"
proof -
  obtain c cs where c: "cw_recvs w = Some c # map Some cs @ rest" "c \<noteq> []" "[] \<notin> set cs" "bs = c @ concat cs"
  proof -
    obtain cs where cs: "cw_recvs w = map Some cs @ rest" "[] \<notin> set cs" "concat cs = bs"
      using assms(1) by (auto simp: on_stream_def)
    with assms(2) obtain d ds where "cs = d # ds" by (cases cs) auto
    with cs show thesis by (intro that [of d ds]) auto
  qed
  show thesis
  proof (cases "length c \<le> n")
    case True
    have "on_stream (w\<lparr>cw_recvs := map Some cs @ rest\<rparr>) (concat cs) rest" using c(3) by (auto simp: on_stream_def)
    with True c show ?thesis by (intro that [of "length c" "map Some cs @ rest"]) (simp_all add: recv_stream_def)
  next
    case False
    have "on_stream (w\<lparr>cw_recvs := Some (drop n c) # map Some cs @ rest\<rparr>) (drop n c @ concat cs) rest"
      unfolding on_stream_def using False c(3) by (intro exI [of _ "drop n c # cs"]) auto
    with False c assms(3) show ?thesis
      by (intro that [of n "Some (drop n c) # map Some cs @ rest"]) (simp_all add: recv_stream_def)
  qed
qed

lemma srecv_ok:
  assumes "on_stream w bs rest" and "c \<le> count" and "count - c \<le> length bs" and "off + count \<le> length buf"
  shows "\<exists>rs. srecv w buf off count c = Some (int count,
      take (off + c) buf @ take (count - c) bs @ drop (off + count) buf, w\<lparr>cw_recvs := rs\<rparr>) \<and>
    on_stream (w\<lparr>cw_recvs := rs\<rparr>) (drop (count - c) bs) rest"
  using assms
proof (induction w buf off count c arbitrary: bs rule: srecv.induct)
  case (1 w buf off count c)
  show ?case
  proof (cases "c < count")
    case False
    with "1.prems" have "w\<lparr>cw_recvs := cw_recvs w\<rparr> = w" "count = c" by simp_all
    with "1.prems"(1) show ?thesis by (subst srecv.simps) (auto intro: exI [of _ "cw_recvs w"])
  next
    case True
    then have "bs \<noteq> []" "0 < count - c" using "1.prems"(3) by auto
    then obtain m rs where r: "recv_stream w (count - c) = (int m, take m bs, w\<lparr>cw_recvs := rs\<rparr>)" "0 < m"
      "m \<le> count - c" "m \<le> length bs" "on_stream (w\<lparr>cw_recvs := rs\<rparr>) (drop m bs) rest"
      using "1.prems"(1) by (metis recv_stream_ok)
    let ?w = "w\<lparr>cw_recvs := rs\<rparr>"
    let ?buf = "take (off + c) buf @ take m bs @ drop (off + c + m) buf"
    have pt: "put_at buf (off + c) (take m bs) = Some ?buf"
      using "1.prems"(4) r(3,4) True by (simp add: put_at_def)
    show ?thesis
    proof (cases "m = count")
      case True
      with r(3) \<open>c < count\<close> have "c = 0" "m = count" by linarith+
      with r pt \<open>c < count\<close> show ?thesis by (subst srecv.simps) auto
    next
      case False
      have "\<exists>rs'. srecv ?w ?buf off count (c + nat (int m)) = Some (int count,
          take (off + (c + nat (int m))) ?buf @ take (count - (c + nat (int m))) (drop m bs) @ drop (off + count) ?buf,
          ?w\<lparr>cw_recvs := rs'\<rparr>) \<and>
        on_stream (?w\<lparr>cw_recvs := rs'\<rparr>) (drop (count - (c + nat (int m))) (drop m bs)) rest"
        by (rule "1.IH" [OF True r(1) [symmetric] refl refl pt _ _ _ r(5)])
          (use False r "1.prems" True in auto)
      then obtain rs' where s: "srecv ?w ?buf off count (c + m) = Some (int count,
          take (off + (c + m)) ?buf @ take (count - (c + m)) (drop m bs) @ drop (off + count) ?buf, w\<lparr>cw_recvs := rs'\<rparr>)"
        "on_stream (w\<lparr>cw_recvs := rs'\<rparr>) (drop (count - (c + m)) (drop m bs)) rest" by auto
      have "take m bs @ take (count - (c + m)) (drop m bs) = take (count - c) bs"
        using r(3) by (metis add_diff_inverse_nat diff_diff_left not_less take_add)
      moreover have "count - (c + m) + m = count - c" using r(3) by linarith
      then have "drop (count - (c + m)) (drop m bs) = drop (count - c) bs" by simp
      moreover have "take (off + (c + m)) ?buf = take (off + c) buf @ take m bs"
        using r(3,4) "1.prems"(4) True by simp
      moreover have "drop (off + count) ?buf = drop (off + count) buf"
        using r(3,4) "1.prems"(4) True by (simp add: add.commute)
      ultimately have "srecv ?w ?buf off count (c + m) = Some (int count,
          take (off + c) buf @ take (count - c) bs @ drop (off + count) buf, w\<lparr>cw_recvs := rs'\<rparr>)"
        "on_stream (w\<lparr>cw_recvs := rs'\<rparr>) (drop (count - c) bs) rest"
        using s by (simp_all only: append_assoc [symmetric]) (simp_all only: append_assoc)
      with True False r pt show ?thesis by (subst srecv.simps) (auto simp: Let_def)
    qed
  qed
qed

lemma load_be32_front:
  assumes "take 4 b = be32 n"
  shows "load32 b 0 = Some (htonl (of_nat n))"
proof -
  have "b = store32 (htonl (of_nat n)) @ drop 4 b"
    using assms append_take_drop_id [of 4 b] unfolding be32_def by metis
  then show ?thesis by (metis load32_front)
qed

lemma recv_rest_ok:
  assumes "take 4 f = be32 (length f)" and "4 \<le> rv" and "rv \<le> length f" and "length f \<le> length buf"
    and "length f < 2 ^ 32" and "on_stream w (drop rv f) rest"
  shows "recv_rest w (take rv f @ drop rv buf) (length buf) rv =
    Some (int (length f), f @ drop (length f) buf, w\<lparr>cw_recvs := rest\<rparr>)"
proof -
  let ?b = "take rv f @ drop rv buf" and ?n = "length f"
  have "take 4 ?b = be32 ?n" using assms(1-3) by simp
  then have ld: "load32 ?b 0 = Some (htonl (of_nat ?n))" by (rule load_be32_front)
  have n: "unat (of_nat ?n :: u32) = ?n" using assms(5) by (rule unat_of_nat_u32)
  show ?thesis
  proof (cases "rv < ?n")
    case False
    then have rv: "rv = ?n" using assms(3) by simp
    then have "rest = cw_recvs w" using assms(6) by (simp add: on_stream_end)
    then have "w\<lparr>cw_recvs := rest\<rparr> = w" by simp
    with rv ld n assms(4) show ?thesis by (simp add: recv_rest_def)
  next
    case True
    obtain rs where "srecv w ?b rv (?n - rv) 0 = Some (int (?n - rv),
        take (rv + 0) ?b @ take (?n - rv - 0) (drop rv f) @ drop (rv + (?n - rv)) ?b, w\<lparr>cw_recvs := rs\<rparr>)"
      "on_stream (w\<lparr>cw_recvs := rs\<rparr>) [] rest"
      using srecv_ok [OF assms(6), of 0 "?n - rv" rv ?b] assms(3,4) by auto
    then have s: "srecv w ?b rv (?n - rv) 0 = Some (int (?n - rv),
        take (rv + 0) ?b @ take (?n - rv - 0) (drop rv f) @ drop (rv + (?n - rv)) ?b, w\<lparr>cw_recvs := rest\<rparr>)"
      by (simp add: on_stream_end)
    have "take (rv + 0) ?b @ take (?n - rv - 0) (drop rv f) @ drop (rv + (?n - rv)) ?b = f @ drop ?n buf"
      using assms(3,4) by simp
    with s ld n True assms(4) show ?thesis by (auto simp: recv_rest_def)
  qed
qed

lemma recv_msg_ok:
  assumes "take 4 f = be32 (length f)" and "4 \<le> length f" and "length f \<le> length buf"
    and "length f < 2 ^ 32" and "on_stream w f rest"
  shows "recv_msg w buf (length buf) = Some (int (length f), f @ drop (length f) buf, w\<lparr>cw_recvs := rest\<rparr>)"
proof -
  have "f \<noteq> []" "0 < length buf" using assms(2,3) by auto
  then obtain m rs where r: "recv_stream w (length buf) = (int m, take m f, w\<lparr>cw_recvs := rs\<rparr>)" "0 < m"
    "m \<le> length buf" "m \<le> length f" "on_stream (w\<lparr>cw_recvs := rs\<rparr>) (drop m f) rest"
    using assms(5) by (metis recv_stream_ok)
  let ?w = "w\<lparr>cw_recvs := rs\<rparr>" and ?b = "take m f @ drop m buf"
  have pt: "put_at buf 0 (take m f) = Some ?b" using r(3,4) by (simp add: put_at_def)
  show ?thesis
  proof (cases "m < 4")
    case False
    then have "recv_rest ?w ?b (length buf) m = Some (int (length f), f @ drop (length f) buf, ?w\<lparr>cw_recvs := rest\<rparr>)"
      using recv_rest_ok [OF assms(1) _ r(4) assms(3,4) r(5)] by auto
    with False r pt show ?thesis by (auto simp: recv_msg_def)
  next
    case True
    then have "4 - m - 0 \<le> length f - m" using assms(2) by linarith
    then have pre: "0 \<le> 4 - m" "4 - m - 0 \<le> length (drop m f)" "m + (4 - m) \<le> length ?b"
      using assms(2,3) r(3,4) True by simp_all
    obtain rs2 where s: "srecv ?w ?b m (4 - m) 0 = Some (int (4 - m),
        take (m + 0) ?b @ take (4 - m - 0) (drop m f) @ drop (m + (4 - m)) ?b, ?w\<lparr>cw_recvs := rs2\<rparr>)"
      "on_stream (?w\<lparr>cw_recvs := rs2\<rparr>) (drop (4 - m - 0) (drop m f)) rest"
      using srecv_ok [OF r(5) pre] by auto
    have "take m f @ take (4 - m) (drop m f) = take 4 f"
      using True take_add [of m "4 - m" f] by simp
    then have b: "take (m + 0) ?b @ take (4 - m - 0) (drop m f) @ drop (m + (4 - m)) ?b = take 4 f @ drop 4 buf"
      using r(3,4) True assms(2,3) by simp
    have st: "on_stream (w\<lparr>cw_recvs := rs2\<rparr>) (drop 4 f) rest" using s(2) True by simp
    have "recv_rest (w\<lparr>cw_recvs := rs2\<rparr>) (take 4 f @ drop 4 buf) (length buf) 4 =
        Some (int (length f), f @ drop (length f) buf, w\<lparr>cw_recvs := rs2\<rparr>\<lparr>cw_recvs := rest\<rparr>)"
      using recv_rest_ok [OF assms(1) _ assms(2,3,4) st] by auto
    with True r(1,2) pt s(1) show ?thesis unfolding b by (auto simp: recv_msg_def)
  qed
qed

text \<open>A reply with a given code and payload, and that it is what arrives next.\<close>

definition reply_msg :: "u32 \<Rightarrow> bytes \<Rightarrow> bytes" where
  "reply_msg code pl = store32 (htonl ID_CODE) @ store32 (htonl code) @ pl"

definition arrives :: "cworld \<Rightarrow> transport \<Rightarrow> bytes \<Rightarrow> bytes option list \<Rightarrow> bool" where
  "arrives w t r rest \<longleftrightarrow> (if t = TCP then on_stream w (frame TCP r) rest else cw_recvs w = Some r # rest)"

lemma arrives_frame [simp]:
  "arrives (w\<lparr>cw_ms := ms\<rparr>) t r rest = arrives w t r rest" "arrives (w\<lparr>cw_sent := x\<rparr>) t r rest = arrives w t r rest"
  by (simp_all add: arrives_def on_stream_def)

lemma length_reply_msg [simp]: "length (reply_msg code pl) = 8 + length pl"
  by (simp add: reply_msg_def)

lemma reply_msg_loads:
  assumes "length pre = off"
  shows "load32 (pre @ reply_msg code pl @ z) off = Some (htonl ID_CODE)"
    and "load32 (pre @ reply_msg code pl @ z) (off + 4) = Some (htonl code)"
  using load32_store32 [of off pre "htonl ID_CODE"] assms
    load32_store32 [of "off + 4" "pre @ store32 (htonl ID_CODE)" "htonl code" "pl @ z"]
  by (simp_all add: reply_msg_def del: store32_htonl)

lemma dgram_get_rep_ok:
  assumes "cw_recvs w = Some (reply_msg code pl) # rs" and "8 + length pl \<le> length buf"
  defines "res \<equiv> Some (code, Some (8, of_nat (length pl)), reply_msg code pl @ drop (8 + length pl) buf, w\<lparr>cw_recvs := rs\<rparr>)"
  shows "udp_get_rep s buf (length buf) w = res" and "tipc_get_rep s buf (length buf) w = res"
    and "sctp_get_rep s buf (length buf) w = res"
proof -
  have r: "recv_dgram w (length buf) = (int (8 + length pl), reply_msg code pl, w\<lparr>cw_recvs := rs\<rparr>)"
    using assms(1,2) by (simp add: recv_dgram_def)
  have pt: "put_at buf 0 (reply_msg code pl) = Some (reply_msg code pl @ drop (8 + length pl) buf)"
    using assms(2) by (simp add: put_at_front)
  note ld = reply_msg_loads [of "[]" 0 code pl, simplified]
  have p: "(of_int (int (8 + length pl) - 4 - 4) :: u64) = of_nat (length pl)" by simp
  show "udp_get_rep s buf (length buf) w = res" "tipc_get_rep s buf (length buf) w = res" "sctp_get_rep s buf (length buf) w = res"
    using r pt ld p unfolding res_def
    by (simp_all add: udp_get_rep_def tipc_get_rep_def sctp_get_rep_def)
qed

lemma tcp_get_rep_ok:
  assumes "on_stream w (frame TCP (reply_msg code pl)) rest" and "12 + length pl \<le> length buf" and "12 + length pl < 2 ^ 32"
  shows "tcp_get_rep s buf (length buf) w =
    Some (code, Some (12, of_nat (length pl)), frame TCP (reply_msg code pl) @ drop (12 + length pl) buf, w\<lparr>cw_recvs := rest\<rparr>)"
proof -
  let ?f = "frame TCP (reply_msg code pl)"
  have f: "?f = be32 (12 + length pl) @ reply_msg code pl" by (simp add: frame_def be32_def del: store32_htonl)
  then have len: "length ?f = 12 + length pl" by simp
  have "take 4 ?f = be32 (length ?f)" unfolding len unfolding f by simp
  then have r: "recv_msg w buf (length buf) = Some (int (12 + length pl), ?f @ drop (12 + length pl) buf, w\<lparr>cw_recvs := rest\<rparr>)"
    using recv_msg_ok [of ?f buf w rest] assms len by auto
  have ld: "load32 (?f @ z) 4 = Some (htonl ID_CODE)" "load32 (?f @ z) 8 = Some (htonl code)" for z
    using reply_msg_loads [of "be32 (12 + length pl)" 4 code pl z] by (simp_all add: f)
  have p: "(of_int (int (12 + length pl) - 4 - 4 - 4) :: u64) = of_nat (length pl)" by simp
  show ?thesis using r ld p by (simp add: tcp_get_rep_def)
qed

lemma get_rep_ok:
  assumes "srv_valid s" and "arrives w (conn_transport s) (reply_msg code pl) rest"
    and "moff s + 8 + length pl \<le> length buf" and "12 + length pl < 2 ^ 32"
  shows "get_rep (Some s) buf (length buf) w = Some (code, Some (moff s + 8, of_nat (length pl)),
    frame (conn_transport s) (reply_msg code pl) @ drop (moff s + 8 + length pl) buf, w\<lparr>cw_recvs := rest\<rparr>)"
proof (cases "conn_transport s = TCP")
  case False
  with assms have m: "moff s = 0" by (simp add: moff_transport)
  have rs: "cw_recvs w = Some (reply_msg code pl) # rest" using assms(2) False by (simp add: arrives_def)
  have l: "8 + length pl \<le> length buf" using assms(3) m by simp
  from False assms(1) show ?thesis
    unfolding m using dgram_get_rep_ok [OF rs l, of s]
    by (auto simp: srv_valid_def conn_transport_def get_rep_def frame_def)
next
  case True
  with assms have m: "moff s = 4" by (simp add: moff_transport)
  have ty: "sr_type s = TCP_CONN" using True assms(1) by (auto simp: srv_valid_def conn_transport_def split: if_splits)
  have st: "on_stream w (frame TCP (reply_msg code pl)) rest" using assms(2) True by (simp add: arrives_def)
  have l: "12 + length pl \<le> length buf" using assms(3) m by simp
  show ?thesis
    unfolding m True using tcp_get_rep_ok [OF st l assms(4), of s] ty by (simp add: get_rep_def)
qed

section \<open>Requests and their replies\<close>

lemma length_frame: "srv_valid s \<Longrightarrow> length (frame (conn_transport s) b) = moff s + length b"
  by (simp add: moff_transport frame_def)

text \<open>
  What a call did: its message is sent, its reply has been received, with what comes after it left.
\<close>

definition did :: "cworld \<Rightarrow> cworld \<Rightarrow> nmdb_srv \<Rightarrow> bytes \<Rightarrow> bytes option list \<Rightarrow> bool" where
  "did w w' s msg rest \<longleftrightarrow> cw_sent w' = cw_sent w @ [(sr_fd s, frame (conn_transport s) msg)] \<and>
     cw_sends w' = [] \<and> good (cw_ms w') \<and> cw_recvs w' = rest"

lemma did_sent: "did w w' s msg rest \<Longrightarrow> cw_sent w' = cw_sent w @ [(sr_fd s, frame (conn_transport s) msg)]"
  by (simp add: did_def)

lemma did_malloc [simp]: "did (w\<lparr>cw_ms := ms\<rparr>) w' s msg rest = did w w' s msg rest"
  by (simp add: did_def)

lemma exchange:
  assumes "srv_valid s" and "good (cw_ms w)" and "cw_sends w = []" and "msg \<noteq> []"
    and "arrives w (conn_transport s) (reply_msg code pl) rest"
    and "8 + length pl \<le> length msg + length z" and "12 + length pl < 2 ^ 32"
  obtains w1 w2 where "srv_send (Some s) (replicate (moff s) 0 @ msg @ z) (moff s + length msg) w =
      Some (1, frame (conn_transport s) msg @ z, w1)"
    and "get_rep (Some s) (frame (conn_transport s) msg @ z) (moff s + length msg + length z) w1 =
      Some (code, Some (moff s + 8, of_nat (length pl)), frame (conn_transport s) (reply_msg code pl) @
        drop (moff s + 8 + length pl) (frame (conn_transport s) msg @ z), w2)"
    and "did w w2 s msg rest"
proof -
  let ?w1 = "w\<lparr>cw_sent := cw_sent w @ [(sr_fd s, frame (conn_transport s) msg)]\<rparr>"
  let ?b = "frame (conn_transport s) msg @ z"
  have b: "length ?b = moff s + length msg + length z" using assms(1) by (simp add: length_frame)
  have "arrives ?w1 (conn_transport s) (reply_msg code pl) rest" using assms(5) by simp
  then have "get_rep (Some s) ?b (length ?b) ?w1 = Some (code, Some (moff s + 8, of_nat (length pl)),
    frame (conn_transport s) (reply_msg code pl) @ drop (moff s + 8 + length pl) ?b, ?w1\<lparr>cw_recvs := rest\<rparr>)"
    using get_rep_ok [OF assms(1), of ?w1 code pl rest ?b] assms(6,7) b by simp
  note g = this [unfolded b]
  show thesis by (rule that [OF srv_send_ok [OF assms(1,3,4)] g]) (use assms(2,3) in \<open>simp add: did_def\<close>)
qed

text \<open>The circumstances of a call: a server is chosen, memory lasts, sends succeed, a reply arrives.\<close>

definition ready :: "nmdb_srv \<Rightarrow> cworld \<Rightarrow> u32 \<Rightarrow> bytes \<Rightarrow> bytes option list \<Rightarrow> bool" where
  "ready s w code pl rest \<longleftrightarrow> srv_valid s \<and> good (cw_ms w) \<and> cw_sends w = [] \<and>
     arrives w (conn_transport s) (reply_msg code pl) rest"

definition calling :: "nmdb_conn \<Rightarrow> bytes \<Rightarrow> nmdb_srv \<Rightarrow> cworld \<Rightarrow> u32 \<Rightarrow> bytes \<Rightarrow> bytes option list \<Rightarrow> bool" where
  "calling db k s w code pl rest \<longleftrightarrow> select_srv db k = Some (Some s) \<and> ready s w code pl rest"

lemma callingD:
  assumes "calling db k s w code pl rest"
  shows "select_srv db k = Some (Some s)" and "ready s w code pl rest"
  using assms by (simp_all add: calling_def)

text \<open>
  One call's packet, request and reply: \<open>n\<close> bytes are left for the payload \<open>p\<close>, of which the
  last \<open>length z\<close> are not used by the request.
\<close>

lemma round_trip:
  assumes "ready s w code pl rest" and "psz = int n \<or> psz = - 1 \<and> n = 68 * 1024 - moff s - 8"
    and "length p + length z = n" and "length pl \<le> n" and "n < 2 ^ 20"
  obtains w0 w1 w2 where "new_packet (Some s) req fl psz w =
      Some (Some (replicate (moff s) 0 @ header 1 req fl @ replicate n 0), moff s + 8 + n, moff s + 8, w0)"
    and "srv_send (Some s) (replicate (moff s) 0 @ header 1 req fl @ p @ z) (moff s + 8 + length p) w0 =
      Some (1, frame (conn_transport s) (header 1 req fl @ p) @ z, w1)"
    and "get_rep (Some s) (frame (conn_transport s) (header 1 req fl @ p) @ z) (moff s + 8 + n) w1 =
      Some (code, Some (moff s + 8, of_nat (length pl)), frame (conn_transport s) (reply_msg code pl) @
        drop (length pl) (p @ z), w2)"
    and "did w w2 s (header 1 req fl @ p) rest"
proof -
  note c = assms(1) [unfolded ready_def]
  let ?msg = "header 1 req fl @ p"
  obtain ms where ms: "good ms" and np: "new_packet (Some s) req fl psz w =
    Some (Some (replicate (moff s) 0 @ header 1 req fl @ replicate n 0), moff s + 8 + n, moff s + 8, w\<lparr>cw_ms := ms\<rparr>)"
    by (rule new_packet_ok [of w psz n s req fl]) (use c assms(2) in auto)
  have ne: "?msg \<noteq> []" using length_header [of 1 req fl] by (metis append_is_Nil_conv list.size(3) zero_neq_numeral)
  obtain w1 w2 where e: "srv_send (Some s) (replicate (moff s) 0 @ ?msg @ z) (moff s + length ?msg) (w\<lparr>cw_ms := ms\<rparr>) =
      Some (1, frame (conn_transport s) ?msg @ z, w1)"
    "get_rep (Some s) (frame (conn_transport s) ?msg @ z) (moff s + length ?msg + length z) w1 =
      Some (code, Some (moff s + 8, of_nat (length pl)), frame (conn_transport s) (reply_msg code pl) @
        drop (moff s + 8 + length pl) (frame (conn_transport s) ?msg @ z), w2)"
    "did (w\<lparr>cw_ms := ms\<rparr>) w2 s ?msg rest"
    by (rule exchange [of s "w\<lparr>cw_ms := ms\<rparr>" ?msg code pl rest z]) (use c ne assms(3-5) ms in auto)
  have "drop (moff s + 8 + length pl) (frame (conn_transport s) ?msg @ z) = drop (length pl) (p @ z)"
    using c by (simp add: moff_transport frame_def)
  with np e assms(3) show thesis by (intro that) (simp_all add: add.assoc)
qed

lemma do_del_ok:
  assumes "calling db k s w code pl rest" and "length pl \<le> 4" and "length k < 2 ^ 16"
  obtains w' where "do_del db k flags w = Some (if code = REP_OK then 1 else if code = REP_NOTIN then 0 else - 1, w')"
    and "did w w' s (header 1 REQ_DEL (flags AND (FLAGS_CACHE_ONLY OR FLAGS_SYNC)) @ be32 (length k) @ k) rest"
proof -
  note c = callingD [OF assms(1)]
  let ?fl = "flags AND (FLAGS_CACHE_ONLY OR FLAGS_SYNC)" and ?n = "4 + length k"
  have ap: "append_1v (replicate (moff s) 0 @ header 1 REQ_DEL ?fl @ replicate ?n 0) (moff s + 8) k =
      Some (?n, replicate (moff s) 0 @ header 1 REQ_DEL ?fl @ be32 (length k) @ k)"
    using append_1v_ok [of "moff s + 8" "replicate (moff s) 0 @ header 1 REQ_DEL ?fl" k "replicate ?n 0"] by simp
  show thesis
    by (rule round_trip [OF c(2), of "4 + int (length k)" ?n "be32 (length k) @ k" "[]" REQ_DEL ?fl])
      (use assms(2,3) c(1) ap in \<open>auto intro!: that simp: do_del_def Let_def add.assoc\<close>)
qed

lemma do_set_ok:
  assumes "calling db k s w code pl rest" and "length pl \<le> 8" and "length k + length v \<le> 2 ^ 16"
  obtains w' where "do_set db k v flags w = Some (if code = REP_OK then 1 else - 1, w')"
    and "did w w' s (header 1 REQ_SET (flags AND (FLAGS_CACHE_ONLY OR FLAGS_SYNC)) @ be32 (length k) @ be32 (length v) @ k @ v) rest"
proof -
  note c = callingD [OF assms(1)]
  let ?fl = "flags AND (FLAGS_CACHE_ONLY OR FLAGS_SYNC)" and ?n = "8 + length k + length v"
  have ap: "append_2v (replicate (moff s) 0 @ header 1 REQ_SET ?fl @ replicate ?n 0) (moff s + 8) k v =
      Some (?n, replicate (moff s) 0 @ header 1 REQ_SET ?fl @ be32 (length k) @ be32 (length v) @ k @ v)"
    using append_2v_ok [of "moff s + 8" "replicate (moff s) 0 @ header 1 REQ_SET ?fl" k v "replicate ?n 0"] by simp
  show thesis
    by (rule round_trip [OF c(2), of "4 * 2 + int (length k) + int (length v)" ?n
          "be32 (length k) @ be32 (length v) @ k @ v" "[]" REQ_SET ?fl])
      (use assms(2,3) c(1) ap in \<open>auto intro!: that simp: do_set_def Let_def add.assoc\<close>)
qed

lemma do_cas_ok:
  assumes "calling db k s w code pl rest" and "length pl \<le> 12" and "length k + length ov + length nv \<le> 2 ^ 16"
  obtains w' where "do_cas db k ov nv flags w = Some (if code = REP_OK then 2 else if code = REP_NOMATCH then 1
      else if code = REP_NOTIN then 0 else - 1, w')"
    and "did w w' s (header 1 REQ_CAS (flags AND FLAGS_CACHE_ONLY) @
      be32 (length k) @ be32 (length ov) @ be32 (length nv) @ k @ ov @ nv) rest"
proof -
  note c = callingD [OF assms(1)]
  let ?fl = "flags AND FLAGS_CACHE_ONLY" and ?n = "12 + length k + length ov + length nv"
  let ?p = "be32 (length k) @ be32 (length ov) @ be32 (length nv) @ k @ ov @ nv"
  have ap: "append_3v (replicate (moff s) 0 @ header 1 REQ_CAS ?fl @ replicate ?n 0) (moff s + 8) k ov nv =
      Some (?n, replicate (moff s) 0 @ header 1 REQ_CAS ?fl @ ?p)"
    using append_3v_ok [of "moff s + 8" "replicate (moff s) 0 @ header 1 REQ_CAS ?fl" k ov nv "replicate ?n 0"] by simp
  show thesis
    by (rule round_trip [OF c(2), of "4 * 3 + int (length k) + int (length ov) + int (length nv)" ?n ?p "[]" REQ_CAS ?fl])
      (use assms(2,3) c(1) ap in \<open>auto intro!: that simp: do_cas_def Let_def add.assoc\<close>)
qed

lemma payload_rd:
  assumes "srv_valid s" and "i + n \<le> length pl"
  shows "rd (frame (conn_transport s) (reply_msg code pl) @ z) (moff s + 8 + i) n = Some (take n (drop i pl))"
proof -
  have "drop (moff s + 8 + i) (frame (conn_transport s) (reply_msg code pl)) = drop i pl"
    using assms(1) by (simp add: moff_transport frame_def reply_msg_def)
  moreover have "moff s + 8 + i + n \<le> length (frame (conn_transport s) (reply_msg code pl))"
    using assms by (simp add: length_frame)
  ultimately show ?thesis using assms(2) by (simp add: rd_def)
qed

lemma do_incr_ok:
  assumes "calling db k s w code pl rest" and "length pl \<le> 12" and "length k < 2 ^ 16"
  obtains w' where "do_incr db k i want flags w = Some (if code = REP_OK then 2 else if code = REP_NOMATCH then 1
      else if code = REP_NOTIN then 0 else - 1,
      if code = REP_OK \<and> want \<and> length pl = 12 then Some (ntohll (le_word (drop 4 pl))) else None, w')"
    and "did w w' s (header 1 REQ_INCR (flags AND FLAGS_CACHE_ONLY) @
      be32 (length k) @ k @ store64 (htonll i)) rest"
proof -
  note c = callingD [OF assms(1)]
  have v: "srv_valid s" using c(2) by (simp add: ready_def)
  let ?fl = "flags AND FLAGS_CACHE_ONLY" and ?n = "12 + length k"
  let ?h = "replicate (moff s) 0 @ header 1 REQ_INCR ?fl" and ?p = "be32 (length k) @ k @ store64 (htonll i)"
  have ap: "append_1v (?h @ replicate ?n 0) (moff s + 8) k = Some (4 + length k, ?h @ be32 (length k) @ k @ replicate 8 0)"
    using append_1v_ok [of "moff s + 8" ?h k "replicate ?n 0"] by simp
  have pt: "put_at (?h @ be32 (length k) @ k @ replicate 8 0) (moff s + (8 + (4 + length k))) (store64 (htonll i)) = Some (?h @ ?p)"
    using put_at_append [of "moff s + (8 + (4 + length k))" "?h @ be32 (length k) @ k" "store64 (htonll i)" "replicate 8 0"]
    by (simp del: store64_htonll)
  have ps: "(of_nat (length pl) :: u64) = 12 \<longleftrightarrow> length pl = 12"
    using of_nat_u64_eq_iff [of "length pl" 12] assms(2) by simp
  have ld: "load64 (frame (conn_transport s) (reply_msg x pl) @ z) (moff s + (8 + 4)) = Some (le_word (drop 4 pl))"
    if "length pl = 12" for x z
    using payload_rd [OF v, of 4 8 pl x z] that by (simp add: load64_def add.assoc)
  obtain w0 w1 w2 where rt: "new_packet (Some s) REQ_INCR ?fl (4 + int (length k) + 8) w =
      Some (Some (replicate (moff s) 0 @ header 1 REQ_INCR ?fl @ replicate ?n 0), moff s + 8 + ?n, moff s + 8, w0)"
    "srv_send (Some s) (replicate (moff s) 0 @ header 1 REQ_INCR ?fl @ ?p @ []) (moff s + 8 + length ?p) w0 =
      Some (1, frame (conn_transport s) (header 1 REQ_INCR ?fl @ ?p) @ [], w1)"
    "get_rep (Some s) (frame (conn_transport s) (header 1 REQ_INCR ?fl @ ?p) @ []) (moff s + 8 + ?n) w1 =
      Some (code, Some (moff s + 8, of_nat (length pl)), frame (conn_transport s) (reply_msg code pl) @
        drop (length pl) (?p @ []), w2)"
    "did w w2 s (header 1 REQ_INCR ?fl @ ?p) rest"
    by (rule round_trip [OF c(2), of "4 + int (length k) + 8" ?n ?p "[]" REQ_INCR ?fl]) (use assms(2,3) in auto)
  have "do_incr db k i want flags w = Some (if code = REP_OK then 2 else if code = REP_NOMATCH then 1
      else if code = REP_NOTIN then 0 else - 1,
      if code = REP_OK \<and> want \<and> length pl = 12 then Some (ntohll (le_word (drop 4 pl))) else None, w2)"
    using c(1) ap pt rt(1-3) ld ps by (simp add: do_incr_def Let_def add.assoc del: store64_htonll)
  then show thesis using rt(4) by (rule that)
qed

lemma copy_value_ok:
  assumes "srv_valid s" and "length v \<le> 2 ^ 16"
  shows "copy_value (frame (conn_transport s) (reply_msg code (be32 (length v) @ v)) @ z) (moff s + 8)
      (of_nat (length (be32 (length v) @ v))) val =
    Some (if length v \<le> length val then (int (length v), v @ drop (length v) val) else (- 2, val))"
proof -
  let ?b = "frame (conn_transport s) (reply_msg code (be32 (length v) @ v)) @ z"
  have "rd ?b (moff s + 8) 4 = Some (be32 (length v))"
    using payload_rd [OF assms(1), of 0 4 "be32 (length v) @ v" code z] by simp
  then have ld: "load32 ?b (moff s + 8) = Some (htonl (of_nat (length v)))"
    by (simp add: load32_def be32_def del: store32_htonl)
  have rdv: "rd ?b (moff s + 8 + 4) (length v) = Some v"
    using payload_rd [OF assms(1), of 4 "length v" "be32 (length v) @ v" code z] by simp
  have u: "unat (of_nat (length v) :: u32) = length v" using assms(2) by (simp add: unat_of_nat_u32)
  have "\<not> (ucast (of_nat (length v) :: u32) :: u64) > of_nat (length (be32 (length v) @ v)) - 4"
    using assms(2) by (simp add: word_less_nat_alt unat_ucast_u32_u64 u unat_of_nat_u64)
  moreover have "uint (of_nat (length v) :: u32) = int (length v)" by (metis u uint_nat)
  ultimately show ?thesis using ld rdv u by (auto simp: copy_value_def put_at_front)
qed

text \<open>The value a get or a key request hands to its caller.\<close>

definition fits_into :: "bytes \<Rightarrow> bytes \<Rightarrow> int \<times> bytes" where
  "fits_into v val = (if length v \<le> length val then (int (length v), v @ drop (length v) val) else (- 2, val))"

lemma big_request:
  assumes "ready s w code pl rest" and "length k \<le> 2 ^ 16" and "length pl \<le> 2 ^ 16 + 4"
  obtains w0 w1 w2 z where "new_packet (Some s) req fl (- 1) w =
      Some (Some (replicate (moff s) 0 @ header 1 req fl @ replicate (68 * 1024 - moff s - 8) 0), 68 * 1024, moff s + 8, w0)"
    and "append_1v (replicate (moff s) 0 @ header 1 req fl @ replicate (68 * 1024 - moff s - 8) 0) (moff s + 8) k =
      Some (4 + length k, replicate (moff s) 0 @ header 1 req fl @ be32 (length k) @ k @ z)"
    and "srv_send (Some s) (replicate (moff s) 0 @ header 1 req fl @ be32 (length k) @ k @ z) (moff s + (8 + (4 + length k))) w0 =
      Some (1, frame (conn_transport s) (header 1 req fl @ be32 (length k) @ k) @ z, w1)"
    and "get_rep (Some s) (frame (conn_transport s) (header 1 req fl @ be32 (length k) @ k) @ z) (68 * 1024) w1 =
      Some (code, Some (moff s + 8, of_nat (length pl)), frame (conn_transport s) (reply_msg code pl) @
        drop (length pl) (be32 (length k) @ k @ z), w2)"
    and "did w w2 s (header 1 req fl @ be32 (length k) @ k) rest"
proof -
  have v: "srv_valid s" using assms(1) by (simp add: ready_def)
  let ?n = "68 * 1024 - moff s - 8"
  have m: "moff s \<le> 4" using v by (simp add: moff_transport)
  let ?z = "replicate (?n - (4 + length k)) (0 :: u8)"
  have ap: "append_1v (replicate (moff s) 0 @ header 1 req fl @ replicate ?n 0) (moff s + 8) k =
      Some (4 + length k, replicate (moff s) 0 @ header 1 req fl @ be32 (length k) @ k @ ?z)"
    using append_1v_ok [of "moff s + 8" "replicate (moff s) 0 @ header 1 req fl" k "replicate ?n 0"] m assms(2) by simp
  have n: "length (be32 (length k) @ k) + length ?z = ?n" "length pl \<le> ?n" "?n < 2 ^ 20" "moff s + 8 + ?n = 68 * 1024"
    using m assms(2,3) by simp_all
  obtain w0 w1 w2 where rt: "new_packet (Some s) req fl (- 1) w =
      Some (Some (replicate (moff s) 0 @ header 1 req fl @ replicate ?n 0), moff s + 8 + ?n, moff s + 8, w0)"
    "srv_send (Some s) (replicate (moff s) 0 @ header 1 req fl @ (be32 (length k) @ k) @ ?z) (moff s + 8 + length (be32 (length k) @ k)) w0 =
      Some (1, frame (conn_transport s) (header 1 req fl @ be32 (length k) @ k) @ ?z, w1)"
    "get_rep (Some s) (frame (conn_transport s) (header 1 req fl @ be32 (length k) @ k) @ ?z) (moff s + 8 + ?n) w1 =
      Some (code, Some (moff s + 8, of_nat (length pl)), frame (conn_transport s) (reply_msg code pl) @
        drop (length pl) ((be32 (length k) @ k) @ ?z), w2)"
    "did w w2 s (header 1 req fl @ be32 (length k) @ k) rest"
    by (rule round_trip [OF assms(1) _ n(1-3), of "- 1" req fl]) auto
  have l: "moff s + 8 + length (be32 (length k) @ k) = moff s + (8 + (4 + length k))" by simp
  show thesis
    using rt(1) ap rt(2,3) rt(4) unfolding n(4) l append_assoc by (rule that)
qed

lemma do_get_value:
  assumes "calling db k s w code (be32 (length v) @ v) rest" and "length v \<le> 2 ^ 16" and "length k \<le> 2 ^ 16"
    and "code = REP_OK \<or> code = REP_CACHE_HIT"
  obtains w' where "do_get db k val flags w = Some (fst (fits_into v val), snd (fits_into v val), w')"
    and "did w w' s (header 1 REQ_GET (flags AND FLAGS_CACHE_ONLY) @ be32 (length k) @ k) rest"
proof -
  note c = callingD [OF assms(1)]
  have sv: "srv_valid s" using c(2) by (simp add: ready_def)
  have lv: "length (be32 (length v) @ v) \<le> 2 ^ 16 + 4" using assms(2) by simp
  note cv = copy_value_ok [OF sv assms(2)]
  show thesis
    by (rule big_request [OF c(2) assms(3) lv, of REQ_GET "flags AND FLAGS_CACHE_ONLY"])
      (use c(1) assms(4) in \<open>auto intro!: that simp: do_get_def Let_def fits_into_def add.assoc cv [simplified]\<close>)
qed

lemma do_get_other:
  assumes "calling db k s w code pl rest" and "length pl \<le> 2 ^ 16" and "length k \<le> 2 ^ 16"
    and "code \<noteq> REP_OK" and "code \<noteq> REP_CACHE_HIT"
  obtains w' where "do_get db k val flags w =
      Some (if code = REP_CACHE_MISS \<or> code = REP_NOTIN then - 1 else - 2, val, w')"
    and "did w w' s (header 1 REQ_GET (flags AND FLAGS_CACHE_ONLY) @ be32 (length k) @ k) rest"
proof -
  note c = callingD [OF assms(1)]
  have lp: "length pl \<le> 2 ^ 16 + 4" using assms(2) by simp
  show thesis
    by (rule big_request [OF c(2) assms(3) lp, of REQ_GET "flags AND FLAGS_CACHE_ONLY"])
      (use c(1) assms(4,5) in \<open>auto intro!: that simp: do_get_def Let_def add.assoc\<close>)
qed

text \<open>One server is needed to iterate over its keys.\<close>

definition only_server :: "nmdb_conn \<Rightarrow> nmdb_srv \<Rightarrow> bool" where
  "only_server db s \<longleftrightarrow> nc_nservers db = 1 \<and> nc_servers db = [s]"

lemma nmdb_nextkey_value:
  assumes "only_server db s" and "ready s w REP_OK (be32 (length v) @ v) rest" and "length v \<le> 2 ^ 16" and "length k \<le> 2 ^ 16"
  obtains w' where "nmdb_nextkey db k val w = Some (fst (fits_into v val), snd (fits_into v val), w')"
    and "did w w' s (header 1 REQ_NEXTKEY 0 @ be32 (length k) @ k) rest"
proof -
  have sv: "srv_valid s" using assms(2) by (simp add: ready_def)
  have lv: "length (be32 (length v) @ v) \<le> 2 ^ 16 + 4" using assms(3) by simp
  note cv = copy_value_ok [OF sv assms(3)]
  show thesis
    by (rule big_request [OF assms(2,4) lv, of REQ_NEXTKEY 0])
      (use assms(1) in \<open>auto intro!: that simp: only_server_def nmdb_nextkey_def Let_def fits_into_def add.assoc cv [simplified]\<close>)
qed

lemma nmdb_nextkey_end:
  assumes "only_server db s" and "ready s w code pl rest" and "length pl \<le> 2 ^ 16" and "length k \<le> 2 ^ 16" and "code \<noteq> REP_OK"
  obtains w' where "nmdb_nextkey db k val w = Some (if code = REP_NOTIN then - 1 else - 2, val, w')"
    and "did w w' s (header 1 REQ_NEXTKEY 0 @ be32 (length k) @ k) rest"
proof -
  have lp: "length pl \<le> 2 ^ 16 + 4" using assms(3) by simp
  show thesis
    by (rule big_request [OF assms(2,4) lp, of REQ_NEXTKEY 0])
      (use assms(1,5) in \<open>auto intro!: that simp: only_server_def nmdb_nextkey_def Let_def add.assoc\<close>)
qed

lemma nmdb_firstkey_value:
  assumes "only_server db s" and "ready s w REP_OK (be32 (length v) @ v) rest" and "length v \<le> 2 ^ 16"
  obtains w' where "nmdb_firstkey db val w = Some (fst (fits_into v val), snd (fits_into v val), w')"
    and "did w w' s (header 1 REQ_FIRSTKEY 0) rest"
proof -
  have sv: "srv_valid s" using assms(2) by (simp add: ready_def)
  have m: "moff s \<le> 4" using sv by (simp add: moff_transport)
  let ?n = "68 * 1024 - moff s - 8"
  note cv = copy_value_ok [OF sv assms(3)]
  have n: "length [] + length (replicate ?n (0 :: u8)) = ?n" "length (be32 (length v) @ v) \<le> ?n" "?n < 2 ^ 20"
    "moff s + 8 + ?n = 68 * 1024" "8 + (moff s + ?n) = 69632"
    using m assms(3) by simp_all
  show thesis
    by (rule round_trip [OF assms(2) _ n(1-3), of "- 1" REQ_FIRSTKEY 0])
      (use assms(1) n(4,5) in \<open>auto intro!: that simp: only_server_def nmdb_firstkey_def Let_def fits_into_def cv [simplified]\<close>)
qed

end
