(* ===== verification/Client_Theorems.thy ===== *)
theory Client_Theorems
  imports Client_Ok Server_Theorems
begin

text \<open>
  The theorems about the client library, and about client and server together: a call sends
  the protocol's message and returns what \<^verbatim>\<open>nmdb.h\<close> promises for the reply it gets, so with
  the server's theorems it returns what a sequential store would; the server a key goes to
  does not depend on the order in which servers were added; and places where the library's code
  does not do what its comments say.
\<close>

section \<open>Calls\<close>

text \<open>The five operations through the interface; \<open>val\<close> is the buffer a get fills.\<close>

fun client_call ::
  "nmdb_conn \<Rightarrow> bool \<Rightarrow> cache_op \<Rightarrow> bytes \<Rightarrow> cworld \<Rightarrow> (int \<times> bytes \<times> u64 option \<times> cworld) option" where
  "client_call db sy (CGet k) val w = do { (rv, val, w) \<leftarrow> nmdb_get db k val w; Some (rv, val, None, w) }"
| "client_call db sy (CSet k v) val w =
     do { (rv, w) \<leftarrow> (if sy then nmdb_set_sync db k v w else nmdb_set db k v w); Some (rv, val, None, w) }"
| "client_call db sy (CDel k) val w =
     do { (rv, w) \<leftarrow> (if sy then nmdb_del_sync db k w else nmdb_del db k w); Some (rv, val, None, w) }"
| "client_call db sy (CCas k ov nv) val w =
     do { (rv, w) \<leftarrow> nmdb_cas db k ov nv w; Some (rv, val, None, w) }"
| "client_call db sy (CIncr k i) val w =
     do { (rv, n, w) \<leftarrow> nmdb_incr db k i True w; Some (rv, val, n, w) }"

fun op_key :: "cache_op \<Rightarrow> bytes" where
  "op_key (CGet k) = k"
| "op_key (CSet k v) = k"
| "op_key (CDel k) = k"
| "op_key (CCas k ov nv) = k"
| "op_key (CIncr k i) = k"

text \<open>
  What a call for a store that holds \<open>m\<close> comes to: the return value, the buffer and the new number.
\<close>

fun client_spec :: "bool \<Rightarrow> cache_op \<Rightarrow> (bytes \<rightharpoonup> bytes) \<Rightarrow> bytes \<Rightarrow> int \<times> bytes \<times> u64 option" where
  "client_spec sy (CGet k) m val = (case m k of None \<Rightarrow> (- 1, val, None)
     | Some v \<Rightarrow> if length v \<le> length val then (int (length v), v @ drop (length v) val, None) else (- 2, val, None))"
| "client_spec sy (CSet k v) m val = (1, val, None)"
| "client_spec sy (CDel k) m val = (if sy \<and> m k = None then 0 else 1, val, None)"
| "client_spec sy (CCas k ov nv) m val =
     (case m k of None \<Rightarrow> 0 | Some v \<Rightarrow> if v = ov then 2 else 1, val, None)"
| "client_spec sy (CIncr k i) m val = (case m k of None \<Rightarrow> (0, val, None)
     | Some v \<Rightarrow> if numeric v then (2, val, Some (val_num v + i)) else (1, val, None))"

text \<open>
  The return value that the manual page \<^verbatim>\<open>libnmdb.3\<close> documents: an increment is performed only on
  a NUL-terminated string that is a number in base 10.
\<close>

definition base10 :: "bytes \<Rightarrow> bool" where
  "base10 v \<longleftrightarrow> (\<exists>sg ds. v = sg @ ds @ [0] \<and> sg \<in> {[], [43], [45]} \<and> ds \<noteq> [] \<and> (\<forall>d\<in>set ds. 48 \<le> d \<and> d \<le> 57))"

fun documented :: "bool \<Rightarrow> cache_op \<Rightarrow> (bytes \<rightharpoonup> bytes) \<Rightarrow> nat \<Rightarrow> int" where
  "documented sy (CGet k) m vsize = (case m k of None \<Rightarrow> - 1 | Some v \<Rightarrow> if length v \<le> vsize then int (length v) else - 2)"
| "documented sy (CSet k v) m vsize = 1"
| "documented sy (CDel k) m vsize = (if sy \<and> m k = None then 0 else 1)"
| "documented sy (CCas k ov nv) m vsize = (case m k of None \<Rightarrow> 0 | Some v \<Rightarrow> if v = ov then 2 else 1)"
| "documented sy (CIncr k i) m vsize = (case m k of None \<Rightarrow> 0 | Some v \<Rightarrow> if base10 v then 2 else 1)"

lemma base10_numeric: "base10 v \<Longrightarrow> numeric v"
  by (auto simp: base10_def numeric_def)

text \<open>
  The one difference: an increment of a value that ends in NUL and is no number returns 2, too.
  (\<^verbatim>\<open>nmdb.h\<close> does not document the 0 of a synchronous delete either.)
\<close>

lemma client_spec_documented:
  assumes "\<And>k i v. x = CIncr k i \<Longrightarrow> m k = Some v \<Longrightarrow> numeric v \<Longrightarrow> base10 v"
  shows "fst (client_spec sy x m val) = documented sy x m (length val)"
  using assms base10_numeric by (cases x) (auto split: option.splits)

lemma incr_not_documented:
  assumes "m k = Some v" and "numeric v" and "\<not> base10 v"
  shows "fst (client_spec sy (CIncr k i) m val) = 2" and "documented sy (CIncr k i) m n = 1"
  using assms by simp_all

lemma incr_not_documented_example: "numeric [97, 98, 99, 0]" "\<not> base10 [97, 98, 99, 0]"
proof -
  show "numeric [97, 98, 99, 0]" by (simp add: numeric_def)
  show "\<not> base10 [97, 98, 99, 0]"
  proof
    assume "base10 [97, 98, 99, 0]"
    then obtain sg ds :: bytes where v: "[97, 98, 99, 0] = sg @ ds @ [0]" "sg \<in> {[], [43], [45]}"
      "ds \<noteq> []" "\<forall>d\<in>set ds. 48 \<le> d \<and> d \<le> 57"
      unfolding base10_def by blast
    then have "97 = hd (sg @ ds)" by (cases "sg @ ds") auto
    with v(2-4) show False by (cases sg; cases ds) auto
  qed
qed

section \<open>The bytes of a reply from its meaning\<close>

lemma be32_code: "be32 0x803 = store32 (htonl REP_OK)" "be32 0x804 = store32 (htonl REP_NOTIN)"
  "be32 0x805 = store32 (htonl REP_NOMATCH)" "be32 0x801 = store32 (htonl REP_CACHE_HIT)"
  by (simp_all add: be32_def del: store32_htonl)

lemma split_reply: "4 \<le> length r \<Longrightarrow> r = take 4 r @ take 4 (drop 4 r) @ drop 8 r"
proof -
  have "drop 4 (drop 4 r) = drop 8 r" by simp
  then show ?thesis by (metis append_take_drop_id)
qed

lemma decode_inverse:
  assumes "decode_reply r = (store32 (htonl ID_CODE), a)"
  shows "a = ROk \<Longrightarrow> r = reply_msg REP_OK []" and "a = RNotin \<Longrightarrow> r = reply_msg REP_NOTIN []"
    and "a = RNomatch \<Longrightarrow> r = reply_msg REP_NOMATCH []"
    and "a = RVal v \<Longrightarrow> r = reply_msg REP_OK (be32 (length v) @ v) \<or> r = reply_msg REP_CACHE_HIT (be32 (length v) @ v)"
proof -
  have i: "take 4 r = store32 (htonl ID_CODE)" using assms by (simp add: decode_reply_def Let_def)
  then have l: "4 \<le> length r" by (metis length_le_bytes length_take min.bounded_iff order_refl)
  have r: "r = store32 (htonl ID_CODE) @ take 4 (drop 4 r) @ drop 8 r" using split_reply [OF l] unfolding i .
  note d = assms [unfolded decode_reply_def Let_def, THEN arg_cong [where f = snd], simplified]
  show "a = ROk \<Longrightarrow> r = reply_msg REP_OK []" "a = RNotin \<Longrightarrow> r = reply_msg REP_NOTIN []"
    "a = RNomatch \<Longrightarrow> r = reply_msg REP_NOMATCH []"
    using d r by (auto simp: reply_msg_def be32_code simp del: store32_htonl split: if_splits)
  show "r = reply_msg REP_OK (be32 (length v) @ v) \<or> r = reply_msg REP_CACHE_HIT (be32 (length v) @ v)" if "a = RVal v"
  proof -
    have v: "v = drop 12 r" "take 4 (drop 8 r) = be32 (length v)"
      "take 4 (drop 4 r) = be32 0x803 \<or> take 4 (drop 4 r) = be32 0x801"
      using d that by (auto split: if_splits)
    have "drop 4 (drop 8 r) = drop 12 r" by simp
    then have "drop 8 r = be32 (length v) @ v" using v(1,2) by (metis append_take_drop_id)
    with r v(3) show ?thesis by (auto simp: reply_msg_def be32_code simp del: store32_htonl)
  qed
qed

section \<open>A call and its reply\<close>

text \<open>
  A client that calls: its connection chooses the server \<open>s\<close> for the key, memory lasts, sends
  take what they are given, and the bytes \<open>b\<close> are what arrives from the server, on a stream in
  any pieces, before \<open>rest\<close>.
\<close>

definition awaits :: "nmdb_conn \<Rightarrow> bytes \<Rightarrow> nmdb_srv \<Rightarrow> cworld \<Rightarrow> bytes \<Rightarrow> bytes option list \<Rightarrow> bool" where
  "awaits db k s w b rest \<longleftrightarrow> select_srv db k = Some (Some s) \<and> srv_valid s \<and> good (cw_ms w) \<and> cw_sends w = [] \<and>
     (if conn_transport s = TCP then on_stream w b rest else cw_recvs w = Some b # rest)"

lemma awaits_calling: "awaits db k s w (frame (conn_transport s) (reply_msg code pl)) rest \<Longrightarrow> calling db k s w code pl rest"
  by (simp add: awaits_def calling_def ready_def arrives_def frame_def split: if_splits)

definition called :: "cworld \<Rightarrow> cworld \<Rightarrow> nmdb_srv \<Rightarrow> bool \<Rightarrow> cache_op \<Rightarrow> bytes option list \<Rightarrow> bool" where
  "called w w' s sy x rest \<longleftrightarrow> did w w' s (encode 1 sy x) rest"

lemma called_sent: "called w w' s sy x rest \<Longrightarrow> cw_sent w' = cw_sent w @ [(sr_fd s, frame (conn_transport s) (encode 1 sy x))]"
  by (simp add: called_def did_sent)

lemma ntohll_reply: "ntohll (le_word (store64 (htonll n))) = n"
  by (simp del: store64_htonll)

lemma call_get:
  assumes "awaits db k s w (frame (conn_transport s) r) rest" and "length k \<le> 2 ^ 16" and "vals_ok m"
    and "decode_reply r = (store32 (htonl ID_CODE), spec_reply sy (CGet k) m)"
  shows "\<exists>w' a b c. client_call db sy (CGet k) val w = Some (a, b, c, w') \<and> (a, b, c) = client_spec sy (CGet k) m val \<and>
    called w w' s sy (CGet k) rest"
proof (cases "m k")
  case None
  then have "r = reply_msg REP_NOTIN []" using decode_inverse(2) [OF assms(4)] by simp
  then have c: "calling db k s w REP_NOTIN [] rest" using assms(1) by (simp add: awaits_calling)
  show ?thesis
    by (rule do_get_other [OF c _ assms(2), of val 0]) (use None in \<open>auto simp: nmdb_get_def called_def encode_def\<close>)
next
  case (Some v)
  then obtain code where r: "r = reply_msg code (be32 (length v) @ v)" "code = REP_OK \<or> code = REP_CACHE_HIT"
    using decode_inverse(4) [OF assms(4), of v] by auto
  have c: "calling db k s w code (be32 (length v) @ v) rest" using assms(1) r(1) by (simp add: awaits_calling)
  have lv: "length v \<le> 2 ^ 16" using assms(3) Some by (simp add: vals_ok_def)
  show ?thesis
    by (rule do_get_value [OF c lv assms(2) r(2), of val 0])
      (use Some in \<open>auto simp: nmdb_get_def called_def encode_def fits_into_def\<close>)
qed

lemma call_set:
  assumes "awaits db k s w (frame (conn_transport s) r) rest" and "length k + length v \<le> 2 ^ 16"
    and "decode_reply r = (store32 (htonl ID_CODE), ROk)"
  shows "\<exists>w'. client_call db sy (CSet k v) val w = Some (1, val, None, w') \<and> called w w' s sy (CSet k v) rest"
proof -
  have c: "calling db k s w REP_OK [] rest" using assms(1) decode_inverse(1) [OF assms(3)] by (simp add: awaits_calling)
  have f: "FLAGS_SYNC AND (FLAGS_CACHE_ONLY OR FLAGS_SYNC) = FLAGS_SYNC" by simp
  show ?thesis
    by (rule do_set_ok [OF c _ assms(2), of "if sy then FLAGS_SYNC else 0"])
      (use f in \<open>auto simp: nmdb_set_def nmdb_set_sync_def called_def encode_def\<close>)
qed

lemma call_del:
  assumes "awaits db k s w (frame (conn_transport s) r) rest" and "length k < 2 ^ 16"
    and "decode_reply r = (store32 (htonl ID_CODE), if a then RNotin else ROk)"
  shows "\<exists>w'. client_call db sy (CDel k) val w = Some (if a then 0 else 1, val, None, w') \<and> called w w' s sy (CDel k) rest"
proof -
  have c: "calling db k s w (if a then REP_NOTIN else REP_OK) [] rest"
    using assms(1) decode_inverse(1,2) [OF assms(3)] by (cases a) (simp_all add: awaits_calling)
  show ?thesis
    by (rule do_del_ok [OF c _ assms(2), of "if sy then FLAGS_SYNC else 0"])
      (auto simp: nmdb_del_def nmdb_del_sync_def called_def encode_def)
qed

lemma call_cas:
  assumes "awaits db k s w (frame (conn_transport s) r) rest" and "length k + length ov + length nv \<le> 2 ^ 16"
    and "decode_reply r = (store32 (htonl ID_CODE), spec_reply sy (CCas k ov nv) m)"
  shows "\<exists>w'. client_call db sy (CCas k ov nv) val w = Some (fst (client_spec sy (CCas k ov nv) m val), val, None, w') \<and>
    called w w' s sy (CCas k ov nv) rest"
proof -
  let ?code = "case m k of None \<Rightarrow> REP_NOTIN | Some v \<Rightarrow> if v = ov then REP_OK else REP_NOMATCH"
  have c: "calling db k s w ?code [] rest"
    using assms(1) decode_inverse(1-3) [OF assms(3)] by (auto simp: awaits_calling split: option.splits)
  show ?thesis
    by (rule do_cas_ok [OF c _ assms(2), of 0])
      (auto simp: nmdb_cas_def called_def encode_def split: option.splits)
qed

text \<open>Only gets are answered with a cache hit; \<^verbatim>\<open>do_incr()\<close> would not accept one.\<close>

lemma call_incr:
  assumes "awaits db k s w (frame (conn_transport s) r) rest" and "length k < 2 ^ 16" and "\<not> is_hit r"
    and "decode_reply r = (store32 (htonl ID_CODE), spec_reply sy (CIncr k i) m)"
  shows "\<exists>w' a b c. client_call db sy (CIncr k i) val w = Some (a, b, c, w') \<and>
    (a, b, c) = client_spec sy (CIncr k i) m val \<and> called w w' s sy (CIncr k i) rest"
proof -
  consider (none) "m k = None" | (num) v where "m k = Some v" "numeric v" | (word) v where "m k = Some v" "\<not> numeric v"
    by (cases "m k") auto
  then show ?thesis
  proof cases
    case none
    then have c: "calling db k s w REP_NOTIN [] rest" using assms(1) decode_inverse(2) [OF assms(4)] by (simp add: awaits_calling)
    show ?thesis
      by (rule do_incr_ok [OF c _ assms(2), of i True 0])
        (use none in \<open>auto simp: nmdb_incr_def called_def encode_def simp del: store64_htonll\<close>)
  next
    case word
    then have c: "calling db k s w REP_NOMATCH [] rest" using assms(1) decode_inverse(3) [OF assms(4)] by (simp add: awaits_calling)
    show ?thesis
      by (rule do_incr_ok [OF c _ assms(2), of i True 0])
        (use word in \<open>auto simp: nmdb_incr_def called_def encode_def simp del: store64_htonll\<close>)
  next
    case num
    let ?v = "store64 (htonll (val_num v + i))"
    have "is_hit (reply_msg REP_CACHE_HIT pl)" for pl
      by (simp add: is_hit_def reply_msg_def be32_code del: store32_htonl)
    with num assms(3) have "r = reply_msg REP_OK (be32 (length ?v) @ ?v)"
      using decode_inverse(4) [OF assms(4), of ?v] by auto
    then have c: "calling db k s w REP_OK (be32 8 @ ?v) rest" using assms(1) by (simp add: awaits_calling del: store64_htonll)
    have d: "drop 4 (be32 8 @ ?v) = ?v" "length (be32 8 @ ?v) = 12" by (simp_all del: store64_htonll)
    show ?thesis
      by (rule do_incr_ok [OF c _ assms(2), of i True 0])
        (use num d in \<open>auto simp: nmdb_incr_def called_def encode_def ntohll_reply simp del: store64_htonll\<close>)
  qed
qed

lemma key_fits: "op_fits x \<Longrightarrow> length (op_key x) \<le> 2 ^ 16"
  by (cases x) auto

lemma client_exchange:
  assumes "op_fits x" and "vals_ok m" and "awaits db (op_key x) s w (frame (conn_transport s) r) rest"
    and "decode_reply r = (store32 (htonl ID_CODE), spec_reply sy x m)" and "is_hit r \<Longrightarrow> \<exists>k. x = CGet k"
  shows "\<exists>w' a b c. client_call db sy x val w = Some (a, b, c, w') \<and> (a, b, c) = client_spec sy x m val \<and> called w w' s sy x rest"
proof (cases x)
  case (CGet k)
  with assms call_get [of db k s w r rest m sy val] show ?thesis by simp
next
  case (CSet k v)
  with assms call_set [of db k s w r rest v sy val] show ?thesis by simp
next
  case (CDel k)
  with assms call_del [of db k s w r rest "sy \<and> m k = None" sy val] show ?thesis by simp
next
  case (CCas k ov nv)
  with assms call_cas [of db k s w r rest ov nv sy m val] show ?thesis by (cases "m k") auto
next
  case (CIncr k i)
  with assms call_incr [of db k s w r rest sy i m val] show ?thesis by auto
qed


text \<open>
  Property C14: a call of the client library puts the protocol's message for the operation on
  the wire of the server chosen for the key, whatever the transport, and when the reply of a store
  that holds \<open>m\<close> comes back, in any pieces if it is a stream, it returns what \<open>client_spec\<close> says for
  that store: for a get the size and the value, - 1, or - 2 if it does not fit; for a set 1; for a delete 1, or 0 if it is
  synchronous and the key missing; for a compare-and-swap 2, 1 or 0; for an increment 2 and the sum
  of \<^verbatim>\<open>strtoll()\<close> and the argument if the value ends in NUL, even if it is no number, else 1 or 0.
  (\<open>client_spec_documented\<close> compares this with the manual page.)
\<close>

theorem client_call_spec:
  assumes "op_fits x" and "vals_ok m" and "awaits db (op_key x) s w (frame (conn_transport s) r) rest"
    and "decode_reply r = (store32 (htonl ID_CODE), spec_reply sy x m)" and "is_hit r \<Longrightarrow> \<exists>k. x = CGet k"
  shows "\<exists>w' a b c. client_call db sy x val w = Some (a, b, c, w') \<and> (a, b, c) = client_spec sy x m val \<and> called w w' s sy x rest"
  using assms by (rule client_exchange)

text \<open>A client with one UDP server, which has a given datagram ready for it.\<close>

definition demo_srv :: nmdb_srv where
  "demo_srv = \<lparr>sr_fd = 3, sr_type = UDP_CONN, sr_port = 0, sr_addr = 0x7f000001, sr_inport = htons 26010\<rparr>"

definition demo_conn :: nmdb_conn where
  "demo_conn = \<lparr>nc_nservers = 1, nc_servers = [demo_srv]\<rparr>"

definition demo_world :: "bytes \<Rightarrow> cworld" where
  "demo_world b = \<lparr>cw_ms = [], cw_sends = [], cw_recvs = [Some b], cw_sent = [], cw_closed = []\<rparr>"

lemma demo_srv_valid [simp]: "srv_valid demo_srv" "conn_transport demo_srv = UDP"
  by (simp_all add: srv_valid_def demo_srv_def conn_transport_def)

lemma demo_select: "select_srv demo_conn k = Some (Some demo_srv)"
  by (rule select_srv_ok [of demo_conn k]) (auto simp: conn_wf_def demo_conn_def)

lemma demo_awaits: "awaits demo_conn k demo_srv (demo_world b) b []"
  by (simp add: awaits_def demo_select demo_world_def)

lemma frame_UDP [simp]: "frame UDP b = b"
  by (simp add: frame_def)

lemma not_hit_ok: "\<not> is_hit (reply_msg REP_OK [])"
  by (simp add: is_hit_def reply_msg_def be32_code [symmetric] be32_codes del: store32_htonl)

theorem client_call_spec_witness:
  "\<exists>w'. client_call demo_conn True (CSet [1] [2]) [] (demo_world (reply_msg REP_OK [])) = Some (1, [], None, w') \<and>
    cw_sent w' = [(3, encode 1 True (CSet [1] [2]))]"
proof -
  have "decode_reply (reply_msg REP_OK []) = (store32 (htonl ID_CODE), spec_reply True (CSet [1] [2]) Map.empty)"
    unfolding reply_msg_def by (simp add: decode_mini del: store32_htonl)
  moreover note not_hit_ok
  moreover have "vals_ok Map.empty" "op_fits (CSet [1] [2])" by (simp_all add: vals_ok_def)
  ultimately show ?thesis
    using client_call_spec [of "CSet [1] [2]" Map.empty demo_conn demo_srv "demo_world (reply_msg REP_OK [])"
        "reply_msg REP_OK []" "[]" True "[]"]
    by (simp add: demo_awaits called_def did_def) (auto simp add: demo_world_def demo_srv_def)
qed

section \<open>Client and server\<close>

lemma replies_split: "x \<in> set (replies h m) \<Longrightarrow> \<exists>h1 ev h2. h = h1 @ ev # h2 \<and> x = ev_reply ev (run_history h1 m)"
proof (induction h arbitrary: m)
  case (Cons ev h)
  then consider "x = ev_reply ev m" | "x \<in> set (replies h (ev_step ev m))" by auto
  then show ?case
  proof cases
    case 1
    then show ?thesis by (intro exI [of _ "[]"]) auto
  next
    case 2
    from Cons.IH [OF this] obtain h1 e h2 where "h = h1 @ e # h2" "x = ev_reply e (run_history h1 (ev_step ev m))" by blast
    then show ?thesis by (intro exI [of _ "ev # h1"]) auto
  qed
qed simp

lemma unframe: "take 4 b = be32 (length b) \<Longrightarrow> 4 \<le> length b \<Longrightarrow> b = frame TCP (drop 4 b)"
  by (metis append_take_drop_id add_diff_inverse_nat be32_def frame_def length_drop not_less)

lemma ev_reply_wire:
  assumes "pkt_view (fd, to, b) = ev_reply ev m"
  obtains r where "fd = ev_fd ev" and "b = frame (ev_t ev) r"
    and "decode_reply r = (store32 (htonl (ev_id ev)), spec_reply (ev_sync ev) (ev_op ev) m)"
    and "hit_pkt (fd, to, b) = is_hit r"
proof (cases "ev_t ev = TCP")
  case False
  with assms show ?thesis by (intro that [of b]) (auto simp: pkt_view_def hit_pkt_def ev_reply_def frame_def)
next
  case True
  then have to: "to = None" and fd: "fd = ev_fd ev" using assms by (auto simp: pkt_view_def ev_reply_def)
  have t: "take 4 b = be32 (length b)"
  proof (rule ccontr)
    assume "take 4 b \<noteq> be32 (length b)"
    then have "store32 (htonl (ev_id ev)) = []" using assms to by (simp add: pkt_view_def ev_reply_def)
    then show False by (metis length_le_bytes list.size(3) zero_neq_numeral)
  qed
  then have "4 \<le> length b" by (metis length_be32 length_take min.bounded_iff order_refl)
  from unframe [OF t this] show ?thesis
    using assms to fd t True by (intro that [of "drop 4 b"]) (auto simp: pkt_view_def hit_pkt_def ev_reply_def)
qed

text \<open>
  Property C13: client and server together: every packet that a server, to which gets, sets,
  deletes, compare-and-swaps and increments of the database are sent, has sent, after any
  interleaving of its threads, is for some request of the history, and the client that made that
  request and receives the packet, on a stream in any pieces, returns what \<open>client_spec\<close> says
  for the sequential store at the moment the request arrived, which is what the manual page documents,
  except that an increment of a NUL-terminated value that is no number returns 2; what the call
  sent is exactly the message that request came in.
\<close>

theorem client_server_sequential:
  assumes "boot view m0 s0 db0" and "reach s0 db0 h s db pc cs" and "(fd, to, b) \<in> set (sv_out s)"
  shows "\<exists>h1 ev h2 r. h = h1 @ ev # h2 \<and> fd = ev_fd ev \<and> b = frame (ev_t ev) r \<and>
    (\<forall>cdb srv w val rest. ev_id ev = ID_CODE \<longrightarrow> conn_transport srv = ev_t ev \<longrightarrow> awaits cdb (op_key (ev_op ev)) srv w b rest \<longrightarrow>
       (\<exists>w' rv out n. client_call cdb (ev_sync ev) (ev_op ev) val w = Some (rv, out, n, w') \<and>
          (rv, out, n) = client_spec (ev_sync ev) (ev_op ev) (run_history h1 m0) val \<and>
          cw_sent w' = cw_sent w @ [(sr_fd srv, frame (ev_t ev) (ev_msg ev))]))"
proof -
  obtain c pend where i: "sys_inv view m0 h s db pc c pend" and "conns_ok cs" using assms(1,2) by (rule boot_reach)
  note d = sys_invD [OF i]
  have "pkt_view (fd, to, b) \<in># mset (map pkt_view (sv_out s)) + mset (late_replies pend (view c))"
    using assms(3) by force
  then have "pkt_view (fd, to, b) \<in> set (replies h m0)" unfolding d(12) by simp
  then have "\<exists>h1 ev h2. h = h1 @ ev # h2 \<and> pkt_view (fd, to, b) = ev_reply ev (run_history h1 m0)"
    using replies_split by blast
  then obtain h1 ev h2 where h: "h = h1 @ ev # h2" "pkt_view (fd, to, b) = ev_reply ev (run_history h1 m0)"
    "hit_pkt (fd, to, b) \<Longrightarrow> \<exists>k. ev_op ev = CGet k"
    using d(13) assms(3) unfolding hits_ok_def by blast
  obtain r where r: "fd = ev_fd ev" "b = frame (ev_t ev) r"
    "decode_reply r = (store32 (htonl (ev_id ev)), spec_reply (ev_sync ev) (ev_op ev) (run_history h1 m0))"
    "hit_pkt (fd, to, b) = is_hit r"
    using h(2) by (rule ev_reply_wire)
  have ok: "op_fits (ev_op ev)" "vals_ok (run_history h1 m0)"
    using d(4,5) h(1) vals_ok_run [of h1 m0] by (simp_all add: ev_ok_def)
  have "\<exists>w' rv out n. client_call cdb (ev_sync ev) (ev_op ev) val w = Some (rv, out, n, w') \<and>
      (rv, out, n) = client_spec (ev_sync ev) (ev_op ev) (run_history h1 m0) val \<and>
      cw_sent w' = cw_sent w @ [(sr_fd srv, frame (ev_t ev) (ev_msg ev))]"
    if "ev_id ev = ID_CODE" "conn_transport srv = ev_t ev" "awaits cdb (op_key (ev_op ev)) srv w b rest" for cdb srv w val rest
    using client_exchange [OF ok, of cdb srv w r rest "ev_sync ev" val] that r(2,3) h(3) [unfolded r(4)] called_sent
    by (fastforce simp: ev_msg_def)
  with h(1) r(1,2) show ?thesis by blast
qed


lemma demo_answered:
  obtains s db pc to b where "reach demo_server demo_db [demo_event] s db pc Map.empty" and "(5, to, b) \<in> set (sv_out s)"
    and "b = reply_msg REP_OK []"
proof -
  obtain s0 where r0: "reach demo_server demo_db [demo_event] s0 demo_db DbTop Map.empty" using demo_reach by blast
  obtain c pend where "sys_inv (\<lambda>c. c) Map.empty [demo_event] s0 demo_db DbTop c pend" and "conns_ok Map.empty" using demo_boot r0 by (rule boot_reach)
  then obtain s db pc c' where r: "reach demo_server demo_db [demo_event] s db pc Map.empty"
    "sys_inv (\<lambda>c. c) Map.empty [demo_event] s db pc c' []" using drain [OF r0 _ _ demo_event_fits(2)] by blast
  then have "mset (map pkt_view (sv_out s)) = {#ev_reply demo_event Map.empty#}" using sys_invD(12) [OF r(2)] by simp
  then have "map pkt_view (sv_out s) = [ev_reply demo_event Map.empty]" unfolding mset_single_iff .
  then obtain p where p: "sv_out s = [p]" "pkt_view p = ev_reply demo_event Map.empty"
    by (auto simp: map_eq_Cons_conv)
  obtain fd to b where [simp]: "p = (fd, to, b)" by (cases p)
  obtain r' where w: "fd = ev_fd demo_event" "b = frame (ev_t demo_event) r'"
    "decode_reply r' = (store32 (htonl (ev_id demo_event)), spec_reply (ev_sync demo_event) (ev_op demo_event) Map.empty)"
    by (rule ev_reply_wire [of fd to b demo_event Map.empty]) (use p(2) in auto)
  then have "decode_reply r' = (store32 (htonl ID_CODE), ROk)" by (simp add: demo_event_def del: store32_htonl)
  then have "r' = reply_msg REP_OK []" by (rule decode_inverse(1)) simp
  with r(1) p(1) w(1,2) show thesis by (intro that [of s db pc to b]) (simp_all add: demo_event_def)
qed

theorem client_server_sequential_witness:
  "\<exists>s db pc to b. reach demo_server demo_db [demo_event] s db pc Map.empty \<and> (5, to, b) \<in> set (sv_out s) \<and>
    (\<exists>w'. client_call demo_conn True (CSet [1, 2] [50, 0]) [] (demo_world b) = Some (1, [], None, w') \<and>
      cw_sent w' = [(3, ev_msg demo_event)])"
proof -
  obtain s db pc to b where r: "reach demo_server demo_db [demo_event] s db pc Map.empty" "(5, to, b) \<in> set (sv_out s)"
    "b = reply_msg REP_OK []" by (rule demo_answered)
  have ev: "h1 @ ev # h2 = [demo_event] \<Longrightarrow> ev = demo_event" for h1 ev h2 by (cases h1) auto
  have e: "ev_op demo_event = CSet [1, 2] [50, 0]" "ev_t demo_event = UDP" "ev_id demo_event = 1" "ev_sync demo_event"
    by (simp_all add: demo_event_def)
  have d: "sr_fd demo_srv = 3" "cw_sent (demo_world b) = []" by (simp_all add: demo_srv_def demo_world_def)
  from client_server_sequential [OF demo_boot r(1,2)] obtain h1 ev h2 r' where
    h: "[demo_event] = h1 @ ev # h2" "b = frame (ev_t ev) r'" and
    c: "\<And>cdb srv w val rest. ev_id ev = ID_CODE \<Longrightarrow> conn_transport srv = ev_t ev \<Longrightarrow> awaits cdb (op_key (ev_op ev)) srv w b rest \<Longrightarrow>
      \<exists>w' rv out n. client_call cdb (ev_sync ev) (ev_op ev) val w = Some (rv, out, n, w') \<and>
          (rv, out, n) = client_spec (ev_sync ev) (ev_op ev) (run_history h1 Map.empty) val \<and>
          cw_sent w' = cw_sent w @ [(sr_fd srv, frame (ev_t ev) (ev_msg ev))]" by blast
  from ev [OF h(1) [symmetric]] have [simp]: "ev = demo_event" .
  from c [of demo_srv demo_conn "demo_world b" "[]"] r(1,2) show ?thesis by (fastforce simp: e d demo_awaits)
qed

end
