(* ===== verification/Client_Select.thy ===== *)
theory Client_Select
  imports Client_Ok "HOL-Library.Multiset"
begin

text \<open>
  Which server a client uses for a key. Comparing servers is comparing their addresses, the
  array of servers is the library's sort by address, so that clients that were told about the
  same servers in different orders agree on the server of every key. The checksum that does the
  choosing is characterised by the bytes of the key it looks at.
\<close>

section \<open>The order of servers\<close>

text \<open>The address of a server: everything but the descriptor.\<close>

type_synonym srv_key = "int \<times> u32 \<times> u32 \<times> u16"

definition srv_key :: "nmdb_srv \<Rightarrow> srv_key" where
  "srv_key s = (if sr_type s = TIPC_CONN then (TIPC_CONN, sr_port s, 0, 0)
     else (sr_type s, 0, sr_addr s, sr_inport s))"

lemma compare_le: "srv_valid s \<Longrightarrow> srv_valid t \<Longrightarrow> compare_servers s t \<le> 0 \<longleftrightarrow> srv_key s \<le> srv_key t"
proof -
  assume v: "srv_valid s" "srv_valid t"
  show ?thesis
  proof (cases "sr_type s = sr_type t")
    case False
    then show ?thesis by (simp add: srv_key_def compare_servers_def less_eq_prod_def less_prod_def)
  next
    case True
    consider "sr_type t = TIPC_CONN" | "sr_type t \<noteq> TIPC_CONN" "sr_type t = TCP_CONN \<or> sr_type t = UDP_CONN \<or> sr_type t = SCTP_CONN"
      using v(2) by (auto simp: srv_valid_def)
    then show ?thesis
    proof cases
      case 1
      with True show ?thesis by (auto simp: srv_key_def compare_servers_def less_eq_prod_def)
    next
      case 2
      with True show ?thesis by (simp add: srv_key_def compare_servers_def less_eq_prod_def Let_def) (simp add: le_less)
    qed
  qed
qed

lemma insert_by_insort:
  assumes "srv_valid s" and "list_all srv_valid ss"
  shows "insert_by compare_servers s ss = insort_key srv_key s ss"
  using assms by (induction ss) (simp_all add: compare_le)

lemma valid_insort [simp]: "list_all srv_valid (insort_key srv_key s ss) \<longleftrightarrow> srv_valid s \<and> list_all srv_valid ss"
  by (auto simp: list_all_iff set_insort_key)

lemma qsort_sort_key:
  assumes "list_all srv_valid ss"
  shows "qsort compare_servers ss = sort_key srv_key ss" and "list_all srv_valid (sort_key srv_key ss)"
proof -
  have "list_all srv_valid (sort_key srv_key ss)" if "list_all srv_valid ss" for ss
    using that by (simp add: list_all_iff)
  then show "list_all srv_valid (sort_key srv_key ss)" using assms .
  show "qsort compare_servers ss = sort_key srv_key ss"
    using assms by (induction ss) (simp_all add: insert_by_insort list_all_iff)
qed

section \<open>Adding servers\<close>

text \<open>A connection as the library keeps it: counted, of known types, sorted.\<close>

definition conn_sorted :: "nmdb_conn \<Rightarrow> bool" where
  "conn_sorted db \<longleftrightarrow> conn_wf db \<and> sorted (map srv_key (nc_servers db))"

definition with_server :: "nmdb_conn \<Rightarrow> nmdb_srv \<Rightarrow> nmdb_conn" where
  "with_server db s = db\<lparr>nc_nservers := nc_nservers db + 1, nc_servers := sort_key srv_key (nc_servers db @ [s])\<rparr>"

lemma sort_grow: "conn_wf db \<Longrightarrow> srv_valid s \<Longrightarrow> sort_servers (grow db s) = with_server db s"
  by (simp add: sort_servers_def grow_def with_server_def conn_wf_def qsort_sort_key)

lemma with_server_sorted:
  assumes "conn_wf db" and "srv_valid s" and "length (nc_servers db) < 2 ^ 32 - 1"
  shows "conn_sorted (with_server db s)"
proof -
  have u: "unat (nc_nservers db) = length (nc_servers db)" and v: "list_all srv_valid (nc_servers db)"
    using assms(1) by (simp_all add: conn_wf_def)
  have "unat (nc_nservers db + 1) = length (nc_servers db) + 1"
    using assms(3) u by (simp add: unat_word_ariths)
  then have "conn_wf (with_server db s)"
    using assms(2) v by (auto simp: conn_wf_def with_server_def list_all_iff)
  then show ?thesis by (simp add: conn_sorted_def with_server_def)
qed

text \<open>The four functions that add a server, by the address they are given; the name has been resolved.\<close>

datatype srv_addr = TipcAddr int | TcpAddr u32 int | UdpAddr u32 int | SctpAddr u32 int

fun add_server :: "nmdb_conn \<Rightarrow> srv_addr \<Rightarrow> int \<Rightarrow> cworld \<Rightarrow> int \<times> nmdb_conn \<times> cworld" where
  "add_server db (TipcAddr port) fd w = nmdb_add_tipc_server db port fd w"
| "add_server db (TcpAddr ia port) fd w = add_tcp_server_addr db ia port fd 0 0 w"
| "add_server db (UdpAddr ia port) fd w = add_udp_server_addr db ia port fd w"
| "add_server db (SctpAddr ia port) fd w = add_sctp_server_addr db ia port fd 0 w"

fun addr_srv :: "srv_addr \<Rightarrow> int \<Rightarrow> nmdb_srv" where
  "addr_srv (TipcAddr port) fd = \<lparr>sr_fd = fd, sr_type = TIPC_CONN,
     sr_port = of_int (if port < 0 then 10 else port), sr_addr = 0, sr_inport = 0\<rparr>"
| "addr_srv (TcpAddr ia port) fd = \<lparr>sr_fd = fd, sr_type = TCP_CONN, sr_port = 0, sr_addr = ia,
     sr_inport = htons (of_int (if port < 0 then 26010 else port))\<rparr>"
| "addr_srv (UdpAddr ia port) fd = \<lparr>sr_fd = fd, sr_type = UDP_CONN, sr_port = 0, sr_addr = ia,
     sr_inport = htons (of_int (if port < 0 then 26010 else port))\<rparr>"
| "addr_srv (SctpAddr ia port) fd = \<lparr>sr_fd = fd, sr_type = SCTP_CONN, sr_port = 0, sr_addr = ia,
     sr_inport = htons (of_int (if port < 0 then 26010 else port))\<rparr>"

abbreviation addr_key :: "srv_addr \<Rightarrow> srv_key" where
  "addr_key a \<equiv> srv_key (addr_srv a 0)"

lemma addr_srv [simp]: "srv_valid (addr_srv a fd)" "sr_fd (addr_srv a fd) = fd"
  by (cases a; simp add: srv_valid_def)+

lemma srv_key_addr: "srv_key (addr_srv a fd) = addr_key a"
  by (cases a) (simp_all add: srv_key_def)

lemma add_server_ok:
  assumes "conn_wf db" and "0 \<le> fd" and "good (cw_ms w)"
  shows "\<exists>ms. add_server db a fd w = (1, with_server db (addr_srv a fd), w\<lparr>cw_ms := ms\<rparr>) \<and> good ms"
proof -
  obtain ms where ms: "malloc (cw_ms w) = (True, ms)" "good ms" using assms(3) by (rule malloc_good)
  have m: "c_malloc w = (True, w\<lparr>cw_ms := ms\<rparr>)" using ms(1) by (simp add: c_malloc_def)
  have g: "sort_servers (grow db (addr_srv a fd)) = with_server db (addr_srv a fd)"
    using sort_grow [OF assms(1)] by simp
  have "add_server db a fd w = (1, sort_servers (grow db (addr_srv a fd)), w\<lparr>cw_ms := ms\<rparr>)"
    using m assms(2)
    by (cases a) (simp_all add: nmdb_add_tipc_server_def add_tcp_server_addr_def add_udp_server_addr_def
        add_sctp_server_addr_def Let_def)
  with ms(2) g show ?thesis by auto
qed

text \<open>A client that adds one server after another.\<close>

fun add_servers :: "nmdb_conn \<Rightarrow> (srv_addr \<times> int) list \<Rightarrow> cworld \<Rightarrow> nmdb_conn \<times> cworld" where
  "add_servers db [] w = (db, w)"
| "add_servers db ((a, fd) # as) w = (case add_server db a fd w of (_, db, w) \<Rightarrow> add_servers db as w)"

lemma add_servers_ok:
  assumes "conn_sorted db" and "list_all (\<lambda>(a, fd). 0 \<le> fd) as" and "good (cw_ms w)"
    and "length (nc_servers db) + length as < 2 ^ 32"
  shows "conn_sorted (fst (add_servers db as w)) \<and>
    mset (map srv_key (nc_servers (fst (add_servers db as w)))) =
      mset (map srv_key (nc_servers db)) + mset (map addr_key (map fst as))"
  using assms
proof (induction as arbitrary: db w)
  case (Cons x as)
  obtain a fd where [simp]: "x = (a, fd)" by (cases x)
  have wf: "conn_wf db" using Cons.prems(1) by (simp add: conn_sorted_def)
  let ?s = "addr_srv a fd"
  obtain ms where s: "add_server db a fd w = (1, with_server db ?s, w\<lparr>cw_ms := ms\<rparr>)" "good ms"
    using add_server_ok [OF wf _ Cons.prems(3), of fd a] Cons.prems(2) by auto
  have n: "nc_servers (with_server db ?s) = sort_key srv_key (nc_servers db @ [?s])" by (simp add: with_server_def)
  have l: "length (nc_servers db) < 2 ^ 32 - 1" "length (nc_servers (with_server db ?s)) + length as < 2 ^ 32"
    using Cons.prems(4) n by simp_all
  have so: "conn_sorted (with_server db ?s)" using with_server_sorted [OF wf _ l(1)] by simp
  have gd: "good (cw_ms (w\<lparr>cw_ms := ms\<rparr>))" "list_all (\<lambda>(a, fd). 0 \<le> fd) as" using s(2) Cons.prems(2) by simp_all
  note ih = Cons.IH [OF so gd(2,1) l(2)]
  have m: "mset (map srv_key (nc_servers (with_server db ?s))) = mset (map srv_key (nc_servers db)) + {#addr_key a#}"
    unfolding n mset_map mset_sort mset_append by (simp only: mset.simps image_mset_union image_mset_add_mset
      image_mset_empty srv_key_addr [of a fd])
  have st: "add_servers db (x # as) w = add_servers (with_server db ?s) as (w\<lparr>cw_ms := ms\<rparr>)" by (simp add: s(1))
  have r: "mset (map addr_key (map fst (x # as))) = {#addr_key a#} + mset (map addr_key (map fst as))" by simp
  show ?case using ih unfolding st m r by (simp only: add.assoc)
qed simp

section \<open>Choosing\<close>

lemma select_keys:
  assumes "conn_wf db1" and "conn_wf db2" and "map srv_key (nc_servers db1) = map srv_key (nc_servers db2)"
  shows "map_option (map_option srv_key) (select_srv db1 k) = map_option (map_option srv_key) (select_srv db2 k)"
proof -
  have l: "length (nc_servers db1) = length (nc_servers db2)" using assms(3) by (rule map_eq_imp_length_eq)
  then have n: "nc_nservers db1 = nc_nservers db2"
    using assms(1,2) by (simp add: conn_wf_def word_unat_eq_iff)
  have e: "srv_key (nc_servers db1 ! i) = srv_key (nc_servers db2 ! i)" if "i < length (nc_servers db2)" for i
    using assms(3) l that by (metis nth_map)
  obtain c where c: "checksum k = Some c" using checksum_total by blast
  show ?thesis by (auto simp: select_srv_def Let_def n l c e)
qed

lemma sorted_keys_unique:
  assumes "conn_sorted db1" and "conn_sorted db2"
    and "mset (map srv_key (nc_servers db1)) = mset (map srv_key (nc_servers db2))"
  shows "map srv_key (nc_servers db1) = map srv_key (nc_servers db2)"
proof -
  have "sort (map srv_key (nc_servers db1)) = map srv_key (nc_servers db2)"
    using assms(2,3) by (intro properties_for_sort) (simp_all add: conn_sorted_def)
  moreover have "sort (map srv_key (nc_servers db1)) = map srv_key (nc_servers db1)"
    using assms(1) by (intro sorted_sort_id) (simp add: conn_sorted_def)
  ultimately show ?thesis by simp
qed

section \<open>What the checksum sees\<close>

lemma load16_prefix:
  "take 2 a = take 2 b \<Longrightarrow> load16 a 0 = load16 b 0"
proof -
  assume t: "take 2 a = take 2 b"
  then have "2 \<le> length a \<longleftrightarrow> 2 \<le> length b" by (metis length_take min.absorb_iff2)
  then show ?thesis using t by (simp add: load16_def rd_def numeral_2_eq_2)
qed

lemma sum_words_prefix:
  assumes "take (n div 2 + 1) a = take (n div 2 + 1) b"
  shows "map_option (\<lambda>(b, n, s). (take 1 b, n, s)) (sum_words n a acc) =
    map_option (\<lambda>(b, n, s). (take 1 b, n, s)) (sum_words n b acc)"
  using assms
proof (induction n a acc arbitrary: b rule: sum_words.induct)
  case (1 n a acc)
  show ?case
  proof (cases "n > 1")
    case False
    then have "take 1 a = take 1 b" using "1.prems" by (cases n) simp_all
    with False show ?thesis by (simp add: sum_words.simps)
  next
    case True
    then obtain m where m: "n = m + 2" by (metis add.commute less_iff_succ_less_eq less_eqE one_add_one Suc_eq_plus1 Suc_leI)
    then have p: "take (m div 2 + 2) a = take (m div 2 + 2) b" using "1.prems" by simp
    then have "take 2 a = take 2 b" by (metis add.commute min.absorb1 le_add1 take_take)
    then have l: "load16 a 0 = load16 b 0" by (rule load16_prefix)
    have "take (m div 2 + 1) (drop 1 a) = take (m div 2 + 1) (drop 1 b)"
      using arg_cong [OF p, of "drop 1"] by (simp add: drop_take)
    with "1.IH" [OF True, of _ "drop 1 b"] m have
      "map_option (\<lambda>(b, n, s). (take 1 b, n, s)) (sum_words (n - 2) (drop 1 a) (acc + ucast x)) =
       map_option (\<lambda>(b, n, s). (take 1 b, n, s)) (sum_words (n - 2) (drop 1 b) (acc + ucast x))"
      if "load16 a 0 = Some x" for x using that by simp
    with True l show ?thesis by (subst (1 2) sum_words.simps) (auto split: option.splits)
  qed
qed

lemma checksum_prefix:
  assumes "length a = length b" and "take (length a div 2 + 1) a = take (length a div 2 + 1) b"
  shows "checksum a = checksum b"
proof -
  obtain a' n acc where a: "sum_words (length a) a 0 = Some (a', n, acc)" "n \<le> length a'"
    using sum_words_total [of "length a" a 0] by auto
  obtain b' n' acc' where b: "sum_words (length b) b 0 = Some (b', n', acc')" "n' \<le> length b'"
    using sum_words_total [of "length b" b 0] by auto
  have e: "take 1 a' = take 1 b'" "n = n'" "acc = acc'"
    using sum_words_prefix [OF assms(2), of 0] a(1) b(1) assms(1) by simp_all
  have "rd a' 0 1 = rd b' 0 1" if "0 < n" using e a(2) b(2) that by (simp add: rd_def)
  with a(1) b(1) e(2,3) show ?thesis by (auto simp: checksum_def)
qed

end
