(* ===== verification/Client_Stats.thy ===== *)
theory Client_Stats
  imports Client_Ok
begin

text \<open>
  Statistics from several servers (\<^verbatim>\<open>nmdb_stats()\<close>): where in the caller's buffer the counters
  of each server are. The size that \<^verbatim>\<open>get_rep()\<close> gives includes the four bytes of the
  length field, but the copy starts behind them: it takes four bytes of the temporary buffer
  that no reply has, and the next server's counters follow behind these.
\<close>

text \<open>A server's reply: its counters, with their length before them.\<close>

definition stats_msg :: "bytes \<Rightarrow> bytes" where
  "stats_msg c = reply_msg REP_OK (be32 (length c) @ c)"

definition dgram_srv :: "nmdb_srv \<Rightarrow> bool" where
  "dgram_srv s \<longleftrightarrow> srv_valid s \<and> conn_transport s \<noteq> TCP"

lemma dgram_srv: "dgram_srv s \<Longrightarrow> srv_valid s \<and> moff s = 0 \<and> conn_transport s \<noteq> TCP \<and> sr_type s \<noteq> TCP_CONN"
  by (auto simp: dgram_srv_def moff_transport conn_transport_def)

lemma u64_of_unat: "unat (x :: u64) = k \<Longrightarrow> x = of_nat k"
  by (metis of_nat_unat ucast_id)

lemma stats_step:
  assumes "dgram_srv s" and "good (cw_ms w)" and "cw_sends w = []" and "cw_recvs w = Some (stats_msg c) # rs"
    and "12 + length c \<le> length tmpbuf" and "length c < 2 ^ 16"
  obtains w0 w1 ms where "new_packet (Some s) REQ_STATS 0 0 w = Some (Some (header 1 REQ_STATS 0), 8, 8, w0)"
    and "srv_send (Some s) (header 1 REQ_STATS 0) 8 w0 = Some (1, header 1 REQ_STATS 0, w1)"
    and "get_rep (Some s) tmpbuf (length tmpbuf) w1 = Some (REP_OK, Some (8, 4 + of_nat (length c)),
      stats_msg c @ drop (12 + length c) tmpbuf,
      w\<lparr>cw_ms := ms, cw_sent := cw_sent w @ [(sr_fd s, header 1 REQ_STATS 0)], cw_recvs := rs\<rparr>)"
    and "good ms"
proof -
  note v = dgram_srv [OF assms(1)]
  obtain ms where ms: "good ms" "new_packet (Some s) REQ_STATS 0 0 w =
      Some (Some (header 1 REQ_STATS 0), 8, 8, w\<lparr>cw_ms := ms\<rparr>)"
    using new_packet_ok [of w 0 0 s REQ_STATS 0] assms(2) v by auto
  have ne: "header 1 REQ_STATS 0 \<noteq> []" using length_header [of 1 REQ_STATS 0] by (metis list.size(3) zero_neq_numeral)
  have fr: "frame (conn_transport s) x = x" for x using v by (simp add: frame_def)
  let ?w1 = "w\<lparr>cw_ms := ms, cw_sent := cw_sent w @ [(sr_fd s, header 1 REQ_STATS 0)]\<rparr>"
  have sd: "srv_send (Some s) (header 1 REQ_STATS 0) 8 (w\<lparr>cw_ms := ms\<rparr>) = Some (1, header 1 REQ_STATS 0, ?w1)"
    using srv_send_ok [of s "w\<lparr>cw_ms := ms\<rparr>" "header 1 REQ_STATS 0" "[]"] v assms(3) ne by (simp add: fr)
  have rc: "cw_recvs ?w1 = Some (reply_msg REP_OK (be32 (length c) @ c)) # rs"
    using assms(4) by (simp add: stats_msg_def)
  have l: "8 + length (be32 (length c) @ c) \<le> length tmpbuf" using assms(5) by simp
  have "get_rep (Some s) tmpbuf (length tmpbuf) ?w1 = Some (REP_OK, Some (8, 4 + of_nat (length c)),
      stats_msg c @ drop (12 + length c) tmpbuf, ?w1\<lparr>cw_recvs := rs\<rparr>)"
    using dgram_get_rep_ok [OF rc l, of s] v
    by (auto simp: get_rep_def srv_valid_def stats_msg_def)
  then show thesis using ms sd by (intro that) auto
qed

text \<open>
  The buffer's content: for every server its counters and the four stray bytes \<open>junk\<close>.
\<close>

definition stats_image :: "bytes \<Rightarrow> bytes list \<Rightarrow> bytes" where
  "stats_image junk cs = concat (map (\<lambda>c. c @ junk) cs)"

lemma stats_image_simps [simp]:
  "stats_image junk [] = []" "stats_image junk (c # cs) = c @ junk @ stats_image junk cs"
  by (simp_all add: stats_image_def)

lemma length_stats_image: "\<forall>c\<in>set cs. length c = n \<Longrightarrow> length (stats_image junk cs) = (n + length junk) * length cs"
  by (induction cs) simp_all

lemma stats_image_nth:
  assumes "length junk = 4" and "i < length cs" and "\<forall>c\<in>set cs. length c = n"
  shows "take n (drop ((n + 4) * i) (stats_image junk cs @ z)) = cs ! i"
  using assms
proof (induction cs arbitrary: i)
  case (Cons c cs)
  show ?case
  proof (cases i)
    case (Suc k)
    have "drop ((n + 4) * i) (stats_image junk (c # cs) @ z) = drop ((n + 4) * k) (stats_image junk cs @ z)"
      using Cons.prems by (simp add: Suc)
    with Cons Suc show ?thesis by simp
  qed (use Cons.prems in simp)
qed simp

lemma stats_loop_ok:
  assumes "list_all dgram_srv srvs" and "length cs = length srvs" and "\<forall>c\<in>set cs. length c = n"
    and "good (cw_ms w)" and "cw_sends w = []" and "cw_recvs w = map (\<lambda>c. Some (stats_msg c)) cs @ rs"
    and "4 \<le> n" and "n < 2 ^ 16" and "16 + n \<le> length tmpbuf" and "off + (n + 4) * length cs \<le> length buf"
    and "bsize = of_nat (length buf - off)" and "length buf < 2 ^ 32"
    and "nstats = 0 \<or> nstats = of_nat ((n + 4) div 8)"
  shows "\<exists>w'. stats_loop srvs tmpbuf buf off bsize nstats w = Some (1,
      take off buf @ stats_image (take 4 (drop (12 + n) tmpbuf)) cs @ drop (off + (n + 4) * length cs) buf,
      if srvs = [] then nstats else of_nat ((n + 4) div 8), w') \<and>
    cw_sent w' = cw_sent w @ map (\<lambda>s. (sr_fd s, header 1 REQ_STATS 0)) srvs \<and> cw_recvs w' = rs"
  using assms
proof (induction srvs arbitrary: cs w tmpbuf buf off bsize nstats)
  case (Cons s srvs)
  obtain c cs' where cs: "cs = c # cs'" using Cons.prems(2) by (cases cs) simp_all
  have c: "length c = n" using Cons.prems(3) cs by simp
  let ?junk = "take 4 (drop (12 + n) tmpbuf)" and ?m = "(n + 4) * length cs'"
  have len: "off + (n + 4) + ?m \<le> length buf" using Cons.prems(10) cs by (simp add: algebra_simps)
  obtain w0 w1 ms where st: "new_packet (Some s) REQ_STATS 0 0 w = Some (Some (header 1 REQ_STATS 0), 8, 8, w0)"
    "srv_send (Some s) (header 1 REQ_STATS 0) 8 w0 = Some (1, header 1 REQ_STATS 0, w1)"
    "get_rep (Some s) tmpbuf (length tmpbuf) w1 = Some (REP_OK, Some (8, 4 + of_nat (length c)),
      stats_msg c @ drop (12 + length c) tmpbuf,
      w\<lparr>cw_ms := ms, cw_sent := cw_sent w @ [(sr_fd s, header 1 REQ_STATS 0)],
        cw_recvs := map (\<lambda>c. Some (stats_msg c)) cs' @ rs\<rparr>)" "good ms"
    by (rule stats_step [of s w c "map (\<lambda>c. Some (stats_msg c)) cs' @ rs" tmpbuf])
      (use Cons.prems cs c in auto)
  let ?w2 = "w\<lparr>cw_ms := ms, cw_sent := cw_sent w @ [(sr_fd s, header 1 REQ_STATS 0)],
        cw_recvs := map (\<lambda>c. Some (stats_msg c)) cs' @ rs\<rparr>"
  let ?tmp = "stats_msg c @ drop (12 + n) tmpbuf"
  have lt: "length ?tmp = length tmpbuf" using Cons.prems(9) c by (simp add: stats_msg_def)
  have u: "unat (4 + of_nat n :: u64) = n + 4" using Cons.prems(8) by (simp add: unat_word_ariths unat_of_nat_u64)
  have d12: "drop 12 (stats_msg c) = c" "length (stats_msg c) = 12 + n"
    using c by (simp_all add: stats_msg_def reply_msg_def)
  have rdj: "rd ?tmp 12 (n + 4) = Some (c @ ?junk)"
    using Cons.prems(9) c d12 by (simp add: rd_def)
  have lj: "length ?junk = 4" using Cons.prems(9) by simp
  let ?buf = "take off buf @ (c @ ?junk) @ drop (off + (n + 4)) buf"
  have pt: "put_at buf off (c @ ?junk) = Some ?buf" using len c lj by (simp add: put_at_def)
  have lb: "length ?buf = length buf" using len c lj by simp
  have ub: "unat bsize = length buf - off" unfolding Cons.prems(11) using Cons.prems(12) by (simp add: unat_of_nat_u64)
  have nl: "\<not> bsize < 4 + of_nat n" using ub u len by (simp add: word_less_nat_alt)
  have sub: "unat (bsize - (4 + of_nat n)) = length buf - (off + (n + 4))"
    using nl ub u by (subst unat_sub) (simp_all add: not_less)
  then have bs: "bsize - (4 + of_nat n) = of_nat (length ?buf - (off + (n + 4)))"
    unfolding lb by (rule u64_of_unat)
  have dv: "ucast ((4 + of_nat n :: u64) div 8) = (of_nat ((n + 4) div 8) :: u32)"
    "ucast (of_nat ((n + 4) div 8) :: u32) = (4 + of_nat n :: u64) div 8"
  proof -
    have d: "unat ((4 + of_nat n :: u64) div 8) = (n + 4) div 8" by (simp add: unat_div u)
    then have e: "(4 + of_nat n :: u64) div 8 = of_nat ((n + 4) div 8)" by (rule u64_of_unat)
    have "(n + 4) div 8 < 2 ^ 32" "(n + 4) div 8 < 2 ^ 64" using Cons.prems(8) by simp_all
    then show "ucast ((4 + of_nat n :: u64) div 8) = (of_nat ((n + 4) div 8) :: u32)"
      unfolding e by (simp add: unsigned_of_nat take_bit_nat_eq_self)
    have "(n + 4) div 8 < 2 ^ 32" using Cons.prems(8) by simp
    then show "ucast (of_nat ((n + 4) div 8) :: u32) = (4 + of_nat n :: u64) div 8"
      unfolding e by (simp add: unsigned_of_nat take_bit_nat_eq_self)
  qed
  have tj: "take 4 (drop (12 + n) ?tmp) = ?junk" using d12 by simp
  obtain w' where ih: "stats_loop srvs ?tmp ?buf (off + (n + 4)) (bsize - (4 + of_nat n)) (of_nat ((n + 4) div 8)) ?w2 = Some (1,
      take (off + (n + 4)) ?buf @ stats_image (take 4 (drop (12 + n) ?tmp)) cs' @ drop (off + (n + 4) + ?m) ?buf,
      if srvs = [] then of_nat ((n + 4) div 8) else of_nat ((n + 4) div 8), w')"
    "cw_sent w' = cw_sent ?w2 @ map (\<lambda>s. (sr_fd s, header 1 REQ_STATS 0)) srvs" "cw_recvs w' = rs"
    using Cons.IH [where cs = cs' and w = ?w2 and tmpbuf = ?tmp and buf = ?buf and off = "off + (n + 4)" and
        bsize = "bsize - (4 + of_nat n)" and nstats = "of_nat ((n + 4) div 8)"]
      Cons.prems cs st(4) lt lb bs len by auto
  have ne: "(of_nat ((n + 4) div 8) :: u32) \<noteq> 0" if "nstats \<noteq> 0" using that Cons.prems(13) by auto
  have "stats_loop (s # srvs) tmpbuf buf off bsize nstats w =
      stats_loop srvs ?tmp ?buf (off + (n + 4)) (bsize - (4 + of_nat n)) (of_nat ((n + 4) div 8)) ?w2"
    using st(1-3) rdj pt nl u dv Cons.prems(13) by (auto simp: c Let_def)
  moreover have "take (off + (n + 4)) ?buf = take off buf @ c @ ?junk" "drop (off + (n + 4) + ?m) ?buf = drop (off + (n + 4) * length cs) buf"
    using len c lj cs by (simp_all add: algebra_simps)
  ultimately show ?case using ih [unfolded tj] by (simp add: cs)
qed simp

text \<open>One server, over whatever transport, with its reply in any pieces on a stream.\<close>

lemma stats_reply_parts:
  assumes "srv_valid s"
  obtains pre where "frame (conn_transport s) (stats_msg c) = pre @ c" and "length pre = moff s + 12"
proof (cases "conn_transport s = TCP")
  case True
  then show ?thesis using assms
    by (intro that [of "be32 (12 + length (be32 (length c) @ c)) @ store32 (htonl ID_CODE) @ store32 (htonl REP_OK) @ be32 (length c)"])
      (simp_all add: frame_def stats_msg_def reply_msg_def moff_transport be32_def del: store32_htonl)
next
  case False
  then show ?thesis using assms
    by (intro that [of "store32 (htonl ID_CODE) @ store32 (htonl REP_OK) @ be32 (length c)"])
      (simp_all add: frame_def stats_msg_def reply_msg_def moff_transport del: store32_htonl)
qed

lemma stats_one:
  assumes "srv_valid s" and "good (cw_ms w)" and "cw_sends w = []" and "arrives w (conn_transport s) (stats_msg c) rest"
    and "moff s + 16 + length c \<le> length tmpbuf" and "length c + 4 \<le> length buf" and "length buf < 2 ^ 32"
    and "length c < 2 ^ 16"
  shows "\<exists>w'. stats_loop [s] tmpbuf buf 0 (of_nat (length buf)) 0 w = Some (1,
      c @ take 4 (drop (moff s + 12 + length c) tmpbuf) @ drop (length c + 4) buf, of_nat ((length c + 4) div 8), w') \<and>
    did w w' s (header 1 REQ_STATS 0) rest"
proof -
  obtain ms where ms: "good ms" and np: "new_packet (Some s) REQ_STATS 0 0 w =
      Some (Some (replicate (moff s) 0 @ header 1 REQ_STATS 0), moff s + 8, moff s + 8, w\<lparr>cw_ms := ms\<rparr>)"
    using new_packet_ok [of w 0 0 s REQ_STATS 0] assms(1,2) by auto
  have ne: "header 1 REQ_STATS 0 \<noteq> []" using length_header [of 1 REQ_STATS 0] by (metis list.size(3) zero_neq_numeral)
  let ?w1 = "w\<lparr>cw_ms := ms, cw_sent := cw_sent w @ [(sr_fd s, frame (conn_transport s) (header 1 REQ_STATS 0))]\<rparr>"
  have sd: "srv_send (Some s) (replicate (moff s) 0 @ header 1 REQ_STATS 0) (moff s + 8) (w\<lparr>cw_ms := ms\<rparr>) =
      Some (1, frame (conn_transport s) (header 1 REQ_STATS 0), ?w1)"
    using srv_send_ok [OF assms(1), of "w\<lparr>cw_ms := ms\<rparr>" "header 1 REQ_STATS 0" "[]"] assms(3) ne by simp
  obtain pre where pre: "frame (conn_transport s) (stats_msg c) = pre @ c" "length pre = moff s + 12"
    using assms(1) by (rule stats_reply_parts)
  let ?tmp = "pre @ c @ drop (moff s + 12 + length c) tmpbuf" and ?w2 = "?w1\<lparr>cw_recvs := rest\<rparr>"
  have "arrives ?w1 (conn_transport s) (reply_msg REP_OK (be32 (length c) @ c)) rest"
    using assms(4) by (simp add: stats_msg_def)
  from get_rep_ok [OF assms(1) this, of tmpbuf] assms(5,8) pre(1)
  have g: "get_rep (Some s) tmpbuf (length tmpbuf) ?w1 = Some (REP_OK, Some (moff s + 8, 4 + of_nat (length c)), ?tmp, ?w2)"
    by (simp add: stats_msg_def add.assoc)
  let ?junk = "take 4 (drop (moff s + 12 + length c) tmpbuf)"
  have lj: "length ?junk = 4" using assms(5) by simp
  have u: "unat (4 + of_nat (length c) :: u64) = length c + 4" using assms(8) by (simp add: unat_word_ariths unat_of_nat_u64)
  have rdj: "rd ?tmp (moff s + 8 + 4) (length c + 4) = Some (c @ ?junk)"
    using assms(5) pre(2) by (simp add: rd_def)
  have pt: "put_at buf 0 (c @ ?junk) = Some (c @ ?junk @ drop (length c + 4) buf)"
    using put_at_front [of "c @ ?junk" buf] assms(6) lj by simp
  have nl: "\<not> of_nat (length buf) < (4 + of_nat (length c) :: u64)"
    using u assms(6,7) by (simp add: word_less_nat_alt unat_of_nat_u64)
  have dv: "ucast ((4 + of_nat (length c) :: u64) div 8) = (of_nat ((length c + 4) div 8) :: u32)"
  proof -
    have "unat ((4 + of_nat (length c) :: u64) div 8) = (length c + 4) div 8" by (simp add: unat_div u)
    then have "(4 + of_nat (length c) :: u64) div 8 = of_nat ((length c + 4) div 8)" by (rule u64_of_unat)
    moreover have "(length c + 4) div 8 < 2 ^ 32" "(length c + 4) div 8 < 2 ^ 64" using assms(8) by simp_all
    ultimately show ?thesis by (simp add: unsigned_of_nat take_bit_nat_eq_self)
  qed
  have "stats_loop [s] tmpbuf buf 0 (of_nat (length buf)) 0 w = Some (1, c @ ?junk @ drop (length c + 4) buf,
      of_nat ((length c + 4) div 8), ?w2)"
    using np sd g rdj pt nl u dv by (simp add: Let_def)
  moreover have "did w ?w2 s (header 1 REQ_STATS 0) rest" using ms assms(3) by (simp add: did_def)
  ultimately show ?thesis by blast
qed

end
