(* ===== verification/Startup.thy ===== *)
theory Startup
  imports Dbloop
begin

text \<open>
  Starting and stopping the server: the command line (\<^verbatim>\<open>load_settings()\<close> in
  \<^verbatim>\<open>nmdb/main.c\<close>), the log (\<^verbatim>\<open>nmdb/log.c\<close>), the signal handlers of \<^verbatim>\<open>nmdb/net.c\<close>,
  the two ends of \<^verbatim>\<open>main()\<close>, and \<^verbatim>\<open>db_loop_start()\<close> and \<^verbatim>\<open>db_loop_stop()\<close> of
  \<^verbatim>\<open>nmdb/dbloop.c\<close>. What the operating system answers (descriptors, process identifiers, the
  time) is a parameter; what is printed on the terminal and written to the log is a value.
\<close>

section \<open>The C library's option parser\<close>

text \<open>
  \<^verbatim>\<open>atoi()\<close>: the number at the start of a string; one that is no \<^verbatim>\<open>int\<close> is undefined
  behaviour.
\<close>

definition int_min :: int where "int_min = - (2 ^ 31)"
definition int_max :: int where "int_max = 2 ^ 31 - 1"

definition atoi :: "string \<Rightarrow> int option" where
  "atoi s = (let n = strtoll_str (map of_char s) in if int_min \<le> n \<and> n \<le> int_max then Some n else None)"

definition takes_arg :: "char \<Rightarrow> bool" where
  "takes_arg c \<longleftrightarrow> c \<in> set ''bdlLtTuUsScoi''"

definition plain_opt :: "char \<Rightarrow> bool" where
  "plain_opt c \<longleftrightarrow> c \<in> set ''fprh''"

text \<open>
  \<^verbatim>\<open>getopt()\<close> with the program's option string, as GNU's library does it: arguments that are no
  options are passed over, \<^verbatim>\<open>--\<close> ends the options, an option may have its argument attached,
  options without one may share a dash; everything else is reported as a question mark. The first
  argument is what is left of a group of options.
\<close>

function getopt :: "string \<Rightarrow> string list \<Rightarrow> (char \<times> string option) list" where
  "getopt [] [] = []"
| "getopt [] (a # as) =
     (if a = ''--'' then []
      else if length a < 2 \<or> hd a \<noteq> CHR ''-'' then getopt [] as
      else getopt (tl a) as)"
| "getopt (c # cs) as =
     (if takes_arg c then
        (if cs \<noteq> [] then (c, Some cs) # getopt [] as
         else case as of [] \<Rightarrow> [(CHR ''?'', None)] | a # as' \<Rightarrow> (c, Some a) # getopt [] as')
      else if plain_opt c then (c, None) # getopt cs as
      else (CHR ''?'', None) # getopt cs as)"
  by pat_completeness auto
termination
  by (relation "measure (\<lambda>(cs, as). length cs + sum_list (map (\<lambda>a. length a + 1) as))") (auto split: list.splits)

section \<open>Settings\<close>

definition strdup :: "string \<Rightarrow> alloc \<Rightarrow> string option \<times> alloc" where
  "strdup s ms = (let (ok, ms) = malloc ms in (if ok then Some s else None, ms))"

text \<open>The help text.\<close>

definition nl :: string where "nl = [CHR 0x0a]"
definition tab :: string where "tab = [CHR 0x09]"

definition help_text :: "be_enable \<Rightarrow> string" where
  "help_text en =
     ''nmdb [options]'' @ nl @ nl @
     ''  -b backend'' @ tab @ ''backend to use ('' @ the (DEFAULT_BE_NAME en) @ '')'' @ nl @
     ''  -d dbpath'' @ tab @ ''database path ('' @ [CHR 0x27] @ ''database'' @ [CHR 0x27] @ '' by default)'' @ nl @
     ''  -l lower'' @ tab @ ''TIPC lower port number (10)'' @ nl @
     ''  -L upper'' @ tab @ ''TIPC upper port number (= lower)'' @ nl @
     ''  -t port'' @ tab @ ''TCP listening port (26010)'' @ nl @
     ''  -T addr'' @ tab @ ''TCP listening address (all local addresses)'' @ nl @
     ''  -u port'' @ tab @ ''UDP listening port (26010)'' @ nl @
     ''  -U addr'' @ tab @ ''UDP listening address (all local addresses)'' @ nl @
     ''  -s port'' @ tab @ ''SCTP listening port (26010)'' @ nl @
     ''  -S addr'' @ tab @ ''SCTP listening address (all local addresses)'' @ nl @
     ''  -c nobj'' @ tab @ ''max. number of objects to be cached, in thousands (128)'' @ nl @
     ''  -o fname'' @ tab @ ''log to the given file (stdout).'' @ nl @
     ''  -i pidfile file to write the PID to (none).'' @ nl @
     ''  -f'' @ tab @ tab @ ''don'' @ [CHR 0x27] @ ''t fork and stay in the foreground'' @ nl @
     ''  -p'' @ tab @ tab @ ''enable passive mode, for redundancy purposes (read docs.)'' @ nl @
     ''  -r'' @ tab @ tab @ ''read-only mode'' @ nl @
     ''  -h'' @ tab @ tab @ ''show this help'' @ nl @ nl @
     ''Available backends: '' @ SUPPORTED_BE en @ nl @ nl @
     ''Please report bugs to Alberto Bertogli (albertito@blitiri.com.ar)'' @ nl @ nl"

definition unknown_parameter :: "char \<Rightarrow> string" where
  "unknown_parameter c = ''Unknown parameter '' @ [CHR 0x27, c, CHR 0x27] @ nl"

text \<open>One turn of the loop; \<open>Inl\<close> is the return of 0 after printing a text.\<close>

definition set_option :: "be_enable \<Rightarrow> char \<Rightarrow> string option \<Rightarrow> settings \<Rightarrow> alloc \<Rightarrow> (string + settings \<times> alloc) option" where
  "set_option en c optarg st ms =
     (case optarg of
        Some a \<Rightarrow>
          (if c = CHR ''b'' then Some (Inr (st\<lparr>se_backend := be_type_from_str en a\<rparr>, ms))
           else if c = CHR ''d'' then (let (s, ms) = strdup a ms in Some (Inr (st\<lparr>se_dbname := s\<rparr>, ms)))
           else if c = CHR ''l'' then do { n \<leftarrow> atoi a; Some (Inr (st\<lparr>se_tipc_lower := n\<rparr>, ms)) }
           else if c = CHR ''L'' then do { n \<leftarrow> atoi a; Some (Inr (st\<lparr>se_tipc_upper := n\<rparr>, ms)) }
           else if c = CHR ''t'' then do { n \<leftarrow> atoi a; Some (Inr (st\<lparr>se_tcp_port := n\<rparr>, ms)) }
           else if c = CHR ''T'' then Some (Inr (st\<lparr>se_tcp_addr := Some a\<rparr>, ms))
           else if c = CHR ''u'' then do { n \<leftarrow> atoi a; Some (Inr (st\<lparr>se_udp_port := n\<rparr>, ms)) }
           else if c = CHR ''U'' then Some (Inr (st\<lparr>se_udp_addr := Some a\<rparr>, ms))
           else if c = CHR ''s'' then do { n \<leftarrow> atoi a; Some (Inr (st\<lparr>se_sctp_port := n\<rparr>, ms)) }
           else if c = CHR ''S'' then Some (Inr (st\<lparr>se_sctp_addr := Some a\<rparr>, ms))
           else if c = CHR ''c'' then do {
             n \<leftarrow> atoi a;
             if int_min \<le> n * 1024 \<and> n * 1024 \<le> int_max then Some (Inr (st\<lparr>se_numobjs := n * 1024\<rparr>, ms)) else None
           }
           else if c = CHR ''o'' then (let (s, ms) = strdup a ms in Some (Inr (st\<lparr>se_logfname := s\<rparr>, ms)))
           else if c = CHR ''i'' then (let (s, ms) = strdup a ms in Some (Inr (st\<lparr>se_pidfile := s\<rparr>, ms)))
           else Some (Inl (unknown_parameter c)))
      | None \<Rightarrow>
          (if c = CHR ''f'' then Some (Inr (st\<lparr>se_foreground := True\<rparr>, ms))
           else if c = CHR ''p'' then Some (Inr (st\<lparr>se_passive := True\<rparr>, ms))
           else if c = CHR ''r'' then Some (Inr (st\<lparr>se_read_only := True\<rparr>, ms))
           else if c = CHR ''h'' \<or> c = CHR ''?'' then Some (Inl (help_text en))
           else Some (Inl (unknown_parameter c))))"

fun set_options :: "be_enable \<Rightarrow> (char \<times> string option) list \<Rightarrow> settings \<Rightarrow> alloc \<Rightarrow> (string + settings \<times> alloc) option" where
  "set_options en [] st ms = Some (Inr (st, ms))"
| "set_options en ((c, a) # os) st ms = do {
     r \<leftarrow> set_option en c a st ms;
     (case r of Inl msg \<Rightarrow> Some (Inl msg) | Inr (st, ms) \<Rightarrow> set_options en os st ms)
   }"

definition default_int :: "int \<Rightarrow> int \<Rightarrow> int" where
  "default_int n d = (if n = - 1 then d else n)"

definition default_str :: "string option \<Rightarrow> string \<Rightarrow> string option" where
  "default_str s d = (if s = None then Some d else s)"

definition fill_defaults :: "settings \<Rightarrow> settings" where
  "fill_defaults st = st\<lparr>
     se_tipc_lower := default_int (se_tipc_lower st) 10,
     se_tipc_upper := default_int (se_tipc_upper st) (default_int (se_tipc_lower st) 10),
     se_tcp_addr := default_str (se_tcp_addr st) ''0.0.0.0'',
     se_tcp_port := default_int (se_tcp_port st) 26010,
     se_udp_addr := default_str (se_udp_addr st) ''0.0.0.0'',
     se_udp_port := default_int (se_udp_port st) 26010,
     se_sctp_addr := default_str (se_sctp_addr st) ''0.0.0.0'',
     se_sctp_port := default_int (se_sctp_port st) 26010,
     se_numobjs := default_int (se_numobjs st) (128 * 1024)\<rparr>"

text \<open>
  The result: undefined, or the text that is printed before the function returns 0, or the settings
  and what is left of memory. The program does not compile without a backend.
\<close>

definition load_settings :: "be_enable \<Rightarrow> string list \<Rightarrow> alloc \<Rightarrow> (string + settings \<times> alloc) option" where
  "load_settings en args ms = do {
     be \<leftarrow> DEFAULT_BE en;
     let (dbname, ms) = strdup ''database'' ms;
     let (logfname, ms) = strdup ''-'' ms;
     let st = \<lparr>se_tipc_lower = - 1, se_tipc_upper = - 1, se_tcp_addr = None, se_tcp_port = - 1,
       se_udp_addr = None, se_udp_port = - 1, se_sctp_addr = None, se_sctp_port = - 1, se_numobjs = - 1,
       se_foreground = False, se_passive = False, se_read_only = False, se_dbname = dbname,
       se_logfname = logfname, se_backend = be, se_pidfile = None\<rparr>;
     r \<leftarrow> set_options en (getopt [] args) st ms;
     (case r of
        Inl msg \<Rightarrow> Some (Inl msg)
      | Inr (st, ms) \<Rightarrow>
          (let st = fill_defaults st in
           if se_backend st = BE_UNKNOWN then Some (Inl (''Error: unknown backend'' @ nl))
           else if se_backend st = BE_UNSUPPORTED then Some (Inl (''Error: unsupported backend'' @ nl))
           else Some (Inr (st, ms))))
   }"

section \<open>The log\<close>

abbreviation MAX_LOG_STR :: nat where "MAX_LOG_STR \<equiv> 512"

text \<open>\<open>opn\<close> is what \<^verbatim>\<open>open()\<close> returns for a name. The results are the return value and the descriptor.\<close>

definition log_init :: "(string \<Rightarrow> int) \<Rightarrow> settings \<Rightarrow> int \<times> int" where
  "log_init opn st = (case se_logfname st of
     None \<Rightarrow> (1, - 1)
   | Some name \<Rightarrow>
       if name = ''-'' then (1, 1)
       else let logfd = opn name in (if logfd < 0 then 0 else 1, logfd))"

definition log_reopen :: "(string \<Rightarrow> int) \<Rightarrow> settings \<Rightarrow> int \<times> int" where
  "log_reopen opn st = log_init opn st"

text \<open>
  \<^verbatim>\<open>wlog()\<close> with the formatted text: \<^verbatim>\<open>vsnprintf()\<close> cuts it to the buffer but returns the length
  of all of it, and that many bytes of the buffer are written. The result is what is written.
\<close>

definition wlog :: "int \<Rightarrow> string \<Rightarrow> string \<Rightarrow> string list option" where
  "wlog logfd timestr str =
     (if logfd = - 1 then Some []
      else if length str < MAX_LOG_STR then Some [timestr, str]
      else if length str = MAX_LOG_STR then Some [timestr, butlast str @ [CHR 0x00]]
      else None)"

text \<open>\<open>err\<close> is what \<^verbatim>\<open>strerror(errno)\<close> gives.\<close>

definition errlog :: "int \<Rightarrow> string \<Rightarrow> string \<Rightarrow> string \<Rightarrow> string list option" where
  "errlog logfd timestr err s = wlog logfd timestr (s @ '': '' @ err @ [CHR 0x0a])"

text \<open>The file that was written and its contents, and what went to the log.\<close>

definition write_pid ::
  "(string \<Rightarrow> bool) \<Rightarrow> string \<Rightarrow> int \<Rightarrow> string \<Rightarrow> string \<Rightarrow> settings \<Rightarrow> ((string \<times> string) option \<times> string list) option" where
  "write_pid fopen pid logfd timestr err st = (case se_pidfile st of
     None \<Rightarrow> Some (None, [])
   | Some name \<Rightarrow>
       if fopen name then Some (Some (name, pid @ nl), [])
       else map_option (Pair None) (errlog logfd timestr err (''Can'' @ [CHR 0x27] @ ''t open pidfile for writing'')))"

section \<open>Signals\<close>

definition passive_to_active_sighandler :: "server \<Rightarrow> server" where
  "passive_to_active_sighandler s =
     s\<lparr>sv_settings := (sv_settings s)\<lparr>se_passive := \<not> se_passive (sv_settings s)\<rparr>\<rparr>"

definition enable_read_only_sighandler :: "server \<Rightarrow> server" where
  "enable_read_only_sighandler s =
     (if \<not> se_read_only (sv_settings s) then s\<lparr>sv_settings := (sv_settings s)\<lparr>se_read_only := True\<rparr>\<rparr> else s)"

definition logfd_reopen_sighandler :: "(string \<Rightarrow> int) \<Rightarrow> string \<Rightarrow> server \<Rightarrow> (int \<times> string list) option" where
  "logfd_reopen_sighandler opn timestr s =
     (let (ok, logfd) = log_reopen opn (sv_settings s) in
      if ok \<noteq> 0 then map_option (Pair logfd) (wlog logfd timestr (''Log reopened'' @ [CHR 0x0a]))
      else Some (logfd, []))"

section \<open>The database thread's ends\<close>

text \<open>\<^verbatim>\<open>db_loop_start()\<close> returns a thread or NULL; whether \<^verbatim>\<open>pthread_create()\<close> failed is not looked at.\<close>

definition db_loop_start :: "alloc \<Rightarrow> bool \<times> alloc" where
  "db_loop_start ms = malloc ms"

text \<open>\<^verbatim>\<open>db_loop_stop()\<close> reads the thread it is given; joining it needs it to be past its loop.\<close>

definition db_loop_stop :: "bool \<Rightarrow> unit option" where
  "db_loop_stop thread = (if thread then Some () else None)"

section \<open>main()\<close>

text \<open>
  \<open>Exited n\<close> is \<^verbatim>\<open>return n\<close>. A running server has its memory, its database, whether there is a
  database thread, the log's descriptor and the file that holds its identifier. Both come with what
  was printed on the terminal and what was written to the log.
\<close>

datatype 'c started = Exited int | Running server "'c db_conn" bool int "(string \<times> string) option"

type_synonym printed = "string list \<times> string list"

record 'c host =
  ho_en :: be_enable
  ho_libs :: "'c be_libs"
  ho_open :: "string \<Rightarrow> int"
  ho_time :: string
  ho_err :: string
  ho_fork :: int
  ho_fopen :: "string \<Rightarrow> bool"
  ho_pid :: string
  ho_sends :: "int list"
  ho_bufs :: "transport \<Rightarrow> bytes"
  ho_fresh :: "bytes list"

definition opened_msg :: "string \<Rightarrow> backend_type \<Rightarrow> string" where
  "opened_msg name be = ''Opened database '' @ [CHR 0x22] @ name @ [CHR 0x22] @ '' with '' @
     be_str_from_type be @ '' backend'' @ [CHR 0x0a]"

text \<open>The failures that are logged.\<close>

definition fails :: "'c host \<Rightarrow> int \<Rightarrow> string list \<Rightarrow> string \<Rightarrow> ('c started \<times> printed) option" where
  "fails ho logfd logged msg =
     map_option (\<lambda>ws. (Exited 1, [], logged @ ws)) (errlog logfd (ho_time ho) (ho_err ho) msg)"

text \<open>\<open>stats0\<close> is the static variable before \<^verbatim>\<open>stats_init()\<close>.\<close>

definition main_start :: "'c host \<Rightarrow> string list \<Rightarrow> stats \<Rightarrow> alloc \<Rightarrow> ('c started \<times> printed) option" where
  "main_start ho args stats0 ms = do {
     r \<leftarrow> load_settings (ho_en ho) args ms;
     (case r of Inl msg \<Rightarrow> Some (Exited 1, [msg], []) | Inr (st, ms) \<Rightarrow>
       let (ok, logfd) = log_init (ho_open ho) st in
       if ok = 0 then Some (Exited 1, [''Error opening log file: '' @ ho_err ho @ nl], [])
       else do {
         (cd, ms) \<leftarrow> cache_create (of_int (se_numobjs st)) 0 ms;
         (case cd of None \<Rightarrow> fails ho logfd [] ''Error creating cache'' | Some cd \<Rightarrow>
           let (q, ms) = queue_create ms in
           (case q of None \<Rightarrow> fails ho logfd [] ''Error creating queue'' | Some q \<Rightarrow> do {
              name \<leftarrow> se_dbname st;
              let (db, ms) = db_open (ho_en ho) (ho_libs ho) (se_backend st) name ms;
              (case db of None \<Rightarrow> fails ho logfd [] ''Error opening DB'' | Some db \<Rightarrow> do {
                 out1 \<leftarrow> wlog logfd (ho_time ho) (opened_msg name (se_backend st));
                 if \<not> se_foreground st \<and> ho_fork ho > 0 then Some (Exited 0, [], out1)
                 else if \<not> se_foreground st \<and> ho_fork ho < 0 then fails ho logfd out1 ''Error in fork()''
                 else do {
                   out2 \<leftarrow> wlog logfd (ho_time ho) (''Starting nmdb'' @ [CHR 0x0a]);
                   (pidf, out3) \<leftarrow> write_pid (ho_fopen ho) (ho_pid ho) logfd (ho_time ho) (ho_err ho) st;
                   let (dbthread, ms) = db_loop_start ms;
                   Some (Running \<lparr>sv_cache = cd, sv_queue = q, sv_settings = st, sv_stats = stats_init stats0,
                     sv_ms = ms, sv_sends = ho_sends ho, sv_out = [], sv_bufs = ho_bufs ho, sv_fresh = ho_fresh ho\<rparr> db dbthread logfd pidf,
                     [], out1 @ out2 @ out3)
                 }
               })
            }))
       })
   }"

text \<open>
  After the event loop: the result is what the database's \<^verbatim>\<open>close\<close> returned, the freed blocks of
  the cache, the file that is unlinked, the freed strings of the settings, and 0.
\<close>

definition free_settings :: "settings \<Rightarrow> string option list" where
  "free_settings st = [se_dbname st, se_logfname st, se_pidfile st]"

definition main_end ::
  "server \<Rightarrow> 'c db_conn \<Rightarrow> bool \<Rightarrow>
    (int \<times> (bytes option \<times> bytes option) list \<times> string option \<times> string option list \<times> int) option" where
  "main_end s db dbthread = do {
     u \<leftarrow> db_loop_stop dbthread;
     rv \<leftarrow> dc_close db (dc_conn db);
     q \<leftarrow> queue_free (sv_queue s);
     (ok, freed) \<leftarrow> cache_free (sv_cache s);
     Some (rv, freed, se_pidfile (sv_settings s), free_settings (sv_settings s), 0)
   }"

end
