(* ===== verification/Stats_Tool.thy ===== *)
theory Stats_Tool
  imports Client Startup
begin

text \<open>
  The \<^verbatim>\<open>nmdb-stats\<close> program (\<^verbatim>\<open>utils/nmdb-stats.c\<close>): it asks one server for its counters
  and prints them with their names.
\<close>

text \<open>Its own copy of \<^verbatim>\<open>ntohll()\<close>.\<close>

definition tool_ntohll :: "u64 \<Rightarrow> u64" where
  "tool_ntohll x = (if endianness = 1 then x
     else ucast (ntohl (ucast (drop_bit 32 x AND 0xFFFFFFFF))) OR
      push_bit 32 (ucast (ntohl (ucast (x AND 0xFFFFFFFF)))))"

datatype stats_line = Usage | ErrAdding | ErrStats int | StatsFor nat | Field u64 string | Blank

abbreviation MAX_STATS_SIZE :: nat where "MAX_STATS_SIZE \<equiv> 64"

text \<open>The names in the order in which they are printed, with their positions in the reply.\<close>

definition stats_table :: "(string \<times> nat) list" where
  "stats_table =
     [(''cache get'', 0), (''cache set'', 1), (''cache del'', 2), (''cache cas'', 3), (''cache incr'', 4),
      (''db get'', 5), (''db set'', 6), (''db del'', 7), (''db cas'', 8), (''db incr'', 9),
      (''db firstkey'', 21), (''db nextkey'', 22), (''cache hits'', 10), (''cache misses'', 11),
      (''db hits'', 12), (''db misses'', 13), (''msg tipc'', 14), (''msg tcp'', 15), (''msg udp'', 16),
      (''msg sctp'', 17), (''version mismatch'', 18), (''broken requests'', 19), (''unknown requests'', 20)]"

text \<open>The macro \<^verbatim>\<open>shst\<close>: an element outside the array is undefined behaviour.\<close>

definition shst :: "bytes \<Rightarrow> nat \<Rightarrow> string \<Rightarrow> nat \<Rightarrow> stats_line option" where
  "shst stats j s pos = do { x \<leftarrow> load64 stats (8 * (j + pos)); Some (Field (tool_ntohll x) s) }"

fun show_fields :: "bytes \<Rightarrow> nat \<Rightarrow> (string \<times> nat) list \<Rightarrow> stats_line list option" where
  "show_fields stats j [] = Some []"
| "show_fields stats j ((s, pos) # ps) = do {
     l \<leftarrow> shst stats j s pos;
     ls \<leftarrow> show_fields stats j ps;
     Some (l # ls)
   }"

fun show_servers :: "bytes \<Rightarrow> nat \<Rightarrow> nat list \<Rightarrow> stats_line list option" where
  "show_servers stats nstats [] = Some []"
| "show_servers stats nstats (i # is) = do {
     let j = nstats * i;
     fs \<leftarrow> show_fields stats j (stats_table @ map (Pair ''unknown field'') [23..<nstats]);
     ls \<leftarrow> show_servers stats nstats is;
     Some (StatsFor i # fs @ [Blank] @ ls)
   }"

text \<open>
  A connection that could not be allocated is dereferenced by the functions that add a server,
  unless they fail before: \<open>early\<close>.
\<close>

definition with_conn ::
  "nmdb_conn option \<Rightarrow> bool \<Rightarrow> (nmdb_conn \<Rightarrow> int \<times> nmdb_conn \<times> cworld) \<Rightarrow> (int \<times> nmdb_conn \<times> cworld) option option" where
  "with_conn db early add = (case db of
     Some db \<Rightarrow> Some (Some (add db))
   | None \<Rightarrow> if early then Some (Some (add \<lparr>nc_nservers = 0, nc_servers = []\<rparr>)) else None)"

text \<open>
  The program on its arguments without its name. The results of the system calls are parameters as
  in the library; \<open>tmpbuf\<close> and \<open>stats0\<close> are what is on the stack. The result is the exit code and
  what is printed.
\<close>

definition stats_main ::
  "(string \<Rightarrow> u32 option) \<Rightarrow> (string \<Rightarrow> u32 option) \<Rightarrow> string list \<Rightarrow> int \<Rightarrow> int \<Rightarrow> int \<Rightarrow> bytes \<Rightarrow> bytes \<Rightarrow> cworld \<Rightarrow>
     (int \<times> stats_line list \<times> cworld) option" where
  "stats_main pton host args fd connected sockopt tmpbuf stats0 w = (
     let (db, w) = nmdb_init w in
     if length args < 2 then Some (1, [Usage], w)
     else do {
       r \<leftarrow>
         (if args ! 0 = ''tipc'' then do {
            port \<leftarrow> atoi (args ! 1);
            with_conn db (fd < 0) (\<lambda>db. nmdb_add_tipc_server db port fd w)
          }
          else if length args \<noteq> 3 then Some None
          else if args ! 0 = ''tcp'' then do {
            port \<leftarrow> atoi (args ! 2);
            with_conn db (fd < 0 \<or> resolve pton host (args ! 1) = None)
              (\<lambda>db. nmdb_add_tcp_server pton host db (args ! 1) port fd connected sockopt w)
          }
          else if args ! 0 = ''udp'' then do {
            port \<leftarrow> atoi (args ! 2);
            with_conn db (fd < 0 \<or> resolve pton host (args ! 1) = None)
              (\<lambda>db. nmdb_add_udp_server pton host db (args ! 1) port fd w)
          }
          else if args ! 0 = ''sctp'' then do {
            port \<leftarrow> atoi (args ! 2);
            with_conn db (fd < 0 \<or> resolve pton host (args ! 1) = None)
              (\<lambda>db. nmdb_add_sctp_server pton host db (args ! 1) port fd sockopt w)
          }
          else Some None);
       (case r of None \<Rightarrow> Some (1, [Usage], w) | Some (rv, db, w) \<Rightarrow>
          if rv = 0 then Some (1, [ErrAdding], w)
          else do {
            (rv, stats, nservers, nstats, w) \<leftarrow> nmdb_stats db tmpbuf stats0 w;
            if rv \<le> 0 then Some (1, [ErrStats rv], w)
            else do {
              nservers \<leftarrow> nservers;
              ls \<leftarrow> show_servers stats (unat nstats) [0..<unat nservers];
              let (_, w) = nmdb_free db w;
              Some (0, ls, w)
            }
          })
     })"

lemma tool_ntohll: "tool_ntohll x = ntohll x"
  by (simp add: tool_ntohll_def ntohll_def)

end
