(* ===== verification/Parse_Safe.thy ===== *)
theory Parse_Safe
  imports Recv_Ok
begin

text \<open>
  Memory safety of request parsing on arbitrary input: whatever bytes a datagram holds, the
  handlers read inside the receive buffer and return, with the invariants of the cache and
  the queue kept. The one exception is stated as a condition: an increment whose key size
  makes \<^verbatim>\<open>ksize + 8\<close> wrap around, whose key has an empty value, or whose sum overflows. Memory is
  assumed to last (\<open>srv_live\<close>): \<^verbatim>\<open>cache.c\<close> itself is undefined when the copy of a key cannot be allocated.
\<close>

section \<open>The state that handlers keep\<close>

definition srv_live :: "server \<Rightarrow> bool" where
  "srv_live s \<longleftrightarrow> cache_wf (sv_cache s) \<and> queue_ok (sv_queue s) \<and> \<not> q_locked (sv_queue s) \<and> good (sv_ms s) \<and>
     (\<forall>k v. lookup (sv_cache s) k = Some v \<longrightarrow> length v \<le> 2 ^ 16) \<and> (\<forall>t. length (sv_bufs s t) = SBSIZE)"

text \<open>A request of \<open>len\<close> bytes in a buffer of \<open>SBSIZE\<close> bytes.\<close>

definition in_buffer :: "req_info \<Rightarrow> bytes \<Rightarrow> nat \<Rightarrow> bool" where
  "in_buffer req mem len \<longleftrightarrow> has_addr req \<and> r_payload req = Some 8 \<and> r_psize req = of_nat (len - 8) \<and>
     8 \<le> len \<and> len + 12 \<le> SBSIZE \<and> length mem = SBSIZE"

definition live_result :: "server option \<Rightarrow> bool" where
  "live_result r \<longleftrightarrow> (\<exists>s. r = Some s \<and> srv_live s)"

lemma live_SomeI [intro]: "srv_live s \<Longrightarrow> live_result (Some s)"
  by (simp add: live_result_def)

lemma sv_bufs_bump [simp]: "sv_bufs (bump s f) = sv_bufs s"
  by (simp add: bump_def)

lemma srv_live_bump [simp]: "srv_live (bump s f) = srv_live s"
  by (simp add: srv_live_def bump_def)

lemma srv_live_fill [simp]: "srv_live (fill_cache_flag s req c d) = srv_live s"
  by (simp add: fill_cache_flag_def)

lemma fill_simps [simp]:
  "sv_cache (fill_cache_flag s req c d) = sv_cache s" "sv_ms (fill_cache_flag s req c d) = sv_ms s"
  by (simp_all add: fill_cache_flag_def)

lemma srv_live_core: "same_core s s' \<Longrightarrow> srv_live s \<Longrightarrow> srv_live s'"
  by (simp add: same_core_def srv_live_def)

lemma live_mini: "srv_live s \<Longrightarrow> srv_live (reply_mini s req r)"
  by (rule srv_live_core [OF reply_mini_core])

lemma live_err: "srv_live s \<Longrightarrow> srv_live (reply_err s req r)"
  by (rule srv_live_core [OF reply_err_core])

lemma live_broken: "srv_live s \<Longrightarrow> srv_live (broken s req)"
  by (simp add: broken_def live_err)

lemma live_long:
  assumes "srv_live s" and "length v < 2 ^ 32"
  shows "live_result (reply_long s req r (Some v) (sz v))"
proof -
  have "good (sv_ms s)" using assms(1) by (simp add: srv_live_def)
  then obtain ms s' where r: "reply_long s req r (Some v) (sz v) = Some s'" "good ms" "same_core (s\<lparr>sv_ms := ms\<rparr>) s'"
    using assms(2) by (rule reply_long_core)
  have "srv_live (s\<lparr>sv_ms := ms\<rparr>)" using assms(1) r(2) by (simp add: srv_live_def)
  with r show ?thesis by (auto simp: live_result_def dest: srv_live_core)
qed

lemma live_queue:
  assumes "srv_live s" and "has_addr req"
  obtains s' where "put_in_queue_long s req operation b key val newval = Some (True, s')" and "srv_live s'"
proof -
  have a: "queue_ok (sv_queue s)" "\<not> q_locked (sv_queue s)" "good (sv_ms s)" using assms(1) by (simp_all add: srv_live_def)
  obtain q ms where q: "good ms" "queue_grows (sv_queue s) q [mk_entry req operation key val newval]"
    "put_in_queue_long s req operation b key val newval = Some (True, s\<lparr>sv_queue := q, sv_ms := ms\<rparr>)"
    using a assms(2) by (rule put_in_queue_long_ok)
  then show thesis using assms(1) by (intro that [OF q(3)]) (auto simp: srv_live_def queue_grows_def)
qed

lemma live_queued:
  assumes "srv_live s" and "has_addr req"
  shows "live_result (queued_or_err req (put_in_queue_long s req operation b key val newval))"
  by (rule live_queue [OF assms, of operation b key val newval]) (auto simp: queued_or_err_def)

section \<open>Sizes and reads\<close>

lemma checked_size:
  assumes "in_buffer req mem len" and "\<not> r_psize req < ucast (ksize :: u32)"
  shows "unat ksize \<le> len - 8"
proof -
  have l: "len - 8 < 2 ^ 64" and p: "r_psize req = of_nat (len - 8)"
    using assms(1) by (auto simp: in_buffer_def SBSIZE_def simp del: of_nat_diff)
  have "unat (r_psize req) = len - 8" unfolding p using l by (rule unat_of_nat_u64)
  with assms(2) show ?thesis by (simp add: word_less_nat_alt unat_ucast_u32_u64)
qed

lemma load_size_in:
  "in_buffer req mem len \<Longrightarrow> off + 4 \<le> 20 \<Longrightarrow> \<exists>n. load_size mem off = Some n"
  by (simp add: load_size_def load32_Some in_buffer_def SBSIZE_def)

lemma rd_in: "in_buffer req mem len \<Longrightarrow> off + n \<le> len + 12 \<Longrightarrow> \<exists>b. rd mem off n = Some b \<and> length b = n"
  by (auto simp: rd_def in_buffer_def)

lemma rd_key:
  assumes "in_buffer req mem len" and "\<not> r_psize req < ucast (ksize :: u32)"
  obtains k where "rd mem 12 (unat ksize) = Some k" and "length k = unat ksize" and "fits k"
proof -
  have "12 + unat ksize \<le> len + 12" using checked_size [OF assms] by linarith
  then obtain k where "rd mem 12 (unat ksize) = Some k" "length k = unat ksize"
    using rd_in [OF assms(1)] by blast
  moreover have "unat ksize < 2 ^ 64 - 1" using unat_lt_u32 by (rule less_le_trans) simp
  with calculation(2) have "fits k" by metis
  ultimately show thesis by (rule that)
qed

lemma rd_buf: "in_buffer req mem len \<Longrightarrow> off + n \<le> SBSIZE \<Longrightarrow> \<exists>b. rd mem off n = Some b \<and> length b = n"
  by (auto simp: rd_def in_buffer_def)

lemma unat_add_max: "\<not> a > 65536 \<Longrightarrow> \<not> b > 65536 \<Longrightarrow> unat ((a :: u32) + b) = unat a + unat b"
  by (simp add: word_less_nat_alt unat_word_ariths take_bit_nat_eq_self)

lemma unat_add_max3:
  assumes "\<not> a > 65536" and "\<not> b > 65536" and "\<not> c > 65536"
  shows "unat ((a :: u32) + b + c) = unat a + unat b + unat c"
proof -
  have "unat a \<le> 65536" "unat b \<le> 65536" "unat c \<le> 65536" using assms by (simp_all add: word_less_nat_alt)
  then show ?thesis by (simp add: unat_word_ariths take_bit_nat_eq_self)
qed

section \<open>The handlers\<close>

lemma parse_get_live:
  assumes "srv_live s" and b: "in_buffer req mem len"
  shows "live_result (parse_get s req mem)"
proof -
  have p: "r_payload req = Some 8" "has_addr req" using b by (simp_all add: in_buffer_def)
  obtain ksize where ld: "load_size mem 8 = Some ksize" using load_size_in [OF b, of 8] by auto
  show ?thesis
  proof (cases "r_psize req < ucast ksize")
    case True
    with p ld live_broken [OF assms(1)] show ?thesis by (auto simp: parse_get_def)
  next
    case False
    obtain k where k: "rd mem 12 (unat ksize) = Some k" and f: "fits k" using b False by (rule rd_key)
    have wf: "cache_wf (sv_cache s)" using assms(1) by (simp add: srv_live_def)
    show ?thesis
    proof (cases "lookup (sv_cache s) k")
      case None
      then have "cache_get (sv_cache s) k = Some (0, None, 0)" using nc.get_law [OF wf f] by simp
      with p ld False k assms(1) show ?thesis
        by (auto simp: parse_get_def put_in_queue_def Let_def intro!: live_SomeI live_queued live_mini)
    next
      case (Some v)
      then have "cache_get (sv_cache s) k = Some (1, Some v, sz v)" using nc.get_law [OF wf f] by simp
      moreover have "length v < 2 ^ 32" using Some assms(1) by (fastforce simp: srv_live_def)
      ultimately show ?thesis
        using p ld False k assms(1) by (simp add: parse_get_def Let_def live_long)
    qed
  qed
qed

lemma live_cache:
  assumes "srv_live s" and "cache_wf cd" and "good ms"
    and "\<forall>k' v'. lookup cd k' = Some v' \<longrightarrow> length v' \<le> 2 ^ 16"
  shows "srv_live (fill_cache_flag s req c d\<lparr>sv_cache := cd, sv_ms := ms\<rparr>)"
  using assms by (simp add: srv_live_def fill_cache_flag_def bump_def)

text \<open>What follows the cache operation in the set and delete handlers.\<close>

lemma live_store:
  assumes "srv_live s" and "has_addr req"
  shows "live_result (do {
      (rv, s) \<leftarrow> put_in_queue s req operation b key val;
      if \<not> rv then Some (reply_err s req ERR_MEM)
      else if \<not> sy then Some (reply_mini s req REP_OK)
      else Some s })"
  by (rule live_queue [OF assms, of operation b key val None]) (auto simp: put_in_queue_def intro: live_mini)

lemma parse_del_live:
  assumes "srv_live s" and b: "in_buffer req mem len"
  shows "live_result (parse_del s req mem)"
proof -
  have p: "r_payload req = Some 8" "has_addr req" using b by (simp_all add: in_buffer_def)
  obtain ksize where ld: "load_size mem 8 = Some ksize" using load_size_in [OF b, of 8] by auto
  consider (broken) "r_psize req < ucast ksize" | (ro) "\<not> r_psize req < ucast ksize" "se_read_only (sv_settings s)"
    | (go) "\<not> r_psize req < ucast ksize" "\<not> se_read_only (sv_settings s)" by blast
  then show ?thesis
  proof cases
    case broken
    with p ld live_broken [OF assms(1)] show ?thesis by (auto simp: parse_del_def)
  next
    case ro
    with p ld live_err [OF assms(1)] show ?thesis by (auto simp: parse_del_def)
  next
    case go
    obtain k where k: "rd mem 12 (unat ksize) = Some k" and f: "fits k" using b go(1) by (rule rd_key)
    have wf: "cache_wf (sv_cache s)" using assms(1) by (simp add: srv_live_def)
    obtain cd rv where d: "cache_del (sv_cache s) k = Some (rv, cd)" "cache_wf cd" "lookup cd = (lookup (sv_cache s))(k := None)"
      using nc.del_law [OF wf f] by blast
    let ?s1 = "fill_cache_flag s req (st_cache_del_update (\<lambda>n. n + 1)) (st_db_del_update (\<lambda>n. n + 1))\<lparr>sv_cache := cd\<rparr>"
    have l1: "srv_live ?s1"
      using assms(1) d(2,3) by (simp add: srv_live_def fill_cache_flag_def bump_def)
    have "parse_del s req mem =
      (if cache_only req \<and> rv \<noteq> 0 then Some (reply_mini ?s1 req REP_OK)
       else if cache_only req \<and> rv = 0 then Some (reply_mini ?s1 req REP_NOTIN)
       else do {
         (rv, s) \<leftarrow> put_in_queue ?s1 req REQ_DEL (sync req) (Some k) None;
         if \<not> rv then Some (reply_err s req ERR_MEM)
         else if \<not> sync req then Some (reply_mini s req REP_OK)
         else Some s })"
      using p ld go k d(1) by (simp add: parse_del_def Let_def)
    then show ?thesis
      using live_mini [OF l1] live_store [OF l1 p(2)] by auto
  qed
qed

text \<open>What the handlers do after a cache operation that left \<open>cd\<close> and \<open>ms\<close>.\<close>

lemma vals_bound:
  assumes "srv_live s" shows "lookup (sv_cache s) k = Some v \<Longrightarrow> length v \<le> 2 ^ 16"
  using assms by (simp add: srv_live_def)

lemma parse_set_live:
  assumes s: "srv_live s" and b: "in_buffer req mem len"
  shows "live_result (parse_set s req mem)"
proof -
  have p: "r_payload req = Some 8" "has_addr req" using b by (simp_all add: in_buffer_def)
  obtain ksize where lk: "load_size mem 8 = Some ksize" using load_size_in [OF b, of 8] by auto
  obtain vsize where lv: "load_size mem 12 = Some vsize" using load_size_in [OF b, of 12] by auto
  let ?bad = "r_psize req < ucast ksize \<or> r_psize req < ucast vsize \<or> ksize > 65536 \<or> vsize > 65536 \<or>
    ksize + vsize > 65536"
  consider (broken) "?bad" | (ro) "\<not> ?bad" "se_read_only (sv_settings s)"
    | (go) "\<not> ?bad" "\<not> se_read_only (sv_settings s)" by blast
  then show ?thesis
  proof cases
    case broken
    with p lk lv live_broken [OF s] show ?thesis by (auto simp: parse_set_def Let_def)
  next
    case ro
    with p lk lv live_err [OF s] show ?thesis by (auto simp: parse_set_def Let_def)
  next
    case go
    have m: "\<not> ksize > 65536" "\<not> vsize > 65536" "\<not> ksize + vsize > 65536" using go(1) by blast+
    have sum: "unat ksize + unat vsize \<le> 65536"
      using m(3) unat_add_max [OF m(1,2)] by (simp add: word_less_nat_alt)
    obtain k where k: "rd mem 16 (unat ksize) = Some k" "length k = unat ksize"
      using rd_buf [OF b, of 16 "unat ksize"] sum by (auto simp: SBSIZE_def)
    obtain v where v: "rd mem (16 + unat ksize) (unat vsize) = Some v" "length v = unat vsize"
      using rd_buf [OF b, of "16 + unat ksize" "unat vsize"] sum by (auto simp: SBSIZE_def)
    have f: "fits k" "fits v" using sum k(2) v(2) by simp_all
    have wf: "cache_wf (sv_cache s)" "good (sv_ms s)" using s by (simp_all add: srv_live_def)
    obtain cd ms where d: "cache_set (sv_cache s) k v (sv_ms s) = Some (0, cd, ms)" "good ms" "cache_wf cd"
      "lookup cd k = Some v" "\<forall>k'. k' \<noteq> k \<longrightarrow> lookup cd k' = lookup (sv_cache s) k' \<or> lookup cd k' = None"
      using nc.put_law [OF wf(1) f wf(2)] by blast
    have bd: "length y \<le> 2 ^ 16" if "lookup cd x = Some y" for x y
    proof (cases "x = k")
      case True
      with that d(4) v(2) sum show ?thesis by simp
    next
      case False
      with that d(5) have "lookup (sv_cache s) x = Some y" by auto
      then show ?thesis by (rule vals_bound [OF s])
    qed
    let ?s1 = "fill_cache_flag s req (st_cache_set_update (\<lambda>n. n + 1)) (st_db_set_update (\<lambda>n. n + 1))\<lparr>sv_cache := cd, sv_ms := ms\<rparr>"
    have l1: "srv_live ?s1" by (rule live_cache [OF s d(3,2)]) (use bd in blast)
    have "parse_set s req mem =
      (if \<not> cache_only req then do {
         (rv, s) \<leftarrow> put_in_queue ?s1 req REQ_SET (sync req) (Some k) (Some v);
         if \<not> rv then Some (reply_err s req ERR_MEM)
         else if \<not> sync req then Some (reply_mini s req REP_OK)
         else Some s }
       else Some (reply_mini ?s1 req REP_OK))"
      using p lk lv go k v d(1) by (simp add: parse_set_def Let_def)
    then show ?thesis
      using live_mini [OF l1] live_store [OF l1 p(2)] by auto
  qed
qed

lemma parse_cas_live:
  assumes s: "srv_live s" and b: "in_buffer req mem len"
  shows "live_result (parse_cas s req mem)"
proof -
  have p: "r_payload req = Some 8" "has_addr req" using b by (simp_all add: in_buffer_def)
  obtain ksize where lk: "load_size mem 8 = Some ksize" using load_size_in [OF b, of 8] by auto
  obtain ovsize where lo: "load_size mem 12 = Some ovsize" using load_size_in [OF b, of 12] by auto
  obtain nvsize where ln: "load_size mem 16 = Some nvsize" using load_size_in [OF b, of 16] by auto
  let ?bad = "r_psize req < ucast ksize \<or> r_psize req < ucast ovsize \<or> r_psize req < ucast nvsize \<or>
    ksize > 65536 \<or> ovsize > 65536 \<or> nvsize > 65536 \<or> ksize + ovsize + nvsize > 65536"
  consider (broken) "?bad" | (ro) "\<not> ?bad" "se_read_only (sv_settings s)"
    | (go) "\<not> ?bad" "\<not> se_read_only (sv_settings s)" by blast
  then show ?thesis
  proof cases
    case broken
    with p lk lo ln live_broken [OF s] show ?thesis by (auto simp: parse_cas_def Let_def)
  next
    case ro
    with p lk lo ln live_err [OF s] show ?thesis by (auto simp: parse_cas_def Let_def)
  next
    case go
    have m: "\<not> ksize > 65536" "\<not> ovsize > 65536" "\<not> nvsize > 65536" "\<not> ksize + ovsize + nvsize > 65536"
      using go(1) by blast+
    have sum: "unat ksize + unat ovsize + unat nvsize \<le> 65536"
      using m(4) unat_add_max3 [OF m(1-3)] by (simp add: word_less_nat_alt)
    obtain k where k: "rd mem 20 (unat ksize) = Some k" "length k = unat ksize"
      using rd_buf [OF b, of 20 "unat ksize"] sum by (auto simp: SBSIZE_def)
    obtain ov where ov: "rd mem (20 + unat ksize) (unat ovsize) = Some ov" "length ov = unat ovsize"
      using rd_buf [OF b, of "20 + unat ksize" "unat ovsize"] sum by (auto simp: SBSIZE_def)
    obtain nv where nv: "rd mem (20 + unat ksize + unat ovsize) (unat nvsize) = Some nv" "length nv = unat nvsize"
      using rd_buf [OF b, of "20 + unat ksize + unat ovsize" "unat nvsize"] sum by (auto simp: SBSIZE_def)
    have f: "fits k" "fits ov" "fits nv" using sum k(2) ov(2) nv(2) by simp_all
    have wf: "cache_wf (sv_cache s)" "good (sv_ms s)" using s by (simp_all add: srv_live_def)
    obtain rv cd ms where d: "cache_cas (sv_cache s) k ov nv (sv_ms s) = Some (rv, cd, ms)" "good ms" "cache_wf cd"
      "lookup cd = (if lookup (sv_cache s) k = Some ov then (lookup (sv_cache s))(k \<mapsto> nv) else lookup (sv_cache s))"
      and rv: "rv \<noteq> - 3"
      using nc.cas_law [OF wf(1) f wf(2)] by (fastforce split: option.splits if_splits)
    have bd: "length y \<le> 2 ^ 16" if "lookup cd x = Some y" for x y
      using that vals_bound [OF s, of x y] nv(2) sum unfolding d(4) by (auto split: if_splits)
    let ?s1 = "fill_cache_flag s req (st_cache_cas_update (\<lambda>n. n + 1)) (st_db_cas_update (\<lambda>n. n + 1))\<lparr>sv_cache := cd, sv_ms := ms\<rparr>"
    have l1: "srv_live ?s1" by (rule live_cache [OF s d(3,2)]) (use bd in blast)
    have "parse_cas s req mem =
      (if rv = - 1 then Some (reply_mini ?s1 req REP_NOMATCH)
       else if cache_only req then
         (if rv = 0 then Some (reply_mini ?s1 req REP_OK) else Some (reply_mini ?s1 req REP_NOTIN))
       else queued_or_err req
         (put_in_queue_long ?s1 req REQ_CAS True (Some k) (Some ov) (Some nv)))"
      using p lk lo ln go k ov nv d(1) rv by (simp add: parse_cas_def Let_def)
    then show ?thesis
      using live_mini [OF l1] live_queued [OF l1 p(2)] by auto
  qed
qed

text \<open>
  The three increments that leave the defined behaviour of C: a key size within 8 of \<open>2 ^ 32\<close>,
  which the check of \<^verbatim>\<open>parse_incr()\<close> lets through because its sum wraps around; a cached
  empty value, whose last byte \<^verbatim>\<open>cache_incr()\<close> reads; and a cached number whose sum with the increment
  is no \<^verbatim>\<open>int64_t\<close>.
\<close>

definition incr_hazard :: "server \<Rightarrow> bytes \<Rightarrow> bool" where
  "incr_hazard s mem = (case load_size mem 8 of None \<Rightarrow> True
     | Some ksize \<Rightarrow> unat ksize + 8 \<ge> 2 ^ 32 \<or>
         (case rd mem 12 (unat ksize) of None \<Rightarrow> False | Some k \<Rightarrow> lookup (sv_cache s) k = Some [] \<or>
            (case load64 mem (12 + unat ksize) of None \<Rightarrow> False
             | Some i \<Rightarrow> \<not> sum_fits (lookup (sv_cache s)) k (ntohll i))))"

lemma unat_add8: "unat (w :: u32) + 8 < 2 ^ 32 \<Longrightarrow> unat (w + 8) = unat w + 8"
  by (simp add: unat_word_ariths take_bit_nat_eq_self)

lemma load64_in: "off + 8 \<le> length mem \<Longrightarrow> \<exists>n. load64 mem off = Some n"
  by (simp add: load64_def rd_def)

lemma parse_incr_live:
  assumes s: "srv_live s" and b: "in_buffer req mem len" and h: "\<not> incr_hazard s mem"
  shows "live_result (parse_incr s req mem)"
proof -
  have p: "r_payload req = Some 8" "has_addr req" using b by (simp_all add: in_buffer_def)
  obtain ksize where lk: "load_size mem 8 = Some ksize" using load_size_in [OF b, of 8] by auto
  let ?bad = "r_psize req < ucast (ksize + 8) \<or> ksize + 8 > 65536"
  consider (broken) "?bad" | (ro) "\<not> ?bad" "se_read_only (sv_settings s)"
    | (go) "\<not> ?bad" "\<not> se_read_only (sv_settings s)" by blast
  then show ?thesis
  proof cases
    case broken
    with p lk live_broken [OF s] show ?thesis by (auto simp: parse_incr_def Let_def)
  next
    case ro
    with p lk live_err [OF s] show ?thesis by (auto simp: parse_incr_def Let_def)
  next
    case go
    have "unat ksize + 8 < 2 ^ 32" using h lk by (simp add: incr_hazard_def)
    then have u: "unat (ksize + 8) = unat ksize + 8" by (rule unat_add8)
    moreover have "\<not> ksize + 8 > 65536" using go(1) by blast
    ultimately have sum: "unat ksize + 8 \<le> 65536" by (simp add: word_less_nat_alt)
    obtain k where k: "rd mem 12 (unat ksize) = Some k" "length k = unat ksize"
      using rd_buf [OF b, of 12 "unat ksize"] sum by (auto simp: SBSIZE_def)
    obtain i where i: "load64 mem (12 + unat ksize) = Some i"
      using load64_in [of "12 + unat ksize" mem] b sum by (auto simp: SBSIZE_def in_buffer_def)
    have f: "fits k" using sum k(2) by simp
    have wf: "cache_wf (sv_cache s)" "good (sv_ms s)" using s by (simp_all add: srv_live_def)
    have ne: "lookup (sv_cache s) k \<noteq> Some []" "sum_fits (lookup (sv_cache s)) k (ntohll i)"
      using h lk k(1) i by (simp_all add: incr_hazard_def)
    let ?r = "case lookup (sv_cache s) k of None \<Rightarrow> (- 1, None)
      | Some v \<Rightarrow> if numeric v then (0, Some (val_num v + ntohll i)) else (- 2 :: int, None)"
    obtain cd ms where d: "cache_incr (sv_cache s) k (ntohll i) (sv_ms s) = Some (fst ?r, snd ?r, cd, ms)" "good ms" "cache_wf cd"
      "lookup cd = (case lookup (sv_cache s) k of None \<Rightarrow> lookup (sv_cache s)
        | Some v \<Rightarrow> if numeric v then (lookup (sv_cache s))(k \<mapsto> num_val v (val_num v + ntohll i)) else lookup (sv_cache s))"
      using nc.incr_law [OF wf(1) f wf(2) ne] by (fastforce split: option.splits if_splits)
    have bd: "length y \<le> 2 ^ 16" if "lookup cd x = Some y" for x y
      using that vals_bound [OF s, of x y] vals_bound [OF s, of k] unfolding d(4)
      by (auto simp: length_num_val split: if_splits option.splits)
    let ?s1 = "fill_cache_flag s req (st_cache_incr_update (\<lambda>n. n + 1)) (st_db_incr_update (\<lambda>n. n + 1))\<lparr>sv_cache := cd, sv_ms := ms\<rparr>"
    have l1: "srv_live ?s1" by (rule live_cache [OF s d(3,2)]) (use bd in blast)
    obtain rv nv where r: "?r = (rv, nv)" by (cases ?r)
    have rv: "rv \<in> {0, - 1, - 2}" "rv = 0 \<Longrightarrow> \<exists>w. nv = Some w"
      using r by (auto split: option.splits if_splits)
    have pd: "parse_incr s req mem =
      (if rv = - 2 then Some (reply_mini ?s1 req REP_NOMATCH)
       else if \<not> cache_only req then
         queued_or_err req (put_in_queue ?s1 req REQ_INCR True (Some k) (Some (store64 (ntohll i))))
       else if rv = - 1 then Some (reply_mini ?s1 req REP_NOTIN)
       else do { newval \<leftarrow> nv; reply_long ?s1 req REP_OK (Some (store64 (htonll newval))) 8 })"
      using p lk go k i d(1) r rv(1) by (auto simp: parse_incr_def Let_def)
    show ?thesis
    proof (cases "rv = 0")
      case True
      with rv(2) obtain w where "nv = Some w" by blast
      then show ?thesis
        using True pd live_queued [OF l1 p(2)] live_long [OF l1, of "store64 (htonll w)" req REP_OK]
        by (simp add: put_in_queue_def)
    next
      case False
      with rv(1) pd show ?thesis
        using live_mini [OF l1] live_queued [OF l1 p(2)] by (auto simp: put_in_queue_def)
    qed
  qed
qed

lemma parse_nextkey_live:
  assumes s: "srv_live s" and b: "in_buffer req mem len"
  shows "live_result (parse_nextkey s req mem)"
proof -
  have p: "r_payload req = Some 8" "has_addr req" using b by (simp_all add: in_buffer_def)
  obtain ksize where ld: "load_size mem 8 = Some ksize" using load_size_in [OF b, of 8] by auto
  show ?thesis
  proof (cases "r_psize req < ucast ksize")
    case True
    with p ld live_broken [OF s] show ?thesis by (auto simp: parse_nextkey_def)
  next
    case False
    obtain k where k: "rd mem 12 (unat ksize) = Some k" using b False by (rule rd_key)
    have "srv_live (bump s (st_db_nextkey_update (\<lambda>n. n + 1)))" using s by simp
    from live_queued [OF this p(2)] p ld False k show ?thesis
      by (simp add: parse_nextkey_def put_in_queue_def Let_def)
  qed
qed

lemma parse_firstkey_live:
  assumes "srv_live s" and "has_addr req"
  shows "live_result (parse_firstkey s req)"
  using live_queued [of "bump s (st_db_firstkey_update (\<lambda>n. n + 1))" req] assms
  by (simp add: parse_firstkey_def put_in_queue_def)

lemma length_stats_reply:
  "length (concat (map (\<lambda>x. store64 (htonll x)) (stats_fields st))) = STATS_REPLY_SIZE * 8"
  by (simp add: stats_fields_def)

lemma parse_stats_live:
  assumes "srv_live s"
  shows "live_result (parse_stats s req)"
proof -
  let ?v = "concat (map (\<lambda>x. store64 (htonll x)) (stats_fields (sv_stats s)))"
  have l: "length ?v = STATS_REPLY_SIZE * 8" by (rule length_stats_reply)
  have "live_result (reply_long s req REP_OK (Some ?v) (sz ?v))"
    using assms by (rule live_long) (unfold l, simp)
  then show ?thesis unfolding parse_stats_def Let_def l .
qed

section \<open>Messages and datagrams\<close>

lemma load16_in: "off + 2 \<le> length mem \<Longrightarrow> \<exists>n. load16 mem off = Some n"
  by (simp add: load16_def rd_def)

lemma live_if: "(b \<Longrightarrow> live_result x) \<Longrightarrow> (\<not> b \<Longrightarrow> live_result y) \<Longrightarrow> live_result (if b then x else y)"
  by simp

lemma parse_message_live:
  assumes s: "srv_live s" and a: "has_addr req" and len: "8 \<le> len" "len + 12 \<le> SBSIZE" "length mem = SBSIZE"
    and h: "load16 mem 4 = Some (htons REQ_INCR) \<Longrightarrow> \<not> incr_hazard s mem"
  shows "\<exists>r req' s'. parse_message s req mem (of_nat len) = Some (r, req', s') \<and> srv_live s'"
proof -
  have n: "0 + 4 \<le> length mem" "4 + 2 \<le> length mem" "6 + 2 \<le> length mem" using len by (simp_all add: SBSIZE_def)
  obtain hdr cmd flags where ld: "load32 mem 0 = Some hdr" "load16 mem 4 = Some cmd" "load16 mem 6 = Some flags"
    using n load16_in [of 4 mem] load16_in [of 6 mem] by (auto simp: load32_Some)
  let ?id = "htonl hdr AND 0x0FFFFFFF"
  let ?req = "req\<lparr>r_id := ?id, r_id := htonl ?id, r_cmd := ntohs cmd, r_flags := ntohs flags, r_payload := Some 8,
    r_psize := of_nat len - 8\<rparr>"
  have b: "in_buffer ?req mem len"
    using a len by (simp add: in_buffer_def has_addr_def of_nat_diff)
  have incr: "ntohs cmd = REQ_INCR \<Longrightarrow> \<not> incr_hazard s mem"
    using h ld(2) htons_ntohs [of cmd] by auto
  show ?thesis
  proof (cases "drop_bit 28 (htonl hdr AND 0xF0000000) = PROTO_VER")
    case False
    with ld s show ?thesis by (simp add: parse_message_def Let_def live_err)
  next
    case True
    let ?r = "if ntohs cmd = REQ_GET then parse_get s ?req mem
         else if ntohs cmd = REQ_SET then parse_set s ?req mem
         else if ntohs cmd = REQ_DEL then parse_del s ?req mem
         else if ntohs cmd = REQ_CAS then parse_cas s ?req mem
         else if ntohs cmd = REQ_INCR then parse_incr s ?req mem
         else if ntohs cmd = REQ_FIRSTKEY then parse_firstkey s ?req
         else if ntohs cmd = REQ_NEXTKEY then parse_nextkey s ?req mem
         else if ntohs cmd = REQ_STATS then parse_stats s ?req
         else Some (reply_err (bump s (st_net_unk_req_update (\<lambda>n. n + 1))) ?req ERR_UNKREQ)"
    have "has_addr ?req" using b unfolding in_buffer_def by blast
    then have "live_result ?r"
      using s by (intro live_if parse_get_live [OF s b] parse_set_live [OF s b] parse_del_live [OF s b]
          parse_cas_live [OF s b] parse_incr_live [OF s b incr] parse_firstkey_live [OF s]
          parse_nextkey_live [OF s b] parse_stats_live [OF s] live_SomeI live_err) simp_all
    then obtain s' where r: "?r = Some s'" "srv_live s'" unfolding live_result_def by blast
    have "parse_message s req mem (of_nat len) = Option.bind ?r (\<lambda>s. Some (1, ?req, s))"
      by (simp only: parse_message_def Let_def ld True bind.simps if_False not_True_eq_False simp_thms)
    then show ?thesis using r(2) unfolding r(1) by (simp only: bind.simps) blast
  qed
qed

lemma length_recv_into: "length buf = SBSIZE \<Longrightarrow> length (recv_into buf bs) = SBSIZE"
  by (simp add: recv_into_def)

lemma srv_live_entered:
  assumes "srv_live s" and "length b = SBSIZE"
  shows "srv_live (bump (s\<lparr>sv_bufs := (sv_bufs s)(t := b)\<rparr>) f)"
  using assms by (simp add: srv_live_def)

lemma has_addr_make_req: "length a < 2 ^ 32 \<Longrightarrow> has_addr (make_req t fd a)"
  using req_ok_make_req by (auto simp: req_ok_def)

definition msg_counter :: "transport \<Rightarrow> stats \<Rightarrow> stats" where
  "msg_counter t = (case t of TIPC \<Rightarrow> st_msg_tipc_update (\<lambda>n. n + 1) | UDP \<Rightarrow> st_msg_udp_update (\<lambda>n. n + 1)
    | SCTP \<Rightarrow> st_msg_sctp_update (\<lambda>n. n + 1) | TCP \<Rightarrow> st_msg_tcp_update (\<lambda>n. n + 1))"

lemma dgram_recv_eq:
  assumes "t \<noteq> TCP" and "length bs \<le> SBSIZE"
  shows "dgram_recv t s fd (Recv bs a) =
    (let buf = recv_into (sv_bufs s t) bs; s1 = s\<lparr>sv_bufs := (sv_bufs s)(t := buf)\<rparr> in
     if t = TIPC \<and> bs = [] then Some s1
     else if length bs < 8 then Some (bump s1 (st_net_broken_req_update (\<lambda>n. n + 1)))
     else map_option (snd \<circ> snd) (parse_message (bump s1 (msg_counter t)) (make_req t fd a) buf (of_nat (length bs))))"
proof -
  have m: "(do { (_, _, s') \<leftarrow> p; Some s' }) = map_option (snd \<circ> snd) p" for p :: "(int \<times> req_info \<times> server) option"
    by (cases p) (auto split: prod.splits)
  show ?thesis
    using assms
    by (cases t) (simp_all add: dgram_recv_def udp_recv_def sctp_recv_def tipc_recv_def msg_counter_def Let_def m)
qed

lemma dgram_live:
  assumes s: "srv_live s" and t: "t \<noteq> TCP" and len: "length bs + 12 \<le> SBSIZE" and a: "length a < 2 ^ 32"
    and h: "8 \<le> length bs \<Longrightarrow> load16 bs 4 = Some (htons REQ_INCR) \<Longrightarrow> \<not> incr_hazard s (recv_into (sv_bufs s t) bs)"
  shows "\<exists>s'. dgram_recv t s fd (Recv bs a) = Some s' \<and> srv_live s'"
proof -
  let ?buf = "recv_into (sv_bufs s t) bs"
  let ?s1 = "s\<lparr>sv_bufs := (sv_bufs s)(t := ?buf)\<rparr>"
  have lb: "length ?buf = SBSIZE" by (rule length_recv_into) (use s in \<open>simp add: srv_live_def\<close>)
  have l1: "srv_live (bump ?s1 f)" for f using s lb by (rule srv_live_entered)
  show ?thesis
  proof (cases "length bs < 8")
    case True
    with t len l1 [of "\<lambda>x. x"] l1 [of "st_net_broken_req_update (\<lambda>n. n + 1)"] show ?thesis
      by (cases "t = TIPC \<and> bs = []") (auto simp: dgram_recv_eq Let_def)
  next
    case False
    have e: "load16 ?buf 4 = load16 bs 4"
      using False len by (simp add: load16_def rd_def recv_into_def)
    have c: "incr_hazard (bump ?s1 f) m = incr_hazard s m" for f m
      by (simp add: incr_hazard_def cong: option.case_cong)
    have "\<exists>r req' s'. parse_message (bump ?s1 (msg_counter t)) (make_req t fd a) ?buf (of_nat (length bs)) =
        Some (r, req', s') \<and> srv_live s'"
      by (rule parse_message_live [OF l1 has_addr_make_req [OF a] _ len lb])
        (use False h e in \<open>simp_all add: c\<close>)
    with False t len show ?thesis by (auto simp: dgram_recv_eq Let_def)
  qed
qed

end
