(* ===== verification/Recv_Frame.thy ===== *)
theory Recv_Frame
  imports Recv
begin

text \<open>
  What receiving keeps, for any bytes: whatever property of the server's state \<^verbatim>\<open>parse_message()\<close>
  keeps, the receivers keep, and a connection keeps its descriptor. The recursion of
  \<^verbatim>\<open>process_buf()\<close> is gone through once, here.
\<close>

section \<open>Results that are as they should be, if there are any\<close>

definition gives :: "('a \<Rightarrow> bool) \<Rightarrow> 'a option \<Rightarrow> bool" where
  "gives P m \<longleftrightarrow> (\<forall>x. m = Some x \<longrightarrow> P x)"

lemma gives_Some [simp]: "gives P (Some x) = P x" "gives P None"
  by (simp_all add: gives_def)

lemma gives_bind: "(\<And>x. m = Some x \<Longrightarrow> gives P (f x)) \<Longrightarrow> gives P (Option.bind m f)"
  by (cases m) (simp_all add: gives_def)

lemma gives_if: "(b \<Longrightarrow> gives P x) \<Longrightarrow> (\<not> b \<Longrightarrow> gives P y) \<Longrightarrow> gives P (if b then x else y)"
  by simp

lemma gives_split: "(\<And>x y. p = (x, y) \<Longrightarrow> gives P (f x y)) \<Longrightarrow> gives P (case p of (x, y) \<Rightarrow> f x y)"
  by (cases p) simp

lemma gives_split3: "(\<And>x y z. p = (x, y, z) \<Longrightarrow> gives P (f x y z)) \<Longrightarrow> gives P (case p of (x, y, z) \<Rightarrow> f x y z)"
  by (cases p) simp

section \<open>The receivers\<close>

locale recv_frame =
  fixes I :: "server \<Rightarrow> bool"
  assumes count_law: "I s \<Longrightarrow> I (bump s f)"
    and bufs_law: "I s \<Longrightarrow> I (s\<lparr>sv_bufs := b\<rparr>)"
    and alloc_law: "I s \<Longrightarrow> I (s\<lparr>sv_ms := ms\<rparr>)"
    and fresh_law: "I s \<Longrightarrow> I (s\<lparr>sv_fresh := fr\<rparr>)"
    and parse_law: "I s \<Longrightarrow> parse_message s req mem len = Some (r, req', s') \<Longrightarrow> I s'"
begin

definition kept :: "int \<Rightarrow> tcp_socket option \<times> server \<Rightarrow> bool" where
  "kept fd r \<longleftrightarrow> I (snd r) \<and> (\<forall>ts. fst r = Some ts \<longrightarrow> ts_fd ts = fd)"

lemma kept_simps [simp]: "kept fd (None, s) = I s" "kept fd (Some ts, s) = (I s \<and> ts_fd ts = fd)"
  by (auto simp: kept_def)

lemma set_tcp_buf_kept: "set_tcp_buf s ts own b = (ts', s') \<Longrightarrow> I s \<Longrightarrow> I s' \<and> ts_fd ts' = ts_fd ts"
  by (auto simp: set_tcp_buf_def bufs_law split: if_splits)

lemma save_partial_kept:
  assumes "I s" shows "gives (kept (ts_fd ts)) (save_partial s ts buf len n)"
proof (cases "ts_buf ts")
  case None
  obtain ok ms where m: "malloc (sv_ms s) = (ok, ms)" by (cases "malloc (sv_ms s)")
  obtain blk fr where f: "fresh_block SBSIZE (s\<lparr>sv_ms := ms\<rparr>) = (blk, s\<lparr>sv_ms := ms, sv_fresh := fr\<rparr>)"
    by (rule fresh_blockE [of SBSIZE "s\<lparr>sv_ms := ms\<rparr>"]) simp
  have ims: "I (s\<lparr>sv_ms := ms\<rparr>)" and ifr: "I (s\<lparr>sv_ms := ms, sv_fresh := fr\<rparr>)"
    using assms alloc_law fresh_law [OF alloc_law] by blast+
  show ?thesis
    unfolding save_partial_def m f prod.case Let_def
    by (cases ok) (auto simp: None ims ifr gives_def bind_eq_Some_conv)
qed (use assms in \<open>simp add: save_partial_def\<close>)

lemma process_buf_kept:
  assumes "process_buf s ts own len = Some r" and "I s"
  shows "kept (ts_fd ts) r"
proof -
  have "I s \<longrightarrow> kept (ts_fd ts) r"
  proof (rule process_buf.raw_induct [where P = "\<lambda>s ts own len r. I s \<longrightarrow> kept (ts_fd ts) r", OF _ assms(1)], intro impI)
    fix pb :: "server \<Rightarrow> tcp_socket \<Rightarrow> bool \<Rightarrow> u64 \<Rightarrow> (tcp_socket option \<times> server) option"
    fix s ts own len r
    assume ih: "\<And>s ts own len r. pb s ts own len = Some r \<Longrightarrow> I s \<longrightarrow> kept (ts_fd ts) r" and iv: "I s"
    have rec: "gives (kept fd) (pb s (init_req (ts1\<lparr>ts_len := n, ts_excess := m\<rparr>)) own len)"
      if "ts_fd ts1 = fd" and "I s" for s ts1 own len n m fd
      using that ih unfolding gives_def by (fastforce simp: init_req_def)
    have tail: "gives (kept fd) (Option.bind (parse_message s (ts_req ts1) (drop 4 buf) (len - 4)) (\<lambda>(r, req, s).
         let ts = ts1\<lparr>ts_req := req\<rparr> in
         if r = 0 then Some (None, s)
         else if ts_excess ts \<noteq> 0 then
           Option.bind (memmove_front buf (unat len) (unat (ts_excess ts))) (\<lambda>b.
           let (ts, s) = set_tcp_buf s ts own b;
             ts = init_req (ts\<lparr>ts_len := ts_excess ts, ts_excess := 0\<rparr>) in
           pb s ts own len)
         else if ts_buf ts \<noteq> None then
           Some (Some (ts\<lparr>ts_buf := None, ts_len := 0, ts_pktsize := 0, ts_excess := 0\<rparr>), s)
         else Some (Some ts, s)))" if "ts_fd ts1 = fd" "I s" for s ts1 buf len fd
    proof (rule gives_bind, rule gives_split3)
      fix x r req s' assume "parse_message s (ts_req ts1) (drop 4 buf) (len - 4) = Some x" "x = (r, req, s')"
      then have "I s'" using parse_law [OF that(2)] by simp
      with that(1) show "gives (kept fd) (let ts = ts1\<lparr>ts_req := req\<rparr> in
         if r = 0 then Some (None, s')
         else if ts_excess ts \<noteq> 0 then
           Option.bind (memmove_front buf (unat len) (unat (ts_excess ts))) (\<lambda>b.
           let (ts, s) = set_tcp_buf s' ts own b;
             ts = init_req (ts\<lparr>ts_len := ts_excess ts, ts_excess := 0\<rparr>) in
           pb s ts own len)
         else if ts_buf ts \<noteq> None then
           Some (Some (ts\<lparr>ts_buf := None, ts_len := 0, ts_pktsize := 0, ts_excess := 0\<rparr>), s')
         else Some (Some ts, s'))"
        unfolding Let_def by (intro gives_if gives_bind gives_split rec) (auto dest!: set_tcp_buf_kept)
    qed
    have "gives (kept (ts_fd ts)) (tcp_buf s ts own \<bind> (\<lambda>buf. (if 4 \<le> len then load_size buf 0 else Some 4) \<bind> (\<lambda>totaltoget.
       if len \<ge> 4 \<and> (totaltoget > 64 * 1024 \<or> totaltoget \<le> 8) then Some (None, s)
       else if ucast totaltoget > len then save_partial s ts buf len totaltoget
       else let ts = (if ucast totaltoget < len then ts\<lparr>ts_excess := len - ucast totaltoget\<rparr> else ts);
           len = (if ucast totaltoget < len then ucast totaltoget else len);
           s = bump s (st_msg_tcp_update (\<lambda>n. n + 1)) in
         Option.bind (parse_message s (ts_req ts) (drop 4 buf) (len - 4)) (\<lambda>(r, req, s).
         let ts = ts\<lparr>ts_req := req\<rparr> in
         if r = 0 then Some (None, s)
         else if ts_excess ts \<noteq> 0 then
           Option.bind (memmove_front buf (unat len) (unat (ts_excess ts))) (\<lambda>b.
           let (ts, s) = set_tcp_buf s ts own b;
             ts = init_req (ts\<lparr>ts_len := ts_excess ts, ts_excess := 0\<rparr>) in
           pb s ts own len)
         else if ts_buf ts \<noteq> None then
           Some (Some (ts\<lparr>ts_buf := None, ts_len := 0, ts_pktsize := 0, ts_excess := 0\<rparr>), s)
         else Some (Some ts, s)))))" (is "gives _ ?body")
      by (rule gives_bind, rule gives_bind, rule gives_if, simp add: iv, rule gives_if, rule save_partial_kept [OF iv],
          subst Let_def, subst Let_def, subst Let_def, rule tail) (simp_all add: iv count_law)
    then show "?body = Some r \<Longrightarrow> kept (ts_fd ts) r" by (simp only: gives_def)
  qed
  with assms(2) show ?thesis by blast
qed

lemma tcp_recv_kept:
  assumes "tcp_recv s ts r = Some x" and "I s"
  shows "kept (ts_fd ts) x"
proof -
  have pb: "gives (kept fd) (process_buf s ts1 own len)" if "ts_fd ts1 = fd" "I s" for s ts1 own len fd
    using that process_buf_kept by (auto simp: gives_def)
  have "gives (kept (ts_fd ts)) (tcp_recv s ts r)"
    unfolding tcp_recv_def Let_def using assms(2)
    by (auto split: option.split recv_result.split intro!: gives_if pb simp: init_req_def bufs_law)
  with assms(1) show ?thesis by (simp add: gives_def)
qed

lemma newconnection_kept: "tcp_newconnection s fd a nb = (r, s') \<Longrightarrow> I s \<Longrightarrow> I s'"
  by (auto simp: tcp_newconnection_def Let_def alloc_law split: prod.splits if_splits
      dest: alloc_law [where ms = "snd (malloc _)"])

lemma udp_recv_kept: "I s \<Longrightarrow> gives I (udp_recv s fd r)"
  unfolding udp_recv_def Let_def
  by (auto split: recv_result.split intro!: gives_if gives_bind gives_split3 count_law bufs_law
      elim!: parse_law [rotated])

lemma sctp_recv_kept: "I s \<Longrightarrow> gives I (sctp_recv s fd r)"
  unfolding sctp_recv_def Let_def
  by (auto split: recv_result.split intro!: gives_if gives_bind gives_split3 count_law bufs_law
      elim!: parse_law [rotated])

lemma tipc_recv_kept: "I s \<Longrightarrow> gives I (tipc_recv s fd r)"
  unfolding tipc_recv_def Let_def
  by (auto split: recv_result.split intro!: gives_if gives_bind gives_split3 count_law bufs_law
      elim!: parse_law [rotated])

end

text \<open>The property that is always true: what is left is the descriptor.\<close>

interpretation any_server: recv_frame "\<lambda>_. True"
  by unfold_locales simp_all

lemma tcp_recv_fd: "tcp_recv s ts r = Some (Some ts', s') \<Longrightarrow> ts_fd ts' = ts_fd ts"
  using any_server.tcp_recv_kept [of s ts r "(Some ts', s')"] by simp

lemma process_buf_fd: "process_buf s ts own len = Some (Some ts', s') \<Longrightarrow> ts_fd ts' = ts_fd ts"
  using any_server.process_buf_kept [of s ts own len "(Some ts', s')"] by simp

end
