(* ===== verification/Modes.thy ===== *)
theory Modes
  imports Parse_Safe Recv_Frame System
begin

text \<open>
  What a message may change under each of the server's modes and flags, for arbitrary messages
  and any outcome of \<^verbatim>\<open>malloc()\<close> and \<^verbatim>\<open>send()\<close>: a passive server is silent, a cache-only request
  leaves the queue alone, a read-only server queues nothing that writes. The handlers are gone
  through once, in a locale for properties that replying and counting keep.
\<close>

section \<open>Long replies\<close>

lemma reply_long_keeps:
  assumes "reply_long s req r v n = Some s'"
  shows "\<exists>ms. same_core (s\<lparr>sv_ms := ms\<rparr>) s'"
proof -
  have m: "\<exists>ms. same_core (s\<lparr>sv_ms := ms\<rparr>) (snd (udp_rep_send s req b))" for b
    using udp_send_core [of s req b] by (intro exI [of _ "sv_ms s"]) simp
  have u: "udp_reply_long s req r v n = Some s' \<Longrightarrow> \<exists>ms. same_core (s\<lparr>sv_ms := ms\<rparr>) s'"
    using udp_send_core m
    by (cases v) (auto simp: udp_reply_long_def udp_reply_mini_def bind_Some_iff Let_def
        split: prod.splits if_splits intro: exI [of _ "sv_ms s"])
  have m': "\<exists>ms. same_core (s\<lparr>sv_ms := ms\<rparr>) (snd (tcp_rep_send s req b))" for b
    using tcp_send_core [of s req b] by (intro exI [of _ "sv_ms s"]) simp
  have t: "tcp_reply_long s req r v n = Some s' \<Longrightarrow> \<exists>ms. same_core (s\<lparr>sv_ms := ms\<rparr>) s'"
    using tcp_send_core m'
    by (cases v) (auto simp: tcp_reply_long_def tcp_reply_mini_def bind_Some_iff Let_def
        split: prod.splits if_splits intro: exI [of _ "sv_ms s"])
  from assms u t show ?thesis
    by (cases "r_reply_long req") (auto simp: reply_long_def tipc_like_udp sctp_like_udp)
qed

lemma passive_mini: "se_passive (sv_settings s) \<Longrightarrow> reply_mini s req r = s"
  by (cases "r_reply_mini req") (simp_all add: reply_mini_def tipc_like_udp sctp_like_udp
      udp_reply_mini_def tcp_reply_mini_def)

lemma passive_err: "se_passive (sv_settings s) \<Longrightarrow> reply_err s req r = s"
  by (cases "r_reply_err req") (simp_all add: reply_err_def tipc_like_udp sctp_like_udp
      udp_reply_err_def udp_rep_send_error_def tcp_reply_err_def tcp_rep_send_error_def)

lemma passive_long:
  assumes "se_passive (sv_settings s)" and "reply_long s req r v n = Some s'"
  shows "\<exists>ms. s' = s\<lparr>sv_ms := ms\<rparr>"
proof -
  have u: "udp_reply_long s req r v n = Some s' \<Longrightarrow> \<exists>ms. s' = s\<lparr>sv_ms := ms\<rparr>"
    using assms(1)
    by (cases v) (auto simp: udp_reply_long_def udp_reply_mini_def udp_rep_send_def bind_Some_iff Let_def
        split: prod.splits if_splits intro: exI [of _ "sv_ms s"])
  have t: "tcp_reply_long s req r v n = Some s' \<Longrightarrow> \<exists>ms. s' = s\<lparr>sv_ms := ms\<rparr>"
    using assms(1)
    by (cases v) (auto simp: tcp_reply_long_def tcp_reply_mini_def tcp_rep_send_def bind_Some_iff Let_def
        split: prod.splits if_splits intro: exI [of _ "sv_ms s"])
  from assms u t show ?thesis
    by (cases "r_reply_long req") (auto simp: reply_long_def tipc_like_udp sctp_like_udp)
qed

section \<open>Properties that handlers keep\<close>

definition keeps :: "(server \<Rightarrow> bool) \<Rightarrow> server option \<Rightarrow> bool" where
  "keeps I r \<longleftrightarrow> (\<forall>s'. r = Some s' \<longrightarrow> I s')"

lemma keeps_simps [simp]: "keeps I None" "keeps I (Some s) = I s"
  by (simp_all add: keeps_def)

lemma keeps_bind: "(\<And>x. m = Some x \<Longrightarrow> keeps I (f x)) \<Longrightarrow> keeps I (Option.bind m f)"
  by (cases m) simp_all

lemma keeps_if: "(b \<Longrightarrow> keeps I x) \<Longrightarrow> (\<not> b \<Longrightarrow> keeps I y) \<Longrightarrow> keeps I (if b then x else y)"
  by simp

lemma keeps_split: "(\<And>x y. p = (x, y) \<Longrightarrow> keeps I (f x y)) \<Longrightarrow> keeps I (case p of (x, y) \<Rightarrow> f x y)"
  by (cases p) simp

lemma keeps_Let: "keeps I (f x) \<Longrightarrow> keeps I (Let x f)"
  by simp

lemmas keeps_intros = keeps_bind keeps_if keeps_split keeps_Let

locale reply_frame =
  fixes I :: "server \<Rightarrow> bool"
  assumes stats_law: "I s \<Longrightarrow> I (bump s f)"
    and mini_law: "I s \<Longrightarrow> I (reply_mini s req r)"
    and err_law: "I s \<Longrightarrow> I (reply_err s req r)"
    and long_law: "I s \<Longrightarrow> reply_long s req r v n = Some s' \<Longrightarrow> I s'"
begin

lemma fill_law: "I s \<Longrightarrow> I (fill_cache_flag s req c d)"
  by (simp add: fill_cache_flag_def stats_law)

lemma broken_law: "I s \<Longrightarrow> I (broken s req)"
  by (simp add: broken_def stats_law err_law)

lemma keeps_long: "I s \<Longrightarrow> keeps I (reply_long s req r v n)"
  using long_law by (auto simp: keeps_def)

lemma keeps_long_bump: "I s \<Longrightarrow> keeps I (reply_long (bump s f) req r v n)"
  by (intro keeps_long stats_law)

lemma stats: "I s \<Longrightarrow> keeps I (parse_stats s req)"
  by (simp add: parse_stats_def Let_def keeps_long)

lemmas laws = stats_law mini_law err_law fill_law broken_law

end

locale cache_frame = reply_frame +
  assumes cache_law: "I s \<Longrightarrow> I (s\<lparr>sv_cache := c, sv_ms := ms\<rparr>)"
begin

lemma cache_law': "I s \<Longrightarrow> I (s\<lparr>sv_cache := c\<rparr>)"
proof -
  assume "I s"
  then have "I (s\<lparr>sv_cache := c, sv_ms := sv_ms s\<rparr>)" by (rule cache_law)
  moreover have "s\<lparr>sv_cache := c, sv_ms := sv_ms s\<rparr> = s\<lparr>sv_cache := c\<rparr>" by simp
  ultimately show "I (s\<lparr>sv_cache := c\<rparr>)" by simp
qed

lemma get_cache_only: "I s \<Longrightarrow> cache_only req \<Longrightarrow> keeps I (parse_get s req mem)"
  unfolding parse_get_def
  by (intro keeps_intros) (auto intro!: laws keeps_long)

lemma set_cache_only: "I s \<Longrightarrow> cache_only req \<Longrightarrow> keeps I (parse_set s req mem)"
  unfolding parse_set_def
  by (intro keeps_intros) (auto intro!: laws cache_law)

lemma del_cache_only: "I s \<Longrightarrow> cache_only req \<Longrightarrow> keeps I (parse_del s req mem)"
  unfolding parse_del_def
  by (intro keeps_intros) (auto intro!: laws cache_law')

lemma cas_cache_only: "I s \<Longrightarrow> cache_only req \<Longrightarrow> keeps I (parse_cas s req mem)"
  unfolding parse_cas_def
  by (intro keeps_intros) (auto intro!: laws cache_law)

lemma incr_cache_only: "I s \<Longrightarrow> cache_only req \<Longrightarrow> keeps I (parse_incr s req mem)"
  unfolding parse_incr_def
  by (intro keeps_intros) (auto intro!: laws cache_law keeps_long)

end

text \<open>\<open>W\<close> says which operations may be queued.\<close>

locale queue_frame = reply_frame +
  fixes W :: "u32 \<Rightarrow> bool"
  assumes queue_law: "I s \<Longrightarrow> W op \<Longrightarrow> put_in_queue_long s req op b k v nv = Some (rv, s') \<Longrightarrow> I s'"
begin

lemma keeps_queued: "I s \<Longrightarrow> W op \<Longrightarrow> keeps I (queued_or_err req (put_in_queue_long s req op b k v nv))"
  unfolding queued_or_err_def by (intro keeps_intros) (auto intro: err_law queue_law)

lemma get_queued: "I s \<Longrightarrow> W REQ_GET \<Longrightarrow> keeps I (parse_get s req mem)"
  unfolding parse_get_def put_in_queue_def
  by (intro keeps_intros keeps_queued) (auto intro!: laws keeps_long)

lemma firstkey_queued: "I s \<Longrightarrow> W REQ_FIRSTKEY \<Longrightarrow> keeps I (parse_firstkey s req)"
  unfolding parse_firstkey_def put_in_queue_def
  by (intro keeps_intros keeps_queued) (auto intro!: laws)

lemma nextkey_queued: "I s \<Longrightarrow> W REQ_NEXTKEY \<Longrightarrow> keeps I (parse_nextkey s req mem)"
  unfolding parse_nextkey_def put_in_queue_def
  by (intro keeps_intros keeps_queued) (auto intro!: laws)

end

locale full_frame = cache_frame + queue_frame +
  assumes all_queued: "W op"
begin

lemma set_all: "I s \<Longrightarrow> keeps I (parse_set s req mem)"
  unfolding parse_set_def put_in_queue_def
  by (intro keeps_intros) (auto intro!: laws cache_law elim!: queue_law [OF _ all_queued, rotated])

lemma del_all: "I s \<Longrightarrow> keeps I (parse_del s req mem)"
  unfolding parse_del_def put_in_queue_def
  by (intro keeps_intros) (auto intro!: laws cache_law' elim!: queue_law [OF _ all_queued, rotated])

lemma cas_all: "I s \<Longrightarrow> keeps I (parse_cas s req mem)"
  unfolding parse_cas_def
  by (intro keeps_intros keeps_queued all_queued) (auto intro!: laws cache_law)

lemma incr_all: "I s \<Longrightarrow> keeps I (parse_incr s req mem)"
  unfolding parse_incr_def put_in_queue_def
  by (intro keeps_intros keeps_queued all_queued) (auto intro!: laws cache_law keeps_long)

end

section \<open>The three modes\<close>

lemma put_in_queue_keeps:
  assumes "put_in_queue_long s req op b k v nv = Some (rv, s')"
  shows "sv_cache s' = sv_cache s \<and> sv_settings s' = sv_settings s \<and> sv_out s' = sv_out s"
  using assms by (auto simp: put_in_queue_long_def bind_Some_iff split: if_splits prod.splits)

definition silent :: "packet list \<Rightarrow> server \<Rightarrow> bool" where
  "silent out s \<longleftrightarrow> se_passive (sv_settings s) \<and> sv_out s = out"

interpretation silent: full_frame "silent out" "\<lambda>_. True" for out
proof unfold_locales
  fix s req r v n s' assume "silent out s" and "reply_long s req r v n = Some s'"
  then show "silent out s'" using passive_long by (fastforce simp: silent_def)
next
  fix s req op b k v nv rv s'
  assume "silent out s" and "put_in_queue_long s req op b k v nv = Some (rv, s')"
  then show "silent out s'" using put_in_queue_keeps by (simp add: silent_def)
qed (simp_all add: silent_def bump_def passive_mini passive_err)

definition queue_same :: "queue \<Rightarrow> server \<Rightarrow> bool" where
  "queue_same q s \<longleftrightarrow> sv_queue s = q"

interpretation queue_same: cache_frame "queue_same q" for q
proof unfold_locales
  fix s req r v n s' assume "queue_same q s" and "reply_long s req r v n = Some s'"
  then show "queue_same q s'" using reply_long_keeps by (fastforce simp: queue_same_def same_core_def)
qed (use reply_mini_core reply_err_core in \<open>auto simp: queue_same_def bump_def same_core_def\<close>)

definition cache_same :: "cache \<Rightarrow> server \<Rightarrow> bool" where
  "cache_same c s \<longleftrightarrow> sv_cache s = c"

interpretation cache_same: queue_frame "cache_same c" "\<lambda>_. True" for c
proof unfold_locales
  fix s req r v n s' assume "cache_same c s" and "reply_long s req r v n = Some s'"
  then show "cache_same c s'" using reply_long_keeps by (fastforce simp: cache_same_def same_core_def)
next
  fix s req op b k v nv rv s'
  assume "cache_same c s" and "put_in_queue_long s req op b k v nv = Some (rv, s')"
  then show "cache_same c s'" using put_in_queue_keeps by (simp add: cache_same_def)
qed (use reply_mini_core reply_err_core in \<open>auto simp: cache_same_def bump_def same_core_def\<close>)

text \<open>What handled a message.\<close>

definition dispatched :: "server \<Rightarrow> req_info \<Rightarrow> bytes \<Rightarrow> u16 \<Rightarrow> server option" where
  "dispatched s req mem cmd = (if cmd = REQ_GET then parse_get s req mem
     else if cmd = REQ_SET then parse_set s req mem
     else if cmd = REQ_DEL then parse_del s req mem
     else if cmd = REQ_CAS then parse_cas s req mem
     else if cmd = REQ_INCR then parse_incr s req mem
     else if cmd = REQ_FIRSTKEY then parse_firstkey s req
     else if cmd = REQ_NEXTKEY then parse_nextkey s req mem
     else if cmd = REQ_STATS then parse_stats s req
     else Some (reply_err (bump s (st_net_unk_req_update (\<lambda>n. n + 1))) req ERR_UNKREQ))"

lemma parse_message_cases:
  assumes "parse_message s req mem len = Some (r, req', s')"
  obtains (version) rq where "s' = reply_err (bump s (st_net_version_mismatch_update (\<lambda>n. n + 1))) rq ERR_VER"
  | (handled) cmd flags rq where "load16 mem 4 = Some cmd" and "load16 mem 6 = Some flags"
      and "r_flags rq = ntohs flags" and "dispatched s rq mem (ntohs cmd) = Some s'"
proof -
  from assms obtain hdr cmd flags where ld: "load32 mem 0 = Some hdr" "load16 mem 4 = Some cmd" "load16 mem 6 = Some flags"
    unfolding parse_message_def by (auto simp only: bind_Some_iff Let_def)
  let ?rq = "req\<lparr>r_id := htonl hdr AND 0x0FFFFFFF, r_id := htonl (htonl hdr AND 0x0FFFFFFF), r_cmd := ntohs cmd,
    r_flags := ntohs flags, r_payload := Some 8, r_psize := len - 8\<rparr>"
  show thesis
  proof (cases "drop_bit 28 (htonl hdr AND 0xF0000000) = PROTO_VER")
    case False
    with assms ld have "s' = reply_err (bump s (st_net_version_mismatch_update (\<lambda>n. n + 1)))
        (req\<lparr>r_id := htonl hdr AND 0x0FFFFFFF\<rparr>) ERR_VER"
      by (auto simp: parse_message_def Let_def)
    then show ?thesis by (rule version)
  next
    case True
    have "parse_message s req mem len = Option.bind (dispatched s ?rq mem (ntohs cmd)) (\<lambda>s. Some (1, ?rq, s))"
      by (simp only: parse_message_def dispatched_def Let_def ld True bind.simps if_False not_True_eq_False simp_thms)
    with assms have "dispatched s ?rq mem (ntohs cmd) = Some s'" by (auto simp: bind_Some_iff)
    moreover have "r_flags ?rq = ntohs flags" by simp
    ultimately show ?thesis by (intro handled [OF ld(2,3)])
  qed
qed

lemma dispatched_keeps:
  assumes "dispatched s req mem cmd = Some s'" and "cmd = REQ_GET \<Longrightarrow> keeps I (parse_get s req mem)"
    and "cmd = REQ_SET \<Longrightarrow> keeps I (parse_set s req mem)" and "cmd = REQ_DEL \<Longrightarrow> keeps I (parse_del s req mem)"
    and "cmd = REQ_CAS \<Longrightarrow> keeps I (parse_cas s req mem)" and "cmd = REQ_INCR \<Longrightarrow> keeps I (parse_incr s req mem)"
    and "cmd = REQ_FIRSTKEY \<Longrightarrow> keeps I (parse_firstkey s req)"
    and "cmd = REQ_NEXTKEY \<Longrightarrow> keeps I (parse_nextkey s req mem)"
    and "cmd = REQ_STATS \<Longrightarrow> keeps I (parse_stats s req)"
    and "I (reply_err (bump s (st_net_unk_req_update (\<lambda>n. n + 1))) req ERR_UNKREQ)"
  shows "I s'"
proof -
  have "keeps I (dispatched s req mem cmd)"
    unfolding dispatched_def by (intro keeps_if) (use assms(2-) in simp_all)
  with assms(1) show ?thesis by (simp add: keeps_def)
qed

lemma ro_refuses:
  assumes "se_read_only (sv_settings s)" and "cmd \<in> {REQ_SET, REQ_DEL, REQ_CAS, REQ_INCR}"
    and "dispatched s req mem cmd = Some s'"
  shows "s' = reply_err s req ERR_RO \<or> s' = broken s req"
  using assms by (auto simp: dispatched_def parse_set_def parse_del_def parse_cas_def parse_incr_def
      bind_Some_iff Let_def split: if_splits)

lemma reads_keep_cache:
  assumes "dispatched s req mem cmd = Some s'" and "cmd \<notin> {REQ_SET, REQ_DEL, REQ_CAS, REQ_INCR}"
  shows "sv_cache s' = sv_cache s"
proof -
  have i: "cache_same (sv_cache s) s" by (simp add: cache_same_def)
  from assms(1) have "cache_same (sv_cache s) s'"
    by (rule dispatched_keeps) (use i assms(2) in \<open>simp_all add: cache_same.laws cache_same.get_queued
        cache_same.firstkey_queued cache_same.nextkey_queued cache_same.stats\<close>)
  then show ?thesis by (simp add: cache_same_def)
qed

section \<open>Everything both threads do\<close>

text \<open>
  One step of a server to which anything is sent: a datagram of any bytes or an error from any
  descriptor, a connection, any result of \<^verbatim>\<open>recv()\<close> on a connection in whatever state, and the
  steps of the database thread, over any database, whatever \<^verbatim>\<open>pthread_cond_timedwait()\<close> returns.
\<close>

inductive any_step :: "server \<Rightarrow> 'c db_conn \<Rightarrow> db_pc \<Rightarrow> server \<Rightarrow> 'c db_conn \<Rightarrow> db_pc \<Rightarrow> bool" where
  dgram: "dgram_recv t s fd r = Some s' \<Longrightarrow> any_step s db pc s' db pc"
| accept: "tcp_newconnection s fd a nonblock = (r, s') \<Longrightarrow> any_step s db pc s' db pc"
| stream: "tcp_recv s ts r = Some (ts', s') \<Longrightarrow> any_step s db pc s' db pc"
| top: "db_top s stop = Some (pc, s') \<Longrightarrow> any_step s db DbTop s' db pc"
| wake: "db_wake s stop rv = Some (pc, s') \<Longrightarrow> any_step s db DbWait s' db pc"
| work: "db_work s db a = Some (pc, s', db') \<Longrightarrow> any_step s db (DbGot a) s' db' pc"

inductive any_runs :: "server \<Rightarrow> 'c db_conn \<Rightarrow> db_pc \<Rightarrow> server \<Rightarrow> 'c db_conn \<Rightarrow> db_pc \<Rightarrow> bool" for s db pc where
  stay: "any_runs s db pc s db pc"
| step: "any_runs s db pc s1 db1 pc1 \<Longrightarrow> any_step s1 db1 pc1 s2 db2 pc2 \<Longrightarrow> any_runs s db pc s2 db2 pc2"

lemma silent_parse: "silent out s \<Longrightarrow> parse_message s req mem len = Some (r, req', s') \<Longrightarrow> silent out s'"
proof -
  assume i: "silent out s" and p: "parse_message s req mem len = Some (r, req', s')"
  from p show "silent out s'"
  proof (cases rule: parse_message_cases)
    case (version rq)
    with i show ?thesis by (simp add: silent.laws)
  next
    case (handled cmd flags rq)
    from handled(4) show ?thesis
      by (rule dispatched_keeps) (use i in \<open>simp_all add: silent.laws silent.get_queued silent.set_all silent.del_all
          silent.cas_all silent.incr_all silent.firstkey_queued silent.nextkey_queued silent.stats\<close>)
  qed
qed

interpretation silent_recv: recv_frame "silent out" for out
proof unfold_locales
  fix s req mem len r req' s'
  assume "silent out s" and "parse_message s req mem len = Some (r, req', s')"
  then show "silent out s'" by (rule silent_parse)
qed (simp_all add: silent_def bump_def)

lemma silent_dgram: "silent out s \<Longrightarrow> dgram_recv t s fd r = Some s' \<Longrightarrow> silent out s'"
  using silent_recv.udp_recv_kept [of out s fd r] silent_recv.sctp_recv_kept [of out s fd r]
    silent_recv.tipc_recv_kept [of out s fd r]
  by (cases t) (simp_all add: dgram_recv_def)

text \<open>The database thread's replies go through the same five functions.\<close>

lemma silent_queue: "silent out (s\<lparr>sv_queue := q\<rparr>) = silent out s" "silent out (s\<lparr>sv_ms := ms\<rparr>) = silent out s"
  by (simp_all add: silent_def)

lemma silent_malloc: "db_malloc s = (ok, s') \<Longrightarrow> silent out s \<Longrightarrow> silent out s'"
  by (auto simp: db_malloc_def silent_queue split: prod.splits)

abbreviation silent_res :: "packet list \<Rightarrow> (server \<times> 'c db_conn) option \<Rightarrow> bool" where
  "silent_res out \<equiv> gives (\<lambda>r. silent out (fst r))"

lemmas silent_op_intros = gives_bind gives_if gives_split gives_split3

lemma silent_op_results:
  "silent out s \<Longrightarrow> silent_res out (Some (s, db))"
  "silent out s \<Longrightarrow> silent_res out (Some (reply_mini s req r, db))"
  "silent out s \<Longrightarrow> silent_res out (Some (reply_err s req e, db))"
  "silent out s \<Longrightarrow> reply_long s req r v n = Some s' \<Longrightarrow> silent_res out (Some (s', db))"
  by (simp_all add: silent.laws silent.long_law)

lemma silent_set: "silent out s \<Longrightarrow> silent_res out (op_set s db e req)"
  unfolding op_set_def Let_def by (intro silent_op_intros) (blast intro: silent_op_results)+

lemma silent_get: "silent out s \<Longrightarrow> silent_res out (op_get s db e req)"
  unfolding op_get_def Let_def
  by (intro silent_op_intros) (blast intro: silent_op_results silent_malloc)+

lemma silent_del: "silent out s \<Longrightarrow> silent_res out (op_del s db e req)"
  unfolding op_del_def Let_def by (intro silent_op_intros) (blast intro: silent_op_results)+

lemma silent_cas: "silent out s \<Longrightarrow> silent_res out (op_cas s db e req)"
  unfolding op_cas_def Let_def
  by (intro silent_op_intros) (blast intro: silent_op_results silent_malloc)+

lemma silent_incr: "silent out s \<Longrightarrow> silent_res out (op_incr s db e req)"
  unfolding op_incr_def Let_def
  by (intro silent_op_intros) (blast intro: silent_op_results silent_malloc)+

lemma silent_firstkey: "silent out s \<Longrightarrow> silent_res out (op_firstkey s db req)"
  unfolding op_firstkey_def Let_def
  by (cases "dc_firstkey db"; simp only: option.case; (intro silent_op_intros)?) (blast intro: silent_op_results silent_malloc)+

lemma silent_nextkey: "silent out s \<Longrightarrow> silent_res out (op_nextkey s db e req)"
  unfolding op_nextkey_def Let_def
  by (cases "dc_nextkey db"; simp only: option.case; (intro silent_op_intros)?) (blast intro: silent_op_results silent_malloc)+

lemma silent_op: "silent out s \<Longrightarrow> silent_res out (process_op s db e)"
  unfolding process_op_def
  by (cases "qe_req e"; simp only: req_slot.case gives_Some)
    (intro gives_if silent_set silent_get silent_del silent_cas silent_incr silent_firstkey silent_nextkey silent_op_results(1))

lemma silent_take: "silent out s \<Longrightarrow> db_take s stop rv = Some (pc, s') \<Longrightarrow> silent out s'"
  by (auto simp: db_take_def bind_Some_iff Let_def silent_queue split: if_splits option.splits)

lemma silent_wait: "silent out s \<Longrightarrow> db_wait s = Some (pc, s') \<Longrightarrow> silent out s'"
  by (auto simp: db_wait_def bind_Some_iff silent_queue)

lemma silent_top: "silent out s \<Longrightarrow> db_top s stop = Some (pc, s') \<Longrightarrow> silent out s'"
  unfolding db_top_def bind_Some_iff Let_def by (metis silent_queue(1) silent_take silent_wait)

lemma silent_wake: "silent out s \<Longrightarrow> db_wake s stop rv = Some (pc, s') \<Longrightarrow> silent out s'"
  by (auto simp: db_wake_def bind_Some_iff Let_def silent_queue split: if_splits dest: silent_take [rotated] silent_wait [rotated])

lemma silent_work: "silent out s \<Longrightarrow> db_work s db a = Some (pc, s', db') \<Longrightarrow> silent out s'"
  using silent_op by (fastforce simp: db_work_def bind_Some_iff Let_def silent_queue gives_def)

lemma silent_step: "any_step s db pc s' db' pc' \<Longrightarrow> silent out s \<Longrightarrow> silent out s'"
proof (induction rule: any_step.induct)
  case (stream s ts r ts' s' db pc)
  from silent_recv.tcp_recv_kept [OF this] show ?case by (simp add: silent_recv.kept_def)
qed (auto dest: silent_dgram silent_recv.newconnection_kept silent_top silent_wake silent_work)

lemma silent_runs: "any_runs s db pc s' db' pc' \<Longrightarrow> silent out s \<Longrightarrow> silent out s'"
  by (induction rule: any_runs.induct) (blast intro: silent_step)+

end
