(* ===== verification/Safety_Theorems.thy ===== *)
theory Safety_Theorems
  imports Modes Server_Theorems
begin

text \<open>
  What the server does with input no client library would send: any sequence of datagrams is
  handled within the defined behaviour of C unless it increments, and the messages that do
  leave it are given concretely (a wrapping key size, a TCP frame shorter than a header, an
  increment of an empty value). Further: the reply to an unknown protocol version, read-only
  and passive servers, cache-only requests, and the reply to a statistics request.
\<close>

section \<open>Arbitrary datagrams\<close>

record dgram =
  dg_t :: transport
  dg_fd :: int
  dg_data :: bytes
  dg_addr :: bytes

definition dgram_ok :: "dgram \<Rightarrow> bool" where
  "dgram_ok d \<longleftrightarrow> dg_t d \<noteq> TCP \<and> length (dg_data d) + 12 \<le> SBSIZE \<and> length (dg_addr d) < 2 ^ 32"

definition is_incr :: "bytes \<Rightarrow> bool" where
  "is_incr bs \<longleftrightarrow> load16 bs 4 = Some (htons REQ_INCR)"

fun dgram_run :: "dgram list \<Rightarrow> server \<Rightarrow> server option" where
  "dgram_run [] s = Some s"
| "dgram_run (d # ds) s = Option.bind (dgram_recv (dg_t d) s (dg_fd d) (Recv (dg_data d) (dg_addr d))) (dgram_run ds)"

text \<open>
  Property C25: as long as no \<^verbatim>\<open>malloc()\<close> fails (part of \<open>srv_live\<close>, with the well-formedness of
  cache, queue and buffers), whatever bytes arrive in datagrams that are at least 12 bytes shorter
  than the receive buffer (as all over UDP and TIPC are), if none is an increment, the server
  handles them all within the defined behaviour of C and ends in such a state again.
\<close>

theorem any_datagrams_safe:
  assumes "srv_live s" and "\<forall>d\<in>set ds. dgram_ok d \<and> \<not> is_incr (dg_data d)"
  shows "\<exists>s'. dgram_run ds s = Some s' \<and> srv_live s'"
  using assms
proof (induction ds arbitrary: s)
  case Nil
  then show ?case by simp
next
  case (Cons d ds)
  have "\<exists>s'. dgram_recv (dg_t d) s (dg_fd d) (Recv (dg_data d) (dg_addr d)) = Some s' \<and> srv_live s'"
    by (rule dgram_live [OF Cons.prems(1)]) (use Cons.prems(2) in \<open>auto simp: dgram_ok_def is_incr_def\<close>)
  with Cons show ?case by auto
qed

lemma demo_live: "srv_live demo_server"
  using demo_srv_ok
  by (simp add: srv_live_def srv_ok_def) (simp add: demo_server_def demo_cache_empty)

definition junk_dgram :: dgram where
  "junk_dgram = \<lparr>dg_t = UDP, dg_fd = 5, dg_data = [16, 0, 0, 1, 1, 2, 0, 0, 255, 255], dg_addr = []\<rparr>"

theorem any_datagrams_safe_witness: "\<exists>s'. dgram_run [junk_dgram, junk_dgram] demo_server = Some s' \<and> srv_live s'"
proof (rule any_datagrams_safe [OF demo_live])
  have "\<not> is_incr (dg_data junk_dgram)" unfolding is_incr_def junk_dgram_def by code_simp
  then show "\<forall>d\<in>set [junk_dgram, junk_dgram]. dgram_ok d \<and> \<not> is_incr (dg_data d)"
    by (simp add: dgram_ok_def) (simp add: junk_dgram_def SBSIZE_def)
qed

text \<open>
  Property C26: as long as no \<^verbatim>\<open>malloc()\<close> fails (part of \<open>srv_live\<close>), an increment in a datagram at least
  12 bytes shorter than the receive buffer, too, is handled within the defined behaviour of C and
  keeps the server well formed, with three exceptions (\<open>incr_hazard\<close>): its key size is within 8 of
  \<open>2 ^ 32\<close>, its key is cached with an empty value, or its key is cached with a number to which the
  increment cannot be added without overflowing an \<^verbatim>\<open>int64_t\<close>.
\<close>

theorem incr_datagram_safe:
  assumes "srv_live s" and "dgram_ok d" and "\<not> incr_hazard s (recv_into (sv_bufs s (dg_t d)) (dg_data d))"
  shows "\<exists>s'. dgram_recv (dg_t d) s (dg_fd d) (Recv (dg_data d) (dg_addr d)) = Some s' \<and> srv_live s'"
  by (rule dgram_live [OF assms(1)]) (use assms(2,3) in \<open>auto simp: dgram_ok_def\<close>)

definition incr_dgram :: dgram where
  "incr_dgram = \<lparr>dg_t = UDP, dg_fd = 5, dg_data = [16, 0, 0, 1, 1, 5, 0, 0, 0, 0, 0, 1, 65, 0, 0, 0, 0, 0, 0, 0, 2], dg_addr = []\<rparr>"

lemma load_size_front:
  assumes "off + 4 \<le> length bs" and "length bs \<le> SBSIZE"
  shows "load_size (recv_into buf bs) off = load_size bs off"
proof -
  have "take 4 (drop off (bs @ drop (length bs) buf)) = take 4 (drop off bs)" using assms(1) by simp
  with assms show ?thesis by (simp add: load_size_def load32_def rd_def recv_into_def)
qed

theorem incr_datagram_safe_witness:
  "is_incr (dg_data incr_dgram) \<and>
   (\<exists>s'. dgram_recv UDP demo_server 5 (Recv (dg_data incr_dgram) []) = Some s' \<and> srv_live s')"
proof
  show "is_incr (dg_data incr_dgram)" unfolding is_incr_def incr_dgram_def by code_simp
  have ld: "load_size (dg_data incr_dgram) 8 = Some 1" unfolding incr_dgram_def by code_simp
  have len: "length (dg_data incr_dgram) = 21" by (simp add: incr_dgram_def)
  have f: "load_size (recv_into buf (dg_data incr_dgram)) 8 = Some 1" for buf
    using ld len load_size_front [of 8 "dg_data incr_dgram" buf] by (simp add: SBSIZE_def)
  have "\<not> incr_hazard demo_server (recv_into (sv_bufs demo_server UDP) (dg_data incr_dgram))"
    by (simp add: incr_hazard_def f demo_server_def demo_cache_empty sum_fits_def split: option.splits)
  moreover have "dgram_ok incr_dgram" by (simp add: dgram_ok_def) (simp add: incr_dgram_def SBSIZE_def)
  ultimately show "\<exists>s'. dgram_recv UDP demo_server 5 (Recv (dg_data incr_dgram) []) = Some s' \<and> srv_live s'"
    using incr_datagram_safe [OF demo_live, of incr_dgram] by (simp add: incr_dgram_def)
qed

section \<open>Messages that leave the defined behaviour of C\<close>

lemma rd_big: "length mem < off + n \<Longrightarrow> rd mem off n = None"
  by (simp add: rd_def)

lemma load64_big: "length mem < off + 8 \<Longrightarrow> load64 mem off = None"
  by (simp add: load64_def rd_def)

text \<open>A message of the current version with the given command and the key size \<open>2 ^ 32 - 1\<close>.\<close>

definition huge_key :: "u16 \<Rightarrow> bytes" where
  "huge_key cmd = header 0 cmd 0 @ be32 (2 ^ 32 - 1) @ replicate 8 0"

lemma length_huge_key [simp]: "length (huge_key cmd) = 20"
  by (simp add: huge_key_def)

lemma huge_size: "(of_nat (2 ^ 32 - 1) :: u32) = - 1" "unat (- 1 :: u32) = 2 ^ 32 - 1"
  by (simp_all add: unsigned_minus_1_eq_mask mask_eq_exp_minus_1)

lemma huge_key_loads:
  "load32 (huge_key cmd @ ys) 0 = Some (htonl (hdr32 0))"
  "load16 (huge_key cmd @ ys) 4 = Some (htons cmd)"
  "load16 (huge_key cmd @ ys) 6 = Some (htons 0)"
  "load_size (huge_key cmd @ ys) 8 = Some (- 1)"
proof -
  let ?a = "store32 (htonl (hdr32 0))" and ?b = "store16 (htons cmd)" and ?c = "store16 (htons 0)"
    and ?z = "be32 (2 ^ 32 - 1) @ replicate 8 0 @ ys"
  show "load32 (huge_key cmd @ ys) 0 = Some (htonl (hdr32 0))"
    by (simp add: huge_key_def header_def load32_front del: store32_htonl store16_htons)
  show "load16 (huge_key cmd @ ys) 4 = Some (htons cmd)"
    using load16_store16 [of 4 ?a "htons cmd" "?c @ ?z"]
    by (simp add: huge_key_def header_def del: store32_htonl store16_htons)
  show "load16 (huge_key cmd @ ys) 6 = Some (htons 0)"
    using load16_store16 [of 6 "?a @ ?b" "htons 0" ?z]
    by (simp add: huge_key_def header_def del: store32_htonl store16_htons)
  show "load_size (huge_key cmd @ ys) 8 = Some (- 1)"
    using load_size_be32 [of 8 "header 0 cmd 0" "2 ^ 32 - 1" "replicate 8 0 @ ys"]
    unfolding huge_size by (simp add: huge_key_def)
qed

lemma huge_incr_undefined:
  assumes "\<not> se_read_only (sv_settings s)" and "r_payload req = Some 8" and "r_psize req = 12"
    and "load_size mem 8 = Some (- 1)" and "length mem \<le> SBSIZE"
  shows "parse_incr s req mem = None"
proof -
  have "load64 mem (12 + unat (- 1 :: u32)) = None"
    by (rule load64_big) (use assms(5) in \<open>simp add: SBSIZE_def huge_size\<close>)
  with assms show ?thesis by (simp add: parse_incr_def Let_def)
qed

text \<open>
  Property C33: an increment whose key size is \<open>2 ^ 32 - 1\<close> passes the size check of
  \<^verbatim>\<open>parse_incr()\<close>, whose 32-bit sum \<^verbatim>\<open>ksize + 8\<close> wraps around to 7, and makes it read 4 GB past the
  receive buffer: one datagram takes any server that is not read-only out of the defined behaviour
  of C.
\<close>

theorem incr_wrap_undefined:
  assumes "srv_live s" and "\<not> se_read_only (sv_settings s)" and "t \<noteq> TCP"
  shows "dgram_recv t s fd (Recv (huge_key REQ_INCR) a) = None"
proof -
  let ?buf = "recv_into (sv_bufs s t) (huge_key REQ_INCR)"
  obtain ys where buf: "?buf = huge_key REQ_INCR @ ys" by (simp add: recv_into_def SBSIZE_def)
  have lb: "length ?buf = SBSIZE" by (rule length_recv_into) (use assms(1) in \<open>simp add: srv_live_def\<close>)
  have pm: "parse_message s' req ?buf (of_nat 20) = None" if "\<not> se_read_only (sv_settings s')" for s' req
    using that huge_key_loads [of REQ_INCR ys, folded buf] lb hdr32_fields [of 0]
    by (simp add: parse_message_def Let_def huge_incr_undefined)
  have "huge_key REQ_INCR \<noteq> []" using length_huge_key [of REQ_INCR] by (metis list.size(3) zero_neq_numeral)
  with pm assms(2,3) show ?thesis by (simp add: dgram_recv_eq SBSIZE_def Let_def bump_def)
qed

theorem incr_wrap_undefined_witness: "dgram_recv UDP demo_server 5 (Recv (huge_key REQ_INCR) [127, 0, 0, 1]) = None"
  by (rule incr_wrap_undefined [OF demo_live]) (simp_all add: demo_server_def demo_settings_def)

lemma huge_get_undefined:
  assumes "r_payload req = Some 8" and "r_psize req = - 3"
    and "load_size mem 8 = Some (- 1)" and "length mem \<le> SBSIZE"
  shows "parse_get s req mem = None"
proof -
  have "rd mem 12 (unat (- 1 :: u32)) = None"
    by (rule rd_big) (use assms(4) in \<open>simp add: SBSIZE_def huge_size\<close>)
  moreover have "\<not> (- 3 :: u64) < ucast (- 1 :: u32)"
    by code_simp
  ultimately show ?thesis using assms by (simp add: parse_get_def Let_def)
qed

text \<open>
  \<^verbatim>\<open>process_buf()\<close> accepts a TCP frame that declares 9 bytes, though no message
  is shorter than a header of 8 bytes behind the 4 bytes of the size. The payload size then
  underflows, every key size passes the check, and a get reads 4 GB past the buffer: a client takes
  the server out of the defined behaviour of C with one segment of 24 bytes, read-only or not.
\<close>

lemma tcp_short_frame_undefined:
  assumes "srv_live s" and "ts_buf ts = None"
  shows "tcp_recv s ts (Recv (be32 9 @ huge_key REQ_GET) a) = None"
proof -
  let ?f = "be32 9 @ huge_key REQ_GET"
  let ?buf = "recv_into (sv_bufs s TCP) ?f"
  obtain ys where buf: "?buf = be32 9 @ huge_key REQ_GET @ ys" by (simp add: recv_into_def SBSIZE_def)
  have lb: "length ?buf = SBSIZE" by (rule length_recv_into) (use assms(1) in \<open>simp add: srv_live_def\<close>)
  have ld: "load_size ?buf 0 = Some 9"
    using load_size_be32 [of 0 "[]" 9 "huge_key REQ_GET @ ys"] unfolding buf by simp
  have d: "drop 4 ?buf = huge_key REQ_GET @ ys" unfolding buf by simp
  have ld8: "length (drop 4 ?buf) \<le> SBSIZE" using lb by simp
  have pm: "parse_message s' req (drop 4 ?buf) 5 = None" for s' req
    using huge_key_loads [of REQ_GET ys, folded d] ld8 hdr32_fields [of 0]
    by (simp add: parse_message_def Let_def huge_get_undefined)
  have "process_buf (s\<lparr>sv_bufs := (sv_bufs s)(TCP := ?buf)\<rparr>) ts' False 24 = None" for ts'
    by (subst process_buf.simps) (simp add: tcp_buf_def ld pm Let_def)
  with assms(2) show ?thesis by (simp add: tcp_recv_def SBSIZE_def Let_def)
qed

definition demo_socket :: tcp_socket where
  "demo_socket = \<lparr>ts_fd = 7, ts_clisa = [127, 0, 0, 1], ts_clilen = 4, ts_buf = None, ts_pktsize = 0, ts_len = 0,
     ts_req = make_req TCP 7 [127, 0, 0, 1], ts_excess = 0\<rparr>"

lemma tcp_short_frame_undefined_example:
  "tcp_recv demo_server demo_socket (Recv (be32 9 @ huge_key REQ_GET) []) = None"
  by (rule tcp_short_frame_undefined [OF demo_live]) (simp add: demo_socket_def)

text \<open>
  Incrementing a key that is cached with an empty value is undefined: the last
  byte of the value is read one before its start.
\<close>

lemma incr_empty_undefined:
  assumes "cache_wf cd" and "fits k" and "lookup cd k = Some []"
  shows "cache_incr cd k inc ms = None"
  using assms(1,2)
proof (cases rule: find_in_cache_cases)
  case miss
  with assms(3) show ?thesis by simp
next
  case (hit h i e v)
  then have "rd v (unat (sz v - 1 :: u64)) 1 = None"
    using assms(3) by (simp add: rd_def)
  with hit assms(3) show ?thesis by (simp add: cache_incr_def)
qed

lemma incr_empty_undefined_witness:
  "\<exists>cd ms. cache_set demo_cache [1] [] [] = Some (0, cd, ms) \<and> cache_incr cd [1] 5 [] = None"
proof -
  obtain cd ms where c: "cache_set demo_cache [1] [] [] = Some (0, cd, ms)" "good ms" "cache_wf cd" "lookup cd [1] = Some []"
    using nc.put_law [OF demo_cache_wf, of "[1]" "[]" "[]"] by auto
  have "cache_incr cd [1] 5 [] = None" by (rule incr_empty_undefined [OF c(3) _ c(4)]) simp
  with c(1) show ?thesis by blast
qed

section \<open>Modes of the server\<close>

text \<open>A message of ten bytes and the demonstration server's buffer holding it.\<close>

definition demo_mem :: "u16 \<Rightarrow> u16 \<Rightarrow> bytes" where
  "demo_mem cmd flags = recv_into (replicate SBSIZE 0) (header 1 cmd flags @ [0, 0, 0, 0])"

lemma length_demo_mem: "length (demo_mem cmd flags) = SBSIZE"
  by (simp add: demo_mem_def length_recv_into)

lemma demo_mem_loads:
  "load16 (demo_mem cmd flags) 4 = Some (htons cmd)" "load16 (demo_mem cmd flags) 6 = Some (htons flags)"
proof -
  let ?a = "store32 (htonl (hdr32 1))" and ?b = "store16 (htons cmd)" and ?c = "store16 (htons flags)"
  obtain ys where m: "demo_mem cmd flags = ?a @ ?b @ ?c @ ys"
    by (simp add: demo_mem_def recv_into_def header_def SBSIZE_def del: store32_htonl store16_htons)
  show "load16 (demo_mem cmd flags) 4 = Some (htons cmd)"
    using load16_store16 [of 4 ?a "htons cmd" "?c @ ys"] unfolding m by simp
  show "load16 (demo_mem cmd flags) 6 = Some (htons flags)"
    using load16_store16 [of 6 "?a @ ?b" "htons flags" ys] unfolding m by simp
qed

definition with_settings :: "settings \<Rightarrow> server" where
  "with_settings st = demo_server\<lparr>sv_settings := st\<rparr>"

lemma with_settings_live: "srv_live (with_settings st)"
  using demo_live by (simp add: srv_live_def with_settings_def)

lemma demo_parses:
  assumes "htons cmd \<noteq> htons REQ_INCR"
  shows "\<exists>r req s'. parse_message (with_settings st) (make_req UDP 5 []) (demo_mem cmd flags) (of_nat 12) = Some (r, req, s')"
proof -
  have "\<exists>r req s'. parse_message (with_settings st) (make_req UDP 5 []) (demo_mem cmd flags) (of_nat 12) =
      Some (r, req, s') \<and> srv_live s'"
    by (rule parse_message_live [OF with_settings_live]) (use assms in
      \<open>simp_all add: has_addr_make_req length_demo_mem demo_mem_loads SBSIZE_def\<close>)
  then show ?thesis by blast
qed

text \<open>
  Property C28: a passive server never sends anything, until the signal that makes it active:
  whatever datagrams, connections and pieces of TCP streams reach it, and however the steps of its two
  threads interleave, over any database and with any outcomes of \<^verbatim>\<open>malloc()\<close>, nothing goes out
  and it stays passive.
\<close>

theorem passive_silent:
  assumes "se_passive (sv_settings s)" and "any_runs s db pc s' db' pc'"
  shows "sv_out s' = sv_out s \<and> se_passive (sv_settings s')"
proof -
  have "silent (sv_out s) s" using assms(1) by (simp add: silent_def)
  with assms(2) have "silent (sv_out s) s'" by (rule silent_runs)
  then show ?thesis by (simp add: silent_def)
qed

text \<open>A passive server that has a synchronous delete in its queue, which an active one would answer.\<close>

definition sync_del :: queue_entry where
  "sync_del = new_queue_entry\<lparr>qe_operation := REQ_DEL, qe_req := Owned (make_req UDP 5 []\<lparr>r_flags := FLAGS_SYNC\<rparr>),
     qe_key := Some [1], qe_ksize := 1\<rparr>"

definition passive_server :: server where
  "passive_server = (with_settings (demo_settings\<lparr>se_passive := True\<rparr>))\<lparr>sv_queue := \<lparr>q_locked = False, q_signals = 0,
     q_size = 1, q_top = Some 0, q_bottom = Some 0, q_heap = [0 \<mapsto> sync_del], q_next = 1\<rparr>\<rparr>"

definition works_off :: "server \<Rightarrow> 'c db_conn \<Rightarrow> (server \<times> 'c db_conn) option" where
  "works_off s db = do {
     (pc, s) \<leftarrow> db_top s False;
     (case pc of DbGot a \<Rightarrow> map_option snd (db_work s db a) | _ \<Rightarrow> None)
   }"

lemma works_off_runs:
  assumes "works_off s db = Some (s', db')"
  shows "\<exists>pc. any_runs s db DbTop s' db' pc"
proof -
  obtain pc s1 where t: "db_top s False = Some (pc, s1)"
    and w: "(case pc of DbGot a \<Rightarrow> map_option snd (db_work s1 db a) | _ \<Rightarrow> None) = Some (s', db')"
    using assms by (auto simp: works_off_def bind_Some_iff)
  then obtain a pc' where pc: "pc = DbGot a" and "db_work s1 db a = Some (pc', s', db')" by (cases pc) auto
  then have "any_step s1 db (DbGot a) s' db' pc'" by (intro any_step.work)
  moreover have "any_runs s db DbTop s1 db (DbGot a)"
    using t pc by (intro any_runs.step [OF any_runs.stay any_step.top]) simp
  ultimately show ?thesis by (blast intro: any_runs.step)
qed

lemma passive_works: "works_off passive_server demo_db \<noteq> None"
proof -
  let ?s = "passive_server\<lparr>sv_queue := \<lparr>q_locked = False, q_signals = 0, q_size = 0, q_top = None, q_bottom = None,
     q_heap = [0 \<mapsto> sync_del], q_next = 1\<rparr>\<rparr>"
  have t: "db_top passive_server False = Some (DbGot 0, ?s)"
    by (simp add: db_top_def passive_server_def queue_lock_def queue_isempty_def db_take_def queue_get_def entry_at_def
        sync_del_def new_queue_entry_def queue_unlock_def)
  have "dc_del demo_db (dc_conn demo_db) [1] \<noteq> None"
    by (simp add: demo_db_def xtdb_open_def map_tdb_def xtdb_del_def)
  then obtain r c where d: "dc_del demo_db (dc_conn demo_db) [1] = Some (r, c)" by auto
  have "db_work s1 demo_db 0 \<noteq> None" if "se_passive (sv_settings s1)" "q_heap (sv_queue s1) 0 = Some sync_del" for s1
    using that(2)
    by (simp add: db_work_def entry_at_def sync_del_def new_queue_entry_def process_op_def op_del_def d
        passive_mini [OF that(1)] queue_entry_free_def Let_def)
  from this [of ?s] have "db_work ?s demo_db 0 \<noteq> None" by (simp add: passive_server_def with_settings_def)
  then obtain x where "db_work ?s demo_db 0 = Some x" by auto
  with t show ?thesis by (simp add: works_off_def)
qed

theorem passive_silent_witness:
  "\<exists>s' db' pc'. works_off passive_server demo_db = Some (s', db') \<and> sv_out s' = []"
proof -
  have p: "se_passive (sv_settings passive_server)" and o: "sv_out passive_server = []"
    by (simp_all add: passive_server_def with_settings_def demo_server_def)
  obtain s' db' where w: "works_off passive_server demo_db = Some (s', db')" using passive_works by auto
  obtain pc' where "any_runs passive_server demo_db DbTop s' db' pc'" using works_off_runs [OF w] by blast
  from passive_silent [OF p this] o w show ?thesis by simp
qed

text \<open>
  A request with the cache-only flag never reaches the database: unless it asks
  for a first or next key, which have no cached form, it leaves the operation queue as it was.
\<close>

lemma cache_only_keeps_queue:
  assumes "parse_message s req mem len = Some (r, req', s')" and "load16 mem 6 = Some flags"
    and "ntohs flags AND FLAGS_CACHE_ONLY \<noteq> 0"
    and "load16 mem 4 \<notin> {Some (htons REQ_FIRSTKEY), Some (htons REQ_NEXTKEY)}"
  shows "sv_queue s' = sv_queue s"
proof -
  have i: "queue_same (sv_queue s) s" by (simp add: queue_same_def)
  from assms(1) have "queue_same (sv_queue s) s'"
  proof (cases rule: parse_message_cases)
    case (version rq)
    with i show ?thesis by (simp add: queue_same.laws)
  next
    case (handled cmd flags' rq)
    have co: "cache_only rq" using handled(2,3) assms(2,3) by (simp add: cache_only_def)
    have "ntohs cmd \<noteq> REQ_FIRSTKEY" "ntohs cmd \<noteq> REQ_NEXTKEY"
      using assms(4) handled(1) htons_ntohs [of cmd] by (metis insertCI)+
    with handled(4) co i show ?thesis
      by (elim dispatched_keeps) (simp_all add: queue_same.laws queue_same.get_cache_only queue_same.set_cache_only
          queue_same.del_cache_only queue_same.cas_cache_only queue_same.incr_cache_only queue_same.stats)
  qed
  then show ?thesis by (simp add: queue_same_def)
qed

lemma cache_only_keeps_queue_witness:
  "\<exists>r req s'. parse_message (with_settings demo_settings) (make_req UDP 5 [])
     (demo_mem REQ_DEL FLAGS_CACHE_ONLY) (of_nat 12) = Some (r, req, s') \<and> sv_queue s' = sv_queue demo_server"
proof -
  have n: "htons REQ_DEL \<noteq> htons REQ_INCR" "htons REQ_DEL \<noteq> htons REQ_FIRSTKEY" "htons REQ_DEL \<noteq> htons REQ_NEXTKEY"
    by code_simp+
  obtain r req s' where p: "parse_message (with_settings demo_settings) (make_req UDP 5 [])
     (demo_mem REQ_DEL FLAGS_CACHE_ONLY) (of_nat 12) = Some (r, req, s')" using demo_parses n(1) by blast
  have "sv_queue s' = sv_queue (with_settings demo_settings)"
    by (rule cache_only_keeps_queue [OF p demo_mem_loads(2)]) (use n in \<open>simp_all add: demo_mem_loads\<close>)
  with p show ?thesis by (simp add: with_settings_def)
qed

text \<open>
  Property C27: a read-only server refuses every request that would write: no message, whatever
  its bytes, changes its cache, and no set, delete, compare-and-swap or increment its queue.
\<close>

theorem read_only_keeps_store:
  assumes "se_read_only (sv_settings s)" and "parse_message s req mem len = Some (r, req', s')"
  shows "sv_cache s' = sv_cache s \<and>
    (load16 mem 4 \<in> Some ` htons ` {REQ_SET, REQ_DEL, REQ_CAS, REQ_INCR} \<longrightarrow> sv_queue s' = sv_queue s)"
proof -
  have i: "cache_same (sv_cache s) s" "queue_same (sv_queue s) s" by (simp_all add: cache_same_def queue_same_def)
  from assms(2) show ?thesis
  proof (cases rule: parse_message_cases)
    case (version rq)
    with i have "cache_same (sv_cache s) s'" "queue_same (sv_queue s) s'" by (simp_all add: cache_same.laws queue_same.laws)
    then show ?thesis by (simp add: cache_same_def queue_same_def)
  next
    case (handled cmd flags rq)
    show ?thesis
    proof (cases "ntohs cmd \<in> {REQ_SET, REQ_DEL, REQ_CAS, REQ_INCR}")
      case True
      then have "s' = reply_err s rq ERR_RO \<or> s' = broken s rq" using assms(1) handled(4) by (intro ro_refuses)
      with i have "cache_same (sv_cache s) s'" "queue_same (sv_queue s) s'"
        by (auto simp: cache_same.laws queue_same.laws)
      then show ?thesis by (simp add: cache_same_def queue_same_def)
    next
      case False
      then have "load16 mem 4 \<notin> Some ` htons ` {REQ_SET, REQ_DEL, REQ_CAS, REQ_INCR}"
        using handled(1) by auto
      with reads_keep_cache [OF handled(4) False] show ?thesis by blast
    qed
  qed
qed

theorem read_only_keeps_store_witness:
  "\<exists>r req s'. parse_message (with_settings (demo_settings\<lparr>se_read_only := True\<rparr>)) (make_req UDP 5 [])
     (demo_mem REQ_DEL 0) (of_nat 12) = Some (r, req, s') \<and> sv_cache s' = demo_cache"
proof -
  have "htons REQ_DEL \<noteq> htons REQ_INCR" by code_simp
  then obtain r req s' where p: "parse_message (with_settings (demo_settings\<lparr>se_read_only := True\<rparr>)) (make_req UDP 5 [])
     (demo_mem REQ_DEL 0) (of_nat 12) = Some (r, req, s')" using demo_parses by blast
  with read_only_keeps_store [OF _ p] show ?thesis by (simp add: with_settings_def demo_server_def)
qed

end
