(* ===== verification/Component_Theorems.thy ===== *)
theory Component_Theorems
  imports Safety_Theorems
begin

text \<open>
  The theorems about single components below the server: creating and freeing the cache,
  the operation queue as a FIFO, replies over a stream that takes them piecemeal, the database
  backends, the statistics reply, and the database thread's wait.
\<close>

section \<open>Creating and freeing the cache\<close>

lemma chain_index_empty:
  "lookup \<lparr>cd_numobjs = n, cd_flags = f, cd_hashlen = l, cd_table = replicate m empty_chain\<rparr> = Map.empty"
  by (rule ext) (auto simp: lookup_def bucket_def chain_index_def Let_def split: option.splits if_splits)

lemma cache_wf_replicate:
  assumes "0 < n" and "n < 2 ^ 64"
  shows "cache_wf \<lparr>cd_numobjs = x, cd_flags = f, cd_hashlen = of_nat n, cd_table = replicate n empty_chain\<rparr>"
proof -
  have "unat (of_nat n :: u64) = n" using assms(2) by (rule unat_of_nat_u64)
  moreover from this assms(1) have "(of_nat n :: u64) \<noteq> 0" by (metis less_irrefl unat_0)
  ultimately show ?thesis by (simp add: cache_wf_def rep_wf [OF empty_chain_rep])
qed

text \<open>
  \<^verbatim>\<open>cache_create()\<close> asked for at least \<open>CHAINLEN\<close> objects, and for no more than the
  address space holds, either returns NULL because memory ran out or a well-formed empty cache of
  \<^verbatim>\<open>numobjs / CHAINLEN\<close> chains.
\<close>

lemma cache_create_empty:
  assumes "of_nat CHAINLEN \<le> numobjs" and "unat numobjs < 2 ^ 56"
  shows "\<exists>r ms'. cache_create numobjs flags ms = Some (r, ms') \<and>
    (r = None \<or> (\<exists>cd. r = Some cd \<and> cache_wf cd \<and> lookup cd = Map.empty \<and>
       length (cd_table cd) = unat numobjs div CHAINLEN))"
proof -
  let ?n = "unat (numobjs div of_nat CHAINLEN)"
  have n: "?n = unat numobjs div CHAINLEN" by (simp add: unat_div CHAINLEN_def)
  have "4 \<le> unat numobjs" using assms(1) by (simp add: word_le_nat_alt CHAINLEN_def)
  then have pos: "0 < ?n" unfolding n by (simp add: CHAINLEN_def div_greater_zero_iff)
  have "?n < 2 ^ 54" unfolding n using assms(2) by (simp add: CHAINLEN_def div_less_iff_less_mult)
  then have small: "?n < 2 ^ 64" "sizeof_cache_chain * ?n < 2 ^ 64"
    by (simp_all add: sizeof_cache_chain_def CHAINLEN_def)
  have "cache_wf \<lparr>cd_numobjs = numobjs, cd_flags = flags, cd_hashlen = numobjs div of_nat CHAINLEN,
      cd_table = replicate ?n empty_chain\<rparr>"
    using cache_wf_replicate [OF pos small(1), of numobjs flags] by simp
  then show ?thesis
    using small(2) n by (auto simp: cache_create_def Let_def chain_index_empty split: prod.splits)
qed

lemma cache_create_empty_witness:
  "\<exists>r ms'. cache_create 1024 0 [] = Some (r, ms') \<and>
    (r = None \<or> (\<exists>cd. r = Some cd \<and> cache_wf cd \<and> lookup cd = Map.empty \<and> length (cd_table cd) = 1024 div CHAINLEN))"
  using cache_create_empty [of 1024 0 "[]"] by (simp add: CHAINLEN_def)

text \<open>
  A cache created for fewer than \<open>CHAINLEN\<close> objects, which \<^verbatim>\<open>main.c\<close> allows, has no
  chain at all, and every lookup in it divides by zero.
\<close>

lemma small_cache_undefined:
  assumes "numobjs < of_nat CHAINLEN"
  shows "\<exists>cd. cache_create numobjs flags [] = Some (Some cd, []) \<and> cd_table cd = [] \<and> cache_get cd k = None"
proof -
  have "numobjs div of_nat CHAINLEN = 0"
    using assms by (simp add: word_less_nat_alt word_arith_nat_div CHAINLEN_def)
  then show ?thesis
    by (simp add: cache_create_def cache_get_def find_in_cache_def chain_index_def)
qed

lemma small_cache_undefined_witness:
  "\<exists>cd. cache_create 0 0 [] = Some (Some cd, []) \<and> cd_table cd = [] \<and> cache_get cd [1] = None"
  by (rule small_cache_undefined) (simp add: CHAINLEN_def)

lemma free_from_path:
  assumes "dseg (cc_entries c) p is None"
  shows "free_from c (hd_or is None) acc =
    Some (rev acc @ map (\<lambda>i. (ce_key (cc_entries c ! i), ce_val (cc_entries c ! i))) is)"
  using assms
proof (induction "is" arbitrary: p acc)
  case Nil
  then show ?case by (simp add: free_from.simps)
next
  case (Cons i "is")
  then show ?case using Cons.IH [of "Some i"] by (subst free_from.simps) (simp add: deref_def)
qed

definition owned_blocks :: "cache_chain \<Rightarrow> (bytes option \<times> bytes option) list" where
  "owned_blocks c = map (\<lambda>(k, v). (Some k, Some v)) (chain_items c)"

lemma free_chain:
  assumes "chain_wf c"
  shows "(if cc_first c = None then Some [] else free_from c (cc_first c) []) = Some (owned_blocks c)"
proof -
  have r: "rep c (chain_path c)" using assms by (rule wf_rep)
  note l = linksD [OF conjunct1 [OF r [unfolded rep_def]]]
  have "ce_key (cc_entries c ! i) = Some (fst (kv (cc_entries c ! i))) \<and>
      ce_val (cc_entries c ! i) = Some (snd (kv (cc_entries c ! i)))" if "i \<in> set (chain_path c)" for i
    using rep_entry [OF r that] by (auto simp: entry_ok_def kv_def split: option.splits)
  then have "map (\<lambda>i. (ce_key (cc_entries c ! i), ce_val (cc_entries c ! i))) (chain_path c) = owned_blocks c"
    by (simp add: owned_blocks_def chain_items_def split_beta)
  with free_from_path [OF l(3), of "[]"] l(4) show ?thesis by (cases "chain_path c") simp_all
qed

lemma free_chains_all: "\<forall>c\<in>set cs. chain_wf c \<Longrightarrow> free_chains cs = Some (concat (map owned_blocks cs))"
  by (induction cs) (simp_all add: free_chain)

text \<open>
  \<^verbatim>\<open>cache_free()\<close> walks every chain to its end and frees the key and the value of
  every cached entry exactly once, chain by chain.
\<close>

lemma cache_free_all:
  assumes "cache_wf cd"
  shows "cache_free cd = Some (1, concat (map owned_blocks (cd_table cd)))"
proof -
  have "\<forall>c\<in>set (cd_table cd). chain_wf c" using assms by (auto simp: cache_wf_def in_set_conv_nth)
  then have "free_chains (cd_table cd) = Some (concat (map owned_blocks (cd_table cd)))" by (rule free_chains_all)
  then show ?thesis by (simp add: cache_free_def)
qed

lemma cache_free_all_witness: "cache_free demo_cache = Some (1, [])"
  using cache_free_all [OF demo_cache_wf] by (simp add: demo_cache_def owned_blocks_def)

section \<open>The operation queue\<close>

text \<open>
  Property C29: the linked list of \<^verbatim>\<open>queue.c\<close> is a FIFO: any sequence of puts and gets on a new
  queue is defined and returns what the same sequence returns on a list that is appended to at
  one end and taken from at the other.
\<close>

theorem queue_fifo:
  assumes "queue_create ms = (Some q, ms')" and "\<forall>e. QPut e \<in> set ops \<longrightarrow> entry_owned e"
  shows "\<exists>q'. qrun enqueue dequeue ops q = Some (fst (fifo_run ops []), q') \<and>
    queue_items q' = snd (fifo_run ops []) \<and> queue_ok q'"
proof -
  have q: "queue_ok q" "queue_items q = []" using queue_create_ok [OF assms(1)] by simp_all
  from opq.run_refines [OF q(1) assms(2)] show ?thesis unfolding q(2) by blast
qed

definition demo_entry :: queue_entry where
  "demo_entry = mk_entry (make_req UDP 5 [127, 0, 0, 1]) REQ_GET (Some [1]) None None"

theorem queue_fifo_witness:
  "\<exists>q'. qrun enqueue dequeue [QPut demo_entry, QGet, QGet] (the (fst (queue_create []))) =
     Some ([Some demo_entry, None], q')"
proof -
  obtain q where q: "queue_create [] = (Some q, [])" by (simp add: queue_create_def)
  from queue_fifo [OF q, of "[QPut demo_entry, QGet, QGet]"] q show ?thesis by (auto simp: demo_entry_def)
qed

lemma queue_drain_items:
  assumes "queue_ok q"
  shows "\<exists>q'. queue_drain q = Some q' \<and> queue_ok q' \<and> queue_items q' = [] \<and>
    q_heap q' = (\<lambda>a. if a \<in> set (queue_addrs q) then None else q_heap q a)"
  using assms
proof (induction "queue_addrs q" arbitrary: q)
  case Nil
  then show ?case
    by (subst queue_drain.simps) (simp add: queue_get_ok_Nil queue_items_def flip: Nil(1))
next
  case (Cons a as)
  obtain q1 where q1: "queue_get q = Some (Some a, q1)" "queue_ok q1" "queue_addrs q1 = as"
    "q_heap q1 = q_heap q" "a \<notin> set as" "q_heap q a \<noteq> None"
    using Cons(3) Cons(2) [symmetric] by (rule queue_get_ok_Cons)
  obtain e where e: "q_heap q1 a = Some e" using q1(4,6) by auto
  have "body e \<in> set (queue_items q)"
    using e q1(4) Cons(2) [symmetric] by (simp add: queue_items_def)
  then have ne: "qe_req e \<noteq> Indeterminate"
    using Cons(3) by (auto simp: queue_ok_def entry_owned_def body_def list_all_iff)
  have na: "a \<notin> set (queue_addrs q1)" using q1(3,5) by simp
  obtain q2 where q2: "queue_entry_free q1 (Some a) = Some q2" "queue_ok q2" "queue_addrs q2 = queue_addrs q1"
    using q1(2) na e ne by (rule queue_free_ok)
  have h2: "q_heap q2 = (q_heap q1)(a := None)"
    using q2(1) e by (auto simp: queue_entry_free_def entry_at_def split: if_splits)
  obtain q3 where q3: "queue_drain q2 = Some q3" "queue_ok q3" "queue_items q3 = []"
    "q_heap q3 = (\<lambda>b. if b \<in> set as then None else q_heap q2 b)"
    using Cons(1) [of q2] q1(3) q2(2,3) by auto
  have "queue_drain q = Some q3"
    by (subst queue_drain.simps) (simp add: q1(1) q2(1) q3(1))
  moreover have "q_heap q3 = (\<lambda>b. if b \<in> set (queue_addrs q) then None else q_heap q b)"
    using q3(4) h2 q1(4) by (auto simp flip: Cons(2))
  ultimately show ?case using q3(2,3) by blast
qed

text \<open>
  The loop of \<^verbatim>\<open>queue_free()\<close> ends, whatever the queue holds, and frees exactly the
  entries that are on the queue.
\<close>

lemma queue_free_all:
  assumes "queue_ok q"
  shows "\<exists>q'. queue_free q = Some q' \<and> queue_items q' = [] \<and>
    q_heap q' = (\<lambda>a. if a \<in> set (queue_addrs q) then None else q_heap q a)"
  using queue_drain_items [OF assms] unfolding queue_free_def by blast

lemma queue_free_all_witness:
  "\<exists>q q'. enqueue (the (fst (queue_create []))) demo_entry = Some q \<and> queue_free q = Some q' \<and> queue_items q' = []"
proof -
  obtain q0 where q0: "queue_create [] = (Some q0, [])" by (simp add: queue_create_def)
  have "queue_ok q0" using queue_create_ok [OF q0] by simp
  moreover have "entry_owned demo_entry" by (simp add: demo_entry_def)
  ultimately obtain q where "enqueue q0 demo_entry = Some q" "queue_grows q0 q [demo_entry]" by (rule enqueue_grows)
  with queue_free_all [of q] q0 show ?thesis by (auto simp: queue_grows_def)
qed

section \<open>Replies\<close>

text \<open>
  Property C30: on a TCP connection whose \<^verbatim>\<open>send()\<close> calls take part of what they are given, or
  fail with \<^verbatim>\<open>EAGAIN\<close>, any number of times, a reply goes out completely, in order and once.
\<close>

theorem tcp_reply_complete:
  assumes "\<not> se_passive (sv_settings s)" and "\<forall>r\<in>set (sv_sends s). r = - EAGAIN \<or> 0 < r"
  shows "\<exists>s' ps. tcp_rep_send s req buf = (1, s') \<and> sv_out s' = sv_out s @ ps \<and>
    concat (map (\<lambda>p. snd (snd p)) ps) = buf \<and> (\<forall>p\<in>set ps. fst p = r_fd req)"
  using tcp_send_loop_out [OF assms(2), of 0 buf req] assms(1) by (simp add: tcp_rep_send_def)

theorem tcp_reply_complete_witness:
  "\<exists>s' ps. tcp_rep_send (demo_server\<lparr>sv_sends := [3, - EAGAIN, 1]\<rparr>) (make_req TCP 7 []) [1, 2, 3, 4, 5, 6] = (1, s') \<and>
    sv_out s' = ps \<and> concat (map (\<lambda>p. snd (snd p)) ps) = [1, 2, 3, 4, 5, 6]"
  using tcp_reply_complete [of "demo_server\<lparr>sv_sends := [3, - EAGAIN, 1]\<rparr>" "make_req TCP 7 []" "[1, 2, 3, 4, 5, 6]"]
  by (fastforce simp: demo_server_def demo_settings_def)

text \<open>The numbers a client reads out of a statistics reply.\<close>

fun read_u64s :: "nat \<Rightarrow> bytes \<Rightarrow> u64 list" where
  "read_u64s 0 b = []"
| "read_u64s (Suc n) b = (case load64 b 0 of None \<Rightarrow> [] | Some w \<Rightarrow> ntohll w # read_u64s n (drop 8 b))"

lemma read_u64s_concat:
  "read_u64s (length xs) (concat (map (\<lambda>x. store64 (htonll x)) xs)) = xs"
proof (induction xs)
  case Nil
  then show ?case by simp
next
  case (Cons x xs)
  have "load64 (store64 (htonll x) @ ys) 0 = Some (htonll x)" for ys
    using load64_store64 [of 0 "[]"] by (simp del: store64_htonll)
  with Cons show ?case by (simp del: store64_htonll)
qed

lemma length_stats_fields: "length (stats_fields st) = STATS_REPLY_SIZE"
  by (simp add: stats_fields_def)

text \<open>
  Property C31: the reply to a statistics request carries the request's identifier and the 23
  counters, each in network byte order, in the order in which \<^verbatim>\<open>stats.h\<close> numbers them and in which
  \<^verbatim>\<open>nmdb-stats\<close> looks for them: requests of the cache, requests of the database, hits and misses of
  both, messages per transport, errors, and the two iterations over keys.
\<close>

theorem stats_reply:
  assumes "srv_ok s" and "req_ok req"
  shows "\<exists>s' p v. parse_stats s req = Some s' \<and> sv_out s' = sv_out s @ [p] \<and>
    pkt_view p = (r_fd req, dest req, store32 (r_id req), RVal v) \<and>
    read_u64s 23 v = (let st = sv_stats s in
      [st_cache_get st, st_cache_set st, st_cache_del st, st_cache_cas st, st_cache_incr st,
       st_db_get st, st_db_set st, st_db_del st, st_db_cas st, st_db_incr st,
       st_cache_hits st, st_cache_misses st, st_db_hits st, st_db_misses st,
       st_msg_tipc st, st_msg_tcp st, st_msg_udp st, st_msg_sctp st,
       st_net_version_mismatch st, st_net_broken_req st, st_net_unk_req st, st_db_firstkey st, st_db_nextkey st])"
proof -
  let ?v = "concat (map (\<lambda>x. store64 (htonll x)) (stats_fields (sv_stats s)))"
  have l: "length ?v = STATS_REPLY_SIZE * 8" by (rule length_stats_reply)
  have v: "length ?v < 2 ^ 32" unfolding l by simp
  obtain s' p where r: "reply_long s req REP_OK (Some ?v) (sz ?v) = Some s'" "sv_out s' = sv_out s @ [p]"
    "pkt_view p = (r_fd req, dest req, decode_reply (store32 (r_id req) @ store32 (htonl REP_OK) @
      store32 (htonl (of_nat (length ?v))) @ ?v))"
    using assms v by (rule reply_long_step)
  have "read_u64s STATS_REPLY_SIZE ?v = stats_fields (sv_stats s)"
    using read_u64s_concat [of "stats_fields (sv_stats s)"] unfolding length_stats_fields .
  moreover have "pkt_view p = (r_fd req, dest req, store32 (r_id req), RVal ?v)"
    using r(3) unfolding decode_long .
  moreover have "parse_stats s req = Some s'" using r(1) unfolding parse_stats_def Let_def l .
  ultimately show ?thesis using r(2) unfolding stats_fields_def Let_def by blast
qed

definition counted :: stats where
  "counted = \<lparr>st_cache_get = 1, st_cache_set = 2, st_cache_del = 3, st_cache_cas = 4, st_cache_incr = 5,
     st_db_get = 6, st_db_set = 7, st_db_del = 8, st_db_cas = 9, st_db_incr = 10, st_cache_hits = 11,
     st_cache_misses = 12, st_db_hits = 13, st_db_misses = 14, st_msg_tipc = 15, st_msg_tcp = 16, st_msg_udp = 17,
     st_msg_sctp = 18, st_net_version_mismatch = 19, st_net_broken_req = 20, st_net_unk_req = 21,
     st_db_firstkey = 22, st_db_nextkey = 23\<rparr>"

theorem stats_reply_witness:
  "\<exists>s' p v. parse_stats (demo_server\<lparr>sv_stats := counted\<rparr>) (make_req UDP 5 [127, 0, 0, 1]) = Some s' \<and> sv_out s' = [p] \<and>
    snd (snd (snd (pkt_view p))) = RVal v \<and>
    read_u64s 23 v = [1, 2, 3, 4, 5, 6, 7, 8, 9, 10, 11, 12, 13, 14, 15, 16, 17, 18, 19, 20, 21, 22, 23]"
proof -
  have "req_ok (make_req UDP 5 [127, 0, 0, 1])" by simp
  moreover have "srv_ok (demo_server\<lparr>sv_stats := counted\<rparr>)" using demo_srv_ok by (simp add: srv_ok_def)
  moreover have "sv_out demo_server = []" by (simp add: demo_server_def)
  ultimately show ?thesis using stats_reply [of "demo_server\<lparr>sv_stats := counted\<rparr>"] by (fastforce simp: counted_def)
qed

text \<open>
  A message of another protocol version is answered with the version error, but
  the identifier goes out in the host's byte order, not in the network order of every other reply:
  \<^verbatim>\<open>parse_message()\<close> converts it back only after the version check.
\<close>

lemma version_mismatch_reply:
  assumes "srv_ok s" and "req_ok req" and "drop_bit 28 (hdr AND 0xF0000000) \<noteq> PROTO_VER" and "4 \<le> length rest"
  shows "\<exists>req' s' p. parse_message s req (store32 (htonl hdr) @ rest) len = Some (0, req', s') \<and>
    sv_out s' = sv_out s @ [p] \<and> fst (snd (snd (pkt_view p))) = store32 (hdr AND 0x0FFFFFFF) \<and>
    snd (snd (snd (pkt_view p))) = ROther (be32 0x800 @ be32 0x101)"
proof -
  let ?mem = "store32 (htonl hdr) @ rest" and ?req = "req\<lparr>r_id := hdr AND 0x0FFFFFFF\<rparr>"
  let ?s = "bump s (st_net_version_mismatch_update (\<lambda>n. n + 1))"
  have ld: "load32 ?mem 0 = Some (htonl hdr)" by (rule load32_front)
  obtain cmd flags where ld2: "load16 ?mem 4 = Some cmd" "load16 ?mem 6 = Some flags"
    using load16_in [of 4 ?mem] load16_in [of 6 ?mem] assms(4) by (auto simp del: store32_htonl)
  have pm: "parse_message s req ?mem len = Some (0, ?req, reply_err ?s ?req ERR_VER)"
    using assms(3) unfolding parse_message_def Let_def ld ld2 bind.simps htonl_htonl by simp
  have a: "sv_sends ?s = []" "\<not> se_passive (sv_settings ?s)" using assms(1) by (simp_all add: srv_ok_def)
  have r: "has_addr ?req" "r_reply_err ?req = r_reply_mini ?req"
    using assms(2) by (simp_all add: req_ok_def has_addr_def)
  obtain p where p: "reply_err ?s ?req ERR_VER = ?s\<lparr>sv_out := sv_out ?s @ [p]\<rparr>"
    "pkt_view p = (r_fd ?req, dest ?req, decode_reply (store32 (r_id ?req) @ store32 (htonl REP_ERR) @ store32 (htonl ERR_VER)))"
    using reply_err_wire [OF a(1)] emit_view [OF a(2) r] by metis
  have "decode_reply (store32 i @ store32 (htonl REP_ERR) @ store32 (htonl ERR_VER)) =
      (store32 i, ROther (be32 0x800 @ be32 0x101))" for i
    unfolding decode_reply_def be32_codes be32_def store32_htonl by (simp add: mem_simps)
  moreover have "sv_out (reply_err ?s ?req ERR_VER) = sv_out s @ [p]" unfolding p(1) by simp
  ultimately have "sv_out (reply_err ?s ?req ERR_VER) = sv_out s @ [p]" "fst (snd (snd (pkt_view p))) = store32 (hdr AND 0x0FFFFFFF)"
    "snd (snd (snd (pkt_view p))) = ROther (be32 0x800 @ be32 0x101)" unfolding p(2) by simp_all
  with pm show ?thesis by blast
qed

lemma version_mismatch_reply_witness:
  "\<exists>req' s' p. parse_message demo_server (make_req UDP 5 [127, 0, 0, 1]) (store32 (htonl 0x20000001) @ [0, 0, 0, 0]) 8 =
     Some (0, req', s') \<and> sv_out s' = [p] \<and> fst (snd (snd (pkt_view p))) = [1, 0, 0, 0]"
proof -
  have "req_ok (make_req UDP 5 [127, 0, 0, 1])" by simp
  moreover have "drop_bit 28 ((0x20000001 :: u32) AND 0xF0000000) \<noteq> PROTO_VER" by code_simp
  moreover have "store32 ((0x20000001 :: u32) AND 0x0FFFFFFF) = [1, 0, 0, 0]" by code_simp
  ultimately show ?thesis
    using version_mismatch_reply [OF demo_srv_ok, of _ "0x20000001" "[0, 0, 0, 0]" 8]
    by (fastforce simp: demo_server_def simp del: store32_htonl)
qed

section \<open>The database thread\<close>

text \<open>
  When \<^verbatim>\<open>pthread_cond_timedwait()\<close> returns an error other than a timeout, the
  database thread goes back to the top of its loop with the queue's lock still held, so that its
  own next step locks the lock a second time and no request can be queued any more.
\<close>

lemma failed_wait_keeps_lock:
  assumes "\<not> q_locked (sv_queue s)" and "rv \<noteq> 0" and "rv \<noteq> ETIMEDOUT"
  shows "\<exists>s'. db_wake s stop rv = Some (DbTop, s') \<and> q_locked (sv_queue s') \<and> db_top s' stop' = None"
  using assms by (simp add: db_wake_def db_take_def db_top_def queue_lock_def queue_timedwait_def)

lemma failed_wait_keeps_lock_witness:
  "\<exists>s'. db_wake demo_server False 22 = Some (DbTop, s') \<and> q_locked (sv_queue s') \<and> db_top s' False = None"
  by (rule failed_wait_keeps_lock) (use demo_srv_ok in \<open>simp_all add: srv_ok_def ETIMEDOUT_def\<close>)

section \<open>Backends\<close>

lemma opened_lawful:
  assumes "tdb_laws (lib_tdb libs) view" and "bdb_laws (lib_bdb libs) view"
    and "hash_laws (tchdbput (lib_tc libs)) (tchdbget3 (lib_tc libs)) (tchdbout (lib_tc libs)) view"
    and "hash_laws (dpput (lib_qdbm libs)) (dpgetwb (lib_qdbm libs)) (dpout (lib_qdbm libs)) view"
    and "type \<in> {BE_TDB, BE_BDB, BE_TC, BE_QDBM}" and "db_open en libs type name ms = (Some db, ms')"
  shows "lawful db view"
proof -
  from assms(5) consider "type = BE_TDB" | "type = BE_BDB" | "type = BE_TC" | "type = BE_QDBM" by blast
  then show ?thesis
  proof cases
    case 1
    then have "xtdb_open (lib_tdb libs) name ms = (Some db, ms')" using assms(6) by (simp add: db_open_def open_stubs split: if_splits)
    then show ?thesis by (rule xtdb_lawful [OF assms(1)])
  next
    case 2
    then have "bdb_open (lib_bdb libs) name ms = (Some db, ms')" using assms(6) by (simp add: db_open_def open_stubs split: if_splits)
    then show ?thesis by (rule bdb_lawful [OF assms(2)])
  next
    case 3
    then have "tc_open (lib_tc libs) name ms = (Some db, ms')" using assms(6) by (simp add: db_open_def open_stubs split: if_splits)
    then show ?thesis by (rule tc_lawful [OF assms(3)])
  next
    case 4
    then have "qdbm_open (lib_qdbm libs) name ms = (Some db, ms')" using assms(6) by (simp add: db_open_def open_stubs split: if_splits)
    then show ?thesis by (rule qdbm_lawful [OF assms(4)])
  qed
qed

text \<open>
  Property C32: on libraries that keep their documented promises, each of the TDB, Berkeley DB,
  Tokyo Cabinet and QDBM backends that \<^verbatim>\<open>db_open()\<close> can open behaves as a map from keys to values:
  what is set is fetched, a deletion reports whether the key was there, nothing else changes.
\<close>

theorem db_open_lawful:
  assumes "tdb_laws (lib_tdb libs) view" and "bdb_laws (lib_bdb libs) view"
    and "hash_laws (tchdbput (lib_tc libs)) (tchdbget3 (lib_tc libs)) (tchdbout (lib_tc libs)) view"
    and "hash_laws (dpput (lib_qdbm libs)) (dpgetwb (lib_qdbm libs)) (dpout (lib_qdbm libs)) view"
    and "type \<in> {BE_TDB, BE_BDB, BE_TC, BE_QDBM}" and "db_open en libs type name ms = (Some db, ms')"
  shows "lawful db view"
  using assms by (rule opened_lawful)

text \<open>Every library on maps.\<close>

definition map_get :: "(bytes \<rightharpoonup> bytes) \<Rightarrow> bytes \<Rightarrow> nat \<Rightarrow> int \<times> bytes" where
  "map_get c k n = (case c k of None \<Rightarrow> (- 1, []) | Some v \<Rightarrow> (int (min n (length v)), take n v))"

definition map_libs :: "(bytes \<rightharpoonup> bytes) be_libs" where
  "map_libs = \<lparr>
     lib_qdbm = \<lparr>dpopen = (\<lambda>name. Some Map.empty), dpclose = (\<lambda>c. 1), dpput = (\<lambda>c k v. (1, c(k \<mapsto> v))),
       dpgetwb = map_get, dpout = (\<lambda>c k. (if c k = None then 0 else 1, c(k := None)))\<rparr>,
     lib_bdb = \<lparr>bdb_lib_create = 0, bdb_lib_open = (\<lambda>name. (0, Map.empty)), bdb_lib_close = (\<lambda>c. 0),
       bdb_lib_put = (\<lambda>c k v. (0, c(k \<mapsto> v))),
       bdb_lib_get = (\<lambda>c k n. case c k of None \<Rightarrow> (1, []) | Some v \<Rightarrow> if length v \<le> n then (0, v) else (1, [])),
       bdb_lib_del = (\<lambda>c k. (if c k = None then 1 else 0, c(k := None)))\<rparr>,
     lib_tc = \<lparr>tchdbopen = (\<lambda>name. (True, Map.empty)), tchdbclose = (\<lambda>c. 1), tchdbput = (\<lambda>c k v. (1, c(k \<mapsto> v))),
       tchdbget3 = map_get, tchdbout = (\<lambda>c k. (if c k = None then 0 else 1, c(k := None)))\<rparr>,
     lib_tdb = map_tdb,
     lib_leveldb = \<lparr>leveldb_options_create = True, leveldb_open = (\<lambda>name. Some Map.empty),
       leveldb_put = (\<lambda>c k v. (False, c(k \<mapsto> v))), leveldb_get = (\<lambda>c k. (False, c k)),
       leveldb_delete = (\<lambda>c k. (False, c(k := None))), leveldb_iter_seek_to_first = (\<lambda>c. None),
       leveldb_iter_seek = (\<lambda>c k. None), leveldb_iter_next = (\<lambda>c k. None)\<rparr>\<rparr>"

definition all_backends :: be_enable where
  "all_backends = \<lparr>en_qdbm = True, en_bdb = True, en_tc = True, en_tdb = True, en_leveldb = True, en_null = True\<rparr>"

theorem db_open_lawful_witness:
  "\<exists>db. db_open all_backends map_libs BE_TC ''database'' [] = (Some db, []) \<and> lawful db (\<lambda>c. c)"
proof -
  obtain db where db: "db_open all_backends map_libs BE_TC ''database'' [] = (Some db, [])"
    by (auto simp: db_open_def open_stubs all_backends_def map_libs_def tc_open_def)
  have "lawful db (\<lambda>c. c)"
    by (rule db_open_lawful [OF _ _ _ _ _ db])
      (use map_tdb_laws in \<open>auto simp: map_libs_def bdb_laws_def hash_laws_def map_get_def split: option.splits\<close>)
  with db show ?thesis by blast
qed

text \<open>
  The LevelDB backend does not honour that contract: LevelDB deletes a missing key
  without an error, so the backend reports success where the others report that the key was not
  there.
\<close>

lemma leveldb_not_lawful:
  assumes "\<forall>c k. \<not> fst (leveldb_delete lib c k)" and "xleveldb_open lib name ms = (Some db, ms')"
    and "view c k = None"
  shows "\<exists>c'. dc_del db (Some c) k = Some (1, Some c') \<and> \<not> lawful db view"
proof -
  have d: "dc_del db = xleveldb_del lib"
    using assms(2) by (auto simp: xleveldb_open_def Let_def split: option.splits prod.splits if_splits)
  have r: "dc_del db (Some c) k = Some (1, Some (snd (leveldb_delete lib c k)))"
    unfolding d using assms(1) by (simp add: xleveldb_del_def split_beta)
  moreover have "\<not> lawful db view"
  proof
    assume "lawful db view"
    then obtain rv c' where "dc_del db (Some c) k = Some (rv, Some c')" "rv = 0 \<longleftrightarrow> view c k = None"
      by (rule lawful_del)
    with r assms(3) show False by simp
  qed
  ultimately show ?thesis by blast
qed

lemma leveldb_not_lawful_witness:
  "\<exists>db. xleveldb_open (lib_leveldb map_libs) ''database'' [] = (Some db, []) \<and> \<not> lawful db (\<lambda>c. c)"
proof -
  obtain db where db: "xleveldb_open (lib_leveldb map_libs) ''database'' [] = (Some db, [])"
    by (auto simp: map_libs_def xleveldb_open_def)
  from leveldb_not_lawful [OF _ db, of "\<lambda>c. c" Map.empty "[1]"] db show ?thesis by (simp add: map_libs_def)
qed

text \<open>The backends that were compiled in.\<close>

fun be_enabled :: "be_enable \<Rightarrow> backend_type \<Rightarrow> bool" where
  "be_enabled en BE_QDBM = en_qdbm en"
| "be_enabled en BE_BDB = en_bdb en"
| "be_enabled en BE_TC = en_tc en"
| "be_enabled en BE_TDB = en_tdb en"
| "be_enabled en BE_LEVELDB = en_leveldb en"
| "be_enabled en BE_NULL = en_null en"
| "be_enabled en _ = False"

text \<open>
  Names and types of backends are inverse to each other on the compiled-in ones; a
  known name that was not compiled in is told apart from an unknown one; and the default backend
  is always one that was compiled in.
\<close>

lemma be_names_roundtrip:
  "be_type_from_str en (be_str_from_type t) =
     (if be_enabled en t then t else if t \<in> {BE_UNKNOWN, BE_UNSUPPORTED} then BE_UNKNOWN else BE_UNSUPPORTED) \<and>
   (be_enabled en (be_type_from_str en name) \<longrightarrow> be_str_from_type (be_type_from_str en name) = name) \<and>
   (DEFAULT_BE en = Some t \<longrightarrow> be_enabled en t)"
proof (intro conjI impI)
  show "be_type_from_str en (be_str_from_type t) =
     (if be_enabled en t then t else if t \<in> {BE_UNKNOWN, BE_UNSUPPORTED} then BE_UNKNOWN else BE_UNSUPPORTED)"
    by (cases t) (simp_all add: be_type_from_str_def be_str_from_type_def)
  show "be_str_from_type (be_type_from_str en name) = name" if "be_enabled en (be_type_from_str en name)"
    using that by (simp add: be_type_from_str_def be_str_from_type_def split: if_splits)
  show "be_enabled en t" if "DEFAULT_BE en = Some t"
    using that by (auto simp: DEFAULT_BE_def split: if_splits)
qed

lemma be_names_roundtrip_witness:
  "be_type_from_str all_backends (be_str_from_type BE_TC) = BE_TC \<and> be_str_from_type (be_type_from_str all_backends ''tdb'') = ''tdb''"
proof -
  have e: "be_enabled all_backends BE_TC" "be_enabled all_backends (be_type_from_str all_backends ''tdb'')"
    by (simp_all add: all_backends_def be_type_from_str_def)
  from be_names_roundtrip [of all_backends BE_TC "''tdb''"] e show ?thesis by simp
qed

end
