(* ===== verification/Startup_Theorems.thy ===== *)
theory Startup_Theorems
  imports Startup Component_Theorems
begin

text \<open>
  The theorems about starting and stopping: every setting can be given on the command line, a
  start that succeeds leaves a server in the state from which the theorems about the running
  server begin, and the stop that follows the database thread's loop loses nothing.
\<close>

section \<open>Numbers and options\<close>

definition int_str :: "int \<Rightarrow> string" where
  "int_str n = map (\<lambda>b. char_of (unat b)) (sdec n)"

lemma of_char_byte: "of_char (char_of (unat (b :: u8))) = b"
proof -
  have "of_char (char_of (unat b) :: char) = (of_nat (of_char (char_of (unat b))) :: u8)"
    by (rule of_nat_of_char [symmetric])
  also have "of_char (char_of (unat b)) = unat b"
  proof -
    have "unat b < 2 ^ LENGTH(8)" by (rule unsigned_less)
    then show ?thesis by (simp add: of_char_of)
  qed
  finally show ?thesis by simp
qed

lemma int_str_bytes [simp]: "map of_char (int_str n) = sdec n"
  by (simp add: int_str_def o_def of_char_byte)

lemma strtoll_str_spaces: "strtoll_str (replicate k 32 @ d) = strtoll_str d"
proof -
  have "dropWhile isspace (replicate k 32 @ d) = dropWhile isspace d"
    by (induction k) (simp_all add: isspace_def)
  then show ?thesis by (simp add: strtoll_str_def)
qed

lemma atoi_int_str [simp]:
  assumes "int_min \<le> n" and "n \<le> int_max"
  shows "atoi (int_str n) = Some n"
proof -
  have "sint (word_of_int n :: u64) = n"
    using assms by (simp add: signed_of_int signed_take_bit_int_eq_self int_min_def int_max_def)
  then have "strtoll_str (sdec n) = n"
    using strtoll_str_fmt23lld [of "word_of_int n"] by (simp add: fmt23lld_def Let_def strtoll_str_spaces)
  with assms show ?thesis by (simp add: atoi_def)
qed

lemma getopt_arg:
  "takes_arg c \<Longrightarrow> c \<noteq> CHR ''-'' \<Longrightarrow> getopt [] ([CHR ''-'', c] # a # as) = (c, Some a) # getopt [] as"
  by simp

lemma getopt_plain:
  "plain_opt c \<Longrightarrow> \<not> takes_arg c \<Longrightarrow> c \<noteq> CHR ''-'' \<Longrightarrow> getopt [] ([CHR ''-'', c] # as) = (c, None) # getopt [] as"
  by simp

section \<open>The command line\<close>

text \<open>A command line that says everything, and the settings that can be said.\<close>

definition flag :: "bool \<Rightarrow> string \<Rightarrow> string list" where
  "flag b opt = (if b then [opt] else [])"

definition command_line :: "settings \<Rightarrow> string list" where
  "command_line st = [''-b'', be_str_from_type (se_backend st), ''-d'', the (se_dbname st),
     ''-l'', int_str (se_tipc_lower st), ''-L'', int_str (se_tipc_upper st),
     ''-t'', int_str (se_tcp_port st), ''-T'', the (se_tcp_addr st),
     ''-u'', int_str (se_udp_port st), ''-U'', the (se_udp_addr st),
     ''-s'', int_str (se_sctp_port st), ''-S'', the (se_sctp_addr st),
     ''-c'', int_str (se_numobjs st div 1024), ''-o'', the (se_logfname st)] @
     (case se_pidfile st of None \<Rightarrow> [] | Some f \<Rightarrow> [''-i'', f]) @
     flag (se_foreground st) ''-f'' @ flag (se_passive st) ''-p'' @ flag (se_read_only st) ''-r''"

definition int_ok :: "int \<Rightarrow> bool" where
  "int_ok n \<longleftrightarrow> int_min \<le> n \<and> n \<le> int_max \<and> n \<noteq> - 1"

definition sayable :: "be_enable \<Rightarrow> settings \<Rightarrow> bool" where
  "sayable en st \<longleftrightarrow> be_type_from_str en (be_str_from_type (se_backend st)) = se_backend st \<and>
     se_backend st \<noteq> BE_UNKNOWN \<and> se_backend st \<noteq> BE_UNSUPPORTED \<and> DEFAULT_BE en \<noteq> None \<and>
     se_dbname st \<noteq> None \<and> se_logfname st \<noteq> None \<and> se_tcp_addr st \<noteq> None \<and> se_udp_addr st \<noteq> None \<and>
     se_sctp_addr st \<noteq> None \<and>
     int_ok (se_tipc_lower st) \<and> int_ok (se_tipc_upper st) \<and> int_ok (se_tcp_port st) \<and>
     int_ok (se_udp_port st) \<and> int_ok (se_sctp_port st) \<and> int_ok (se_numobjs st) \<and> 1024 dvd se_numobjs st"

lemma getopt_flags:
  "getopt [] (flag a ''-f'' @ flag b ''-p'' @ flag c ''-r'') =
    (if a then [(CHR ''f'', None)] else []) @ (if b then [(CHR ''p'', None)] else []) @ (if c then [(CHR ''r'', None)] else [])"
  by (simp add: flag_def takes_arg_def plain_opt_def)

lemma getopt_command_line:
  "getopt [] (command_line st) =
    [(CHR ''b'', Some (be_str_from_type (se_backend st))), (CHR ''d'', Some (the (se_dbname st))),
     (CHR ''l'', Some (int_str (se_tipc_lower st))), (CHR ''L'', Some (int_str (se_tipc_upper st))),
     (CHR ''t'', Some (int_str (se_tcp_port st))), (CHR ''T'', Some (the (se_tcp_addr st))),
     (CHR ''u'', Some (int_str (se_udp_port st))), (CHR ''U'', Some (the (se_udp_addr st))),
     (CHR ''s'', Some (int_str (se_sctp_port st))), (CHR ''S'', Some (the (se_sctp_addr st))),
     (CHR ''c'', Some (int_str (se_numobjs st div 1024))), (CHR ''o'', Some (the (se_logfname st)))] @
     (case se_pidfile st of None \<Rightarrow> [] | Some f \<Rightarrow> [(CHR ''i'', Some f)]) @
     (if se_foreground st then [(CHR ''f'', None)] else []) @ (if se_passive st then [(CHR ''p'', None)] else []) @
     (if se_read_only st then [(CHR ''r'', None)] else [])"
  unfolding command_line_def append_Cons append_Nil
  by (cases "se_pidfile st") (simp_all add: getopt_arg takes_arg_def getopt_flags del: getopt.simps)

lemma int_okD [simp]:
  assumes "int_ok n"
  shows "atoi (int_str n) = Some n" and "default_int n d = n"
  using assms by (simp_all add: int_ok_def default_int_def)

lemma strdup_good:
  assumes "good ms"
  obtains ms' where "strdup s ms = (Some s, ms')" and "good ms'"
proof -
  obtain ms' where "malloc ms = (True, ms')" "good ms'" using assms by (rule malloc_good)
  then show thesis by (intro that) (simp_all add: strdup_def)
qed

lemma kilo:
  assumes "int_ok n" and "1024 dvd n"
  shows "atoi (int_str (n div 1024)) = Some (n div 1024)" and "n div 1024 * 1024 = n"
    and "int_min \<le> n" and "n \<le> int_max"
proof -
  show n: "n div 1024 * 1024 = n" using assms(2) by simp
  show r: "int_min \<le> n" "n \<le> int_max" using assms(1) by (simp_all add: int_ok_def)
  have "int_min \<le> n div 1024" "n div 1024 \<le> int_max" using n r by (auto simp: int_min_def int_max_def)
  then show "atoi (int_str (n div 1024)) = Some (n div 1024)" by simp
qed

text \<open>
  Property C38: every setting can be given on the command line: a server started with the
  options that spell out some settings runs with exactly these settings, whatever the defaults.
\<close>

lemma set_options_append:
  assumes "set_options en os st ms = Some (Inr (st', ms'))"
  shows "set_options en (os @ os') st ms = set_options en os' st' ms'"
  using assms
proof (induction os arbitrary: st ms)
  case (Cons p os)
  obtain c a where [simp]: "p = (c, a)" by (cases p)
  from Cons.prems obtain st1 ms1 where "set_option en c a st ms = Some (Inr (st1, ms1))"
    "set_options en os st1 ms1 = Some (Inr (st', ms'))" by (auto split: Option.bind_splits sum.splits)
  with Cons.IH show ?case by simp
qed simp

theorem options_roundtrip:
  assumes "sayable en st" and "good ms"
  shows "\<exists>ms'. load_settings en (command_line st) ms = Some (Inr (st, ms')) \<and> good ms'"
proof -
  note a = assms(1) [unfolded sayable_def]
  obtain be where be: "DEFAULT_BE en = Some be" using a by blast
  obtain ms1 where m1: "strdup ''database'' ms = (Some ''database'', ms1)" "good ms1" using assms(2) by (rule strdup_good)
  obtain ms2 where m2: "strdup ''-'' ms1 = (Some ''-'', ms2)" "good ms2" using m1(2) by (rule strdup_good)
  obtain dbn lgf ta ua sa where n: "se_dbname st = Some dbn" "se_logfname st = Some lgf" "se_tcp_addr st = Some ta"
    "se_udp_addr st = Some ua" "se_sctp_addr st = Some sa" using a by auto
  obtain ms3 where m3: "strdup dbn ms2 = (Some dbn, ms3)" "good ms3" using m2(2) by (rule strdup_good)
  obtain ms4 where m4: "strdup lgf ms3 = (Some lgf, ms4)" "good ms4" using m3(2) by (rule strdup_good)
  obtain ms5 where m5: "strdup (the (se_pidfile st)) ms4 = (Some (the (se_pidfile st)), ms5)" "good ms5"
    using m4(2) by (rule strdup_good)
  have k: "int_ok (se_numobjs st)" "1024 dvd se_numobjs st" using a by simp_all
  note k = kilo [OF k]
  let ?flags = "(if se_foreground st then [(CHR ''f'', None)] else []) @ (if se_passive st then [(CHR ''p'', None)] else []) @
     (if se_read_only st then [(CHR ''r'', None)] else [])"
  let ?os = "[(CHR ''b'', Some (be_str_from_type (se_backend st))), (CHR ''d'', Some dbn),
     (CHR ''l'', Some (int_str (se_tipc_lower st))), (CHR ''L'', Some (int_str (se_tipc_upper st))),
     (CHR ''t'', Some (int_str (se_tcp_port st))), (CHR ''T'', Some ta),
     (CHR ''u'', Some (int_str (se_udp_port st))), (CHR ''U'', Some ua),
     (CHR ''s'', Some (int_str (se_sctp_port st))), (CHR ''S'', Some sa),
     (CHR ''c'', Some (int_str (se_numobjs st div 1024))), (CHR ''o'', Some lgf)]"
  let ?st0 = "\<lparr>se_tipc_lower = - 1, se_tipc_upper = - 1, se_tcp_addr = None, se_tcp_port = - 1,
       se_udp_addr = None, se_udp_port = - 1, se_sctp_addr = None, se_sctp_port = - 1, se_numobjs = - 1,
       se_foreground = False, se_passive = False, se_read_only = False, se_dbname = Some ''database'',
       se_logfname = Some ''-'', se_backend = be, se_pidfile = None\<rparr>"
  let ?st1 = "st\<lparr>se_foreground := False, se_passive := False, se_read_only := False, se_pidfile := None\<rparr>"
  have 1: "set_options en ?os ?st0 ms2 = Some (Inr (?st1, ms4))"
    using a m3(1) m4(1) k n by (cases st) (simp add: set_option_def)
  have 2: "set_options en (case se_pidfile st of None \<Rightarrow> [] | Some f \<Rightarrow> [(CHR ''i'', Some f)]) ?st1 ms4 =
      Some (Inr (?st1\<lparr>se_pidfile := se_pidfile st\<rparr>, if se_pidfile st = None then ms4 else ms5))"
    using m5(1) by (cases "se_pidfile st") (simp_all add: set_option_def)
  have 3: "set_options en ?flags (?st1\<lparr>se_pidfile := se_pidfile st\<rparr>) ms = Some (Inr (st, ms))" for ms
    by (cases st) (simp add: set_option_def)
  have 4: "fill_defaults st = st"
    using a by (cases st) (simp add: fill_defaults_def default_str_def)
  have "set_options en (getopt [] (command_line st)) ?st0 ms2 = Some (Inr (st, if se_pidfile st = None then ms4 else ms5))"
    unfolding getopt_command_line n option.sel set_options_append [OF 1] set_options_append [OF 2] 3 ..
  then have "load_settings en (command_line st) ms = Some (Inr (st, if se_pidfile st = None then ms4 else ms5))"
    using a be m1(1) m2(1) 4 by (simp add: load_settings_def Let_def)
  with m4(2) m5(2) show ?thesis by simp
qed

definition tool_settings :: settings where
  "tool_settings = \<lparr>se_tipc_lower = 10, se_tipc_upper = 12, se_tcp_addr = Some ''127.0.0.1'', se_tcp_port = 26010,
     se_udp_addr = Some ''127.0.0.1'', se_udp_port = - 7, se_sctp_addr = Some ''127.0.0.1'', se_sctp_port = 26012,
     se_numobjs = 4096, se_foreground = True, se_passive = False, se_read_only = True, se_dbname = Some ''db'',
     se_logfname = Some ''log'', se_backend = BE_TDB, se_pidfile = Some ''pid''\<rparr>"

theorem options_roundtrip_witness:
  "\<exists>ms'. load_settings all_backends (command_line tool_settings) [True] = Some (Inr (tool_settings, ms')) \<and> good ms'"
  by (rule options_roundtrip)
    (simp_all add: sayable_def tool_settings_def all_backends_def be_type_from_str_def be_str_from_type_def
      DEFAULT_BE_def int_ok_def int_min_def int_max_def good_def)

text \<open>A start that fails says why, on the terminal or in the log, unless the log is off.\<close>

lemma errlog_speaks: "errlog fd now err msg = Some [] \<Longrightarrow> fd = - 1"
  by (auto simp: errlog_def wlog_def split: if_splits)

lemma log_on: "log_init opn st = (ok, - 1) \<Longrightarrow> ok \<noteq> 0 \<Longrightarrow> se_logfname st = None"
  by (cases "se_logfname st") (auto simp: log_init_def Let_def split: if_splits)

lemma message_not_empty: "unknown_parameter c \<noteq> []" "help_text en \<noteq> []"
  by (simp_all add: unknown_parameter_def help_text_def)

lemma set_options_message: "set_options en os st ms = Some (Inl msg) \<Longrightarrow> msg \<noteq> []"
  by (induction os arbitrary: st ms)
    (auto simp: set_option_def message_not_empty split: Option.bind_splits sum.splits option.splits prod.splits if_splits)

lemma load_settings_message:
  assumes "load_settings en args ms = Some (Inl msg)"
  shows "msg \<noteq> []"
  using assms set_options_message
  by (fastforce simp: load_settings_def Let_def split: Option.bind_splits sum.splits prod.splits if_splits)

lemma failed_start_speaks:
  assumes "main_start ho args stats0 ms = Some (Exited 1, term, log)"
  shows "concat term \<noteq> [] \<or> log \<noteq> [] \<or>
    (\<exists>st ms'. load_settings (ho_en ho) args ms = Some (Inr (st, ms')) \<and> se_logfname st = None)"
  using assms
  by (auto simp: main_start_def fails_def Let_def dest!: errlog_speaks dest: log_on load_settings_message
      split: Option.bind_splits option.splits sum.splits prod.splits if_splits)

lemma asks_for_help: "DEFAULT_BE en \<noteq> None \<Longrightarrow> load_settings en [''-h''] ms = Some (Inl (help_text en))"
proof -
  assume "DEFAULT_BE en \<noteq> None"
  moreover have "getopt [] [''-h''] = [(CHR ''h'', None)]" by (simp add: takes_arg_def plain_opt_def)
  ultimately show ?thesis by (auto simp: load_settings_def set_option_def Let_def split: prod.split)
qed

section \<open>A server that has started\<close>

definition numobjs_ok :: "settings \<Rightarrow> bool" where
  "numobjs_ok st \<longleftrightarrow> se_numobjs st = - 1 \<or> 1024 dvd se_numobjs st \<and> se_numobjs st \<le> int_max"

lemma set_option_numobjs:
  assumes "set_option en c a st ms = Some (Inr (st', ms'))" and "numobjs_ok st"
  shows "numobjs_ok st'"
  using assms
  by (auto simp: set_option_def numobjs_ok_def split: option.splits if_splits Option.bind_splits prod.splits)

lemma set_options_numobjs:
  "set_options en os st ms = Some (Inr (st', ms')) \<Longrightarrow> numobjs_ok st \<Longrightarrow> numobjs_ok st'"
proof (induction os arbitrary: st ms)
  case (Cons p os)
  obtain c a where [simp]: "p = (c, a)" by (cases p)
  from Cons.prems obtain st1 ms1 where "set_option en c a st ms = Some (Inr (st1, ms1))"
    "set_options en os st1 ms1 = Some (Inr (st', ms'))" by (auto split: Option.bind_splits sum.splits)
  with Cons set_option_numobjs show ?case by blast
qed simp

lemma load_settings_numobjs:
  assumes "load_settings en args ms = Some (Inr (st, ms'))"
  shows "1024 dvd se_numobjs st" and "se_numobjs st \<le> int_max"
proof -
  obtain os st0 ms0 st1 where st: "set_options en os st0 ms0 = Some (Inr (st1, ms'))" "st = fill_defaults st1"
    "se_numobjs st0 = - 1"
    using assms by (auto simp: load_settings_def Let_def split: Option.bind_splits sum.splits prod.splits if_splits)
  then have "numobjs_ok st1" using set_options_numobjs by (simp add: numobjs_ok_def)
  then show "1024 dvd se_numobjs st" "se_numobjs st \<le> int_max"
    by (auto simp: st(2) fill_defaults_def default_int_def numobjs_ok_def int_max_def)
qed

lemma main_startD:
  assumes "main_start ho args stats0 ms = Some (Running s db thread logfd pidf, out)"
  obtains st cd q name ms1 ms2 ms3 ms4 where "load_settings (ho_en ho) args ms = Some (Inr (st, ms1))"
    and "cache_create (of_int (se_numobjs st)) 0 ms1 = Some (Some cd, ms2)"
    and "queue_create ms2 = (Some q, ms3)" and "se_dbname st = Some name"
    and "db_open (ho_en ho) (ho_libs ho) (se_backend st) name ms3 = (Some db, ms4)"
    and "wlog logfd (ho_time ho) (opened_msg name (se_backend st)) \<noteq> None"
    and "s = \<lparr>sv_cache = cd, sv_queue = q, sv_settings = st, sv_stats = stats_init stats0,
      sv_ms = sv_ms s, sv_sends = ho_sends ho, sv_out = [], sv_bufs = ho_bufs ho, sv_fresh = ho_fresh ho\<rparr>"
  using assms
  by (auto simp: main_start_def fails_def Let_def split: Option.bind_splits option.splits sum.splits prod.splits if_splits)

lemma numobjs_word:
  assumes "1024 \<le> n" and "n \<le> int_max"
  shows "of_nat CHAINLEN \<le> (of_int n :: u64)" and "unat (of_int n :: u64) < 2 ^ 56"
proof -
  have "unat (of_int n :: u64) = nat n"
    using assms by (simp add: unat_eq_nat_uint uint_word_of_int int_max_def)
  then show "of_nat CHAINLEN \<le> (of_int n :: u64)" "unat (of_int n :: u64) < 2 ^ 56"
    using assms by (simp_all add: word_le_nat_alt CHAINLEN_def int_max_def)
qed

lemma cache_create_good:
  assumes "1024 \<le> n" and "n \<le> int_max" and "good ms"
  shows "\<exists>cd ms'. cache_create (of_int n) fl ms = Some (Some cd, ms') \<and> good ms'"
proof -
  obtain ms1 where 1: "malloc ms = (True, ms1)" "good ms1" using assms(3) by (rule malloc_good)
  obtain ms2 where 2: "malloc ms1 = (True, ms2)" "good ms2" using 1(2) by (rule malloc_good)
  from cache_create_empty [OF numobjs_word [OF assms(1,2)], of fl ms] 1 2 show ?thesis
    by (auto simp: cache_create_def Let_def split: if_splits)
qed

text \<open>What the database libraries are relied on for, whichever is used.\<close>

definition libs_lawful :: "'c be_libs \<Rightarrow> ('c \<Rightarrow> bytes \<rightharpoonup> bytes) \<Rightarrow> bool" where
  "libs_lawful libs view \<longleftrightarrow> tdb_laws (lib_tdb libs) view \<and> bdb_laws (lib_bdb libs) view \<and>
     hash_laws (tchdbput (lib_tc libs)) (tchdbget3 (lib_tc libs)) (tchdbout (lib_tc libs)) view \<and>
     hash_laws (dpput (lib_qdbm libs)) (dpgetwb (lib_qdbm libs)) (dpout (lib_qdbm libs)) view"

text \<open>
  A start that succeeds with a store backend and room for at least one object in the
  cache leaves the server in the state \<open>boot\<close> from which the theorems about the running server
  begin: the cache is well formed and empty, the queue empty, the database what it was.
\<close>

lemma boot_state:
  assumes "main_start ho args stats0 ms = Some (Running s db thread logfd pidf, out)"
    and "libs_lawful (ho_libs ho) view" and "se_backend (sv_settings s) \<in> {BE_TDB, BE_BDB, BE_TC, BE_QDBM}"
    and "0 < se_numobjs (sv_settings s)" and "\<not> se_passive (sv_settings s)" and "\<not> se_read_only (sv_settings s)"
    and "good (sv_ms s)" and "ho_sends ho = []" and "dc_conn db = Some c" and "vals_ok (view c)"
  shows "boot view (view c) s db"
proof -
  obtain st cd q name ms1 ms2 ms3 ms4 where st: "load_settings (ho_en ho) args ms = Some (Inr (st, ms1))"
    and cd: "cache_create (of_int (se_numobjs st)) 0 ms1 = Some (Some cd, ms2)"
    and q: "queue_create ms2 = (Some q, ms3)"
    and db: "db_open (ho_en ho) (ho_libs ho) (se_backend st) name ms3 = (Some db, ms4)"
    and s: "s = \<lparr>sv_cache = cd, sv_queue = q, sv_settings = st, sv_stats = stats_init stats0,
      sv_ms = sv_ms s, sv_sends = ho_sends ho, sv_out = [], sv_bufs = ho_bufs ho, sv_fresh = ho_fresh ho\<rparr>"
    using assms(1) by (rule main_startD)
  have sel: "sv_cache s = cd" "sv_queue s = q" "sv_settings s = st" "sv_sends s = []" "sv_out s = []"
    using assms(8) by (subst s, simp)+
  let ?n = "se_numobjs st"
  have n: "1024 \<le> ?n" "?n \<le> int_max"
    using load_settings_numobjs [OF st] assms(4) by (simp_all add: sel zdvd_imp_le)
  note r = numobjs_word [OF n]
  have "cache_wf cd" "lookup cd = Map.empty"
    using cache_create_empty [OF r, of 0 ms1] cd by auto
  moreover have "queue_ok q \<and> queue_items q = [] \<and> \<not> q_locked q" using q by (rule queue_create_ok)
  moreover have "lawful db view"
    using opened_lawful [OF _ _ _ _ _ db] assms(2,3) by (simp add: libs_lawful_def sel)
  ultimately show ?thesis using assms(5-7,9,10) by (simp add: boot_def srv_ok_def sel)
qed

definition demo_host :: "(bytes \<rightharpoonup> bytes) host" where
  "demo_host = \<lparr>ho_en = all_backends, ho_libs = map_libs, ho_open = (\<lambda>name. 7), ho_time = ''now '', ho_err = ''error'', ho_fork = 0, ho_fopen = (\<lambda>f. True), ho_pid = ''42'',
     ho_sends = [], ho_bufs = (\<lambda>t. replicate SBSIZE 0), ho_fresh = []\<rparr>"

lemma demo_libs: "libs_lawful (ho_libs demo_host) (\<lambda>c. c)"
  using map_tdb_laws
  by (auto simp: libs_lawful_def demo_host_def map_libs_def bdb_laws_def hash_laws_def map_get_def split: option.splits)

lemma demo_start:
  "\<exists>s db out. main_start demo_host [''-f''] zero_stats [] = Some (Running s db True 1 None, out) \<and>
    se_backend (sv_settings s) = BE_TDB \<and> 0 < se_numobjs (sv_settings s) \<and> \<not> se_passive (sv_settings s) \<and>
    \<not> se_read_only (sv_settings s) \<and> sv_ms s = [] \<and> dc_conn db = Some Map.empty \<and> (\<forall>c. dc_close db (Some c) \<noteq> None)"
proof -
  have g: "getopt [] [''-f''] = [(CHR ''f'', None)]" by (simp add: takes_arg_def plain_opt_def)
  have en: "DEFAULT_BE all_backends = Some BE_TDB" "en_tdb all_backends"
    by (simp_all add: all_backends_def DEFAULT_BE_def)
  obtain st where st: "load_settings all_backends [''-f''] [] = Some (Inr (st, []))" "se_numobjs st = 131072"
    "se_foreground st" "\<not> se_passive st" "\<not> se_read_only st" "se_backend st = BE_TDB"
    "se_dbname st = Some ''database''" "se_logfname st = Some ''-''" "se_pidfile st = None"
    unfolding load_settings_def g
    by (simp add: en Let_def strdup_def set_option_def fill_defaults_def default_int_def default_str_def)
  obtain cd where cd: "cache_create 131072 0 [] = Some (Some cd, [])"
    using cache_create_good [of 131072 "[]" 0] by (auto simp: int_max_def cache_create_def Let_def split: if_splits)
  obtain q where q: "queue_create [] = (Some q, [])" by (simp add: queue_create_def)
  obtain db where db: "db_open all_backends map_libs BE_TDB ''database'' [] = (Some db, [])" "dc_conn db = Some Map.empty"
    "\<forall>c. dc_close db (Some c) \<noteq> None"
    by (simp add: db_open_def en map_libs_def xtdb_open_def map_tdb_def xtdb_close_def)
  show ?thesis
    by (simp add: main_start_def demo_host_def st log_init_def cd q db wlog_def opened_msg_def
        be_str_from_type_def db_loop_start_def write_pid_def del: not_None_eq)
qed

lemma boot_state_example:
  "\<exists>s db out. main_start demo_host [''-f''] zero_stats [] = Some (Running s db True 1 None, out) \<and> boot (\<lambda>c. c) Map.empty s db"
proof -
  obtain s db out where s: "main_start demo_host [''-f''] zero_stats [] = Some (Running s db True 1 None, out)"
    "se_backend (sv_settings s) = BE_TDB" "0 < se_numobjs (sv_settings s)" "\<not> se_passive (sv_settings s)"
    "\<not> se_read_only (sv_settings s)" "sv_ms s = []" "dc_conn db = Some Map.empty"
    using demo_start by blast
  have "boot (\<lambda>c. c) Map.empty s db"
    using boot_state [OF s(1) demo_libs _ s(3-5) _ _ s(7)] s(2,6) by (simp add: demo_host_def vals_ok_def)
  with s(1) show ?thesis by blast
qed

text \<open>
  The log's buffer has 512 bytes: a server whose database path has 478 characters
  or more goes outside it before it serves anything: \<^verbatim>\<open>wlog()\<close> writes as many bytes as
  \<^verbatim>\<open>vsnprintf()\<close> would have produced.
\<close>

lemma long_path_undefined:
  assumes "load_settings (ho_en ho) args ms = Some (Inr (st, ms1))" and "good ms1"
    and "se_logfname st = Some ''-''" and "se_dbname st = Some name" and "478 \<le> length name"
    and "0 < se_numobjs st" and "\<And>ms. good ms \<Longrightarrow> fst (db_open (ho_en ho) (ho_libs ho) (se_backend st) name ms) \<noteq> None"
  shows "main_start ho args stats0 ms = None"
proof -
  have n: "1024 \<le> se_numobjs st" "se_numobjs st \<le> int_max"
    using load_settings_numobjs [OF assms(1)] assms(6) by (simp_all add: zdvd_imp_le)
  obtain cd ms2 where cd: "cache_create (of_int (se_numobjs st)) 0 ms1 = Some (Some cd, ms2)" "good ms2"
    using cache_create_good [OF n assms(2)] by blast
  obtain ms3 where ms3: "malloc ms2 = (True, ms3)" "good ms3" using cd(2) by (rule malloc_good)
  then obtain q where q: "queue_create ms2 = (Some q, ms3)" by (simp add: queue_create_def)
  obtain db ms4 where db: "db_open (ho_en ho) (ho_libs ho) (se_backend st) name ms3 = (Some db, ms4)"
    using assms(7) [OF ms3(2)] by (metis option.exhaust prod.collapse)
  have "512 < length (opened_msg name (se_backend st))"
    using assms(5) by (simp add: opened_msg_def be_str_from_type_def)
  then have "wlog 1 (ho_time ho) (opened_msg name (se_backend st)) = None" by (simp add: wlog_def)
  then show ?thesis using assms(1,3,4) cd(1) q db by (simp add: main_start_def log_init_def)
qed

lemma long_path_undefined_witness:
  "main_start demo_host [''-d'', replicate 478 CHR ''x''] zero_stats [] = None"
proof -
  have g: "getopt [] [''-d'', a] = [(CHR ''d'', Some a)]" for a by (simp add: takes_arg_def)
  have en: "DEFAULT_BE all_backends = Some BE_TDB" "en_tdb all_backends"
    by (simp_all add: all_backends_def DEFAULT_BE_def)
  obtain st where st: "\<And>a. load_settings all_backends [''-d'', a] [] = Some (Inr (st\<lparr>se_dbname := Some a\<rparr>, []))"
    "se_numobjs st = 131072" "se_backend st = BE_TDB" "se_logfname st = Some ''-''"
  proof -
    let ?st = "\<lparr>se_tipc_lower = 10, se_tipc_upper = 10, se_tcp_addr = Some ''0.0.0.0'', se_tcp_port = 26010,
       se_udp_addr = Some ''0.0.0.0'', se_udp_port = 26010, se_sctp_addr = Some ''0.0.0.0'', se_sctp_port = 26010,
       se_numobjs = 131072, se_foreground = False, se_passive = False, se_read_only = False, se_dbname = None,
       se_logfname = Some ''-'', se_backend = BE_TDB, se_pidfile = None\<rparr>"
    show thesis
      by (rule that [of ?st])
        (simp_all add: load_settings_def g en Let_def strdup_def set_option_def fill_defaults_def default_int_def
          default_str_def del: getopt.simps)
  qed
  let ?name = "replicate 478 CHR ''x''"
  have "fst (db_open all_backends map_libs BE_TDB ?name ms) \<noteq> None" if "good ms" for ms
  proof -
    obtain ms' where "malloc ms = (True, ms')" using \<open>good ms\<close> by (rule malloc_good)
    then show ?thesis by (simp add: db_open_def en map_libs_def xtdb_open_def map_tdb_def)
  qed
  then show ?thesis
    using long_path_undefined [of demo_host "[''-d'', ?name]" "[]" "st\<lparr>se_dbname := Some ?name\<rparr>" "[]" ?name zero_stats]
      st by (simp add: demo_host_def)
qed

text \<open>
  A passive server becomes the active one on a signal, and only then sends; the signal for
  read-only mode changes nothing the second time.
\<close>

lemma takeover:
  assumes "srv_ok (s\<lparr>sv_settings := (sv_settings s)\<lparr>se_passive := False\<rparr>\<rparr>)" and "se_passive (sv_settings s)"
  shows "srv_ok (passive_to_active_sighandler s)"
    and "passive_to_active_sighandler (passive_to_active_sighandler s) = s"
  using assms by (simp_all add: passive_to_active_sighandler_def)

lemma read_only_twice: "enable_read_only_sighandler (enable_read_only_sighandler s) = enable_read_only_sighandler s"
  by (simp add: enable_read_only_sighandler_def)

section \<open>Stopping\<close>

lemma process_op_close:
  "process_op s db e = Some (s', db') \<Longrightarrow> dc_close db' = dc_close db"
  by (auto simp: process_op_def op_set_def op_get_def op_del_def op_cas_def op_incr_def op_firstkey_def op_nextkey_def
      Let_def split: req_slot.splits if_splits Option.bind_splits option.splits prod.splits)

lemma step_close: "sys_step s db pc cs evs s' db' pc' cs' \<Longrightarrow> dc_close db' = dc_close db"
  by (induction rule: sys_step.induct)
    (auto simp: db_work_def process_op_close split: Option.bind_splits prod.splits)

lemma reach_close: "reach s0 db0 h s db pc cs \<Longrightarrow> dc_close db = dc_close db0"
  by (induction rule: reach.induct) (simp_all add: step_close)

lemma done_empty:
  assumes "queue_ok (sv_queue s)" and "\<not> q_locked (sv_queue s)" and "db_wake s stop rv = Some (DbDone, s')"
  shows "queue_addrs (sv_queue s) = []" and "s' = s"
proof -
  let ?sl = "s\<lparr>sv_queue := (sv_queue s)\<lparr>q_locked := True\<rparr>\<rparr>"
  have t: "db_take ?sl stop rv = Some (DbDone, s')"
    using assms(2,3) by (auto simp: db_wake_def queue_lock_def queue_timedwait_def db_wait_def queue_unlock_def Let_def split: if_splits)
  then have rv: "rv = 0 \<or> rv = ETIMEDOUT" by (auto simp: db_take_def split: if_splits)
  from db_take_ok [OF assms(1,2) this, of stop] t obtain q' where
    "s' = s\<lparr>sv_queue := q'\<rparr>" "db_moved DbDone (sv_queue s) q'" "queue_addrs (sv_queue s) \<noteq> [] \<longrightarrow> False" by auto
  then show "queue_addrs (sv_queue s) = []" "s' = s" by (auto simp: db_moved_def)
qed

lemma shutdown_state:
  assumes "boot view m0 s0 db0" and "reach s0 db0 h s db DbWait cs" and "db_wake s stop rv = Some (DbDone, s')"
    and "\<And>c. dc_close db0 (Some c) \<noteq> None"
  shows "mset (map pkt_view (sv_out s')) = mset (replies h m0) \<and>
    (\<exists>c. dc_conn db = Some c \<and> view c = run_history h m0) \<and>
    (\<exists>ok. main_end s' db True = Some (ok, concat (map owned_blocks (cd_table (sv_cache s'))), se_pidfile (sv_settings s'), free_settings (sv_settings s'), 0))"
proof -
  obtain c pend where i: "sys_inv view m0 h s db DbWait c pend" and "conns_ok cs" using assms(1,2) by (rule boot_reach)
  note d = sys_invD [OF i]
  have ok: "queue_ok (sv_queue s)" "\<not> q_locked (sv_queue s)" "cache_wf (sv_cache s)"
    using d(1) by (simp_all add: srv_ok_def)
  note e = done_empty [OF ok(1,2) assms(3)]
  have p: "pend = []" using d(9) e(1) by (simp add: in_flight_def queue_items_def)
  obtain q' where q: "queue_free (sv_queue s) = Some q'" using queue_free_all [OF ok(1)] by blast
  obtain r where r: "dc_close db (Some c) = Some r"
    using assms(4) reach_close [OF assms(2)] by auto
  have "main_end s' db True = Some (r, concat (map owned_blocks (cd_table (sv_cache s'))), se_pidfile (sv_settings s'), free_settings (sv_settings s'), 0)"
    using q r cache_free_all [OF ok(3)] d(3) by (simp add: main_end_def db_loop_stop_def e(2))
  with d(3,10,12) p e(2) show ?thesis by auto
qed

lemma empty_size: "queue_ok q \<Longrightarrow> queue_addrs q = [] \<Longrightarrow> q_size q = 0"
  by (simp add: queue_ok_def queue_wf_def queue_rep_def)

lemma wait_runs:
  assumes "pc = DbTop \<or> pc = DbWait" and "queue_ok (sv_queue s)" and "\<not> q_locked (sv_queue s)"
    and "queue_addrs (sv_queue s) = []"
  shows "db_runs s db pc s db DbWait"
proof (cases "pc = DbWait")
  case True
  then show ?thesis by (simp add: db_runs.stay)
next
  case False
  then have pc: "pc = DbTop" using assms(1) by simp
  have "db_top s False = Some (DbWait, s\<lparr>sv_queue := sv_queue s\<rparr>)"
    using assms(3) db_wait_ok [of s] empty_size [OF assms(2,4)] by (simp add: db_top_def queue_lock_def queue_isempty_def)
  then show ?thesis unfolding pc using db_runs_one [OF db_step.top] by fastforce
qed

lemma wake_done:
  assumes "queue_ok (sv_queue s)" and "\<not> q_locked (sv_queue s)" and "queue_addrs (sv_queue s) = []"
  shows "db_wake s True ETIMEDOUT = Some (DbDone, s)"
proof -
  have "queue_get ((sv_queue s)\<lparr>q_locked := True\<rparr>) = Some (None, (sv_queue s)\<lparr>q_locked := True\<rparr>)"
    using assms by (simp add: queue_get_ok_Nil)
  then show ?thesis
    using assms(2)
    by (simp add: db_wake_def queue_lock_def queue_timedwait_def db_take_def queue_unlock_def relock ETIMEDOUT_def Let_def)
qed

text \<open>
  Property C19: stopping loses nothing: when the database thread leaves its loop, every request
  that was ever received has been answered, the database holds what the sequential store holds,
  and what \<^verbatim>\<open>main()\<close> then does is defined and frees every cached entry once.
\<close>

theorem shutdown_loses_nothing:
  assumes "boot view m0 s0 db0" and "reach s0 db0 h s db DbWait cs" and "db_wake s stop rv = Some (DbDone, s')"
    and "\<And>c. dc_close db0 (Some c) \<noteq> None"
  shows "mset (map pkt_view (sv_out s')) = mset (replies h m0) \<and>
    (\<exists>c. dc_conn db = Some c \<and> view c = run_history h m0) \<and>
    (\<exists>ok. main_end s' db True = Some (ok, concat (map owned_blocks (cd_table (sv_cache s'))), se_pidfile (sv_settings s'), free_settings (sv_settings s'), 0))"
  using assms by (rule shutdown_state)

theorem shutdown_loses_nothing_witness:
  "\<exists>s db ok freed pidf. reach demo_server demo_db [demo_event] s db DbWait Map.empty \<and> db_wake s True ETIMEDOUT = Some (DbDone, s) \<and>
    mset (map pkt_view (sv_out s)) = {#ev_reply demo_event Map.empty#} \<and>
    dc_conn db = Some (ev_step demo_event Map.empty) \<and> main_end s db True = Some (ok, freed, pidf, free_settings (sv_settings s), 0)"
proof -
  obtain s1 where r1: "reach demo_server demo_db [demo_event] s1 demo_db DbTop Map.empty" using demo_reach by blast
  obtain c1 pend where "sys_inv (\<lambda>c. c) Map.empty [demo_event] s1 demo_db DbTop c1 pend" and "conns_ok Map.empty" using demo_boot r1 by (rule boot_reach)
  then obtain s db pc c where r: "reach demo_server demo_db [demo_event] s db pc Map.empty" "pc = DbTop \<or> pc = DbWait"
    "sys_inv (\<lambda>c. c) Map.empty [demo_event] s db pc c []" using drain [OF r1 _ _ demo_event_fits(2)] by blast
  note d = sys_invD [OF r(3)]
  have ok: "queue_ok (sv_queue s)" "\<not> q_locked (sv_queue s)" "queue_addrs (sv_queue s) = []"
    using d(1,9) by (simp_all add: srv_ok_def queue_items_def)
  have w: "reach demo_server demo_db [demo_event] s db DbWait Map.empty" using reach_runs [OF wait_runs [OF r(2) ok] r(1)] .
  note e = wake_done [OF ok]
  have cl: "dc_close demo_db (Some c) \<noteq> None" for c
    by (simp add: demo_db_def xtdb_open_def map_tdb_def xtdb_close_def)
  from shutdown_loses_nothing [OF demo_boot w e cl] have
    "mset (map pkt_view (sv_out s)) = {#ev_reply demo_event Map.empty#}"
    "dc_conn db = Some (ev_step demo_event Map.empty)" "\<exists>ok. main_end s db True = Some (ok, concat (map owned_blocks (cd_table (sv_cache s))), se_pidfile (sv_settings s), free_settings (sv_settings s), 0)"
    by auto
  then show ?thesis using w e by (elim exE, intro exI conjI)
qed

end
