(* ===== verification/Library_Theorems.thy ===== *)
theory Library_Theorems
  imports Client_Theorems Client_Select Client_Stats Stats_Tool Startup_Theorems
begin

text \<open>
  Theorems about the rest of the client library and the program built on it: which server a key
  goes to, what the checksum sees of a key, walking over the keys, what a client makes of a reply
  that is not for it, and the way of the counters from a server to the terminal.
\<close>

section \<open>Which server\<close>

text \<open>The connection \<^verbatim>\<open>nmdb_init()\<close> returns.\<close>

definition fresh_conn :: nmdb_conn where
  "fresh_conn = \<lparr>nc_nservers = 0, nc_servers = []\<rparr>"

lemma nmdb_init_fresh: "good (cw_ms w) \<Longrightarrow> \<exists>ms. nmdb_init w = (Some fresh_conn, w\<lparr>cw_ms := ms\<rparr>) \<and> good ms"
  by (rule malloc_good [of "cw_ms w"]) (auto simp: nmdb_init_def c_malloc_def fresh_conn_def)

lemma fresh_sorted: "conn_sorted fresh_conn"
  by (simp add: conn_sorted_def conn_wf_def fresh_conn_def)

text \<open>
  Property C36: clients that add the same servers to a new connection, in any order and with any
  descriptors, send every key to the same server.
\<close>

theorem servers_agreed:
  assumes "mset (map fst as) = mset (map fst bs)" and "list_all (\<lambda>(a, fd). 0 \<le> fd) as"
    and "list_all (\<lambda>(a, fd). 0 \<le> fd) bs" and "good (cw_ms v)" and "good (cw_ms w)" and "length as < 2 ^ 32"
  shows "map_option (map_option srv_key) (select_srv (fst (add_servers fresh_conn as v)) k) =
    map_option (map_option srv_key) (select_srv (fst (add_servers fresh_conn bs w)) k)"
proof -
  have l: "length (nc_servers fresh_conn) + length as < 2 ^ 32" "length (nc_servers fresh_conn) + length bs < 2 ^ 32"
    using assms(6) mset_eq_length [OF assms(1)] by (simp_all add: fresh_conn_def)
  note a = add_servers_ok [OF fresh_sorted assms(2,4) l(1)] and b = add_servers_ok [OF fresh_sorted assms(3,5) l(2)]
  have "mset (map addr_key (map fst as)) = mset (map addr_key (map fst bs))"
    unfolding mset_map [of addr_key] assms(1) ..
  then have "mset (map srv_key (nc_servers (fst (add_servers fresh_conn as v)))) =
      mset (map srv_key (nc_servers (fst (add_servers fresh_conn bs w))))" using a b by argo
  with a b have "map srv_key (nc_servers (fst (add_servers fresh_conn as v))) =
      map srv_key (nc_servers (fst (add_servers fresh_conn bs w)))" by (intro sorted_keys_unique) simp_all
  then show ?thesis using a b by (intro select_keys) (simp_all add: conn_sorted_def)
qed

definition idle_world :: cworld where
  "idle_world = \<lparr>cw_ms = [], cw_sends = [], cw_recvs = [], cw_sent = [], cw_closed = []\<rparr>"

theorem servers_agreed_witness:
  "map_option (map_option srv_key) (select_srv (fst (add_servers fresh_conn
      [(UdpAddr 5 (- 1), 3), (TcpAddr 9 80, 4), (TipcAddr 10, 5)] idle_world)) [1, 2, 3]) =
    map_option (map_option srv_key) (select_srv (fst (add_servers fresh_conn
      [(TipcAddr 10, 7), (UdpAddr 5 (- 1), 8), (TcpAddr 9 80, 9)] idle_world)) [1, 2, 3])"
  by (rule servers_agreed) (simp_all add: idle_world_def)

text \<open>
  The server of a key depends on no more than the length of the key and its first
  half and one byte: the loop of \<^verbatim>\<open>checksum()\<close> consumes two bytes of the count per turn but
  advances by one.
\<close>

lemma server_of_half_key:
  assumes "length a = length b" and "take (length a div 2 + 1) a = take (length a div 2 + 1) b"
  shows "select_srv db a = select_srv db b"
  unfolding select_srv_def checksum_prefix [OF assms] ..

lemma server_of_half_key_example:
  "select_srv demo_conn [1, 2, 3, 4, 5, 6] = select_srv demo_conn [1, 2, 3, 4, 50, 60]"
  by (rule server_of_half_key) simp_all

section \<open>Walking over the keys\<close>

text \<open>
  With one server, the two functions that walk over a database send the protocol's
  request and hand the key in the reply to the caller, if it fits; at the end of the walk the
  result is \<open>- 1\<close> and the buffer is left alone; with several servers nothing is sent.
\<close>

lemma key_walk:
  assumes "only_server db s" and "ready s w REP_OK (be32 (length v) @ v) rest" and "ready s w' REP_NOTIN [] rest'"
    and "length k \<le> 2 ^ 16" and "length v \<le> 2 ^ 16" and "nc_nservers db' \<noteq> 1"
  shows "(\<exists>w1. nmdb_firstkey db out w = Some (fst (fits_into v out), snd (fits_into v out), w1) \<and>
      cw_sent w1 = cw_sent w @ [(sr_fd s, frame (conn_transport s) (header 1 REQ_FIRSTKEY 0))]) \<and>
    (\<exists>w1. nmdb_nextkey db k out w = Some (fst (fits_into v out), snd (fits_into v out), w1) \<and>
      cw_sent w1 = cw_sent w @ [(sr_fd s, frame (conn_transport s) (header 1 REQ_NEXTKEY 0 @ be32 (length k) @ k))]) \<and>
    (\<exists>w1. nmdb_nextkey db k out w' = Some (- 1, out, w1)) \<and>
    nmdb_firstkey db' out w = Some (- 2, out, w) \<and> nmdb_nextkey db' k out w = Some (- 2, out, w)"
proof (intro conjI)
  show "\<exists>w1. nmdb_firstkey db out w = Some (fst (fits_into v out), snd (fits_into v out), w1) \<and>
      cw_sent w1 = cw_sent w @ [(sr_fd s, frame (conn_transport s) (header 1 REQ_FIRSTKEY 0))]"
    by (rule nmdb_firstkey_value [OF assms(1,2,5)]) (blast dest: did_sent)
  show "\<exists>w1. nmdb_nextkey db k out w = Some (fst (fits_into v out), snd (fits_into v out), w1) \<and>
      cw_sent w1 = cw_sent w @ [(sr_fd s, frame (conn_transport s) (header 1 REQ_NEXTKEY 0 @ be32 (length k) @ k))]"
    by (rule nmdb_nextkey_value [OF assms(1,2,5,4)]) (blast dest: did_sent)
  show "\<exists>w1. nmdb_nextkey db k out w' = Some (- 1, out, w1)"
    by (rule nmdb_nextkey_end [OF assms(1,3) _ assms(4), of out]) auto
qed (use assms(6) in \<open>simp_all add: nmdb_firstkey_def nmdb_nextkey_def\<close>)

lemma key_walk_example:
  "\<exists>w1. nmdb_nextkey demo_conn [7, 7] [0, 0, 0, 0] (demo_world (reply_msg REP_OK (be32 2 @ [7, 8]))) =
    Some (2, [7, 8, 0, 0], w1)"
proof -
  have r: "ready demo_srv (demo_world (reply_msg code pl)) code pl []" for code pl
    by (simp add: ready_def demo_world_def arrives_def)
  have o: "only_server demo_conn demo_srv" by (simp add: only_server_def demo_conn_def)
  have r2: "ready demo_srv (demo_world (reply_msg REP_OK (be32 2 @ [7, 8]))) REP_OK (be32 (length [7, 8]) @ [7, 8]) []"
    using r [of REP_OK "be32 2 @ [7, 8]"] by (simp only: list.size One_nat_def add_Suc_right add_0_right numeral_2_eq_2)
  have f: "fits_into [7, 8] [0, 0, 0, 0] = (2, [7, 8, 0, 0])" by (simp add: fits_into_def)
  have n: "nc_nservers fresh_conn \<noteq> 1" by (simp add: fresh_conn_def)
  have "length [7 :: u8, 7] \<le> 2 ^ 16" "length [7 :: u8, 8] \<le> 2 ^ 16" by simp_all
  from key_walk [OF o r2 r [of REP_NOTIN "[]"] this n, of "[0, 0, 0, 0]"] show ?thesis
    unfolding f fst_conv snd_conv by blast
qed

section \<open>Replies that are for somebody else\<close>

lemma behind_reply:
  assumes "srv_valid s"
  shows "rd (frame (conn_transport s) (reply_msg code []) @ y) (moff s + 8 + i) n = rd y i n"
proof -
  have "length (frame (conn_transport s) (reply_msg code [])) = moff s + 8" using assms by (simp add: length_frame)
  then show ?thesis by (simp add: rd_def)
qed

text \<open>
  A get that receives a bare acknowledgement, such as a late or repeated reply to a
  set, which carries the same identifier, reports success and hands the caller its own key as the
  value: the size of the empty payload less four wraps, and the buffer still holds the request.
\<close>

lemma get_takes_any_ack:
  assumes "calling db k s w REP_OK [] rest" and "length k \<le> 2 ^ 16" and "length k \<le> length val"
  shows "\<exists>w'. nmdb_get db k val w = Some (int (length k), k @ drop (length k) val, w')"
proof -
  note c = callingD [OF assms(1)]
  have sv: "srv_valid s" using c(2) by (simp add: ready_def)
  have cv: "copy_value (frame (conn_transport s) (reply_msg REP_OK []) @ be32 (length k) @ k @ z) (moff s + 8) 0 val =
      Some (int (length k), k @ drop (length k) val)" for z
  proof -
    let ?b = "frame (conn_transport s) (reply_msg REP_OK []) @ be32 (length k) @ k @ z"
    have ld: "load32 ?b (moff s + 8) = Some (htonl (of_nat (length k)))"
      using behind_reply [OF sv, of REP_OK "be32 (length k) @ k @ z" 0 4]
      by (simp add: load32_def be32_def rd_def del: store32_htonl)
    have rk: "rd ?b (moff s + 8 + 4) (length k) = Some k"
      using behind_reply [OF sv, of REP_OK "be32 (length k) @ k @ z" 4 "length k"] by (simp add: rd_def)
    have u: "unat (of_nat (length k) :: u32) = length k" using assms(2) by (simp add: unat_of_nat_u32)
    have "\<not> (ucast (of_nat (length k) :: u32) :: u64) > 0 - 4"
      using assms(2) by (simp add: word_less_nat_alt unat_ucast_u32_u64 u)
    moreover have "uint (of_nat (length k) :: u32) = int (length k)" by (metis u uint_nat)
    ultimately show ?thesis using ld rk u assms(3) by (auto simp: copy_value_def put_at_front)
  qed
  show ?thesis
    unfolding nmdb_get_def
    by (rule big_request [OF c(2) assms(2), of REQ_GET "0 AND FLAGS_CACHE_ONLY"])
      (use c(1) in \<open>auto simp: do_get_def Let_def add.assoc cv [simplified]\<close>)
qed

lemma get_takes_any_ack_witness:
  "\<exists>w'. nmdb_get demo_conn [104, 105] [0, 0, 0] (demo_world (reply_msg REP_OK [])) = Some (2, [104, 105, 0], w')"
  using get_takes_any_ack [of demo_conn "[104, 105]" demo_srv "demo_world (reply_msg REP_OK [])" "[]" "[0, 0, 0]"]
  by (simp add: calling_def demo_select ready_def arrives_def demo_world_def)

section \<open>Counters\<close>

text \<open>
  \<^verbatim>\<open>nmdb_stats()\<close> asks every server once, in the order of the array, and puts the
  counters of server \<open>i\<close> at \<open>(n + 4) * i\<close> of the caller's buffer, four bytes further per server
  than their size \<open>n\<close>, so that a caller who multiplies by the number of counters, which is all that
  \<^verbatim>\<open>nmdb.h\<close> tells it, finds those of the first server only.
\<close>

lemma nmdb_stats_layout:
  assumes "conn_wf db" and "list_all dgram_srv (nc_servers db)" and "length cs = length (nc_servers db)"
    and "\<forall>c\<in>set cs. length c = n" and "good (cw_ms w)" and "cw_sends w = []"
    and "cw_recvs w = map (\<lambda>c. Some (stats_msg c)) cs" and "4 \<le> n" and "n \<le> 240" and "length tmpbuf = 256"
    and "(n + 4) * length cs \<le> length buf" and "length buf < 2 ^ 32" and "nc_servers db \<noteq> []"
  shows "\<exists>buf' w'. nmdb_stats db tmpbuf buf w = Some (1, buf', Some (nc_nservers db), of_nat ((n + 4) div 8), w') \<and>
    length buf' = length buf \<and> (\<forall>i<length cs. take n (drop ((n + 4) * i) buf') = cs ! i) \<and>
    cw_sent w' = cw_sent w @ map (\<lambda>s. (sr_fd s, header 1 REQ_STATS 0)) (nc_servers db)"
proof -
  let ?junk = "take 4 (drop (12 + n) tmpbuf)"
  have j: "length ?junk = 4" using assms(9,10) by simp
  have t: "take (unat (nc_nservers db)) (nc_servers db) = nc_servers db" using assms(1) by (simp add: conn_wf_def)
  obtain w' where w': "stats_loop (nc_servers db) tmpbuf buf 0 (of_nat (length buf)) 0 w = Some (1,
      stats_image ?junk cs @ drop ((n + 4) * length cs) buf, of_nat ((n + 4) div 8), w')"
    "cw_sent w' = cw_sent w @ map (\<lambda>s. (sr_fd s, header 1 REQ_STATS 0)) (nc_servers db)"
    using stats_loop_ok [OF assms(2-6), of "[]" tmpbuf 0 buf "of_nat (length buf)" 0] assms(7-13) by auto
  have img: "take n (drop ((n + 4) * i) (stats_image ?junk cs @ z)) = cs ! i" if "i < length cs" for i z
    using that assms(4) by (rule stats_image_nth [OF j])
  have "length (stats_image ?junk cs @ drop ((n + 4) * length cs) buf) = length buf"
    using length_stats_image [OF assms(4)] j assms(11) by simp
  moreover have "nmdb_stats db tmpbuf buf w = Some (1, stats_image ?junk cs @ drop ((n + 4) * length cs) buf,
      Some (nc_nservers db), of_nat ((n + 4) div 8), w')"
    using w'(1) by (simp add: nmdb_stats_def t)
  ultimately show ?thesis using w'(2) img by blast
qed

lemma nmdb_stats_layout_witness:
  "\<exists>buf' w'. nmdb_stats \<lparr>nc_nservers = 2, nc_servers = [demo_srv, demo_srv]\<rparr> (replicate 256 9) (replicate 40 0)
      (idle_world\<lparr>cw_recvs := [Some (stats_msg [1, 2, 3, 4]), Some (stats_msg [5, 6, 7, 8])]\<rparr>) = Some (1, buf', Some 2, 1, w') \<and>
    take 4 buf' = [1, 2, 3, 4] \<and> take 4 (drop 8 buf') = [5, 6, 7, 8]"
proof -
  let ?db = "\<lparr>nc_nservers = 2, nc_servers = [demo_srv, demo_srv]\<rparr>" and ?cs = "[[1, 2, 3, 4], [5, 6, 7, 8]] :: bytes list"
  let ?w = "idle_world\<lparr>cw_recvs := [Some (stats_msg [1, 2, 3, 4]), Some (stats_msg [5, 6, 7, 8])]\<rparr>"
  have "\<exists>buf' w'. nmdb_stats ?db (replicate 256 9) (replicate 40 0) ?w = Some (1, buf', Some (nc_nservers ?db), of_nat ((4 + 4) div 8), w') \<and>
    length buf' = length (replicate 40 (0 :: u8)) \<and> (\<forall>i<length ?cs. take 4 (drop ((4 + 4) * i) buf') = ?cs ! i) \<and>
    cw_sent w' = cw_sent ?w @ map (\<lambda>s. (sr_fd s, header 1 REQ_STATS 0)) (nc_servers ?db)"
    by (rule nmdb_stats_layout) (simp_all add: conn_wf_def dgram_srv_def idle_world_def)
  then obtain buf' w' where b: "nmdb_stats ?db (replicate 256 9) (replicate 40 0) ?w = Some (1, buf', Some 2, 1, w')"
    "\<And>i. i < 2 \<Longrightarrow> take 4 (drop (8 * i) buf') = ?cs ! i" by auto
  from b(1) b(2) [of 0] b(2) [of 1] show ?thesis by auto
qed

text \<open>A server's counters with the names under which \<^verbatim>\<open>nmdb-stats\<close> prints them.\<close>

definition named_counters :: "stats \<Rightarrow> (u64 \<times> string) list" where
  "named_counters st =
     [(st_cache_get st, ''cache get''), (st_cache_set st, ''cache set''), (st_cache_del st, ''cache del''),
      (st_cache_cas st, ''cache cas''), (st_cache_incr st, ''cache incr''), (st_db_get st, ''db get''),
      (st_db_set st, ''db set''), (st_db_del st, ''db del''), (st_db_cas st, ''db cas''), (st_db_incr st, ''db incr''),
      (st_db_firstkey st, ''db firstkey''), (st_db_nextkey st, ''db nextkey''), (st_cache_hits st, ''cache hits''),
      (st_cache_misses st, ''cache misses''), (st_db_hits st, ''db hits''), (st_db_misses st, ''db misses''),
      (st_msg_tipc st, ''msg tipc''), (st_msg_tcp st, ''msg tcp''), (st_msg_udp st, ''msg udp''),
      (st_msg_sctp st, ''msg sctp''), (st_net_version_mismatch st, ''version mismatch''),
      (st_net_broken_req st, ''broken requests''), (st_net_unk_req st, ''unknown requests'')]"

definition stats_payload :: "stats \<Rightarrow> bytes" where
  "stats_payload st = concat (map (\<lambda>x. store64 (htonll x)) (stats_fields st))"

lemma load64_behind: "load64 (pre @ y) (length pre + off) = load64 y off"
  by (simp add: load64_def rd_def)

lemma concat_load64:
  "i < length xs \<Longrightarrow> load64 (concat (map (\<lambda>x. store64 (htonll x)) xs) @ z) (8 * i) = Some (htonll (xs ! i))"
proof (induction xs arbitrary: i)
  case (Cons x xs)
  show ?case
  proof (cases i)
    case 0
    then show ?thesis using load64_store64 [of 0 "[]"] by (simp del: store64_htonll)
  next
    case (Suc k)
    then have "load64 (concat (map (\<lambda>x. store64 (htonll x)) xs) @ z) (8 * k) = Some (htonll (xs ! k))"
      using Cons by simp
    moreover have "8 * i = length (store64 (htonll x)) + 8 * k" by (simp add: Suc del: store64_htonll)
    ultimately show ?thesis using load64_behind [of "store64 (htonll x)"] by (simp add: Suc del: store64_htonll)
  qed
qed simp

lemma show_fields_stats:
  assumes "\<And>p. p \<in> snd ` set ps \<Longrightarrow> p < STATS_REPLY_SIZE"
  shows "show_fields (stats_payload st @ z) 0 ps = Some (map (\<lambda>(s, p). Field (stats_fields st ! p) s) ps)"
  using assms
proof (induction ps)
  case (Cons x ps)
  obtain s p where [simp]: "x = (s, p)" by (cases x)
  have "p < length (stats_fields st)" using Cons.prems by (simp add: length_stats_fields)
  then have "load64 (stats_payload st @ z) (8 * p) = Some (htonll (stats_fields st ! p))"
    unfolding stats_payload_def by (rule concat_load64)
  with Cons show ?case by (simp add: shst_def tool_ntohll)
qed simp

lemma named_stats: "map (\<lambda>(s, p). Field (stats_fields st ! p) s) stats_table = map (\<lambda>(x, s). Field x s) (named_counters st)"
  by (simp add: stats_table_def named_counters_def stats_fields_def)

text \<open>The arguments of \<^verbatim>\<open>nmdb-stats\<close> for each transport, and the server they name.\<close>

fun tool_args :: "transport \<Rightarrow> string \<Rightarrow> string \<Rightarrow> string list" where
  "tool_args TIPC name port = [''tipc'', port]"
| "tool_args TCP name port = [''tcp'', name, port]"
| "tool_args UDP name port = [''udp'', name, port]"
| "tool_args SCTP name port = [''sctp'', name, port]"

fun tool_addr :: "transport \<Rightarrow> u32 \<Rightarrow> int \<Rightarrow> srv_addr" where
  "tool_addr TIPC ia n = TipcAddr n"
| "tool_addr TCP ia n = TcpAddr ia n"
| "tool_addr UDP ia n = UdpAddr ia n"
| "tool_addr SCTP ia n = SctpAddr ia n"

lemma tool_transport: "conn_transport (addr_srv (tool_addr t ia n) fd) = t"
  by (cases t) (simp_all add: conn_transport_def)

text \<open>Of the results of \<^verbatim>\<open>connect()\<close> and \<^verbatim>\<open>setsockopt()\<close> only the sign matters.\<close>

lemma add_server_signs:
  assumes "0 \<le> connected" and "0 \<le> sockopt"
  shows "add_tcp_server_addr db ia n fd connected sockopt w = add_tcp_server_addr db ia n fd 0 0 w"
    and "add_sctp_server_addr db ia n fd sockopt w = add_sctp_server_addr db ia n fd 0 w"
  using assms by (simp_all add: add_tcp_server_addr_def add_sctp_server_addr_def Let_def split_beta)

lemma tool_asks:
  assumes "atoi port = Some n" and "t \<noteq> TIPC \<Longrightarrow> resolve pton host name = Some ia" and "0 \<le> connected" and "0 \<le> sockopt"
    and "nmdb_init w = (Some db, w0)" and "add_server db (tool_addr t ia n) fd w0 = (1, db1, w1)"
    and "nmdb_stats db1 tmpbuf stats0 w1 = Some (1, buf, Some 1, k, w2)" and "show_servers buf (unat k) [0] = Some ls"
  shows "stats_main pton host (tool_args t name port) fd connected sockopt tmpbuf stats0 w =
    Some (0, ls, snd (nmdb_free db1 w2))"
proof -
  have u: "[0..<unat (1 :: u32)] = [0]" by simp
  show ?thesis
    using assms(1,2,5-8) add_server_signs [OF assms(3,4)]
    by (cases t) (simp_all add: stats_main_def with_conn_def u nmdb_add_tcp_server_def nmdb_add_udp_server_def
        nmdb_add_sctp_server_def split_beta del: show_servers.simps)
qed

text \<open>
  Property C40: the counters' way from the server's \<^verbatim>\<open>parse_stats()\<close> to the terminal: run against a
  server that answers with its counters, over any of the four transports and on TCP in any pieces,
  \<^verbatim>\<open>nmdb-stats\<close> asks once, prints every counter once, in host order and under its own name, and exits
  with 0.
\<close>

theorem stats_tool_prints:
  assumes "atoi port = Some n" and "t \<noteq> TIPC \<Longrightarrow> resolve pton host name = Some ia" and "0 \<le> fd" and "0 \<le> connected"
    and "0 \<le> sockopt" and "good (cw_ms w)" and "cw_sends w = []" and "arrives w t (stats_msg (stats_payload st)) rest"
    and "length tmpbuf = 256" and "length stats0 = 8 * MAX_STATS_SIZE"
  shows "\<exists>w'. stats_main pton host (tool_args t name port) fd connected sockopt tmpbuf stats0 w =
    Some (0, [StatsFor 0] @ map (\<lambda>(x, s). Field x s) (named_counters st) @ [Blank], w') \<and>
    cw_sent w' = cw_sent w @ [(fd, frame t (header 1 REQ_STATS 0))]"
proof -
  obtain ms where i: "nmdb_init w = (Some fresh_conn, w\<lparr>cw_ms := ms\<rparr>)" "good ms" using nmdb_init_fresh [OF assms(6)] by blast
  let ?w = "w\<lparr>cw_ms := ms\<rparr>" and ?a = "tool_addr t ia n"
  let ?s = "addr_srv ?a fd"
  let ?db = "with_server fresh_conn ?s"
  obtain ms2 where a: "add_server fresh_conn ?a fd ?w = (1, ?db, ?w\<lparr>cw_ms := ms2\<rparr>)" "good ms2"
    using add_server_ok [of fresh_conn fd ?w ?a] fresh_sorted assms(3) i(2) by (auto simp: conn_sorted_def)
  have s: "nc_servers ?db = [?s]" "nc_nservers ?db = 1" by (simp_all add: with_server_def fresh_conn_def)
  have l: "length (stats_payload st) = 184" unfolding stats_payload_def using length_stats_reply [of st] by simp
  have m: "moff ?s \<le> 4" by (simp add: moff_transport)
  let ?w2 = "?w\<lparr>cw_ms := ms2\<rparr>" and ?junk = "take 4 (drop (moff ?s + 12 + 184) tmpbuf)"
  obtain w' where st: "stats_loop [?s] tmpbuf stats0 0 (of_nat (length stats0)) 0 ?w2 = Some (1,
      stats_payload st @ ?junk @ drop (184 + 4) stats0, of_nat ((184 + 4) div 8), w')"
    and d: "did ?w2 w' ?s (header 1 REQ_STATS 0) rest"
    using stats_one [of ?s ?w2 "stats_payload st" rest tmpbuf stats0] a(2) assms(7-10) l m by (auto simp: tool_transport)
  let ?z = "?junk @ drop 188 stats0"
  have sh: "show_fields (stats_payload st @ ?z) 0 stats_table = Some (map (\<lambda>(x, s). Field x s) (named_counters st))"
  proof -
    have "p < STATS_REPLY_SIZE" if "p \<in> snd ` set stats_table" for p using that by (auto simp: stats_table_def)
    then show ?thesis using show_fields_stats [of stats_table st ?z] by (simp add: named_stats)
  qed
  have ns: "nmdb_stats ?db tmpbuf stats0 ?w2 = Some (1, stats_payload st @ ?z, Some 1, 23, w')"
    using st by (simp add: nmdb_stats_def s)
  have fr: "cw_sent (snd (nmdb_free ?db w')) = cw_sent w'" by (simp add: nmdb_free_def s c_close_def)
  have sent: "cw_sent w' = cw_sent w @ [(fd, frame t (header 1 REQ_STATS 0))]"
    using did_sent [OF d] by (simp add: tool_transport)
  show ?thesis
    using tool_asks [OF assms(1,2,4,5) i(1) a(1) ns] sh fr sent by simp
qed

theorem stats_tool_prints_witness:
  "\<exists>w'. stats_main (\<lambda>a. Some 0x7f000001) (\<lambda>a. None) [''tcp'', ''localhost'', ''26010''] 3 0 0 (replicate 256 9) (replicate 512 7)
      (idle_world\<lparr>cw_recvs := [Some (take 3 (frame TCP (stats_msg (stats_payload zero_stats)))),
         Some (drop 3 (frame TCP (stats_msg (stats_payload zero_stats))))]\<rparr>) =
    Some (0, [StatsFor 0] @ map (\<lambda>(x, s). Field x s) (named_counters zero_stats) @ [Blank], w')"
proof -
  have p: "atoi ''26010'' = Some 26010"
    by (simp add: atoi_def strtoll_str_def isspace_def isdigit_def digits_val_def clamp_ll_def LLONG_MAX_def
        LLONG_MIN_def int_min_def int_max_def)
  let ?f = "frame TCP (stats_msg (stats_payload zero_stats))"
  let ?w = "idle_world\<lparr>cw_recvs := [Some (take 3 ?f), Some (drop 3 ?f)]\<rparr>"
  have "3 < length ?f" by (simp add: frame_def stats_msg_def)
  then have "on_stream ?w ?f []"
    unfolding on_stream_def by (intro exI [of _ "[take 3 ?f, drop 3 ?f]"]) auto
  then have "arrives ?w TCP (stats_msg (stats_payload zero_stats)) []" by (simp add: arrives_def)
  from stats_tool_prints [where pton = "\<lambda>a. Some 0x7f000001" and host = "\<lambda>a. None" and name = "''localhost''" and
      ia = "0x7f000001" and fd = "3" and connected = "0" and sockopt = "0" and tmpbuf = "replicate 256 9" and
      ?stats0.0 = "replicate 512 7", OF p _ _ _ _ _ _ this] show ?thesis
    by (auto simp: idle_world_def resolve_def)
qed

end
