(* ===== verification/Py_Binding.thy ===== *)
theory Py_Binding
  imports Client
begin

text \<open>
  The Python module of the client library (\<^verbatim>\<open>bindings/python/nmdb_ll.c\<close>): every method
  converts its arguments, calls the library and converts the result. The Python API is not
  part of the repository and is a parameter: what \<^verbatim>\<open>PyArg_ParseTuple()\<close> makes of the
  arguments for a format, and the objects that are made of numbers and bytes. \<^verbatim>\<open>NULL\<close> is
  returned with an exception set.
\<close>

section \<open>The Python API\<close>

datatype pyarg = PyBuf bytes | PyStr string | PyInt int | PyLongLong u64

datatype pyexc = PyParseError | PyMemoryError | PyIOError | PyOtherError

datatype 'a pyret = PyObj 'a | PyNULL pyexc

record 'o pyapi =
  py_parse :: "string \<Rightarrow> 'o \<Rightarrow> pyarg list option"
  py_long :: "int \<Rightarrow> 'o"
  py_bytes :: "bytes \<Rightarrow> 'o"
  py_build :: "int list \<Rightarrow> 'o"

text \<open>
  \<^verbatim>\<open>Py_BuildValue()\<close> takes its arguments with \<^verbatim>\<open>va_arg()\<close>, of the type that the format gives them:
  \<open>i\<close> is an \<^verbatim>\<open>int\<close> and \<open>L\<close> a \<^verbatim>\<open>long long\<close>. Taking an argument of another type than it was passed
  with is undefined.
\<close>

datatype vararg = VaInt int | VaLongLong u64

fun va_arg :: "char \<Rightarrow> vararg \<Rightarrow> int option" where
  "va_arg c (VaInt n) = (if c = CHR ''i'' then Some n else None)"
| "va_arg c (VaLongLong n) = (if c = CHR ''L'' then Some (sint n) else None)"

fun va_args :: "string \<Rightarrow> vararg list \<Rightarrow> int list option" where
  "va_args (c # f) (a # as) = do { n \<leftarrow> va_arg c a; ns \<leftarrow> va_args f as; Some (n # ns) }"
| "va_args f as = (if f = [] then Some [] else None)"

definition Py_BuildValue :: "'o pyapi \<Rightarrow> string \<Rightarrow> vararg list \<Rightarrow> 'o option" where
  "Py_BuildValue api fmt args = map_option (py_build api) (va_args fmt args)"

text \<open>The kinds of arguments that a format yields.\<close>

fun fmt_kinds :: "string \<Rightarrow> char list" where
  "fmt_kinds [] = []"
| "fmt_kinds (c # f) =
     (if c = CHR '':'' then []
      else if c = CHR ''s'' \<and> take 1 f = ''#'' then CHR ''#'' # fmt_kinds (tl f)
      else c # fmt_kinds f)"

fun arg_kind :: "pyarg \<Rightarrow> char" where
  "arg_kind (PyBuf _) = CHR ''#''"
| "arg_kind (PyStr _) = CHR ''s''"
| "arg_kind (PyInt _) = CHR ''i''"
| "arg_kind (PyLongLong _) = CHR ''L''"

definition py_lawful :: "'o pyapi \<Rightarrow> bool" where
  "py_lawful api \<longleftrightarrow> (\<forall>fmt args l. py_parse api fmt args = Some l \<longrightarrow> map arg_kind l = fmt_kinds fmt)"

section \<open>Objects\<close>

text \<open>
  \<open>alloced\<close> says whether the interpreter allocated the object, \<open>occurred\<close> what
  \<^verbatim>\<open>PyErr_Occurred()\<close> returns.
\<close>

definition db_new :: "'o pyapi \<Rightarrow> bool \<Rightarrow> bool \<Rightarrow> 'o \<Rightarrow> cworld \<Rightarrow> nmdb_conn pyret \<times> cworld" where
  "db_new api alloced occurred args w =
     (if \<not> alloced then (PyNULL PyMemoryError, w)
      else if py_parse api '':new'' args = None then (PyNULL PyParseError, w)
      else let (db, w) = nmdb_init w in
        case db of None \<Rightarrow> (PyNULL PyMemoryError, w)
        | Some db \<Rightarrow>
            if occurred then (PyNULL PyOtherError, snd (nmdb_free db w))
            else (PyObj db, w))"

definition db_dealloc :: "nmdb_conn option \<Rightarrow> cworld \<Rightarrow> cworld" where
  "db_dealloc db w = (case db of None \<Rightarrow> w | Some db \<Rightarrow> snd (nmdb_free db w))"

definition db_add_tipc_server ::
  "'o pyapi \<Rightarrow> nmdb_conn \<Rightarrow> 'o \<Rightarrow> int \<Rightarrow> cworld \<Rightarrow> ('o pyret \<times> nmdb_conn \<times> cworld) option" where
  "db_add_tipc_server api db args fd w = (case py_parse api ''i:add_tipc_server'' args of
     None \<Rightarrow> Some (PyNULL PyParseError, db, w)
   | Some [PyInt port] \<Rightarrow>
       let (rv, db, w) = nmdb_add_tipc_server db port fd w in Some (PyObj (py_long api rv), db, w)
   | _ \<Rightarrow> None)"

definition db_add_tcp_server ::
  "'o pyapi \<Rightarrow> (string \<Rightarrow> u32 option) \<Rightarrow> (string \<Rightarrow> u32 option) \<Rightarrow> nmdb_conn \<Rightarrow> 'o \<Rightarrow> int \<Rightarrow> int \<Rightarrow> int \<Rightarrow> cworld \<Rightarrow>
     ('o pyret \<times> nmdb_conn \<times> cworld) option" where
  "db_add_tcp_server api pton host db args fd connected sockopt w = (case py_parse api ''si:add_tcp_server'' args of
     None \<Rightarrow> Some (PyNULL PyParseError, db, w)
   | Some [PyStr addr, PyInt port] \<Rightarrow>
       let (rv, db, w) = nmdb_add_tcp_server pton host db addr port fd connected sockopt w in
         Some (PyObj (py_long api rv), db, w)
   | _ \<Rightarrow> None)"

definition db_add_udp_server ::
  "'o pyapi \<Rightarrow> (string \<Rightarrow> u32 option) \<Rightarrow> (string \<Rightarrow> u32 option) \<Rightarrow> nmdb_conn \<Rightarrow> 'o \<Rightarrow> int \<Rightarrow> cworld \<Rightarrow>
     ('o pyret \<times> nmdb_conn \<times> cworld) option" where
  "db_add_udp_server api pton host db args fd w = (case py_parse api ''si:add_udp_server'' args of
     None \<Rightarrow> Some (PyNULL PyParseError, db, w)
   | Some [PyStr addr, PyInt port] \<Rightarrow>
       let (rv, db, w) = nmdb_add_udp_server pton host db addr port fd w in
         Some (PyObj (py_long api rv), db, w)
   | _ \<Rightarrow> None)"

section \<open>Cache operations\<close>

text \<open>The block that receives a value is shown as zeros; only what was written to it is read.\<close>

definition db_cache_set :: "'o pyapi \<Rightarrow> nmdb_conn \<Rightarrow> 'o \<Rightarrow> cworld \<Rightarrow> ('o pyret \<times> cworld) option" where
  "db_cache_set api db args w = (case py_parse api ''s#s#:cache_set'' args of
     None \<Rightarrow> Some (PyNULL PyParseError, w)
   | Some [PyBuf key, PyBuf val] \<Rightarrow> do {
       (rv, w) \<leftarrow> nmdb_cache_set db key val w;
       Some (PyObj (py_long api rv), w)
     }
   | _ \<Rightarrow> None)"

definition db_cache_get :: "'o pyapi \<Rightarrow> nmdb_conn \<Rightarrow> 'o \<Rightarrow> cworld \<Rightarrow> ('o pyret \<times> cworld) option" where
  "db_cache_get api db args w = (case py_parse api ''s#:cache_get'' args of
     None \<Rightarrow> Some (PyNULL PyParseError, w)
   | Some [PyBuf key] \<Rightarrow>
       let (ok, w) = c_malloc w in
       if \<not> ok then Some (PyNULL PyMemoryError, w)
       else do {
         (rv, val, w) \<leftarrow> nmdb_cache_get db key (replicate (128 * 1024) 0) w;
         if rv \<le> - 2 then Some (PyNULL PyIOError, w)
         else if rv = - 1 then Some (PyObj (py_long api (- 1)), w)
         else do {
           bs \<leftarrow> rd val 0 (nat rv);
           Some (PyObj (py_bytes api bs), w)
         }
       }
   | _ \<Rightarrow> None)"

definition db_cache_delete :: "'o pyapi \<Rightarrow> nmdb_conn \<Rightarrow> 'o \<Rightarrow> cworld \<Rightarrow> ('o pyret \<times> cworld) option" where
  "db_cache_delete api db args w = (case py_parse api ''s#:cache_delete'' args of
     None \<Rightarrow> Some (PyNULL PyParseError, w)
   | Some [PyBuf key] \<Rightarrow> do {
       (rv, w) \<leftarrow> nmdb_cache_del db key w;
       Some (PyObj (py_long api rv), w)
     }
   | _ \<Rightarrow> None)"

definition db_cache_cas :: "'o pyapi \<Rightarrow> nmdb_conn \<Rightarrow> 'o \<Rightarrow> cworld \<Rightarrow> ('o pyret \<times> cworld) option" where
  "db_cache_cas api db args w = (case py_parse api ''s#s#s#:cache_cas'' args of
     None \<Rightarrow> Some (PyNULL PyParseError, w)
   | Some [PyBuf key, PyBuf oldval, PyBuf newval] \<Rightarrow> do {
       (rv, w) \<leftarrow> nmdb_cache_cas db key oldval newval w;
       Some (PyObj (py_long api rv), w)
     }
   | _ \<Rightarrow> None)"

text \<open>
  \<^verbatim>\<open>newval\<close> has no value before the call: \<open>stale\<close> is what is on the stack.
\<close>

definition db_cache_incr :: "'o pyapi \<Rightarrow> u64 \<Rightarrow> nmdb_conn \<Rightarrow> 'o \<Rightarrow> cworld \<Rightarrow> ('o pyret \<times> cworld) option" where
  "db_cache_incr api stale db args w = (case py_parse api ''s#L:cache_incr'' args of
     None \<Rightarrow> Some (PyNULL PyParseError, w)
   | Some [PyBuf key, PyLongLong increment] \<Rightarrow> do {
       (rv, newval, w) \<leftarrow> nmdb_cache_incr db key increment True w;
       let newval = (case newval of None \<Rightarrow> stale | Some n \<Rightarrow> n);
       t \<leftarrow> Py_BuildValue api ''iL'' [VaInt rv, VaLongLong newval];
       Some (PyObj t, w)
     }
   | _ \<Rightarrow> None)"

section \<open>Database operations\<close>

definition db_set :: "'o pyapi \<Rightarrow> nmdb_conn \<Rightarrow> 'o \<Rightarrow> cworld \<Rightarrow> ('o pyret \<times> cworld) option" where
  "db_set api db args w = (case py_parse api ''s#s#:set'' args of
     None \<Rightarrow> Some (PyNULL PyParseError, w)
   | Some [PyBuf key, PyBuf val] \<Rightarrow> do {
       (rv, w) \<leftarrow> nmdb_set db key val w;
       Some (PyObj (py_long api rv), w)
     }
   | _ \<Rightarrow> None)"

definition db_get :: "'o pyapi \<Rightarrow> nmdb_conn \<Rightarrow> 'o \<Rightarrow> cworld \<Rightarrow> ('o pyret \<times> cworld) option" where
  "db_get api db args w = (case py_parse api ''s#:get'' args of
     None \<Rightarrow> Some (PyNULL PyParseError, w)
   | Some [PyBuf key] \<Rightarrow>
       let (ok, w) = c_malloc w in
       if \<not> ok then Some (PyNULL PyMemoryError, w)
       else do {
         (rv, val, w) \<leftarrow> nmdb_get db key (replicate (128 * 1024) 0) w;
         if rv \<le> - 2 then Some (PyNULL PyIOError, w)
         else if rv = - 1 then Some (PyObj (py_long api (- 1)), w)
         else do {
           bs \<leftarrow> rd val 0 (nat rv);
           Some (PyObj (py_bytes api bs), w)
         }
       }
   | _ \<Rightarrow> None)"

definition db_delete :: "'o pyapi \<Rightarrow> nmdb_conn \<Rightarrow> 'o \<Rightarrow> cworld \<Rightarrow> ('o pyret \<times> cworld) option" where
  "db_delete api db args w = (case py_parse api ''s#:delete'' args of
     None \<Rightarrow> Some (PyNULL PyParseError, w)
   | Some [PyBuf key] \<Rightarrow> do {
       (rv, w) \<leftarrow> nmdb_del db key w;
       Some (PyObj (py_long api rv), w)
     }
   | _ \<Rightarrow> None)"

definition db_cas :: "'o pyapi \<Rightarrow> nmdb_conn \<Rightarrow> 'o \<Rightarrow> cworld \<Rightarrow> ('o pyret \<times> cworld) option" where
  "db_cas api db args w = (case py_parse api ''s#s#s#:cas'' args of
     None \<Rightarrow> Some (PyNULL PyParseError, w)
   | Some [PyBuf key, PyBuf oldval, PyBuf newval] \<Rightarrow> do {
       (rv, w) \<leftarrow> nmdb_cas db key oldval newval w;
       Some (PyObj (py_long api rv), w)
     }
   | _ \<Rightarrow> None)"

text \<open>The format of this one takes the result as a \<^verbatim>\<open>long long\<close>, which it is not: the method is undefined.\<close>

definition db_incr :: "'o pyapi \<Rightarrow> u64 \<Rightarrow> nmdb_conn \<Rightarrow> 'o \<Rightarrow> cworld \<Rightarrow> ('o pyret \<times> cworld) option" where
  "db_incr api stale db args w = (case py_parse api ''s#L:incr'' args of
     None \<Rightarrow> Some (PyNULL PyParseError, w)
   | Some [PyBuf key, PyLongLong increment] \<Rightarrow> do {
       (rv, newval, w) \<leftarrow> nmdb_incr db key increment True w;
       let newval = (case newval of None \<Rightarrow> stale | Some n \<Rightarrow> n);
       t \<leftarrow> Py_BuildValue api ''LL'' [VaInt rv, VaLongLong newval];
       Some (PyObj t, w)
     }
   | _ \<Rightarrow> None)"

definition db_set_sync :: "'o pyapi \<Rightarrow> nmdb_conn \<Rightarrow> 'o \<Rightarrow> cworld \<Rightarrow> ('o pyret \<times> cworld) option" where
  "db_set_sync api db args w = (case py_parse api ''s#s#:set_sync'' args of
     None \<Rightarrow> Some (PyNULL PyParseError, w)
   | Some [PyBuf key, PyBuf val] \<Rightarrow> do {
       (rv, w) \<leftarrow> nmdb_set_sync db key val w;
       Some (PyObj (py_long api rv), w)
     }
   | _ \<Rightarrow> None)"

definition db_delete_sync :: "'o pyapi \<Rightarrow> nmdb_conn \<Rightarrow> 'o \<Rightarrow> cworld \<Rightarrow> ('o pyret \<times> cworld) option" where
  "db_delete_sync api db args w = (case py_parse api ''s#:delete_sync'' args of
     None \<Rightarrow> Some (PyNULL PyParseError, w)
   | Some [PyBuf key] \<Rightarrow> do {
       (rv, w) \<leftarrow> nmdb_del_sync db key w;
       Some (PyObj (py_long api rv), w)
     }
   | _ \<Rightarrow> None)"

definition db_firstkey :: "'o pyapi \<Rightarrow> nmdb_conn \<Rightarrow> 'o \<Rightarrow> cworld \<Rightarrow> ('o pyret \<times> cworld) option" where
  "db_firstkey api db args w = (case py_parse api '''' args of
     None \<Rightarrow> Some (PyNULL PyParseError, w)
   | Some [] \<Rightarrow>
       let (ok, w) = c_malloc w in
       if \<not> ok then Some (PyNULL PyMemoryError, w)
       else do {
         (rv, key, w) \<leftarrow> nmdb_firstkey db (replicate (128 * 1024) 0) w;
         if rv \<le> - 2 then Some (PyNULL PyIOError, w)
         else if rv = - 1 then Some (PyObj (py_long api (- 1)), w)
         else do {
           bs \<leftarrow> rd key 0 (nat rv);
           Some (PyObj (py_bytes api bs), w)
         }
       }
   | _ \<Rightarrow> None)"

definition db_nextkey :: "'o pyapi \<Rightarrow> nmdb_conn \<Rightarrow> 'o \<Rightarrow> cworld \<Rightarrow> ('o pyret \<times> cworld) option" where
  "db_nextkey api db args w = (case py_parse api ''s#:nextkey'' args of
     None \<Rightarrow> Some (PyNULL PyParseError, w)
   | Some [PyBuf key] \<Rightarrow>
       let (ok, w) = c_malloc w in
       if \<not> ok then Some (PyNULL PyMemoryError, w)
       else do {
         (rv, newkey, w) \<leftarrow> nmdb_nextkey db key (replicate (128 * 1024) 0) w;
         if rv \<le> - 2 then Some (PyNULL PyIOError, w)
         else if rv = - 1 then Some (PyObj (py_long api (- 1)), w)
         else do {
           bs \<leftarrow> rd newkey 0 (nat rv);
           Some (PyObj (py_bytes api bs), w)
         }
       }
   | _ \<Rightarrow> None)"

section \<open>The method table\<close>

text \<open>The methods that talk to the servers, by the name that Python looks up.\<close>

definition nmdb_methods ::
  "'o pyapi \<Rightarrow> u64 \<Rightarrow> (string \<times> (nmdb_conn \<Rightarrow> 'o \<Rightarrow> cworld \<Rightarrow> ('o pyret \<times> cworld) option)) list" where
  "nmdb_methods api stale =
     [(''cache_set'', db_cache_set api), (''cache_get'', db_cache_get api), (''cache_delete'', db_cache_delete api),
      (''cache_cas'', db_cache_cas api), (''cache_incr'', db_cache_incr api stale), (''set'', db_set api),
      (''get'', db_get api), (''delete'', db_delete api), (''cas'', db_cas api), (''incr'', db_incr api stale),
      (''set_sync'', db_set_sync api), (''delete_sync'', db_delete_sync api), (''firstkey'', db_firstkey api),
      (''nextkey'', db_nextkey api)]"

text \<open>
  The module: its one function, and its initialisation for Python 3, where \<^verbatim>\<open>PyType_Ready()\<close> returns
  \<open>ready\<close> and \<^verbatim>\<open>PyModule_Create()\<close> makes \<open>create\<close> of the table.
\<close>

definition nmdb_functions :: "'o pyapi \<Rightarrow> (string \<times> (bool \<Rightarrow> bool \<Rightarrow> 'o \<Rightarrow> cworld \<Rightarrow> nmdb_conn pyret \<times> cworld)) list" where
  "nmdb_functions api = [(''new'', db_new api)]"

definition PyInit_nmdb_ll ::
  "'o pyapi \<Rightarrow> int \<Rightarrow> ((string \<times> (bool \<Rightarrow> bool \<Rightarrow> 'o \<Rightarrow> cworld \<Rightarrow> nmdb_conn pyret \<times> cworld)) list \<Rightarrow> 'm option) \<Rightarrow> 'm option" where
  "PyInit_nmdb_ll api ready create = (if ready < 0 then None else create (nmdb_functions api))"

end
