(* ===== verification/Ruby_Binding.thy ===== *)
theory Ruby_Binding
  imports Stats_Tool
begin

text \<open>
  The Ruby module of the client library (\<^verbatim>\<open>bindings/ruby/nmdb_ll.c\<close>). The Ruby API is not
  part of the repository and is a parameter: what the conversions make of a value, or the
  exception they raise, which leaves the method at once, and the values that are made of numbers,
  strings and arrays. The connection an object wraps may be NULL, which the library dereferences.
\<close>

section \<open>The Ruby API\<close>

record ('v, 'e) rbapi =
  rb_num2int :: "'v \<Rightarrow> 'e + int"
  rb_num2ll :: "'v \<Rightarrow> 'e + u64"
  rb_string_ptr :: "'v \<Rightarrow> 'e + string"
  rb_str2cstr :: "'v \<Rightarrow> 'e + bytes"
  rb_int2num :: "int \<Rightarrow> 'v"
  rb_ll2inum :: "u64 \<Rightarrow> 'v"
  rb_str_new :: "bytes \<Rightarrow> 'v"
  rb_ary_new :: "'v list \<Rightarrow> 'v"

text \<open>\<open>Raise\<close> is the exception that leaves the method.\<close>

datatype ('v, 'e) rbret = RbValue 'v | RbRaise 'e

definition rb_try :: "'e + 'a \<Rightarrow> cworld \<Rightarrow> ('a \<Rightarrow> (('v, 'e) rbret \<times> cworld) option) \<Rightarrow> (('v, 'e) rbret \<times> cworld) option" where
  "rb_try r w k = (case r of Inl e \<Rightarrow> Some (RbRaise e, w) | Inr x \<Rightarrow> k x)"

section \<open>Memory management\<close>

definition mm_db_allocate :: "cworld \<Rightarrow> nmdb_conn option \<times> cworld" where
  "mm_db_allocate w = nmdb_init w"

definition mm_db_free :: "nmdb_conn option \<Rightarrow> cworld \<Rightarrow> cworld option" where
  "mm_db_free db w = map_option (\<lambda>db. snd (nmdb_free db w)) db"

section \<open>Servers\<close>

text \<open>
  With no connection the library dereferences NULL, unless it fails before it needs the
  connection (\<open>early\<close>).
\<close>

definition rb_add ::
  "('v, 'e) rbapi \<Rightarrow> nmdb_conn option \<Rightarrow> bool \<Rightarrow> (nmdb_conn \<Rightarrow> int \<times> nmdb_conn \<times> cworld) \<Rightarrow>
     (('v, 'e) rbret \<times> nmdb_conn option \<times> cworld) option" where
  "rb_add api self early add = do {
     r \<leftarrow> with_conn self early add;
     (rv, db, w) \<leftarrow> r;
     Some (RbValue (rb_int2num api rv), map_option (\<lambda>_. db) self, w)
   }"

definition m_add_tipc_server ::
  "('v, 'e) rbapi \<Rightarrow> nmdb_conn option \<Rightarrow> 'v \<Rightarrow> int \<Rightarrow> cworld \<Rightarrow> (('v, 'e) rbret \<times> nmdb_conn option \<times> cworld) option" where
  "m_add_tipc_server api self port fd w = (case rb_num2int api port of
     Inl e \<Rightarrow> Some (RbRaise e, self, w)
   | Inr port \<Rightarrow> rb_add api self (fd < 0) (\<lambda>db. nmdb_add_tipc_server db port fd w))"

definition m_add_tcp_server ::
  "('v, 'e) rbapi \<Rightarrow> (string \<Rightarrow> u32 option) \<Rightarrow> (string \<Rightarrow> u32 option) \<Rightarrow> nmdb_conn option \<Rightarrow> 'v \<Rightarrow> 'v \<Rightarrow>
     int \<Rightarrow> int \<Rightarrow> int \<Rightarrow> cworld \<Rightarrow> (('v, 'e) rbret \<times> nmdb_conn option \<times> cworld) option" where
  "m_add_tcp_server api pton host self hostname port fd connected sockopt w = (case rb_string_ptr api hostname of
     Inl e \<Rightarrow> Some (RbRaise e, self, w)
   | Inr hostname \<Rightarrow> (case rb_num2int api port of
       Inl e \<Rightarrow> Some (RbRaise e, self, w)
     | Inr port \<Rightarrow> rb_add api self (fd < 0 \<or> resolve pton host hostname = None)
         (\<lambda>db. nmdb_add_tcp_server pton host db hostname port fd connected sockopt w)))"

definition m_add_udp_server ::
  "('v, 'e) rbapi \<Rightarrow> (string \<Rightarrow> u32 option) \<Rightarrow> (string \<Rightarrow> u32 option) \<Rightarrow> nmdb_conn option \<Rightarrow> 'v \<Rightarrow> 'v \<Rightarrow>
     int \<Rightarrow> cworld \<Rightarrow> (('v, 'e) rbret \<times> nmdb_conn option \<times> cworld) option" where
  "m_add_udp_server api pton host self hostname port fd w = (case rb_string_ptr api hostname of
     Inl e \<Rightarrow> Some (RbRaise e, self, w)
   | Inr hostname \<Rightarrow> (case rb_num2int api port of
       Inl e \<Rightarrow> Some (RbRaise e, self, w)
     | Inr port \<Rightarrow> rb_add api self (fd < 0 \<or> resolve pton host hostname = None)
         (\<lambda>db. nmdb_add_udp_server pton host db hostname port fd w)))"

definition m_add_sctp_server ::
  "('v, 'e) rbapi \<Rightarrow> (string \<Rightarrow> u32 option) \<Rightarrow> (string \<Rightarrow> u32 option) \<Rightarrow> nmdb_conn option \<Rightarrow> 'v \<Rightarrow> 'v \<Rightarrow>
     int \<Rightarrow> int \<Rightarrow> cworld \<Rightarrow> (('v, 'e) rbret \<times> nmdb_conn option \<times> cworld) option" where
  "m_add_sctp_server api pton host self hostname port fd sockopt w = (case rb_string_ptr api hostname of
     Inl e \<Rightarrow> Some (RbRaise e, self, w)
   | Inr hostname \<Rightarrow> (case rb_num2int api port of
       Inl e \<Rightarrow> Some (RbRaise e, self, w)
     | Inr port \<Rightarrow> rb_add api self (fd < 0 \<or> resolve pton host hostname = None)
         (\<lambda>db. nmdb_add_sctp_server pton host db hostname port fd sockopt w)))"

section \<open>Set\<close>

type_synonym setf = "nmdb_conn \<Rightarrow> bytes \<Rightarrow> bytes \<Rightarrow> cworld \<Rightarrow> (int \<times> cworld) option"

definition generic_set ::
  "('v, 'e) rbapi \<Rightarrow> nmdb_conn option \<Rightarrow> 'v \<Rightarrow> 'v \<Rightarrow> setf \<Rightarrow> cworld \<Rightarrow> (('v, 'e) rbret \<times> cworld) option" where
  "generic_set api self key val set_func w =
     rb_try (rb_str2cstr api key) w (\<lambda>k.
     rb_try (rb_str2cstr api val) w (\<lambda>v. do {
       db \<leftarrow> self;
       (rv, w) \<leftarrow> set_func db k v w;
       Some (RbValue (rb_int2num api rv), w)
     }))"

definition m_set :: "('v, 'e) rbapi \<Rightarrow> nmdb_conn option \<Rightarrow> 'v \<Rightarrow> 'v \<Rightarrow> cworld \<Rightarrow> (('v, 'e) rbret \<times> cworld) option" where
  "m_set api self key val w = generic_set api self key val nmdb_set w"

definition m_set_sync :: "('v, 'e) rbapi \<Rightarrow> nmdb_conn option \<Rightarrow> 'v \<Rightarrow> 'v \<Rightarrow> cworld \<Rightarrow> (('v, 'e) rbret \<times> cworld) option" where
  "m_set_sync api self key val w = generic_set api self key val nmdb_set_sync w"

definition m_cache_set :: "('v, 'e) rbapi \<Rightarrow> nmdb_conn option \<Rightarrow> 'v \<Rightarrow> 'v \<Rightarrow> cworld \<Rightarrow> (('v, 'e) rbret \<times> cworld) option" where
  "m_cache_set api self key val w = generic_set api self key val nmdb_cache_set w"

section \<open>Get\<close>

text \<open>
  \<^verbatim>\<open>ALLOC_N()\<close> does not return without memory: it raises an exception (\<open>no_mem\<close>).
\<close>

type_synonym getf = "nmdb_conn \<Rightarrow> bytes \<Rightarrow> bytes \<Rightarrow> cworld \<Rightarrow> (int \<times> bytes \<times> cworld) option"

definition generic_get ::
  "('v, 'e) rbapi \<Rightarrow> 'e \<Rightarrow> nmdb_conn option \<Rightarrow> 'v \<Rightarrow> getf \<Rightarrow> cworld \<Rightarrow> (('v, 'e) rbret \<times> cworld) option" where
  "generic_get api no_mem self key get_func w =
     rb_try (rb_str2cstr api key) w (\<lambda>k.
       let (ok, w) = c_malloc w in
       if \<not> ok then Some (RbRaise no_mem, w)
       else do {
         db \<leftarrow> self;
         (rv, v, w) \<leftarrow> get_func db k (replicate (68 * 1024) 0) w;
         if rv \<ge> 0 then do {
           bs \<leftarrow> rd v 0 (nat rv);
           Some (RbValue (rb_str_new api bs), w)
         }
         else Some (RbValue (rb_int2num api rv), w)
       })"

definition m_get :: "('v, 'e) rbapi \<Rightarrow> 'e \<Rightarrow> nmdb_conn option \<Rightarrow> 'v \<Rightarrow> cworld \<Rightarrow> (('v, 'e) rbret \<times> cworld) option" where
  "m_get api no_mem self key w = generic_get api no_mem self key nmdb_get w"

definition m_cache_get :: "('v, 'e) rbapi \<Rightarrow> 'e \<Rightarrow> nmdb_conn option \<Rightarrow> 'v \<Rightarrow> cworld \<Rightarrow> (('v, 'e) rbret \<times> cworld) option" where
  "m_cache_get api no_mem self key w = generic_get api no_mem self key nmdb_cache_get w"

section \<open>Delete\<close>

type_synonym delf = "nmdb_conn \<Rightarrow> bytes \<Rightarrow> cworld \<Rightarrow> (int \<times> cworld) option"

definition generic_del ::
  "('v, 'e) rbapi \<Rightarrow> nmdb_conn option \<Rightarrow> 'v \<Rightarrow> delf \<Rightarrow> cworld \<Rightarrow> (('v, 'e) rbret \<times> cworld) option" where
  "generic_del api self key del_func w =
     rb_try (rb_str2cstr api key) w (\<lambda>k. do {
       db \<leftarrow> self;
       (rv, w) \<leftarrow> del_func db k w;
       Some (RbValue (rb_int2num api rv), w)
     })"

definition m_del :: "('v, 'e) rbapi \<Rightarrow> nmdb_conn option \<Rightarrow> 'v \<Rightarrow> cworld \<Rightarrow> (('v, 'e) rbret \<times> cworld) option" where
  "m_del api self key w = generic_del api self key nmdb_del w"

definition m_del_sync :: "('v, 'e) rbapi \<Rightarrow> nmdb_conn option \<Rightarrow> 'v \<Rightarrow> cworld \<Rightarrow> (('v, 'e) rbret \<times> cworld) option" where
  "m_del_sync api self key w = generic_del api self key nmdb_del_sync w"

definition m_cache_del :: "('v, 'e) rbapi \<Rightarrow> nmdb_conn option \<Rightarrow> 'v \<Rightarrow> cworld \<Rightarrow> (('v, 'e) rbret \<times> cworld) option" where
  "m_cache_del api self key w = generic_del api self key nmdb_cache_del w"

section \<open>Compare and swap\<close>

type_synonym casf = "nmdb_conn \<Rightarrow> bytes \<Rightarrow> bytes \<Rightarrow> bytes \<Rightarrow> cworld \<Rightarrow> (int \<times> cworld) option"

definition generic_cas ::
  "('v, 'e) rbapi \<Rightarrow> nmdb_conn option \<Rightarrow> 'v \<Rightarrow> 'v \<Rightarrow> 'v \<Rightarrow> casf \<Rightarrow> cworld \<Rightarrow> (('v, 'e) rbret \<times> cworld) option" where
  "generic_cas api self key oldval newval cas_func w =
     rb_try (rb_str2cstr api key) w (\<lambda>k.
     rb_try (rb_str2cstr api oldval) w (\<lambda>ov.
     rb_try (rb_str2cstr api newval) w (\<lambda>nv. do {
       db \<leftarrow> self;
       (rv, w) \<leftarrow> cas_func db k ov nv w;
       Some (RbValue (rb_int2num api rv), w)
     })))"

definition m_cas ::
  "('v, 'e) rbapi \<Rightarrow> nmdb_conn option \<Rightarrow> 'v \<Rightarrow> 'v \<Rightarrow> 'v \<Rightarrow> cworld \<Rightarrow> (('v, 'e) rbret \<times> cworld) option" where
  "m_cas api self key oldval newval w = generic_cas api self key oldval newval nmdb_cas w"

definition m_cache_cas ::
  "('v, 'e) rbapi \<Rightarrow> nmdb_conn option \<Rightarrow> 'v \<Rightarrow> 'v \<Rightarrow> 'v \<Rightarrow> cworld \<Rightarrow> (('v, 'e) rbret \<times> cworld) option" where
  "m_cache_cas api self key oldval newval w = generic_cas api self key oldval newval nmdb_cache_cas w"

section \<open>Increment\<close>

text \<open>\<open>stale\<close> is what \<^verbatim>\<open>newval\<close> holds before the call.\<close>

type_synonym incrf = "nmdb_conn \<Rightarrow> bytes \<Rightarrow> u64 \<Rightarrow> bool \<Rightarrow> cworld \<Rightarrow> (int \<times> u64 option \<times> cworld) option"

definition generic_incr ::
  "('v, 'e) rbapi \<Rightarrow> u64 \<Rightarrow> nmdb_conn option \<Rightarrow> 'v \<Rightarrow> 'v \<Rightarrow> incrf \<Rightarrow> cworld \<Rightarrow> (('v, 'e) rbret \<times> cworld) option" where
  "generic_incr api stale self key increment incr_func w =
     rb_try (rb_str2cstr api key) w (\<lambda>k.
     rb_try (rb_num2ll api increment) w (\<lambda>cincr. do {
       db \<leftarrow> self;
       (rv, newval, w) \<leftarrow> incr_func db k cincr True w;
       let newval = (case newval of None \<Rightarrow> stale | Some n \<Rightarrow> n);
       Some (RbValue (rb_ary_new api [rb_int2num api rv, rb_ll2inum api newval]), w)
     }))"

definition m_incr ::
  "('v, 'e) rbapi \<Rightarrow> u64 \<Rightarrow> nmdb_conn option \<Rightarrow> 'v \<Rightarrow> 'v \<Rightarrow> cworld \<Rightarrow> (('v, 'e) rbret \<times> cworld) option" where
  "m_incr api stale self key increment w = generic_incr api stale self key increment nmdb_incr w"

definition m_cache_incr ::
  "('v, 'e) rbapi \<Rightarrow> u64 \<Rightarrow> nmdb_conn option \<Rightarrow> 'v \<Rightarrow> 'v \<Rightarrow> cworld \<Rightarrow> (('v, 'e) rbret \<times> cworld) option" where
  "m_cache_incr api stale self key increment w = generic_incr api stale self key increment nmdb_cache_incr w"

section \<open>The module\<close>

text \<open>
  The methods that \<^verbatim>\<open>Init_nmdb_ll()\<close> registers for the class, with the number of arguments that the
  interpreter requires: those that talk to the servers, and the names and arities of those that
  add one.
\<close>

definition Init_nmdb_ll ::
  "('v, 'e) rbapi \<Rightarrow> 'e \<Rightarrow> u64 \<Rightarrow>
     (string \<times> nat \<times> (nmdb_conn option \<Rightarrow> 'v list \<Rightarrow> cworld \<Rightarrow> (('v, 'e) rbret \<times> cworld) option)) list" where
  "Init_nmdb_ll api no_mem stale =
     [(''set'', 2, \<lambda>self a. m_set api self (a ! 0) (a ! 1)),
      (''set_sync'', 2, \<lambda>self a. m_set_sync api self (a ! 0) (a ! 1)),
      (''cache_set'', 2, \<lambda>self a. m_cache_set api self (a ! 0) (a ! 1)),
      (''get'', 1, \<lambda>self a. m_get api no_mem self (a ! 0)),
      (''cache_get'', 1, \<lambda>self a. m_cache_get api no_mem self (a ! 0)),
      (''del'', 1, \<lambda>self a. m_del api self (a ! 0)),
      (''del_sync'', 1, \<lambda>self a. m_del_sync api self (a ! 0)),
      (''cache_del'', 1, \<lambda>self a. m_cache_del api self (a ! 0)),
      (''cas'', 3, \<lambda>self a. m_cas api self (a ! 0) (a ! 1) (a ! 2)),
      (''cache_cas'', 3, \<lambda>self a. m_cache_cas api self (a ! 0) (a ! 1) (a ! 2)),
      (''incr'', 2, \<lambda>self a. m_incr api stale self (a ! 0) (a ! 1)),
      (''cache_incr'', 2, \<lambda>self a. m_cache_incr api stale self (a ! 0) (a ! 1))]"

definition Init_nmdb_ll_servers :: "(string \<times> nat) list" where
  "Init_nmdb_ll_servers = [(''add_tipc_server'', 1), (''add_tcp_server'', 2), (''add_udp_server'', 2), (''add_sctp_server'', 2)]"

end
