(* ===== verification/Binding_Theorems.thy ===== *)
theory Binding_Theorems
  imports Py_Binding Ruby_Binding Client_Theorems
begin

text \<open>
  The language bindings on top of the client library: what a Python or Ruby program gets for
  the reply of a store, and where the bindings lose it.
\<close>

section \<open>The interpreter's own memory\<close>

lemma awaits_malloc:
  assumes "awaits db k s w b rest"
  obtains ms where "c_malloc w = (True, w\<lparr>cw_ms := ms\<rparr>)" and "awaits db k s (w\<lparr>cw_ms := ms\<rparr>) b rest"
proof -
  have "good (cw_ms w)" using assms by (simp add: awaits_def)
  then obtain ms where "malloc (cw_ms w) = (True, ms)" "good ms" by (rule malloc_good)
  with assms show thesis by (intro that [of ms]) (auto simp: awaits_def c_malloc_def on_stream_def split: if_splits)
qed

text \<open>A value of the store fits the buffers of both bindings.\<close>

lemma spec_get_buffer:
  assumes "vals_ok m" and "2 ^ 16 \<le> n"
  shows "client_spec sy (CGet k) m (replicate n 0) = (case m k of None \<Rightarrow> (- 1, replicate n 0, None)
     | Some v \<Rightarrow> (int (length v), v @ replicate (n - length v) 0, None))"
proof -
  have "length v \<le> n" if "m k = Some v" for v
    using vals_okD [OF assms(1) that] assms(2) by linarith
  then show ?thesis by (auto split: option.splits)
qed

section \<open>Python\<close>

fun py_method :: "bool \<Rightarrow> cache_op \<Rightarrow> string" where
  "py_method sy (CGet k) = ''get''"
| "py_method sy (CSet k v) = (if sy then ''set_sync'' else ''set'')"
| "py_method sy (CDel k) = (if sy then ''delete_sync'' else ''delete'')"
| "py_method sy (CCas k ov nv) = ''cas''"
| "py_method sy (CIncr k i) = ''incr''"

fun py_format :: "bool \<Rightarrow> cache_op \<Rightarrow> string" where
  "py_format sy (CGet k) = ''s#:get''"
| "py_format sy (CSet k v) = (if sy then ''s#s#:set_sync'' else ''s#s#:set'')"
| "py_format sy (CDel k) = (if sy then ''s#:delete_sync'' else ''s#:delete'')"
| "py_format sy (CCas k ov nv) = ''s#s#s#:cas''"
| "py_format sy (CIncr k i) = ''s#L:incr''"

fun py_args :: "cache_op \<Rightarrow> pyarg list" where
  "py_args (CGet k) = [PyBuf k]"
| "py_args (CSet k v) = [PyBuf k, PyBuf v]"
| "py_args (CDel k) = [PyBuf k]"
| "py_args (CCas k ov nv) = [PyBuf k, PyBuf ov, PyBuf nv]"
| "py_args (CIncr k i) = [PyBuf k, PyLongLong i]"

text \<open>
  What a Python program gets from all methods but the increment: the value, or the number the
  library returned.
\<close>

fun py_result :: "'o pyapi \<Rightarrow> bool \<Rightarrow> cache_op \<Rightarrow> (bytes \<rightharpoonup> bytes) \<Rightarrow> 'o" where
  "py_result api sy (CGet k) m = (case m k of None \<Rightarrow> py_long api (- 1) | Some v \<Rightarrow> py_bytes api v)"
| "py_result api sy x m = py_long api (fst (client_spec sy x m []))"

lemma client_spec_val: "client_spec sy x m val = (a, b, c) \<Longrightarrow> \<not> (\<exists>k. x = CGet k) \<Longrightarrow>
    fst (client_spec sy x m []) = a \<and> snd (snd (client_spec sy x m [])) = c"
  by (cases x) (auto split: option.splits if_splits)

text \<open>
  Property C15: the methods of the Python object that work on the database, provided that
  \<^verbatim>\<open>PyArg_ParseTuple()\<close> finds the operation's arguments: for the reply of a store, \<^verbatim>\<open>get()\<close> returns the
  value, or - 1 if there is none, \<^verbatim>\<open>set()\<close>, \<^verbatim>\<open>set_sync()\<close> and \<^verbatim>\<open>delete()\<close> return 1, \<^verbatim>\<open>delete_sync()\<close>
  1, or 0 if the key was missing, and \<^verbatim>\<open>cas()\<close> 2, 1 or 0, and each has sent the protocol's message for
  the operation; but \<^verbatim>\<open>incr()\<close> is undefined, whatever the reply, because it builds its result with a
  format that does not fit.
\<close>

theorem python_call_spec:
  assumes "op_fits x" and "vals_ok m" and "awaits db (op_key x) s w (frame (conn_transport s) r) rest"
    and "decode_reply r = (store32 (htonl ID_CODE), spec_reply sy x m)" and "is_hit r \<Longrightarrow> \<exists>k. x = CGet k"
    and "py_parse api (py_format sy x) args = Some (py_args x)"
  shows "\<exists>f. map_of (nmdb_methods api stale) (py_method sy x) = Some f \<and> (case x of CIncr k i \<Rightarrow> f db args w = None
    | _ \<Rightarrow> \<exists>w'. f db args w = Some (PyObj (py_result api sy x m), w') \<and> called w w' s sy x rest)"
proof (cases "\<exists>k. x = CGet k")
  case True
  then obtain k where x: "x = CGet k" ..
  obtain ms where ms: "c_malloc w = (True, w\<lparr>cw_ms := ms\<rparr>)"
    "awaits db (op_key x) s (w\<lparr>cw_ms := ms\<rparr>) (frame (conn_transport s) r) rest"
    using assms(3) by (rule awaits_malloc)
  let ?b = "replicate (128 * 1024) 0 :: bytes"
  from client_exchange [OF assms(1,2) ms(2) assms(4,5), of ?b] obtain w' a b c where
    c: "client_call db sy x ?b (w\<lparr>cw_ms := ms\<rparr>) = Some (a, b, c, w')"
    "(a, b, c) = client_spec sy x m ?b" "called (w\<lparr>cw_ms := ms\<rparr>) w' s sy x rest" by blast
  have g: "nmdb_get db k ?b (w\<lparr>cw_ms := ms\<rparr>) = Some (a, b, w')" using c(1) by (auto simp: x split: Option.bind_splits)
  have cl: "called w w' s sy x rest" using c(3) by (simp add: called_def)
  have p: "py_parse api ''s#:get'' args = Some [PyBuf k]" using assms(6) by (simp add: x)
  have "db_get api db args w = Some (PyObj (py_result api sy x m), w')"
  proof (cases "m k")
    case None
    then have "a = - 1" using c(2) spec_get_buffer [OF assms(2), of "128 * 1024" sy k] by (simp add: x)
    then show ?thesis using p ms(1) g None by (simp add: db_get_def x)
  next
    case (Some v)
    then have ab: "a = int (length v)" "b = v @ replicate (128 * 1024 - length v) 0"
      using c(2) spec_get_buffer [OF assms(2), of "128 * 1024" sy k] by (simp_all add: x)
    then have "rd b 0 (nat a) = Some v" by (simp add: rd_def)
    then show ?thesis using p ms(1) g Some ab(1) by (simp add: db_get_def x)
  qed
  with cl show ?thesis by (simp add: nmdb_methods_def x)
next
  case False
  from client_exchange [OF assms(1-5), of "[]"] obtain w' a b c where
    c: "client_call db sy x [] w = Some (a, b, c, w')"
    "(a, b, c) = client_spec sy x m []" "called w w' s sy x rest" by blast
  show ?thesis
    using c assms(6) False
    by (cases x) (auto simp: nmdb_methods_def db_set_def db_set_sync_def db_delete_def db_delete_sync_def
        db_cas_def db_incr_def Py_BuildValue_def split: Option.bind_splits option.splits if_splits)
qed

text \<open>An interpreter whose objects are numbers, byte strings, tuples of numbers, and arguments.\<close>

datatype pyv = PvInt int | PvBytes bytes | PvTuple "int list" | PvArgs "pyarg list"

definition demo_py :: "pyv pyapi" where
  "demo_py = \<lparr>py_parse = (\<lambda>fmt args. case args of
       PvArgs l \<Rightarrow> if map arg_kind l = fmt_kinds fmt then Some l else None | _ \<Rightarrow> None),
     py_long = PvInt, py_bytes = PvBytes, py_build = PvTuple\<rparr>"

lemma demo_py_lawful: "py_lawful demo_py"
  by (auto simp: py_lawful_def demo_py_def split: pyv.splits if_splits)

theorem python_call_spec_witness:
  "\<exists>f w'. map_of (nmdb_methods demo_py 0) ''set_sync'' = Some f \<and>
    f demo_conn (PvArgs [PyBuf [1], PyBuf [2]]) (demo_world (reply_msg REP_OK [])) = Some (PyObj (PvInt 1), w') \<and>
    cw_sent w' = [(3, encode 1 True (CSet [1] [2]))]"
proof -
  have d: "decode_reply (reply_msg REP_OK []) = (store32 (htonl ID_CODE), spec_reply True (CSet [1] [2]) Map.empty)"
    using decode_mini(1) [of "htonl ID_CODE"] by (simp add: reply_msg_def del: store32_htonl)
  have p: "py_parse demo_py (py_format True (CSet [1] [2])) (PvArgs [PyBuf [1], PyBuf [2]]) = Some (py_args (CSet [1] [2]))"
    by (simp add: demo_py_def)
  have a: "awaits demo_conn (op_key (CSet [1] [2])) demo_srv (demo_world (reply_msg REP_OK []))
      (frame (conn_transport demo_srv) (reply_msg REP_OK [])) []"
    using demo_awaits by (simp add: frame_def)
  have f: "op_fits (CSet [1] [2])" "vals_ok Map.empty" by (simp_all add: vals_ok_def)
  from python_call_spec [OF f a d _ p, of 0] not_hit_ok show ?thesis
    by (auto simp add: called_def did_def frame_def demo_py_def demo_srv_def [THEN arg_cong [where f = sr_fd]] demo_world_def)
qed

section \<open>Ruby\<close>

fun rb_call :: "('v, 'e) rbapi \<Rightarrow> 'e \<Rightarrow> u64 \<Rightarrow> nmdb_conn option \<Rightarrow> bool \<Rightarrow> cache_op \<Rightarrow> 'v list \<Rightarrow> cworld \<Rightarrow>
    (('v, 'e) rbret \<times> cworld) option" where
  "rb_call api no_mem stale self sy (CGet k) [key] w = m_get api no_mem self key w"
| "rb_call api no_mem stale self sy (CSet k v) [key, val] w = (if sy then m_set_sync else m_set) api self key val w"
| "rb_call api no_mem stale self sy (CDel k) [key] w = (if sy then m_del_sync else m_del) api self key w"
| "rb_call api no_mem stale self sy (CCas k ov nv) [key, oldval, newval] w = m_cas api self key oldval newval w"
| "rb_call api no_mem stale self sy (CIncr k i) [key, increment] w = m_incr api stale self key increment w"
| "rb_call api no_mem stale self sy x args w = None"

text \<open>The arguments of a method are those of the operation.\<close>

fun rb_means :: "('v, 'e) rbapi \<Rightarrow> cache_op \<Rightarrow> 'v list \<Rightarrow> bool" where
  "rb_means api (CGet k) [key] \<longleftrightarrow> rb_str2cstr api key = Inr k"
| "rb_means api (CSet k v) [key, val] \<longleftrightarrow> rb_str2cstr api key = Inr k \<and> rb_str2cstr api val = Inr v"
| "rb_means api (CDel k) [key] \<longleftrightarrow> rb_str2cstr api key = Inr k"
| "rb_means api (CCas k ov nv) [key, oldval, newval] \<longleftrightarrow>
     rb_str2cstr api key = Inr k \<and> rb_str2cstr api oldval = Inr ov \<and> rb_str2cstr api newval = Inr nv"
| "rb_means api (CIncr k i) [key, increment] \<longleftrightarrow> rb_str2cstr api key = Inr k \<and> rb_num2ll api increment = Inr i"
| "rb_means api x args \<longleftrightarrow> False"

text \<open>The method's name, and that the call is the method registered under it, with its arity.\<close>

fun rb_name :: "bool \<Rightarrow> cache_op \<Rightarrow> string" where
  "rb_name sy (CGet k) = ''get''"
| "rb_name sy (CSet k v) = (if sy then ''set_sync'' else ''set'')"
| "rb_name sy (CDel k) = (if sy then ''del_sync'' else ''del'')"
| "rb_name sy (CCas k ov nv) = ''cas''"
| "rb_name sy (CIncr k i) = ''incr''"

lemma rb_registered:
  assumes "rb_means api x args"
  shows "\<exists>f. map_of (Init_nmdb_ll api no_mem stale) (rb_name sy x) = Some (length args, f) \<and>
    f self args = rb_call api no_mem stale self sy x args"
  using assms by (cases "(api, x, args)" rule: rb_means.cases) (auto simp: Init_nmdb_ll_def)

fun rb_result :: "('v, 'e) rbapi \<Rightarrow> u64 \<Rightarrow> bool \<Rightarrow> cache_op \<Rightarrow> (bytes \<rightharpoonup> bytes) \<Rightarrow> 'v" where
  "rb_result api stale sy (CGet k) m = (case m k of None \<Rightarrow> rb_int2num api (- 1) | Some v \<Rightarrow> rb_str_new api v)"
| "rb_result api stale sy (CIncr k i) m = (case client_spec sy (CIncr k i) m [] of
     (rv, _, n) \<Rightarrow> rb_ary_new api [rb_int2num api rv, rb_ll2inum api (case n of None \<Rightarrow> stale | Some n \<Rightarrow> n)])"
| "rb_result api stale sy x m = rb_int2num api (fst (client_spec sy x m []))"

lemmas rb_methods = m_get_def m_set_def m_set_sync_def m_del_def m_del_sync_def m_cas_def m_incr_def
  generic_get_def generic_set_def generic_del_def generic_cas_def generic_incr_def rb_try_def

text \<open>
  Property C16: the same for the methods of the Ruby object that work on the database, whatever
  the API is that converts arguments and results: for the reply of a store, \<^verbatim>\<open>get\<close> returns the
  string, or - 1 if there is none, \<^verbatim>\<open>set\<close>, \<^verbatim>\<open>set_sync\<close> and \<^verbatim>\<open>del\<close> return 1, \<^verbatim>\<open>del_sync\<close> 1, or 0 if the key
  was missing, \<^verbatim>\<open>cas\<close> 2, 1 or 0, and \<^verbatim>\<open>incr\<close> an array of 2 and the new number, or of 1 or 0 and
  what was on the stack; and each has sent the protocol's message for the operation.
\<close>

theorem ruby_call_spec:
  assumes "op_fits x" and "vals_ok m" and "awaits db (op_key x) s w (frame (conn_transport s) r) rest"
    and "decode_reply r = (store32 (htonl ID_CODE), spec_reply sy x m)" and "is_hit r \<Longrightarrow> \<exists>k. x = CGet k"
    and "rb_means api x args"
  shows "\<exists>w'. rb_call api no_mem stale (Some db) sy x args w = Some (RbValue (rb_result api stale sy x m), w') \<and>
    called w w' s sy x rest"
proof (cases "\<exists>k. x = CGet k")
  case True
  then obtain k where x: "x = CGet k" ..
  obtain key where key: "args = [key]" "rb_str2cstr api key = Inr k"
    using assms(6) by (cases "(api, x, args)" rule: rb_means.cases) (auto simp: x)
  obtain ms where ms: "c_malloc w = (True, w\<lparr>cw_ms := ms\<rparr>)"
    "awaits db (op_key x) s (w\<lparr>cw_ms := ms\<rparr>) (frame (conn_transport s) r) rest"
    using assms(3) by (rule awaits_malloc)
  let ?b = "replicate (68 * 1024) 0 :: bytes"
  from client_exchange [OF assms(1,2) ms(2) assms(4,5), of ?b] obtain w' a b c where
    c: "client_call db sy x ?b (w\<lparr>cw_ms := ms\<rparr>) = Some (a, b, c, w')"
    "(a, b, c) = client_spec sy x m ?b" "called (w\<lparr>cw_ms := ms\<rparr>) w' s sy x rest" by blast
  have g: "nmdb_get db k ?b (w\<lparr>cw_ms := ms\<rparr>) = Some (a, b, w')" using c(1) by (auto simp: x split: Option.bind_splits)
  have cl: "called w w' s sy x rest" using c(3) by (simp add: called_def)
  have "rb_call api no_mem stale (Some db) sy x args w = Some (RbValue (rb_result api stale sy x m), w')"
  proof (cases "m k")
    case None
    then have "a = - 1" using c(2) spec_get_buffer [OF assms(2), of "68 * 1024" sy k] by (simp add: x)
    then show ?thesis using key ms(1) g None by (simp add: rb_methods x)
  next
    case (Some v)
    then have ab: "a = int (length v)" "b = v @ replicate (68 * 1024 - length v) 0"
      using c(2) spec_get_buffer [OF assms(2), of "68 * 1024" sy k] by (simp_all add: x)
    then have "rd b 0 (nat a) = Some v" by (simp add: rd_def)
    then show ?thesis using key ms(1) g Some ab(1) by (simp add: rb_methods x)
  qed
  with cl show ?thesis by blast
next
  case False
  from client_exchange [OF assms(1-5), of "[]"] obtain w' a b c where
    c: "client_call db sy x [] w = Some (a, b, c, w')"
    "(a, b, c) = client_spec sy x m []" "called w w' s sy x rest" by blast
  show ?thesis
    using c assms(6) False
    by (cases "(api, x, args)" rule: rb_means.cases) (auto simp: rb_methods split: Option.bind_splits option.splits if_splits)
qed

text \<open>Values of an interpreter: numbers, strings and arrays.\<close>

datatype rbv = RvInt int | RvLong u64 | RvStr bytes | RvAry "rbv list"

definition demo_rb :: "(rbv, string) rbapi" where
  "demo_rb = \<lparr>rb_num2int = (\<lambda>v. case v of RvInt n \<Rightarrow> Inr n | _ \<Rightarrow> Inl ''TypeError''),
     rb_num2ll = (\<lambda>v. case v of RvLong n \<Rightarrow> Inr n | _ \<Rightarrow> Inl ''TypeError''),
     rb_string_ptr = (\<lambda>v. Inl ''TypeError''), rb_str2cstr = (\<lambda>v. case v of RvStr s \<Rightarrow> Inr s | _ \<Rightarrow> Inl ''TypeError''),
     rb_int2num = RvInt, rb_ll2inum = RvLong, rb_str_new = RvStr, rb_ary_new = RvAry\<rparr>"

theorem ruby_call_spec_witness:
  "\<exists>w'. m_set_sync demo_rb (Some demo_conn) (RvStr [1]) (RvStr [2]) (demo_world (reply_msg REP_OK [])) =
      Some (RbValue (RvInt 1), w') \<and> cw_sent w' = [(3, encode 1 True (CSet [1] [2]))]"
proof -
  have d: "decode_reply (reply_msg REP_OK []) = (store32 (htonl ID_CODE), spec_reply True (CSet [1] [2]) Map.empty)"
    using decode_mini(1) [of "htonl ID_CODE"] by (simp add: reply_msg_def del: store32_htonl)
  have a: "awaits demo_conn (op_key (CSet [1] [2])) demo_srv (demo_world (reply_msg REP_OK []))
      (frame (conn_transport demo_srv) (reply_msg REP_OK [])) []"
    using demo_awaits by (simp add: frame_def)
  have f: "op_fits (CSet [1] [2])" "vals_ok Map.empty" by (simp_all add: vals_ok_def)
  have p: "rb_means demo_rb (CSet [1] [2]) [RvStr [1], RvStr [2]]" by (simp add: demo_rb_def)
  from ruby_call_spec [OF f a d _ p, of "''NoMemoryError''" 0] not_hit_ok show ?thesis
    by (auto simp add: called_def did_def frame_def demo_rb_def demo_srv_def [THEN arg_cong [where f = sr_fd]] demo_world_def)
qed

text \<open>
  An object whose connection could not be allocated is handed out all the same, and every
  method on it, and freeing it, is undefined.
\<close>

lemma ruby_null_connection:
  assumes "malloc (cw_ms w) = (False, ms)" and "rb_means api x args"
  shows "\<exists>w1. mm_db_allocate w = (None, w1) \<and> mm_db_free None w1 = None \<and>
    (good (cw_ms w1) \<longrightarrow> rb_call api no_mem stale None sy x args w1 = None)"
proof -
  have w: "mm_db_allocate w = (None, w\<lparr>cw_ms := ms\<rparr>)"
    using assms(1) by (simp add: mm_db_allocate_def nmdb_init_def c_malloc_def)
  have "rb_call api no_mem stale None sy x args w1 = None" if g: "good (cw_ms w1)" for w1
  proof -
    obtain ms' where "malloc (cw_ms w1) = (True, ms')" "good ms'" using g by (rule malloc_good)
    then have "fst (c_malloc w1)" by (simp add: c_malloc_def)
    then show ?thesis using assms(2)
      by (cases "(api, x, args)" rule: rb_means.cases) (auto simp: rb_methods split: prod.splits)
  qed
  with w show ?thesis by (simp add: mm_db_free_def)
qed

end
