(* ===== verification/Test_Programs.thy ===== *)
theory Test_Programs
  imports Client Startup
begin

text \<open>
  The test programs \<^verbatim>\<open>tests/c/\<close>: one source per test, compiled once for each kind of calls and
  each transport (\<^verbatim>\<open>prototypes.h\<close>). A program is a function of its arguments, of what the library's
  system calls return and of the clock; its result is the exit code and what it prints. Blocks
  are not returned to an allocator, so that \<^verbatim>\<open>free()\<close> does not appear.
\<close>

section \<open>\<^verbatim>\<open>prototypes.h\<close> and \<^verbatim>\<open>timer.h\<close>\<close>

datatype calls_kind = USE_NORMAL | USE_CACHE | USE_SYNC

datatype transport_kind = USE_TCP | USE_UDP | USE_SCTP | USE_TIPC | USE_MULT

definition NGET :: "calls_kind \<Rightarrow> nmdb_conn \<Rightarrow> bytes \<Rightarrow> bytes \<Rightarrow> cworld \<Rightarrow> (int \<times> bytes \<times> cworld) option" where
  "NGET c = (case c of USE_NORMAL \<Rightarrow> nmdb_get | USE_CACHE \<Rightarrow> nmdb_cache_get | USE_SYNC \<Rightarrow> nmdb_get)"

definition NSET :: "calls_kind \<Rightarrow> nmdb_conn \<Rightarrow> bytes \<Rightarrow> bytes \<Rightarrow> cworld \<Rightarrow> (int \<times> cworld) option" where
  "NSET c = (case c of USE_NORMAL \<Rightarrow> nmdb_set | USE_CACHE \<Rightarrow> nmdb_cache_set | USE_SYNC \<Rightarrow> nmdb_set_sync)"

definition NDEL :: "calls_kind \<Rightarrow> nmdb_conn \<Rightarrow> bytes \<Rightarrow> cworld \<Rightarrow> (int \<times> cworld) option" where
  "NDEL c = (case c of USE_NORMAL \<Rightarrow> nmdb_del | USE_CACHE \<Rightarrow> nmdb_cache_del | USE_SYNC \<Rightarrow> nmdb_del_sync)"

definition NINCR :: "calls_kind \<Rightarrow> nmdb_conn \<Rightarrow> bytes \<Rightarrow> u64 \<Rightarrow> bool \<Rightarrow> cworld \<Rightarrow> (int \<times> u64 option \<times> cworld) option" where
  "NINCR c = (case c of USE_NORMAL \<Rightarrow> nmdb_incr | USE_CACHE \<Rightarrow> nmdb_cache_incr | USE_SYNC \<Rightarrow> nmdb_incr)"

text \<open>
  The surroundings of a program: the resolver, the descriptors that \<^verbatim>\<open>socket()\<close> returns for each
  transport, the results of \<^verbatim>\<open>connect()\<close> and \<^verbatim>\<open>setsockopt()\<close>, the readings of the clock in
  seconds and microseconds, and what is on the stack.
\<close>

record test_env =
  te_pton :: "string \<Rightarrow> u32 option"
  te_host :: "string \<Rightarrow> u32 option"
  te_fd :: "transport_kind \<Rightarrow> int"
  te_connected :: int
  te_tcp_sockopt :: int
  te_sctp_sockopt :: int
  te_clock :: "nat \<Rightarrow> int \<times> int"
  te_stale :: u64

text \<open>\<^verbatim>\<open>NADDSRV\<close> does not look at the results.\<close>

fun NADDSRV :: "transport_kind \<Rightarrow> test_env \<Rightarrow> nmdb_conn \<Rightarrow> cworld \<Rightarrow> nmdb_conn \<times> cworld" where
  "NADDSRV USE_TCP e db w =
     snd (nmdb_add_tcp_server (te_pton e) (te_host e) db ''localhost'' (- 1) (te_fd e USE_TCP) (te_connected e) (te_tcp_sockopt e) w)"
| "NADDSRV USE_UDP e db w =
     snd (nmdb_add_udp_server (te_pton e) (te_host e) db ''localhost'' (- 1) (te_fd e USE_UDP) w)"
| "NADDSRV USE_SCTP e db w =
     snd (nmdb_add_sctp_server (te_pton e) (te_host e) db ''localhost'' (- 1) (te_fd e USE_SCTP) (te_sctp_sockopt e) w)"
| "NADDSRV USE_TIPC e db w = snd (nmdb_add_tipc_server db (- 1) (te_fd e USE_TIPC) w)"
| "NADDSRV USE_MULT e db w =
     (let (db, w) = snd (nmdb_add_tipc_server db (- 1) (te_fd e USE_TIPC) w);
          (db, w) = snd (nmdb_add_tcp_server (te_pton e) (te_host e) db ''localhost'' (- 1) (te_fd e USE_TCP)
            (te_connected e) (te_tcp_sockopt e) w);
          (db, w) = snd (nmdb_add_udp_server (te_pton e) (te_host e) db ''localhost'' (- 1) (te_fd e USE_UDP) w)
      in snd (nmdb_add_sctp_server (te_pton e) (te_host e) db ''localhost'' (- 1) (te_fd e USE_SCTP) (te_sctp_sockopt e) w))"

text \<open>The \<open>n\<close>-th use of the timer takes the readings \<open>2 * n\<close> and \<open>2 * n + 1\<close>.\<close>

definition timer_stop :: "int \<times> int \<Rightarrow> int \<times> int \<Rightarrow> u64" where
  "timer_stop tv_s tv_e = of_int (fst tv_e - fst tv_s) * 1000000 + of_int (snd tv_e - snd tv_s)"

definition elapsed :: "test_env \<Rightarrow> nat \<Rightarrow> u64" where
  "elapsed e n = timer_stop (te_clock e (2 * n)) (te_clock e (2 * n + 1))"

section \<open>Parts of the programs\<close>

text \<open>What is printed: a format, without the end of the line, with its numbers; or \<^verbatim>\<open>perror()\<close>.\<close>

datatype test_line = Printf string "u64 list" | Perror string

text \<open>A \<^verbatim>\<open>for\<close> loop over \<open>i\<close> whose body may end the program with a message.\<close>

fun for_loop :: "(nat \<Rightarrow> 's \<Rightarrow> cworld \<Rightarrow> ((test_line list + 's) \<times> cworld) option) \<Rightarrow> nat list \<Rightarrow> 's \<Rightarrow> cworld \<Rightarrow>
    ((test_line list + 's) \<times> cworld) option" where
  "for_loop f [] s w = Some (Inr s, w)"
| "for_loop f (i # is) s w = do {
     (r, w) \<leftarrow> f i s w;
     case r of Inl e \<Rightarrow> Some (Inl e, w) | Inr s \<Rightarrow> for_loop f is s w
   }"

text \<open>
  \<^verbatim>\<open>malloc()\<close> followed by \<^verbatim>\<open>memset()\<close>; the programs compare with NULL only afterwards, so that their
  message about \<^verbatim>\<open>malloc()\<close> is never printed.
\<close>

definition zero_block :: "nat \<Rightarrow> cworld \<Rightarrow> (bytes \<times> cworld) option" where
  "zero_block n w = (let (ok, w) = c_malloc w in if ok then Some (replicate n 0, w) else None)"

text \<open>\<^verbatim>\<open>* (int *) block = i\<close>\<close>

definition stamp :: "bytes \<Rightarrow> nat \<Rightarrow> bytes option" where
  "stamp block i = put_at block 0 (store32 (of_nat i))"

definition BUFSIZE :: nat where
  "BUFSIZE = 70 * 1024"

text \<open>
  A get into a block of \<open>BUFSIZE\<close> bytes, or into NULL, that tells the library it had \<open>vsize\<close>
  bytes. What is in the block is not used afterwards.
\<close>

definition get_into :: "calls_kind \<Rightarrow> nmdb_conn \<Rightarrow> bytes \<Rightarrow> bool \<Rightarrow> nat \<Rightarrow> cworld \<Rightarrow> (int \<times> cworld) option" where
  "get_into c db key block vsize w = do {
     (r, out, w) \<leftarrow> NGET c db key (replicate vsize 0) w;
     if r \<ge> 0 \<and> (\<not> block \<or> nat r > BUFSIZE) then None else Some (r, w)
   }"

text \<open>The bodies of the loops that all tests share.\<close>

definition set_numbered :: "calls_kind \<Rightarrow> nmdb_conn \<Rightarrow> nat \<Rightarrow> bytes \<times> bytes \<Rightarrow> cworld \<Rightarrow>
    ((test_line list + bytes \<times> bytes) \<times> cworld) option" where
  "set_numbered c db i bl w = do {
     key \<leftarrow> stamp (fst bl) i;
     val \<leftarrow> stamp (snd bl) i;
     (r, w) \<leftarrow> NSET c db key val w;
     Some (if r < 0 then Inl [Perror ''Set''] else Inr (key, val), w)
   }"

definition count_miss :: "int \<Rightarrow> bytes \<Rightarrow> u64 \<Rightarrow> test_line list + bytes \<times> u64" where
  "count_miss r key misses = (if r \<le> - 2 then Inl [Perror ''Get''] else if r = - 1 then Inr (key, misses + 1) else Inr (key, misses))"

definition get_numbered :: "calls_kind \<Rightarrow> nmdb_conn \<Rightarrow> bool \<Rightarrow> nat \<Rightarrow> nat \<Rightarrow> bytes \<times> u64 \<Rightarrow> cworld \<Rightarrow>
    ((test_line list + bytes \<times> u64) \<times> cworld) option" where
  "get_numbered c db block vsize i st w = do {
     key \<leftarrow> stamp (fst st) i;
     (r, w) \<leftarrow> get_into c db key block vsize w;
     Some (count_miss r key (snd st), w)
   }"

definition del_numbered :: "calls_kind \<Rightarrow> nmdb_conn \<Rightarrow> nat \<Rightarrow> bytes \<Rightarrow> cworld \<Rightarrow> ((test_line list + bytes) \<times> cworld) option" where
  "del_numbered c db i key w = do {
     key \<leftarrow> stamp key i;
     (r, w) \<leftarrow> NDEL c db key w;
     Some (if r < 0 then Inl [Perror ''Del''] else Inr key, w)
   }"

type_synonym test_result = "int \<times> test_line list \<times> cworld"

definition with_db :: "transport_kind \<Rightarrow> test_env \<Rightarrow> (nmdb_conn \<Rightarrow> cworld \<Rightarrow> test_result option) \<Rightarrow> cworld \<Rightarrow> test_result option" where
  "with_db t e f w = (let (db, w) = nmdb_init w in case db of
     None \<Rightarrow> Some (1, [Perror ''nmdb_init() failed''], w)
   | Some db \<Rightarrow> let (db, w) = NADDSRV t e db w in f db w)"

text \<open>What follows a loop, with what was printed before it.\<close>

definition after_loop :: "((test_line list + 's) \<times> cworld) option \<Rightarrow> test_line list \<Rightarrow> ('s \<Rightarrow> cworld \<Rightarrow> test_result option) \<Rightarrow> test_result option" where
  "after_loop r printed next = do {
     (r, w) \<leftarrow> r;
     case r of Inl ls \<Rightarrow> Some (1, printed @ ls, w) | Inr s \<Rightarrow> next s w
   }"

definition closing :: "nmdb_conn \<Rightarrow> test_line list \<Rightarrow> cworld \<Rightarrow> test_result" where
  "closing db printed w = (0, printed, snd (nmdb_free db w))"

definition usage :: "string \<Rightarrow> cworld \<Rightarrow> test_result" where
  "usage s w = (1, [Printf s []], w)"

section \<open>The programs\<close>

text \<open>\<^verbatim>\<open>set.c\<close>, \<^verbatim>\<open>get.c\<close>, \<^verbatim>\<open>del.c\<close>: arguments, without the program's name, are decimal strings.\<close>

definition set_main :: "calls_kind \<Rightarrow> transport_kind \<Rightarrow> test_env \<Rightarrow> string list \<Rightarrow> cworld \<Rightarrow> test_result option" where
  "set_main c t e args w = (
     if length args \<noteq> 3 then Some (usage ''Usage: set-* TIMES KSIZE VSIZE'' w)
     else do {
       times \<leftarrow> atoi (args ! 0);
       kn \<leftarrow> atoi (args ! 1);
       vn \<leftarrow> atoi (args ! 2);
       let ksize = unat (of_int kn :: u64);
       let vsize = unat (of_int vn :: u64);
       if times < 1 then Some (usage ''Error: TIMES must be >= 1'' w)
       else if ksize < 4 \<or> vsize < 4 then Some (usage ''Error: KSIZE and VSIZE must be >= sizeof(int)'' w)
       else do {
         (key, w) \<leftarrow> zero_block ksize w;
         (val, w) \<leftarrow> zero_block vsize w;
         with_db t e (\<lambda>db w.
           after_loop (for_loop (set_numbered c db) [0..<nat times] (key, val) w) []
             (\<lambda>_ w. Some (closing db [Printf ''%lu'' [elapsed e 0]] w))) w
       }
     })"

definition get_main :: "calls_kind \<Rightarrow> transport_kind \<Rightarrow> test_env \<Rightarrow> string list \<Rightarrow> cworld \<Rightarrow> test_result option" where
  "get_main c t e args w = (
     if length args \<noteq> 2 then Some (usage ''Usage: get-* TIMES KSIZE'' w)
     else do {
       times \<leftarrow> atoi (args ! 0);
       kn \<leftarrow> atoi (args ! 1);
       let ksize = unat (of_int kn :: u64);
       if times < 1 then Some (usage ''Error: TIMES must be >= 1'' w)
       else if ksize < 4 then Some (usage ''Error: KSIZE must be >= sizeof(int)'' w)
       else do {
         (key, w) \<leftarrow> zero_block ksize w;
         (val, w) \<leftarrow> zero_block BUFSIZE w;
         with_db t e (\<lambda>db w.
           after_loop (for_loop (get_numbered c db True BUFSIZE) [0..<nat times] (key, 0) w) []
             (\<lambda>(key, misses) w. Some (closing db [Printf ''%lu m:%lu'' [elapsed e 0, misses]] w))) w
       }
     })"

definition del_main :: "calls_kind \<Rightarrow> transport_kind \<Rightarrow> test_env \<Rightarrow> string list \<Rightarrow> cworld \<Rightarrow> test_result option" where
  "del_main c t e args w = (
     if length args \<noteq> 2 then Some (usage ''Usage: del-* TIMES KSIZE'' w)
     else do {
       times \<leftarrow> atoi (args ! 0);
       kn \<leftarrow> atoi (args ! 1);
       let ksize = unat (of_int kn :: u64);
       if times < 1 then Some (usage ''Error: TIMES must be >= 1'' w)
       else if ksize < 4 then Some (usage ''Error: KSIZE must be >= sizeof(int)'' w)
       else do {
         (key, w) \<leftarrow> zero_block ksize w;
         with_db t e (\<lambda>db w.
           after_loop (for_loop (del_numbered c db) [0..<nat times] key w) []
             (\<lambda>_ w. Some (closing db [Printf ''%lu'' [elapsed e 0]] w))) w
       }
     })"

text \<open>
  \<^verbatim>\<open>2.c\<close>: all sets, then all gets, then all deletes. The second block for values is not
  compared with NULL, and the library is told the size of the first one.
\<close>

definition two_main :: "calls_kind \<Rightarrow> transport_kind \<Rightarrow> test_env \<Rightarrow> string list \<Rightarrow> cworld \<Rightarrow> test_result option" where
  "two_main c t e args w = (
     if length args \<noteq> 3 then Some (usage ''Usage: 2-* TIMES KSIZE VSIZE'' w)
     else do {
       times \<leftarrow> atoi (args ! 0);
       kn \<leftarrow> atoi (args ! 1);
       vn \<leftarrow> atoi (args ! 2);
       let ksize = unat (of_int kn :: u64);
       let vsize = unat (of_int vn :: u64);
       if times < 1 then Some (usage ''Error: TIMES must be >= 1'' w)
       else if ksize < 4 \<or> vsize < 4 then Some (usage ''Error: KSIZE and VSIZE must be >= sizeof(int)'' w)
       else do {
         (key, w) \<leftarrow> zero_block ksize w;
         (val, w) \<leftarrow> zero_block vsize w;
         with_db t e (\<lambda>db w.
           after_loop (for_loop (set_numbered c db) [0..<nat times] (key, val) w) [] (\<lambda>_ w.
           let (block, w) = c_malloc w in
           after_loop (for_loop (get_numbered c db block vsize) [0..<nat times] (replicate ksize 0, 0) w) [] (\<lambda>(key, misses) w.
           after_loop (for_loop (del_numbered c db) [0..<nat times] key w) [] (\<lambda>_ w.
             Some (closing db [Printf ''%lu %lu %lu %lu'' [elapsed e 0, elapsed e 1, elapsed e 2, misses]] w))))) w
       }
     })"

text \<open>\<^verbatim>\<open>3.c\<close>: set, get and delete of one key after the other; the value is read back into its own block.\<close>

definition three_body :: "calls_kind \<Rightarrow> nmdb_conn \<Rightarrow> nat \<Rightarrow> nat \<Rightarrow> bytes \<times> bytes \<times> u64 \<Rightarrow> cworld \<Rightarrow>
    ((test_line list + bytes \<times> bytes \<times> u64) \<times> cworld) option" where
  "three_body c db vsize i s w = (case s of (key, val, misses) \<Rightarrow> do {
     key \<leftarrow> stamp key i;
     val \<leftarrow> stamp val i;
     v \<leftarrow> rd val 0 vsize;
     (r, w) \<leftarrow> NSET c db key v w;
     if r < 0 then Some (Inl [Perror ''Set''], w)
     else do {
       key \<leftarrow> stamp key i;
       (r, val, w) \<leftarrow> NGET c db key val w;
       case count_miss r key misses of
         Inl e \<Rightarrow> Some (Inl e, w)
       | Inr (key, misses) \<Rightarrow> do {
           key \<leftarrow> stamp key i;
           (r, w) \<leftarrow> NDEL c db key w;
           Some (if r < 0 then Inl [Perror ''Del''] else Inr (key, val, misses), w)
         }
     }
   })"

definition three_main :: "calls_kind \<Rightarrow> transport_kind \<Rightarrow> test_env \<Rightarrow> string list \<Rightarrow> cworld \<Rightarrow> test_result option" where
  "three_main c t e args w = (
     if length args \<noteq> 3 then Some (usage ''Usage: 3-* TIMES KSIZE VSIZE'' w)
     else do {
       times \<leftarrow> atoi (args ! 0);
       kn \<leftarrow> atoi (args ! 1);
       vn \<leftarrow> atoi (args ! 2);
       let ksize = unat (of_int kn :: u64);
       let vsize = unat (of_int vn :: u64);
       if times < 1 then Some (usage ''Error: TIMES must be >= 1'' w)
       else if ksize < 4 \<or> vsize < 4 then Some (usage ''Error: KSIZE and VSIZE must be >= sizeof(int)'' w)
       else do {
         (key, w) \<leftarrow> zero_block ksize w;
         (val, w) \<leftarrow> zero_block BUFSIZE w;
         with_db t e (\<lambda>db w.
           after_loop (for_loop (three_body c db vsize) [0..<nat times] (key, val, 0) w) [] (\<lambda>(key, val, misses) w.
             Some (closing db [Printf ''%lu %lu'' [elapsed e 0, misses]] w))) w
       }
     })"

text \<open>\<^verbatim>\<open>1.c\<close>: the same key and value every time, which are arguments; they hold no zero byte.\<close>

definition one_set :: "calls_kind \<Rightarrow> nmdb_conn \<Rightarrow> bytes \<Rightarrow> bytes \<Rightarrow> nat \<Rightarrow> unit \<Rightarrow> cworld \<Rightarrow> ((test_line list + unit) \<times> cworld) option" where
  "one_set c db key val i u w = do {
     (r, w) \<leftarrow> NSET c db key val w;
     Some (if r < 0 then Inl [Perror ''Set''] else Inr u, w)
   }"

definition one_get :: "calls_kind \<Rightarrow> nmdb_conn \<Rightarrow> bytes \<Rightarrow> bool \<Rightarrow> nat \<Rightarrow> nat \<Rightarrow> u64 \<Rightarrow> cworld \<Rightarrow> ((test_line list + u64) \<times> cworld) option" where
  "one_get c db key block vsize i misses w = do {
     (r, w) \<leftarrow> get_into c db key block vsize w;
     Some (case count_miss r key misses of Inl e \<Rightarrow> Inl e | Inr (_, misses) \<Rightarrow> Inr misses, w)
   }"

definition one_del :: "calls_kind \<Rightarrow> nmdb_conn \<Rightarrow> bytes \<Rightarrow> nat \<Rightarrow> unit \<Rightarrow> cworld \<Rightarrow> ((test_line list + unit) \<times> cworld) option" where
  "one_del c db key i u w = do {
     (r, w) \<leftarrow> NDEL c db key w;
     Some (if r < 0 then Inl [Perror ''Del''] else Inr u, w)
   }"

definition one_main :: "calls_kind \<Rightarrow> transport_kind \<Rightarrow> test_env \<Rightarrow> string list \<Rightarrow> cworld \<Rightarrow> test_result option" where
  "one_main c t e args w = (
     if length args \<noteq> 3 then Some (usage ''Usage: 1-* TIMES KEY VAL'' w)
     else do {
       times \<leftarrow> atoi (args ! 0);
       let key = map of_char (args ! 1);
       let val = map of_char (args ! 2);
       with_db t e (\<lambda>db w.
         let printed = [Printf ''set... '' []] in
         after_loop (for_loop (one_set c db key val) [0..<nat times] () w) printed (\<lambda>_ w.
         let printed = printed @ [Printf ''%lu'' [elapsed e 0], Printf ''get... '' []];
             (block, w) = c_malloc w in
         after_loop (for_loop (one_get c db key block (length val)) [0..<nat times] 0 w) printed (\<lambda>misses w.
         let printed = printed @ [Printf ''%lu'' [elapsed e 1], Printf ''get misses: %ld'' [misses], Printf ''del... '' []] in
         after_loop (for_loop (one_del c db key) [0..<nat times] () w) printed (\<lambda>_ w.
           Some (closing db (printed @ [Printf ''%lu'' [elapsed e 2]]) w))))) w
     })"

text \<open>
  \<^verbatim>\<open>incr.c\<close>: a key with the value zero, both with their final zero bytes, is incremented. \<^verbatim>\<open>newval\<close>
  has no value before the first increment sets it.
\<close>

definition incr_body :: "calls_kind \<Rightarrow> nmdb_conn \<Rightarrow> bytes \<Rightarrow> u64 \<Rightarrow> nat \<Rightarrow> u64 \<Rightarrow> cworld \<Rightarrow>
    ((test_line list + u64) \<times> cworld) option" where
  "incr_body c db key increment i newval w = do {
     (r, n, w) \<leftarrow> NINCR c db key increment True w;
     let newval = (case n of None \<Rightarrow> newval | Some n \<Rightarrow> n);
     Some (if r \<noteq> 2 then Inl [Printf ''result: %d %lld'' [of_int r, newval], Perror ''Incr''] else Inr newval, w)
   }"

definition incr_main :: "calls_kind \<Rightarrow> transport_kind \<Rightarrow> test_env \<Rightarrow> string list \<Rightarrow> cworld \<Rightarrow> test_result option" where
  "incr_main c t e args w = (
     if length args \<noteq> 2 then Some (usage ''Usage: incr-* TIMES INCREMENT'' w)
     else do {
       times \<leftarrow> atoi (args ! 0);
       if times < 1 then Some (usage ''Error: TIMES must be >= 1'' w)
       else do {
         let increment = word_of_int (strtoll_str (map of_char (args ! 1)));
         let key = map of_char ''k'' @ [0];
         with_db t e (\<lambda>db w. do {
           (_, w) \<leftarrow> NSET c db key (map of_char ''0'' @ [0]) w;
           after_loop (for_loop (incr_body c db key increment) [0..<nat times] (te_stale e) w) []
             (\<lambda>newval w. Some (closing db [Printf ''%lu %lld'' [elapsed e 0, newval]] w))
         }) w
       }
     })"

end
