(* ===== verification/Client_Session.thy ===== *)
theory Client_Session
  imports Client_Theorems
begin

text \<open>
  Many calls in a row: a client that waits for each reply before it sends the next request, as the
  library does, on a server it may share with other clients. Its replies then come in the order of
  its requests, and the values its calls return are those of the sequential store at the moments
  its requests arrived.
\<close>

section \<open>The requests and replies of one client\<close>

text \<open>A client is known by the server's descriptor and, for datagrams, its address.\<close>

type_synonym peer = "int \<times> bytes option"

definition ev_peer :: "event \<Rightarrow> peer" where
  "ev_peer ev = (ev_fd ev, if ev_t ev = TCP then None else Some (ev_addr ev))"

definition pkt_peer :: "packet \<Rightarrow> peer" where
  "pkt_peer q = (fst q, fst (snd q))"

definition mine :: "peer \<Rightarrow> event list \<Rightarrow> event list" where
  "mine p h = filter (\<lambda>ev. ev_peer ev = p) h"

definition outs :: "peer \<Rightarrow> server \<Rightarrow> packet list" where
  "outs p s = filter (\<lambda>q. pkt_peer q = p) (sv_out s)"

text \<open>A client's requests, each with the sequential store at its arrival.\<close>

fun owned :: "peer \<Rightarrow> event list \<Rightarrow> (bytes \<rightharpoonup> bytes) \<Rightarrow> (event \<times> (bytes \<rightharpoonup> bytes)) list" where
  "owned p [] m = []"
| "owned p (ev # h) m = (if ev_peer ev = p then [(ev, m)] else []) @ owned p h (ev_step ev m)"

abbreviation reply_of :: "event \<times> (bytes \<rightharpoonup> bytes) \<Rightarrow> int \<times> bytes option \<times> bytes \<times> areply" where
  "reply_of v \<equiv> ev_reply (fst v) (snd v)"

lemma owned_append: "owned p (h @ h') m = owned p h m @ owned p h' (run_history h m)"
  by (induction h arbitrary: m) simp_all

lemma owned_mine: "map fst (owned p h m) = mine p h"
  by (induction h arbitrary: m) (simp_all add: mine_def)

lemma length_owned: "length (owned p h m) = length (mine p h)"
  using arg_cong [OF owned_mine [of p h m], of length] by simp

lemma owned_ok:
  assumes "list_all ev_ok h" and "vals_ok m"
  shows "list_all (\<lambda>v. ev_ok (fst v) \<and> vals_ok (snd v)) (owned p h m)"
  using assms by (induction h arbitrary: m) (simp_all add: ev_step_def vals_ok_step ev_ok_def)

lemma ev_reply_peer: "(fst (ev_reply ev m), fst (snd (ev_reply ev m))) = ev_peer ev"
  by (simp add: ev_reply_def ev_peer_def)

lemma pkt_view_peer: "(fst (pkt_view q), fst (snd (pkt_view q))) = pkt_peer q"
  by (cases q) (simp add: pkt_view_def pkt_peer_def)

lemma owned_replies: "filter (\<lambda>x. (fst x, fst (snd x)) = p) (replies h m) = map reply_of (owned p h m)"
  by (induction h arbitrary: m) (simp_all add: ev_reply_peer)

lemma outs_views: "map pkt_view (outs p s) = filter (\<lambda>x. (fst x, fst (snd x)) = p) (map pkt_view (sv_out s))"
  by (simp add: outs_def filter_map pkt_view_peer comp_def)

lemma outs_below:
  assumes "sys_inv view m0 h s db pc c pend"
  shows "mset (map pkt_view (outs p s)) \<subseteq># mset (map reply_of (owned p h m0))"
proof -
  have "mset (map pkt_view (sv_out s)) \<subseteq># mset (replies h m0)"
    using sys_invD(12) [OF assms] by (metis mset_subset_eq_add_left)
  then show ?thesis
    unfolding outs_views owned_replies [symmetric] mset_filter by (rule multiset_filter_mono)
qed

section \<open>Waiting for replies\<close>

text \<open>Runs in which a client's next request does not arrive before the last one's reply was sent.\<close>

inductive paced ::
  "peer \<Rightarrow> server \<Rightarrow> 'c db_conn \<Rightarrow> event list \<Rightarrow> server \<Rightarrow> 'c db_conn \<Rightarrow> db_pc \<Rightarrow> conns \<Rightarrow> bool" for p s0 db0 where
  start: "paced p s0 db0 [] s0 db0 DbTop Map.empty"
| more: "paced p s0 db0 h s db pc cs \<Longrightarrow> sys_step s db pc cs evs s' db' pc' cs' \<Longrightarrow>
    mine p evs = [] \<or> length (outs p s) = length (mine p h) \<Longrightarrow>
    paced p s0 db0 (h @ evs) s' db' pc' cs'"

lemma paced_reach: "paced p s0 db0 h s db pc cs \<Longrightarrow> reach s0 db0 h s db pc cs"
  by (induction rule: paced.induct) (auto intro: reach.intros)

lemma step_events: "sys_step s db pc cs evs s' db' pc' cs' \<Longrightarrow> length evs \<le> 1"
  by (induction rule: sys_step.induct) simp_all

text \<open>A client that has made one request cannot have been too early.\<close>

lemma paced_one:
  assumes "reach s0 db0 h s db pc cs" and "boot view m0 s0 db0" and "length (mine p h) \<le> 1"
  shows "paced p s0 db0 h s db pc cs"
  using assms
proof (induction rule: reach.induct)
  case start
  show ?case by (rule paced.start)
next
  case (more h s db pc cs evs s' db' pc' cs')
  have m: "mine p (h @ evs) = mine p h @ mine p evs" by (simp add: mine_def)
  then have pd: "paced p s0 db0 h s db pc cs" using more.IH more.prems by simp
  have "length (outs p s) = length (mine p h)" if "mine p evs \<noteq> []"
  proof -
    have "length (mine p evs) \<noteq> 0" using that by simp
    then have "length (mine p h) = 0" using more.prems(2) unfolding m length_append by linarith
    then have "mine p h = []" by simp
    moreover obtain c pend where "sys_inv view m0 h s db pc c pend" and "conns_ok cs"
      using more.prems(1) more.hyps(1) by (rule boot_reach)
    from size_mset_mono [OF outs_below [OF this(1), of p]] have "length (outs p s) \<le> length (mine p h)"
      by (simp add: length_owned)
    ultimately show ?thesis by simp
  qed
  then show ?case using pd more.hyps(2) by (blast intro: paced.more)
qed

text \<open>A packet that answers a request; only a get is answered with a hit.\<close>

definition answers :: "packet \<Rightarrow> event \<times> (bytes \<rightharpoonup> bytes) \<Rightarrow> bool" where
  "answers q v \<longleftrightarrow> pkt_view q = reply_of v \<and> (hit_pkt q \<longrightarrow> (\<exists>k. ev_op (fst v) = CGet k))"

lemma answers_views: "list_all2 answers qs us \<Longrightarrow> map pkt_view qs = map reply_of us"
  by (induction rule: list_all2_induct) (simp_all add: answers_def)

lemma at_most_one:
  assumes "mset (map f qs) \<subseteq># mset (map g vs)" and "length vs \<le> 1"
  shows "qs = [] \<or> (\<exists>q v. qs = [q] \<and> vs = [v] \<and> f q = g v)"
proof (cases vs)
  case Nil
  with assms(1) show ?thesis by simp
next
  case (Cons v ws)
  then have v: "vs = [v]" using assms(2) by simp
  have "length qs \<le> 1" using size_mset_mono [OF assms(1)] v by simp
  then show ?thesis using assms(1) v by (cases qs) auto
qed

lemma paced_answers:
  assumes "paced p s0 db0 h s db pc cs" and "boot view m0 s0 db0"
  shows "\<exists>us vs. owned p h m0 = us @ vs \<and> length vs \<le> 1 \<and> list_all2 answers (outs p s) us"
  using assms
proof (induction rule: paced.induct)
  case start
  then show ?case by (simp add: outs_def boot_def)
next
  case (more h s db pc cs evs s' db' pc' cs')
  obtain us vs where IH: "owned p h m0 = us @ vs" "length vs \<le> 1" "list_all2 answers (outs p s) us"
    using more.IH more.prems by blast
  obtain c pend where i: "sys_inv view m0 h s db pc c pend" and cs: "conns_ok cs"
    using more.prems paced_reach [OF more.hyps(1)] by (rule boot_reach)
  obtain c2 pend2 where i2: "sys_inv view m0 (h @ evs) s' db' pc' c2 pend2" "sends_on h m0 evs s s'"
    using inv_step [OF more.hyps(2) i cs] by blast
  then obtain ps where ps: "sv_out s' = sv_out s @ ps"
    "\<And>q. q \<in> set ps \<Longrightarrow> hit_pkt q \<Longrightarrow> \<exists>ev k. evs = [ev] \<and> ev_op ev = CGet k \<and> pkt_view q = ev_reply ev (run_history h m0)"
    unfolding sends_on_def by blast
  let ?qs = "filter (\<lambda>q. pkt_peer q = p) ps" and ?new = "owned p evs (run_history h m0)"
  have o: "outs p s' = outs p s @ ?qs" using ps(1) by (simp add: outs_def)
  have ow: "owned p (h @ evs) m0 = us @ (vs @ ?new)" using IH(1) by (simp add: owned_append)
  have len: "length (vs @ ?new) \<le> 1"
  proof (cases "mine p evs = []")
    case True
    then show ?thesis using IH(2) length_owned [of p evs "run_history h m0"] by simp
  next
    case False
    then have "length (outs p s) = length (mine p h)" using more.hyps(3) by simp
    then have "vs = []" using IH(1,3) length_owned [of p h m0] list_all2_lengthD [OF IH(3)] by simp
    moreover have "length (mine p evs) \<le> length evs" by (simp add: mine_def)
    ultimately show ?thesis using step_events [OF more.hyps(2)] length_owned [of p evs "run_history h m0"] by simp
  qed
  have "mset (map pkt_view ?qs) \<subseteq># mset (map reply_of (vs @ ?new))"
    using outs_below [OF i2(1), of p] answers_views [OF IH(3)] unfolding o ow by simp
  from at_most_one [OF this len] show ?case
  proof
    assume "?qs = []"
    then have "outs p s' = outs p s" unfolding o by simp
    then show ?thesis using ow len IH(3) by metis
  next
    assume "\<exists>q v. ?qs = [q] \<and> vs @ ?new = [v] \<and> pkt_view q = reply_of v"
    then obtain q v where q: "?qs = [q]" "vs @ ?new = [v]" "pkt_view q = reply_of v" by blast
    then have qp: "q \<in> set ps" "pkt_peer q = p" by (auto simp: filter_eq_Cons_iff)
    have "\<exists>k. ev_op (fst v) = CGet k" if hit: "hit_pkt q"
    proof -
      obtain ev k where e: "evs = [ev]" "ev_op ev = CGet k" "pkt_view q = ev_reply ev (run_history h m0)"
        using ps(2) [OF qp(1) hit] by blast
      then have "ev_peer ev = p" using qp(2) pkt_view_peer [of q] ev_reply_peer by metis
      then have "?new = [(ev, run_history h m0)]" using e(1) by simp
      then have "v = (ev, run_history h m0)" using q(2) len by (cases vs) auto
      with e(2) show ?thesis by simp
    qed
    then have "list_all2 answers (outs p s') (us @ [v])"
      unfolding o q(1) using q(3) IH(3) by (simp add: list_all2_appendI answers_def)
    then show ?thesis unfolding ow q(2) by (intro exI [of _ "us @ [v]"] exI [of _ "[]"]) simp
  qed
qed

section \<open>A client's calls\<close>

text \<open>A program makes its calls one after the other, each with its own buffer.\<close>

fun client_calls :: "nmdb_conn \<Rightarrow> (bool \<times> cache_op \<times> bytes) list \<Rightarrow> cworld \<Rightarrow>
    ((int \<times> bytes \<times> u64 option) list \<times> cworld) option" where
  "client_calls db [] w = Some ([], w)"
| "client_calls db ((sy, x, val) # calls) w = do {
     (rv, val, n, w) \<leftarrow> client_call db sy x val w;
     (rs, w) \<leftarrow> client_calls db calls w;
     Some ((rv, val, n) # rs, w)
   }"

text \<open>The given messages are what arrives first, each in any pieces if it is a stream.\<close>

definition arriving :: "transport \<Rightarrow> bytes \<Rightarrow> bytes option list \<Rightarrow> bytes option list \<Rightarrow> bool" where
  "arriving t b rs rest \<longleftrightarrow> (if t = TCP then \<exists>cs. rs = map Some cs @ rest \<and> [] \<notin> set cs \<and> concat cs = b
     else rs = Some b # rest)"

fun delivered :: "transport \<Rightarrow> bytes list \<Rightarrow> bytes option list \<Rightarrow> bool" where
  "delivered t [] rs \<longleftrightarrow> True"
| "delivered t (b # bs) rs \<longleftrightarrow> (\<exists>rest. arriving t b rs rest \<and> delivered t bs rest)"

lemma awaits_arriving:
  "awaits db k s w b rest \<longleftrightarrow> select_srv db k = Some (Some s) \<and> srv_valid s \<and> good (cw_ms w) \<and> cw_sends w = [] \<and>
     arriving (conn_transport s) b (cw_recvs w) rest"
  by (simp add: awaits_def arriving_def on_stream_def)

text \<open>A reply of a store that holds \<open>m\<close> to an operation.\<close>

definition replies_to :: "transport \<Rightarrow> bool \<Rightarrow> cache_op \<Rightarrow> (bytes \<rightharpoonup> bytes) \<Rightarrow> bytes \<Rightarrow> bool" where
  "replies_to t sy x m b \<longleftrightarrow> (\<exists>r. b = frame t r \<and> decode_reply r = (store32 (htonl ID_CODE), spec_reply sy x m) \<and>
     (is_hit r \<longrightarrow> (\<exists>k. x = CGet k)))"

lemma call_replied:
  assumes "op_fits x" and "vals_ok m" and "select_srv db (op_key x) = Some (Some s)" and "srv_valid s"
    and "good (cw_ms w)" and "cw_sends w = []"
    and "replies_to (conn_transport s) sy x m b" and "arriving (conn_transport s) b (cw_recvs w) rest"
  obtains w' a c n where "client_call db sy x val w = Some (a, c, n, w')" and "(a, c, n) = client_spec sy x m val"
    and "called w w' s sy x rest"
proof -
  obtain r where r: "b = frame (conn_transport s) r" "decode_reply r = (store32 (htonl ID_CODE), spec_reply sy x m)"
    "is_hit r \<Longrightarrow> \<exists>k. x = CGet k" using assms(7) unfolding replies_to_def by blast
  have "awaits db (op_key x) s w (frame (conn_transport s) r) rest"
    using assms(3-6,8) r(1) by (simp add: awaits_arriving)
  from client_exchange [OF assms(1,2) this r(2,3), of val] show thesis using that by blast
qed

text \<open>The client's state between two calls.\<close>

definition at_rest :: "nmdb_srv \<Rightarrow> cworld \<Rightarrow> bool" where
  "at_rest s w \<longleftrightarrow> srv_valid s \<and> good (cw_ms w) \<and> cw_sends w = []"

lemma called_at_rest:
  assumes "called w w' s sy x rest" and "srv_valid s"
  shows "at_rest s w'" and "cw_recvs w' = rest" and "cw_sent w' = cw_sent w @ [(sr_fd s, frame (conn_transport s) (encode 1 sy x))]"
  using assms by (simp_all add: called_def did_def at_rest_def)

fun session_ok :: "nmdb_conn \<Rightarrow> nmdb_srv \<Rightarrow> bool \<times> cache_op \<times> bytes \<Rightarrow> (bytes \<rightharpoonup> bytes) \<times> bytes \<Rightarrow> bool" where
  "session_ok db s (sy, x, val) (m, b) \<longleftrightarrow> op_fits x \<and> vals_ok m \<and> select_srv db (op_key x) = Some (Some s) \<and>
     replies_to (conn_transport s) sy x m b"

fun result_of :: "bool \<times> cache_op \<times> bytes \<Rightarrow> (bytes \<rightharpoonup> bytes) \<Rightarrow> int \<times> bytes \<times> u64 option" where
  "result_of (sy, x, val) m = client_spec sy x m val"

fun request_of :: "nmdb_srv \<Rightarrow> bool \<times> cache_op \<times> bytes \<Rightarrow> int \<times> bytes" where
  "request_of s (sy, x, val) = (sr_fd s, frame (conn_transport s) (encode 1 sy x))"

lemma calls_replied:
  assumes "list_all2 (session_ok db s) calls reps" and "at_rest s w" and "delivered (conn_transport s) (map snd reps) (cw_recvs w)"
  shows "\<exists>w'. client_calls db calls w = Some (map2 result_of calls (map fst reps), w') \<and>
    cw_sent w' = cw_sent w @ map (request_of s) calls \<and> at_rest s w'"
  using assms
proof (induction arbitrary: w rule: list_all2_induct)
  case (Cons c calls r reps)
  obtain sy x val where c: "c = (sy, x, val)" by (cases c)
  obtain m b where r: "r = (m, b)" by (cases r)
  obtain rest where rest: "arriving (conn_transport s) b (cw_recvs w) rest" "delivered (conn_transport s) (map snd reps) rest"
    using Cons.prems(2) r by auto
  from Cons.prems(1) have a: "srv_valid s" "good (cw_ms w)" "cw_sends w = []" by (simp_all add: at_rest_def)
  have ok: "op_fits x" "vals_ok m" "select_srv db (op_key x) = Some (Some s)" "replies_to (conn_transport s) sy x m b"
    using Cons.hyps(1) c r by simp_all
  obtain w1 a' c' n where w1: "client_call db sy x val w = Some (a', c', n, w1)" "(a', c', n) = client_spec sy x m val"
    "called w w1 s sy x rest" using ok(1-3) a ok(4) rest(1) by (rule call_replied)
  note d = called_at_rest [OF w1(3) a(1)]
  from Cons.IH [OF d(1)] rest(2) d(2) obtain w' where "client_calls db calls w1 = Some (map2 result_of calls (map fst reps), w')"
    "cw_sent w' = cw_sent w1 @ map (request_of s) calls" "at_rest s w'" by auto
  with w1(1,2) d(3) c r show ?case by simp
qed simp

section \<open>The theorem\<close>

lemma answers_replies_to:
  assumes "answers q (ev, m)" and "ev_id ev = ID_CODE"
  shows "replies_to (ev_t ev) (ev_sync ev) (ev_op ev) m (snd (snd q))"
proof -
  obtain fd to b where q: "q = (fd, to, b)" by (cases q)
  have v: "pkt_view (fd, to, b) = ev_reply ev m" using assms(1) q by (simp add: answers_def)
  obtain r where "b = frame (ev_t ev) r" "decode_reply r = (store32 (htonl (ev_id ev)), spec_reply (ev_sync ev) (ev_op ev) m)"
    "hit_pkt (fd, to, b) = is_hit r" using v by (rule ev_reply_wire)
  then show ?thesis using assms q by (auto simp: replies_to_def answers_def)
qed

text \<open>The calls whose requests are the given events of the history.\<close>

fun makes :: "nmdb_conn \<Rightarrow> nmdb_srv \<Rightarrow> bool \<times> cache_op \<times> bytes \<Rightarrow> event \<Rightarrow> bool" where
  "makes db s (sy, x, val) ev \<longleftrightarrow> sy = ev_sync ev \<and> x = ev_op ev \<and> ev_id ev = ID_CODE \<and>
     ev_t ev = conn_transport s \<and> select_srv db (op_key x) = Some (Some s)"

lemma makes_session:
  assumes "list_all2 (makes db s) calls (map fst us)" and "list_all2 answers qs us"
    and "list_all (\<lambda>v. ev_ok (fst v) \<and> vals_ok (snd v)) us"
  shows "list_all2 (session_ok db s) calls (zip (map snd us) (map (snd \<circ> snd) qs)) \<and>
    map (request_of s) calls = map (\<lambda>ev. (sr_fd s, frame (ev_t ev) (ev_msg ev))) (map fst us)"
  using assms(2,1,3)
proof (induction arbitrary: calls rule: list_all2_induct)
  case (Cons q qs v us)
  then obtain c cs where c: "calls = c # cs" by (cases calls) auto
  obtain sy x val where x: "c = (sy, x, val)" by (cases c)
  obtain ev m where v: "v = (ev, m)" by (cases v)
  have mk: "makes db s (sy, x, val) ev" and ok: "ev_ok ev" "vals_ok m" using Cons.prems c x v by auto
  then have [simp]: "sy = ev_sync ev" "x = ev_op ev" by simp_all
  have "replies_to (conn_transport s) sy x m (snd (snd q))"
    using answers_replies_to [of q ev m] Cons.hyps(1) v mk by simp
  with mk ok have "session_ok db s c (m, snd (snd q))" "request_of s c = (sr_fd s, frame (ev_t ev) (ev_msg ev))"
    by (simp_all add: x ev_ok_def ev_msg_def)
  with Cons.IH [of cs] Cons.prems c v show ?case by simp
qed simp

text \<open>
  Property C12: a client program and the server, whatever other clients do: if the client's
  requests, on a datagram transport or a TCP connection, are those of its calls, none sent before
  the reply to the last one, and it receives the packets the server sent to it, TCP in any
  pieces, then every call returns what \<open>client_spec\<close> says for the sequential store at the arrival of
  its own request (what the manual page documents, except that an increment of a NUL-terminated
  value that is no number returns 2), and the calls have sent exactly the messages that the server
  received. The requests are gets, sets, deletes, compare-and-swaps and increments of the database.
\<close>

theorem client_session:
  assumes "boot view m0 s0 db0" and "paced p s0 db0 h s db pc cs" and "length (outs p s) = length (mine p h)"
    and "list_all2 (makes cdb srv) calls (mine p h)" and "at_rest srv w"
    and "delivered (conn_transport srv) (map (snd \<circ> snd) (outs p s)) (cw_recvs w)"
  shows "\<exists>w'. client_calls cdb calls w = Some (map2 result_of calls (map snd (owned p h m0)), w') \<and>
    cw_sent w' = cw_sent w @ map (\<lambda>ev. (sr_fd srv, frame (ev_t ev) (ev_msg ev))) (mine p h)"
proof -
  obtain us vs where u: "owned p h m0 = us @ vs" "list_all2 answers (outs p s) us"
    using paced_answers [OF assms(2,1)] by blast
  then have "length vs = 0" using list_all2_lengthD [OF u(2)] length_owned [of p h m0] assms(3) by simp
  then have u1: "owned p h m0 = us" using u(1) by simp
  obtain c pend where i: "sys_inv view m0 h s db pc c pend" and "conns_ok cs"
    using assms(1) paced_reach [OF assms(2)] by (rule boot_reach)
  have m: "mine p h = map fst us" using owned_mine [of p h m0] u1 by simp
  have "list_all (\<lambda>v. ev_ok (fst v) \<and> vals_ok (snd v)) us"
    using owned_ok [OF sys_invD(4,5) [OF i], of p] u1 by simp
  from makes_session [OF assms(4) [unfolded m] u(2) this]
  have s: "list_all2 (session_ok cdb srv) calls (zip (map snd us) (map (snd \<circ> snd) (outs p s)))"
    "map (request_of srv) calls = map (\<lambda>ev. (sr_fd srv, frame (ev_t ev) (ev_msg ev))) (mine p h)"
    unfolding m by blast+
  have l: "length us = length (outs p s)" using list_all2_lengthD [OF u(2)] by simp
  have "map snd (zip (map snd us) (map (snd \<circ> snd) (outs p s))) = map (snd \<circ> snd) (outs p s)"
    "map fst (zip (map snd us) (map (snd \<circ> snd) (outs p s))) = map snd us" using l by simp_all
  with calls_replied [OF s(1) assms(5)] assms(6) s(2) u1 show ?thesis by auto
qed

theorem client_session_witness:
  "\<exists>s b w'. outs (5, Some [127, 0, 0, 1]) s = [(5, Some [127, 0, 0, 1], b)] \<and>
    client_calls demo_conn [(True, CSet [1, 2] [50, 0], [])] (demo_world b) = Some ([(1, [], None)], w') \<and>
    cw_sent w' = [(3, ev_msg demo_event)]"
proof -
  let ?p = "(5, Some [127, 0, 0, 1])" and ?calls = "[(True, CSet [1, 2] [50, 0], [])]"
  obtain s db pc to b where r: "reach demo_server demo_db [demo_event] s db pc Map.empty" "(5, to, b) \<in> set (sv_out s)"
    by (rule demo_answered)
  obtain c pend where i: "sys_inv (\<lambda>c. c) Map.empty [demo_event] s db pc c pend" and "conns_ok Map.empty"
    using demo_boot r(1) by (rule boot_reach)
  have ev: "ev_peer demo_event = ?p" by (simp add: ev_peer_def demo_event_def)
  have m: "mine ?p [demo_event] = [demo_event]" by (simp add: mine_def ev)
  have ow: "owned ?p [demo_event] Map.empty = [(demo_event, Map.empty)]" by (simp add: ev)
  have "mset (map pkt_view (sv_out s)) \<subseteq># mset [ev_reply demo_event Map.empty]"
    using sys_invD(12) [OF i] by (metis mset_subset_eq_add_left replies.simps)
  from at_most_one [of pkt_view "sv_out s" id "[ev_reply demo_event Map.empty]"] this r(2)
  have o: "sv_out s = [(5, to, b)]" "pkt_view (5, to, b) = ev_reply demo_event Map.empty" by auto
  then have to: "to = Some [127, 0, 0, 1]" by (simp add: pkt_view_def ev_reply_def demo_event_def)
  have ou: "outs ?p s = [(5, to, b)]" using o(1) to by (simp add: outs_def pkt_peer_def)
  have pd: "paced ?p demo_server demo_db [demo_event] s db pc Map.empty"
    by (rule paced_one [OF r(1) demo_boot]) (simp add: m)
  have k: "list_all2 (makes demo_conn demo_srv) ?calls (mine ?p [demo_event])"
    by (simp add: m demo_select) (simp add: demo_event_def)
  have a: "at_rest demo_srv (demo_world b)" by (simp add: at_rest_def demo_world_def)
  have d: "delivered (conn_transport demo_srv) (map (snd \<circ> snd) (outs ?p s)) (cw_recvs (demo_world b))"
    by (simp add: ou arriving_def demo_world_def)
  have f: "frame (ev_t demo_event) b' = b'" for b' by (simp add: demo_event_def)
  from client_session [OF demo_boot pd _ k a d] ou m ow to show ?thesis
    by (auto simp: f demo_world_def demo_srv_def [THEN arg_cong [where f = sr_fd]])
qed

end
