(* ===== verification/Test_Theorems.thy ===== *)
theory Test_Theorems
  imports Test_Programs Client_Session Library_Theorems
begin

text \<open>
  The test programs against a store: what each prints when it is the only client of a server that
  answers like a sequential store, as the server does (\<open>lone_client_served\<close>). The programs are those
  compiled for normal and for synchronous calls and for one transport.
\<close>

section \<open>A client that is alone\<close>

text \<open>The replies to a client's operations, from a store that holds \<open>m\<close> at first.\<close>

fun serves :: "transport \<Rightarrow> (bool \<times> cache_op) list \<Rightarrow> (bytes \<rightharpoonup> bytes) \<Rightarrow> bytes option list \<Rightarrow> bool" where
  "serves t [] m rs \<longleftrightarrow> True"
| "serves t ((sy, x) # xs) m rs \<longleftrightarrow> (\<exists>b rest. replies_to t sy x m b \<and> arriving t b rs rest \<and> serves t xs (ref_step x m) rest)"

text \<open>Such replies exist for all operations.\<close>

fun reply_bytes :: "areply \<Rightarrow> bytes" where
  "reply_bytes ROk = reply_msg REP_OK []"
| "reply_bytes RNotin = reply_msg REP_NOTIN []"
| "reply_bytes RNomatch = reply_msg REP_NOMATCH []"
| "reply_bytes (RVal v) = reply_msg REP_OK (be32 (length v) @ v)"
| "reply_bytes (ROther b) = b"

lemma decode_reply_bytes:
  assumes "\<And>b. a \<noteq> ROther b"
  shows "decode_reply (reply_bytes a) = (store32 (htonl ID_CODE), a)" and "\<not> is_hit (reply_bytes a)"
  using assms decode_mini [of "htonl ID_CODE"] decode_long [of "htonl ID_CODE"]
  by (cases a; simp add: reply_msg_def be32_def is_hit_def store32_htonl_codes be32_codes [unfolded be32_def] del: store32_htonl)+

lemma spec_reply_known: "spec_reply sy x m \<noteq> ROther b"
  by (cases x) (auto split: option.splits)

fun store_replies :: "transport \<Rightarrow> (bool \<times> cache_op) list \<Rightarrow> (bytes \<rightharpoonup> bytes) \<Rightarrow> bytes option list" where
  "store_replies t [] m = []"
| "store_replies t ((sy, x) # xs) m = Some (frame t (reply_bytes (spec_reply sy x m))) # store_replies t xs (ref_step x m)"

lemma store_replies_serve: "serves t xs m (store_replies t xs m)"
proof (induction xs arbitrary: m)
  case (Cons y xs)
  obtain sy x where y: "y = (sy, x)" by (cases y)
  let ?b = "frame t (reply_bytes (spec_reply sy x m))" and ?rest = "store_replies t xs (ref_step x m)"
  note d = decode_reply_bytes [of "spec_reply sy x m", OF spec_reply_known]
  then have "replies_to t sy x m ?b" by (auto simp: replies_to_def)
  moreover have "?b \<noteq> []"
  proof
    assume "?b = []"
    then have "decode_reply [] = (store32 (htonl ID_CODE), spec_reply sy x m)" using d(1) by (auto simp: frame_def split: if_splits)
    moreover have "store32 (htonl ID_CODE) \<noteq> []" by (metis length_le_bytes list.size(3) zero_neq_numeral)
    ultimately show False by (simp add: decode_reply_def del: store32_htonl)
  qed
  then have "arriving t ?b (Some ?b # ?rest) ?rest" by (auto simp: arriving_def intro: exI [of _ "[?b]"])
  ultimately show ?case using Cons.IH y by auto
qed simp

lemma served_history:
  assumes "list_all2 answers qs (owned p h m)" and "\<forall>ev\<in>set h. ev_peer ev = p \<and> ev_id ev = ID_CODE \<and> ev_t ev = t"
    and "delivered t (map (snd \<circ> snd) qs) rs"
  shows "serves t (map (\<lambda>ev. (ev_sync ev, ev_op ev)) h) m rs"
  using assms
proof (induction h arbitrary: m qs rs)
  case (Cons ev h)
  then obtain q qs' where q: "qs = q # qs'" "answers q (ev, m)" "list_all2 answers qs' (owned p h (ev_step ev m))"
    by (auto simp: list_all2_Cons2)
  obtain rest where rest: "arriving t (snd (snd q)) rs rest" "delivered t (map (snd \<circ> snd) qs') rest"
    using Cons.prems(3) unfolding q(1) list.map delivered.simps comp_def by blast
  have e: "ev_id ev = ID_CODE" "ev_t ev = t" using Cons.prems(2) by auto
  have "replies_to t (ev_sync ev) (ev_op ev) m (snd (snd q))" using answers_replies_to [OF q(2) e(1)] e(2) by simp
  moreover have "serves t (map (\<lambda>ev. (ev_sync ev, ev_op ev)) h) (ev_step ev m) rest"
    using Cons.IH [OF q(3) _ rest(2)] Cons.prems(2) by simp
  ultimately show ?case using rest(1) by (auto simp: ev_step_def)
qed simp

text \<open>What the server's only client receives is what the sequential store answers.\<close>

lemma lone_client_served:
  assumes "boot view m0 s0 db0" and "paced p s0 db0 h s db pc cs" and "length (outs p s) = length h"
    and "\<forall>ev\<in>set h. ev_peer ev = p \<and> ev_id ev = ID_CODE \<and> ev_t ev = t"
    and "delivered t (map (snd \<circ> snd) (outs p s)) rs"
  shows "serves t (map (\<lambda>ev. (ev_sync ev, ev_op ev)) h) m0 rs"
proof -
  have "mine p h = h" using assms(4) by (simp add: mine_def)
  moreover obtain us vs where u: "owned p h m0 = us @ vs" "list_all2 answers (outs p s) us"
    using paced_answers [OF assms(2,1)] by blast
  ultimately have "length vs = 0" using list_all2_lengthD [OF u(2)] length_owned [of p h m0] assms(3) by simp
  then have "list_all2 answers (outs p s) (owned p h m0)" using u by simp
  then show ?thesis using assms(4,5) by (rule served_history)
qed

text \<open>
  A client of such a store in the middle of a program: \<open>xs\<close> are the operations to come, and with
  the messages for them, those sent will be \<open>tot\<close>.
\<close>

definition requests :: "int \<Rightarrow> transport \<Rightarrow> (bool \<times> cache_op) list \<Rightarrow> (int \<times> bytes) list" where
  "requests fd t xs = map (\<lambda>(sy, x). (fd, frame t (encode 1 sy x))) xs"

definition serving :: "nmdb_conn \<Rightarrow> nmdb_srv \<Rightarrow> (int \<times> bytes) list \<Rightarrow> (bool \<times> cache_op) list \<Rightarrow> (bytes \<rightharpoonup> bytes) \<Rightarrow> cworld \<Rightarrow> bool" where
  "serving db s tot xs m w \<longleftrightarrow> at_rest s w \<and> (\<forall>k. select_srv db k = Some (Some s)) \<and> vals_ok m \<and>
     serves (conn_transport s) xs m (cw_recvs w) \<and> cw_sent w @ requests (sr_fd s) (conn_transport s) xs = tot"

lemma serving_end: "serving db s tot [] m w \<Longrightarrow> cw_sent w = tot"
  by (simp add: serving_def requests_def)

lemma serving_call:
  assumes "serving db s tot ((sy, x) # xs) m w" and "op_fits x"
  shows "\<exists>w'. client_call db sy x val w =
      (case client_spec sy x m val of (a, c, n) \<Rightarrow> Some (a, c, n, w')) \<and> serving db s tot xs (ref_step x m) w'"
proof -
  obtain b rest where b: "replies_to (conn_transport s) sy x m b" "arriving (conn_transport s) b (cw_recvs w) rest"
    "serves (conn_transport s) xs (ref_step x m) rest" using assms(1) by (auto simp: serving_def)
  have a: "srv_valid s" "good (cw_ms w)" "cw_sends w = []" "select_srv db (op_key x) = Some (Some s)" "vals_ok m"
    using assms(1) by (simp_all add: serving_def at_rest_def)
  obtain w' a' c n where w: "client_call db sy x val w = Some (a', c, n, w')" "(a', c, n) = client_spec sy x m val"
    "called w w' s sy x rest"
    using assms(2) a(5,4,1-3) b(1,2) by (rule call_replied)
  have "serving db s tot xs (ref_step x m) w'"
    using called_at_rest [OF w(3) a(1)] assms b(3) vals_ok_step [OF assms(2) a(5)] by (auto simp: serving_def requests_def)
  with w(1,2) show ?thesis by (metis (no_types, lifting) case_prod_conv)
qed

text \<open>The four calls of the test programs.\<close>

lemma NSET_serving:
  assumes "serving db s tot ((c = USE_SYNC, CSet k v) # xs) m w" and "c \<noteq> USE_CACHE" and "op_fits (CSet k v)"
  shows "\<exists>w'. NSET c db k v w = Some (1, w') \<and> serving db s tot xs (m(k \<mapsto> v)) w'"
  using serving_call [OF assms(1,3), of "[]"] assms(2)
  by (cases c) (auto simp: NSET_def split: Option.bind_splits)

lemma NGET_serving:
  assumes "serving db s tot ((c = USE_SYNC, CGet k) # xs) m w" and "c \<noteq> USE_CACHE" and "op_fits (CGet k)"
  shows "\<exists>w'. NGET c db k val w = (case client_spec True (CGet k) m val of (a, out, n) \<Rightarrow> Some (a, out, w')) \<and>
    serving db s tot xs m w'"
  using serving_call [OF assms(1,3), of val] assms(2)
  by (cases c) (auto simp: NGET_def split: Option.bind_splits option.splits if_splits)

lemma NDEL_serving:
  assumes "serving db s tot ((c = USE_SYNC, CDel k) # xs) m w" and "c \<noteq> USE_CACHE" and "op_fits (CDel k)"
  shows "\<exists>r w'. NDEL c db k w = Some (r, w') \<and> 0 \<le> r \<and> serving db s tot xs (m(k := None)) w'"
  using serving_call [OF assms(1,3), of "[]"] assms(2)
  by (cases c) (auto simp: NDEL_def split: Option.bind_splits if_splits)

lemma NINCR_serving:
  assumes "serving db s tot ((c = USE_SYNC, CIncr k i) # xs) m w" and "c \<noteq> USE_CACHE" and "op_fits (CIncr k i)"
    and "m k = Some v" and "numeric v"
  shows "\<exists>w'. NINCR c db k i True w = Some (2, Some (val_num v + i), w') \<and>
    serving db s tot xs (m(k \<mapsto> num_val v (val_num v + i))) w'"
  using serving_call [OF assms(1,3), of "[]"] assms(2,4,5)
  by (cases c) (auto simp: NINCR_def split: Option.bind_splits)

section \<open>The loops\<close>

text \<open>Block number \<open>i\<close> of \<open>n\<close> bytes.\<close>

definition numbered :: "nat \<Rightarrow> nat \<Rightarrow> bytes" where
  "numbered n i = store32 (of_nat i) @ replicate (n - 4) 0"

definition zeroed :: "nat \<Rightarrow> bytes \<Rightarrow> bool" where
  "zeroed n b \<longleftrightarrow> 4 \<le> n \<and> length b = n \<and> drop 4 b = replicate (n - 4) 0"

lemma zeroed_replicate: "4 \<le> n \<Longrightarrow> zeroed n (replicate n 0)"
  by (simp add: zeroed_def)

lemma zeroed_numbered: "4 \<le> n \<Longrightarrow> zeroed n (numbered n i)"
  by (simp add: zeroed_def numbered_def)

lemma length_numbered: "4 \<le> n \<Longrightarrow> length (numbered n i) = n"
  by (simp add: numbered_def)

lemma numbered_ne [simp]: "numbered n i \<noteq> []"
proof -
  have "length (numbered n i) \<noteq> 0" by (simp add: numbered_def)
  then show ?thesis by auto
qed

lemma stamp_numbered: "zeroed n b \<Longrightarrow> stamp b i = Some (numbered n i)"
  by (simp add: zeroed_def stamp_def numbered_def put_at_def)

definition set_all :: "nat \<Rightarrow> nat \<Rightarrow> nat list \<Rightarrow> (bytes \<rightharpoonup> bytes) \<Rightarrow> (bytes \<rightharpoonup> bytes)" where
  "set_all kn vn is m = fold (\<lambda>i m. m(numbered kn i \<mapsto> numbered vn i)) is m"

lemma set_loop:
  assumes "serving db s tot (map (\<lambda>i. (c = USE_SYNC, CSet (numbered kn i) (numbered vn i))) is @ xs) m w" and "c \<noteq> USE_CACHE"
    and "zeroed kn k" and "zeroed vn v" and "kn + vn \<le> 2 ^ 16"
  shows "\<exists>bl w'. for_loop (set_numbered c db) is (k, v) w = Some (Inr bl, w') \<and> serving db s tot xs (set_all kn vn is m) w'"
  using assms
proof (induction "is" arbitrary: m w k v)
  case (Cons i "is")
  have n: "4 \<le> kn" "4 \<le> vn" using Cons.prems(3,4) by (simp_all add: zeroed_def)
  then have "op_fits (CSet (numbered kn i) (numbered vn i))"
    using Cons.prems(5) length_numbered [of vn i] by (auto simp: length_numbered)
  then obtain w1 where w1: "NSET c db (numbered kn i) (numbered vn i) w = Some (1, w1)"
    "serving db s tot (map (\<lambda>i. (c = USE_SYNC, CSet (numbered kn i) (numbered vn i))) is @ xs) (m(numbered kn i \<mapsto> numbered vn i)) w1"
    using NSET_serving [OF _ Cons.prems(2)] Cons.prems(1) unfolding list.map append_Cons by blast
  obtain bl w' where "for_loop (set_numbered c db) is (numbered kn i, numbered vn i) w1 = Some (Inr bl, w')"
    "serving db s tot xs (set_all kn vn is (m(numbered kn i \<mapsto> numbered vn i))) w'"
    using Cons.IH [OF w1(2) Cons.prems(2) zeroed_numbered [OF n(1)] zeroed_numbered [OF n(2)] Cons.prems(5)] by blast
  moreover have "set_numbered c db i (k, v) w = Some (Inr (numbered kn i, numbered vn i), w1)"
    using w1(1) stamp_numbered [OF Cons.prems(3)] stamp_numbered [OF Cons.prems(4)] by (simp add: set_numbered_def)
  ultimately show ?case by (auto simp: set_all_def)
qed (simp add: set_all_def)

lemma set_all_other: "k \<notin> numbered kn ` set is \<Longrightarrow> set_all kn vn is m k = m k"
  by (induction "is" arbitrary: m) (auto simp: set_all_def)

lemma set_all_has: "k \<in> numbered kn ` set is \<Longrightarrow> \<exists>j. set_all kn vn is m k = Some (numbered vn j)"
proof (induction "is" arbitrary: m)
  case (Cons i "is")
  let ?m = "m(numbered kn i \<mapsto> numbered vn i)"
  have s: "set_all kn vn (i # is) m = set_all kn vn is ?m" by (simp add: set_all_def)
  show ?case
  proof (cases "k \<in> numbered kn ` set is")
    case True
    then show ?thesis unfolding s by (rule Cons.IH)
  next
    case False
    then have "k = numbered kn i" using Cons.prems by auto
    with set_all_other [OF False, of vn ?m] show ?thesis unfolding s by auto
  qed
qed simp

text \<open>A value fits the buffer of a get; a missing key is counted.\<close>

lemma get_step:
  assumes "serving db s tot ((c = USE_SYNC, CGet k) # xs) m w" and "c \<noteq> USE_CACHE" and "length k < 2 ^ 16"
    and "\<And>v. m k = Some v \<Longrightarrow> length v \<le> vsize"
  shows "\<exists>r w'. get_into c db k True vsize w = Some (r, w') \<and>
    count_miss r key misses = Inr (key, if m k = None then misses + 1 else misses) \<and> serving db s tot xs m w'"
proof -
  obtain w' where w': "NGET c db k (replicate vsize 0) w =
      (case client_spec True (CGet k) m (replicate vsize 0) of (a, out, n) \<Rightarrow> Some (a, out, w'))" "serving db s tot xs m w'"
    using NGET_serving [OF assms(1,2), of "replicate vsize 0"] assms(3) by auto
  have v: "vals_ok m" using assms(1) by (simp add: serving_def)
  show ?thesis
  proof (cases "m k")
    case None
    with w' show ?thesis by (simp add: get_into_def count_miss_def)
  next
    case (Some v)
    then have "length v \<le> BUFSIZE" using vals_okD [OF v Some] by (simp add: BUFSIZE_def)
    with w' Some assms(4) [OF Some] show ?thesis by (simp add: get_into_def count_miss_def)
  qed
qed

lemma get_loop:
  assumes "serving db s tot (map (\<lambda>i. (c = USE_SYNC, CGet (numbered kn i))) is @ xs) m w" and "c \<noteq> USE_CACHE"
    and "zeroed kn k" and "kn < 2 ^ 16" and "\<And>i v. i \<in> set is \<Longrightarrow> m (numbered kn i) = Some v \<Longrightarrow> length v \<le> vsize"
  shows "\<exists>k' w'. for_loop (get_numbered c db True vsize) is (k, misses) w =
    Some (Inr (k', misses + of_nat (length (filter (\<lambda>i. m (numbered kn i) = None) is))), w') \<and> zeroed kn k' \<and> serving db s tot xs m w'"
  using assms
proof (induction "is" arbitrary: w k misses)
  case (Cons i "is")
  have n: "4 \<le> kn" using Cons.prems(3) by (simp add: zeroed_def)
  let ?k = "numbered kn i"
  have sv: "serving db s tot ((c = USE_SYNC, CGet ?k) # map (\<lambda>i. (c = USE_SYNC, CGet (numbered kn i))) is @ xs) m w"
    using Cons.prems(1) by simp
  have lk: "length ?k < 2 ^ 16" using Cons.prems(4) n by (simp add: length_numbered)
  let ?misses = "if m ?k = None then misses + 1 else misses"
  obtain r w1 where w1: "get_into c db ?k True vsize w = Some (r, w1)" "count_miss r ?k misses = Inr (?k, ?misses)"
    "serving db s tot (map (\<lambda>i. (c = USE_SYNC, CGet (numbered kn i))) is @ xs) m w1"
    using get_step [OF sv Cons.prems(2) lk, of vsize ?k misses] Cons.prems(5) by force
  from Cons.IH [OF w1(3) Cons.prems(2) zeroed_numbered [OF n] Cons.prems(4), of i ?misses] Cons.prems(5) obtain k' w' where
    "for_loop (get_numbered c db True vsize) is (?k, ?misses) w1 =
      Some (Inr (k', ?misses + of_nat (length (filter (\<lambda>i. m (numbered kn i) = None) is))), w')" "zeroed kn k'" "serving db s tot xs m w'"
    by auto
  moreover have "get_numbered c db True vsize i (k, misses) w = Some (Inr (?k, ?misses), w1)"
    using w1(1,2) stamp_numbered [OF Cons.prems(3)] by (simp add: get_numbered_def)
  moreover have "?misses + of_nat (length (filter (\<lambda>i. m (numbered kn i) = None) is)) =
      misses + of_nat (length (filter (\<lambda>i. m (numbered kn i) = None) (i # is)))" by simp
  ultimately show ?case by (simp del: filter.simps)
qed simp

lemma del_loop:
  assumes "serving db s tot (map (\<lambda>i. (c = USE_SYNC, CDel (numbered kn i))) is @ xs) m w" and "c \<noteq> USE_CACHE"
    and "zeroed kn k" and "kn < 2 ^ 16"
  shows "\<exists>k' m' w'. for_loop (del_numbered c db) is k w = Some (Inr k', w') \<and> serving db s tot xs m' w'"
  using assms
proof (induction "is" arbitrary: m w k)
  case (Cons i "is")
  have n: "4 \<le> kn" using Cons.prems(3) by (simp add: zeroed_def)
  let ?k = "numbered kn i"
  have "op_fits (CDel ?k)" using Cons.prems(4) n by (simp add: length_numbered)
  then obtain r w1 where w1: "NDEL c db ?k w = Some (r, w1)" "0 \<le> r"
    "serving db s tot (map (\<lambda>i. (c = USE_SYNC, CDel (numbered kn i))) is @ xs) (m(?k := None)) w1"
    using NDEL_serving [OF _ Cons.prems(2)] Cons.prems(1) unfolding list.map append_Cons by blast
  have "del_numbered c db i k w = Some (Inr ?k, w1)"
    using w1(1,2) stamp_numbered [OF Cons.prems(3)] by (simp add: del_numbered_def)
  with Cons.IH [OF w1(3) Cons.prems(2) zeroed_numbered [OF n] Cons.prems(4)] show ?case by auto
qed auto

lemma incr_loop:
  assumes "serving db s tot (map (\<lambda>i. (c = USE_SYNC, CIncr k inc)) is @ xs) m w" and "c \<noteq> USE_CACHE"
    and "length k + 8 \<le> 2 ^ 16" and "m k = Some v" and "numeric v"
  shows "\<exists>m' w'. for_loop (incr_body c db k inc) is newval w =
    Some (Inr (if is = [] then newval else val_num v + of_nat (length is) * inc), w') \<and> serving db s tot xs m' w'"
  using assms
proof (induction "is" arbitrary: m w v newval)
  case (Cons i "is")
  let ?v = "num_val v (val_num v + inc)"
  obtain w1 where w1: "NINCR c db k inc True w = Some (2, Some (val_num v + inc), w1)"
    "serving db s tot (map (\<lambda>i. (c = USE_SYNC, CIncr k inc)) is @ xs) (m(k \<mapsto> ?v)) w1"
    using NINCR_serving [of db s tot c k inc _ m w v] Cons.prems by auto
  obtain m' w' where l: "for_loop (incr_body c db k inc) is (val_num v + inc) w1 =
      Some (Inr (if is = [] then val_num v + inc else val_num ?v + of_nat (length is) * inc), w')" "serving db s tot xs m' w'"
    using Cons.IH [OF w1(2) Cons.prems(2,3), of ?v "val_num v + inc"] numeric_num_val [OF Cons.prems(5)] by auto
  have "incr_body c db k inc i newval w = Some (Inr (val_num v + inc), w1)" by (simp add: incr_body_def w1(1))
  then have "for_loop (incr_body c db k inc) (i # is) newval w = for_loop (incr_body c db k inc) is (val_num v + inc) w1" by simp
  moreover have "(if is = [] then val_num v + inc else val_num ?v + of_nat (length is) * inc) = val_num v + of_nat (length (i # is)) * inc"
    by (auto simp: algebra_simps)
  ultimately show ?case using l by (auto simp del: for_loop.simps)
qed auto

lemma take_numbered: "4 \<le> n \<Longrightarrow> n \<le> l \<Longrightarrow> take n (numbered l i) = numbered n i"
  by (simp add: numbered_def take_replicate)

lemma numbered_prefix: "4 \<le> n \<Longrightarrow> n \<le> l \<Longrightarrow> numbered n i @ drop n (numbered l i) = numbered l i"
  by (metis append_take_drop_id take_numbered)

definition three_ops :: "bool \<Rightarrow> nat \<Rightarrow> nat \<Rightarrow> nat \<Rightarrow> (bool \<times> cache_op) list" where
  "three_ops sy kn vn i = [(sy, CSet (numbered kn i) (numbered vn i)), (sy, CGet (numbered kn i)), (sy, CDel (numbered kn i))]"

lemma three_loop:
  assumes "serving db s tot (concat (map (three_ops (c = USE_SYNC) kn vn) is) @ xs) m w" and "c \<noteq> USE_CACHE"
    and "zeroed kn k" and "zeroed BUFSIZE v" and "4 \<le> vn" and "kn + vn \<le> 2 ^ 16"
  shows "\<exists>k' v' m' w'. for_loop (three_body c db vn) is (k, v, misses) w = Some (Inr (k', v', misses), w') \<and> serving db s tot xs m' w'"
  using assms
proof (induction "is" arbitrary: m w k v)
  case (Cons i "is")
  have n: "4 \<le> kn" "vn \<le> BUFSIZE" "4 \<le> BUFSIZE"
    using Cons.prems(3-6) by (simp_all add: zeroed_def BUFSIZE_def)
  let ?k = "numbered kn i" and ?v = "numbered vn i" and ?b = "numbered BUFSIZE i"
  have l: "length ?k = kn" "length ?v = vn" "length ?b = BUFSIZE" using n Cons.prems(5) by (simp_all add: length_numbered)
  have f: "op_fits (CSet ?k ?v)" "op_fits (CGet ?k)" "op_fits (CDel ?k)" using l Cons.prems(5,6) n by simp_all
  let ?xs = "concat (map (three_ops (c = USE_SYNC) kn vn) is) @ xs"
  have s0: "serving db s tot ((c = USE_SYNC, CSet ?k ?v) # (c = USE_SYNC, CGet ?k) # (c = USE_SYNC, CDel ?k) # ?xs) m w"
    using Cons.prems(1) unfolding list.map concat.simps three_ops_def [of "c = USE_SYNC" kn vn i] by simp
  obtain w1 where w1: "NSET c db ?k ?v w = Some (1, w1)"
    "serving db s tot ((c = USE_SYNC, CGet ?k) # (c = USE_SYNC, CDel ?k) # ?xs) (m(?k \<mapsto> ?v)) w1"
    using NSET_serving [OF s0 Cons.prems(2) f(1)] by blast
  have sp: "client_spec True (CGet ?k) (m(?k \<mapsto> ?v)) ?b = (int vn, ?b, None)"
    using l n numbered_prefix [OF Cons.prems(5) n(2)] by simp
  obtain w2 where w2: "NGET c db ?k ?b w1 = Some (int vn, ?b, w2)"
    "serving db s tot ((c = USE_SYNC, CDel ?k) # ?xs) (m(?k \<mapsto> ?v)) w2"
    using NGET_serving [OF w1(2) Cons.prems(2) f(2), of ?b] unfolding sp by auto
  obtain r w3 where w3: "NDEL c db ?k w2 = Some (r, w3)" "0 \<le> r" "serving db s tot ?xs ((m(?k \<mapsto> ?v))(?k := None)) w3"
    using NDEL_serving [OF w2(2) Cons.prems(2) f(3)] by blast
  have "rd ?b 0 vn = Some ?v" using l(3) n(2) take_numbered [OF Cons.prems(5) n(2)] by (simp add: rd_def)
  then have "three_body c db vn i (k, v, misses) w = Some (Inr (?k, ?b, misses), w3)"
    using w1(1) w2(1) w3(1,2) stamp_numbered [OF Cons.prems(3)] stamp_numbered [OF Cons.prems(4)]
      stamp_numbered [OF zeroed_numbered [OF n(1)]]
    by (simp add: three_body_def count_miss_def)
  with Cons.IH [OF w3(3) Cons.prems(2) zeroed_numbered [OF n(1)] zeroed_numbered [OF n(3)] Cons.prems(5,6), of i i]
  show ?case by simp
qed auto

text \<open>The same operation again and again.\<close>

lemma one_set_loop:
  assumes "serving db s tot (replicate (length is) (c = USE_SYNC, CSet k v) @ xs) m w" and "c \<noteq> USE_CACHE" and "op_fits (CSet k v)"
  shows "\<exists>w'. for_loop (one_set c db k v) is () w = Some (Inr (), w') \<and>
    serving db s tot xs (if is = [] then m else m(k \<mapsto> v)) w'"
  using assms
proof (induction "is" arbitrary: m w)
  case (Cons i "is")
  have "serving db s tot ((c = USE_SYNC, CSet k v) # replicate (length is) (c = USE_SYNC, CSet k v) @ xs) m w"
    using Cons.prems(1) by simp
  then obtain w1 where w1: "NSET c db k v w = Some (1, w1)"
    "serving db s tot (replicate (length is) (c = USE_SYNC, CSet k v) @ xs) (m(k \<mapsto> v)) w1"
    using NSET_serving [OF _ Cons.prems(2,3)] by blast
  then have "one_set c db k v i () w = Some (Inr (), w1)" by (simp add: one_set_def)
  with Cons.IH [OF w1(2) Cons.prems(2,3)] show ?case by (cases "is = []") simp_all
qed auto

lemma one_get_loop:
  assumes "serving db s tot (replicate (length is) (c = USE_SYNC, CGet k) @ xs) m w" and "c \<noteq> USE_CACHE" and "length k < 2 ^ 16"
    and "is \<noteq> [] \<Longrightarrow> m k = Some v" and "length v \<le> vsize"
  shows "\<exists>w'. for_loop (one_get c db k True vsize) is misses w = Some (Inr misses, w') \<and> serving db s tot xs m w'"
  using assms
proof (induction "is" arbitrary: w)
  case (Cons i "is")
  have k: "m k = Some v" using Cons.prems(4) by simp
  have sv: "serving db s tot ((c = USE_SYNC, CGet k) # replicate (length is) (c = USE_SYNC, CGet k) @ xs) m w"
    using Cons.prems(1) by simp
  obtain r w1 where w1: "get_into c db k True vsize w = Some (r, w1)" "count_miss r k misses = Inr (k, misses)"
    "serving db s tot (replicate (length is) (c = USE_SYNC, CGet k) @ xs) m w1"
    using get_step [OF sv Cons.prems(2,3), of vsize k misses] Cons.prems(5) k by auto
  then have "one_get c db k True vsize i misses w = Some (Inr misses, w1)" by (simp add: one_get_def)
  with Cons.IH [OF w1(3) Cons.prems(2,3) k Cons.prems(5)] show ?case by simp
qed auto

lemma one_del_loop:
  assumes "serving db s tot (replicate (length is) (c = USE_SYNC, CDel k) @ xs) m w" and "c \<noteq> USE_CACHE" and "length k < 2 ^ 16"
  shows "\<exists>m' w'. for_loop (one_del c db k) is () w = Some (Inr (), w') \<and> serving db s tot xs m' w'"
  using assms
proof (induction "is" arbitrary: m w)
  case (Cons i "is")
  have "serving db s tot ((c = USE_SYNC, CDel k) # replicate (length is) (c = USE_SYNC, CDel k) @ xs) m w" "op_fits (CDel k)"
    using Cons.prems(1,3) by simp_all
  then obtain r w1 where w1: "NDEL c db k w = Some (r, w1)" "0 \<le> r"
    "serving db s tot (replicate (length is) (c = USE_SYNC, CDel k) @ xs) (m(k := None)) w1"
    using NDEL_serving [OF _ Cons.prems(2)] by blast
  then have "one_del c db k i () w = Some (Inr (), w1)" by (simp add: one_del_def)
  with Cons.IH [OF w1(3) Cons.prems(2,3)] show ?case by auto
qed auto

section \<open>The programs\<close>

fun kind_transport :: "transport_kind \<Rightarrow> transport" where
  "kind_transport USE_TCP = TCP"
| "kind_transport USE_UDP = UDP"
| "kind_transport USE_SCTP = SCTP"
| "kind_transport _ = TIPC"

text \<open>Surroundings in which the one server can be added.\<close>

definition env_ok :: "transport_kind \<Rightarrow> test_env \<Rightarrow> bool" where
  "env_ok t e \<longleftrightarrow> t \<noteq> USE_MULT \<and> 0 \<le> te_fd e t \<and> resolve (te_pton e) (te_host e) ''localhost'' \<noteq> None \<and>
     0 \<le> te_connected e \<and> 0 \<le> te_tcp_sockopt e \<and> 0 \<le> te_sctp_sockopt e"

lemma NADDSRV_add_server:
  assumes "env_ok t e"
  obtains a where "NADDSRV t e db w = snd (add_server db a (te_fd e t) w)" and "conn_transport (addr_srv a (te_fd e t)) = kind_transport t"
proof -
  obtain ia where ia: "resolve (te_pton e) (te_host e) ''localhost'' = Some ia" using assms by (auto simp: env_ok_def)
  have tcp: "add_tcp_server_addr db ia (- 1) fd (te_connected e) (te_tcp_sockopt e) w = add_tcp_server_addr db ia (- 1) fd 0 0 w" for fd
    using assms by (simp add: env_ok_def add_tcp_server_addr_def Let_def not_less split: prod.splits)
  have sctp: "add_sctp_server_addr db ia (- 1) fd (te_sctp_sockopt e) w = add_sctp_server_addr db ia (- 1) fd 0 w" for fd
    using assms by (simp add: env_ok_def add_sctp_server_addr_def not_less)
  show thesis
  proof (cases t)
    case USE_TCP
    then show ?thesis using ia tcp by (intro that [of "TcpAddr ia (- 1)"]) (simp_all add: nmdb_add_tcp_server_def conn_transport_def)
  next
    case USE_UDP
    then show ?thesis using ia by (intro that [of "UdpAddr ia (- 1)"]) (simp_all add: nmdb_add_udp_server_def conn_transport_def)
  next
    case USE_SCTP
    then show ?thesis using ia sctp by (intro that [of "SctpAddr ia (- 1)"]) (simp_all add: nmdb_add_sctp_server_def conn_transport_def)
  next
    case USE_TIPC
    then show ?thesis by (intro that [of "TipcAddr (- 1)"]) (simp_all add: conn_transport_def)
  qed (use assms in \<open>simp add: env_ok_def\<close>)
qed

text \<open>
  A program that starts: memory lasts, sends succeed, the replies are those of a store that holds
  \<open>m\<close> to the operations \<open>xs\<close>; with the messages for these, what was sent will be \<open>tot\<close>.
\<close>

definition starts :: "transport_kind \<Rightarrow> test_env \<Rightarrow> (bool \<times> cache_op) list \<Rightarrow> (int \<times> bytes) list \<Rightarrow> (bytes \<rightharpoonup> bytes) \<Rightarrow> cworld \<Rightarrow> bool" where
  "starts t e xs tot m w \<longleftrightarrow> env_ok t e \<and> good (cw_ms w) \<and> cw_sends w = [] \<and> vals_ok m \<and> serves (kind_transport t) xs m (cw_recvs w) \<and>
     cw_sent w @ requests (te_fd e t) (kind_transport t) xs = tot"

lemma zero_block_starts:
  assumes "starts t e xs tot m w"
  obtains w' where "zero_block n w = Some (replicate n 0, w')" and "starts t e xs tot m w'"
proof -
  obtain ms where "malloc (cw_ms w) = (True, ms)" "good ms" using assms by (auto simp: starts_def elim: malloc_good)
  then show thesis
    using assms by (intro that [of "w\<lparr>cw_ms := ms\<rparr>"]) (simp_all add: zero_block_def c_malloc_def starts_def)
qed

lemma with_db_serving:
  assumes "starts t e xs tot m w"
  obtains db s w' where "\<And>f. with_db t e f w = f db w'"
    and "serving db s tot xs m w'"
proof -
  have a: "good (cw_ms w)" "0 \<le> te_fd e t" "env_ok t e" using assms by (simp_all add: starts_def env_ok_def)
  obtain ms where i: "nmdb_init w = (Some fresh_conn, w\<lparr>cw_ms := ms\<rparr>)" "good ms" using nmdb_init_fresh [OF a(1)] by blast
  let ?w = "w\<lparr>cw_ms := ms\<rparr>"
  obtain ad where ad: "NADDSRV t e fresh_conn ?w = snd (add_server fresh_conn ad (te_fd e t) ?w)"
    "conn_transport (addr_srv ad (te_fd e t)) = kind_transport t" using a(3) by (rule NADDSRV_add_server)
  let ?s = "addr_srv ad (te_fd e t)" and ?db = "with_server fresh_conn (addr_srv ad (te_fd e t))"
  have wf: "conn_wf fresh_conn" using fresh_sorted by (simp add: conn_sorted_def)
  obtain ms2 where ms2: "add_server fresh_conn ad (te_fd e t) ?w = (1, ?db, ?w\<lparr>cw_ms := ms2\<rparr>)" "good ms2"
    using add_server_ok [OF wf a(2), of ?w ad] i(2) by auto
  have v: "srv_valid ?s" by (cases ad) (simp_all add: srv_valid_def)
  then have "conn_sorted ?db" using wf by (intro with_server_sorted) (simp_all add: fresh_conn_def)
  then have "conn_wf ?db" by (simp add: conn_sorted_def)
  moreover have "nc_servers ?db = [?s]" by (simp add: with_server_def fresh_conn_def)
  ultimately have "select_srv ?db k = Some (Some ?s)" for k using select_srv_ok [of ?db k] by fastforce
  moreover have "sr_fd ?s = te_fd e t" by (cases ad) simp_all
  ultimately have "serving ?db ?s tot xs m (?w\<lparr>cw_ms := ms2\<rparr>)"
    using assms v ad(2) ms2(2) by (simp add: serving_def at_rest_def starts_def)
  then show thesis by (intro that [of ?db]) (simp_all add: with_db_def i(1) ad(1) ms2(1))
qed

text \<open>A program over UDP and an empty store.\<close>

definition demo_env :: test_env where
  "demo_env = \<lparr>te_pton = (\<lambda>a. None), te_host = (\<lambda>a. Some 0x7f000001), te_fd = (\<lambda>t. 3), te_connected = 0,
     te_tcp_sockopt = 0, te_sctp_sockopt = 0, te_clock = (\<lambda>n. (int n, 0)), te_stale = 77\<rparr>"

definition test_world :: "(bool \<times> cache_op) list \<Rightarrow> cworld" where
  "test_world xs = \<lparr>cw_ms = [], cw_sends = [], cw_recvs = store_replies UDP xs Map.empty, cw_sent = [], cw_closed = []\<rparr>"

lemma demo_starts: "starts USE_UDP demo_env xs (requests 3 UDP xs) Map.empty (test_world xs)"
  using store_replies_serve [of UDP xs Map.empty]
  by (simp add: starts_def env_ok_def demo_env_def test_world_def resolve_def vals_ok_def)

lemma demo_elapsed: "elapsed demo_env n = 1000000"
  by (simp add: elapsed_def timer_stop_def demo_env_def)

lemma demo_numbers: "atoi ''2'' = Some 2" "atoi ''4'' = Some 4"
  by (simp_all add: atoi_def strtoll_str_def isspace_def isdigit_def digits_val_def clamp_ll_def LLONG_MAX_def
      LLONG_MIN_def int_min_def int_max_def)

lemma free_sent: "cw_sent (snd (nmdb_free db w)) = cw_sent w"
proof -
  have "cw_sent (foldl c_close w fds) = cw_sent w" for fds
    by (induction fds arbitrary: w) (simp_all add: c_close_def)
  then show ?thesis by (simp add: nmdb_free_def)
qed

lemma numeric_args:
  assumes "atoi a = Some n" shows "n < 2 ^ 31" and "0 \<le> n \<Longrightarrow> unat (of_int n :: u64) = nat n"
proof -
  show l: "n < 2 ^ 31" using assms by (auto simp: atoi_def int_max_def Let_def split: if_splits)
  show "unat (of_int n :: u64) = nat n" if "0 \<le> n"
  proof -
    have "(of_int n :: u64) = of_nat (nat n)" using that by simp
    moreover have "nat n < 2 ^ 64" using l by (simp add: nat_less_iff)
    ultimately show ?thesis by (metis unat_of_nat_u64)
  qed
qed

text \<open>
  \<^verbatim>\<open>get.c\<close> reports as missing exactly the keys, of those it asks for, that the store
  does not hold, whatever the transport and the kind of calls.
\<close>

lemma get_main_counts:
  assumes "atoi ts = Some n" and "atoi ksize = Some kn" and "1 \<le> n" and "4 \<le> kn" and "kn < 2 ^ 16" and "c \<noteq> USE_CACHE"
    and "starts t e (map (\<lambda>i. (c = USE_SYNC, CGet (numbered (nat kn) i))) [0..<nat n]) tot m w"
  shows "\<exists>w'. get_main c t e [ts, ksize] w =
    Some (0, [Printf ''%lu m:%lu'' [elapsed e 0, of_nat (card {i. i < nat n \<and> m (numbered (nat kn) i) = None})]], w') \<and> cw_sent w' = tot"
proof -
  let ?xs = "map (\<lambda>i. (c = USE_SYNC, CGet (numbered (nat kn) i))) [0..<nat n]"
  have u: "unat (of_int kn :: u64) = nat kn" using numeric_args(2) [OF assms(2)] assms(4) by simp
  obtain w1 where w1: "zero_block (nat kn) w = Some (replicate (nat kn) 0, w1)" "starts t e ?xs tot m w1"
    using assms(7) by (rule zero_block_starts)
  obtain w2 where w2: "zero_block BUFSIZE w1 = Some (replicate BUFSIZE 0, w2)" "starts t e ?xs tot m w2"
    using w1(2) by (rule zero_block_starts)
  obtain db s w3 where w3: "\<And>f. with_db t e f w2 = f db w3" "serving db s tot ?xs m w3"
    using w2(2) by (rule with_db_serving) blast
  have v: "vals_ok m" using assms(7) by (simp add: starts_def)
  have z: "zeroed (nat kn) (replicate (nat kn) 0)" using assms(4) by (intro zeroed_replicate) simp
  have b: "length v \<le> BUFSIZE" if "m (numbered (nat kn) i) = Some v" for i v
    using vals_okD [OF v that] by (simp add: BUFSIZE_def)
  obtain k' w' where l: "for_loop (get_numbered c db True BUFSIZE) [0..<nat n] (replicate (nat kn) 0, 0) w3 =
      Some (Inr (k', 0 + of_nat (length (filter (\<lambda>i. m (numbered (nat kn) i) = None) [0..<nat n]))), w')" "cw_sent w' = tot"
    using get_loop [of db s tot c "nat kn" "[0..<nat n]" "[]" m w3 "replicate (nat kn) 0" BUFSIZE 0] w3(2) assms(5,6) z b serving_end
    unfolding append_Nil2 by force
  have "length (filter (\<lambda>i. m (numbered (nat kn) i) = None) [0..<nat n]) = card {i. i < nat n \<and> m (numbered (nat kn) i) = None}"
    by (simp add: distinct_card [symmetric] conj_commute)
  moreover have "\<not> nat kn < 4" "\<not> n < 1" using assms(3,4) by simp_all
  ultimately show ?thesis
    using l assms(1,2) u w1(1) w2(1) w3(1) by (simp add: get_main_def Let_def after_loop_def closing_def free_sent)
qed


lemma get_main_counts_witness:
  "\<exists>xs w'. get_main USE_NORMAL USE_UDP demo_env [''2'', ''4''] (test_world xs) =
    Some (0, [Printf ''%lu m:%lu'' [1000000, 2]], w')"
proof -
  have "{i. i < nat 2 \<and> Map.empty (numbered (nat 4) i) = None} = {0, 1}" by auto
  then have c: "card {i. i < nat 2 \<and> Map.empty (numbered (nat 4) i) = None} = 2" by (simp add: eval_nat_numeral)
  from get_main_counts [OF demo_numbers, of USE_NORMAL, OF _ _ _ _ demo_starts] c show ?thesis
    unfolding demo_elapsed by (auto simp del: upt_rec_numeral)
qed

lemma size_args:
  assumes "atoi a = Some n" and "4 \<le> n"
  shows "unat (of_int n :: u64) = nat n" and "\<not> nat n < 4" and "4 \<le> nat n"
  using numeric_args(2) [OF assms(1)] assms(2) by simp_all

text \<open>
  Property C18: \<^verbatim>\<open>2.c\<close> writes its keys, reads them back and deletes them: against an empty or any
  other store it sends the messages for just that, reports no miss and ends with code 0.
\<close>

theorem two_main_no_miss:
  assumes "atoi ts = Some n" and "atoi ksize = Some kn" and "atoi vsize = Some vn"
    and "1 \<le> n" and "4 \<le> kn" and "4 \<le> vn" and "kn + vn \<le> 2 ^ 16" and "c \<noteq> USE_CACHE"
    and "starts t e (map (\<lambda>i. (c = USE_SYNC, CSet (numbered (nat kn) i) (numbered (nat vn) i))) [0..<nat n] @
      map (\<lambda>i. (c = USE_SYNC, CGet (numbered (nat kn) i))) [0..<nat n] @
      map (\<lambda>i. (c = USE_SYNC, CDel (numbered (nat kn) i))) [0..<nat n]) tot m w"
  shows "\<exists>w'. two_main c t e [ts, ksize, vsize] w =
    Some (0, [Printf ''%lu %lu %lu %lu'' [elapsed e 0, elapsed e 1, elapsed e 2, 0]], w') \<and> cw_sent w' = tot"
proof -
  let ?is = "[0..<nat n]" and ?kn = "nat kn" and ?vn = "nat vn"
  let ?gets = "map (\<lambda>i. (c = USE_SYNC, CGet (numbered ?kn i))) ?is" and ?dels = "map (\<lambda>i. (c = USE_SYNC, CDel (numbered ?kn i))) ?is"
  note k = size_args [OF assms(2,5)] and v = size_args [OF assms(3,6)]
  have kv: "?kn + ?vn \<le> 2 ^ 16" "?kn < 2 ^ 16" using assms(5-7) by simp_all
  obtain w1 where w1: "zero_block ?kn w = Some (replicate ?kn 0, w1)" "starts t e (map (\<lambda>i. (c = USE_SYNC, CSet (numbered ?kn i) (numbered ?vn i))) ?is @ ?gets @ ?dels) tot m w1"
    using assms(9) by (rule zero_block_starts)
  obtain w2 where w2: "zero_block ?vn w1 = Some (replicate ?vn 0, w2)" "starts t e (map (\<lambda>i. (c = USE_SYNC, CSet (numbered ?kn i) (numbered ?vn i))) ?is @ ?gets @ ?dels) tot m w2"
    using w1(2) by (rule zero_block_starts)
  obtain db s w3 where w3: "\<And>f. with_db t e f w2 = f db w3"
    "serving db s tot (map (\<lambda>i. (c = USE_SYNC, CSet (numbered ?kn i) (numbered ?vn i))) ?is @ ?gets @ ?dels) m w3"
    using w2(2) by (rule with_db_serving) blast
  obtain bl w4 where w4: "for_loop (set_numbered c db) ?is (replicate ?kn 0, replicate ?vn 0) w3 = Some (Inr bl, w4)"
    "serving db s tot (?gets @ ?dels) (set_all ?kn ?vn ?is m) w4"
    using set_loop [OF w3(2) assms(8) zeroed_replicate [OF k(3)] zeroed_replicate [OF v(3)] kv(1)] by blast
  obtain ms where ms: "malloc (cw_ms w4) = (True, ms)" "good ms"
    using w4(2) by (auto simp: serving_def at_rest_def elim: malloc_good)
  then have m4: "c_malloc w4 = (True, w4\<lparr>cw_ms := ms\<rparr>)" "serving db s tot (?gets @ ?dels) (set_all ?kn ?vn ?is m) (w4\<lparr>cw_ms := ms\<rparr>)"
    using w4(2) by (simp_all add: c_malloc_def serving_def at_rest_def)
  have has: "\<exists>j. set_all ?kn ?vn ?is m (numbered ?kn i) = Some (numbered ?vn j)" if "i \<in> set ?is" for i
    using that by (intro set_all_has) simp
  have len: "length v \<le> ?vn" if "i \<in> set ?is" "set_all ?kn ?vn ?is m (numbered ?kn i) = Some v" for i v
    using has [OF that(1)] that(2) v(3) by (auto simp: length_numbered)
  have "filter (\<lambda>i. set_all ?kn ?vn ?is m (numbered ?kn i) = None) ?is = []"
    using has by (fastforce simp: filter_empty_conv)
  then obtain k' w5 where w5: "for_loop (get_numbered c db True ?vn) ?is (replicate ?kn 0, 0) (w4\<lparr>cw_ms := ms\<rparr>) = Some (Inr (k', 0), w5)"
    "zeroed ?kn k'" "serving db s tot ?dels (set_all ?kn ?vn ?is m) w5"
    using get_loop [where misses = 0, OF m4(2) assms(8) zeroed_replicate [OF k(3)] kv(2) len] by force
  have d: "serving db s tot (?dels @ []) (set_all ?kn ?vn ?is m) w5" using w5(3) by simp
  obtain k2 w6 where w6: "for_loop (del_numbered c db) ?is k' w5 = Some (Inr k2, w6)" "cw_sent w6 = tot"
    using del_loop [OF d assms(8) w5(2) kv(2)] serving_end by blast
  show ?thesis
    using assms(1-4) k(1,2) v(1,2) w1(1) w2(1) w3(1) w4(1) m4(1) w5(1) w6
    by (simp add: two_main_def Let_def after_loop_def closing_def free_sent)
qed

theorem two_main_no_miss_witness:
  "\<exists>xs w'. two_main USE_SYNC USE_UDP demo_env [''2'', ''4'', ''4''] (test_world xs) =
    Some (0, [Printf ''%lu %lu %lu %lu'' [1000000, 1000000, 1000000, 0]], w')"
  using two_main_no_miss [OF demo_numbers demo_numbers(2) _ _ _ _ _ demo_starts, of USE_SYNC]
  unfolding demo_elapsed by auto

lemma incr_main_store:
  assumes "atoi ts = Some n" and "1 \<le> n" and "c \<noteq> USE_CACHE"
    and "starts t e ((c = USE_SYNC, CSet [107, 0] [48, 0]) #
      replicate (nat n) (c = USE_SYNC, CIncr [107, 0] (word_of_int (strtoll_str (map of_char inc))))) tot m w"
  shows "\<exists>w'. incr_main c t e [ts, inc] w =
    Some (0, [Printf ''%lu %lld'' [elapsed e 0, of_int n * word_of_int (strtoll_str (map of_char inc))]], w') \<and> cw_sent w' = tot"
proof -
  let ?inc = "word_of_int (strtoll_str (map of_char inc)) :: u64" and ?k = "[107, 0] :: bytes" and ?v = "[48, 0] :: bytes"
  let ?incrs = "map (\<lambda>i. (c = USE_SYNC, CIncr ?k ?inc)) [0..<nat n]"
  have r: "replicate (nat n) (c = USE_SYNC, CIncr ?k ?inc) = ?incrs" by (simp add: map_replicate_const)
  obtain db s w1 where w1: "\<And>f. with_db t e f w = f db w1" "serving db s tot ((c = USE_SYNC, CSet ?k ?v) # ?incrs) m w1"
    using assms(4) [unfolded r] by (rule with_db_serving) blast
  obtain w2 where w2: "NSET c db ?k ?v w1 = Some (1, w2)" "serving db s tot (?incrs @ []) (m(?k \<mapsto> ?v)) w2"
    using NSET_serving [OF w1(2) assms(3)] by auto
  have v: "numeric ?v" "val_num ?v = 0"
    by (simp_all add: numeric_def val_num_def strtoll_def strtoll_str_def isspace_def isdigit_def digits_val_def
        clamp_ll_def LLONG_MAX_def LLONG_MIN_def)
  have ne: "[0..<nat n] \<noteq> []" using assms(2) by simp
  obtain w3 where w3: "for_loop (incr_body c db ?k ?inc) [0..<nat n] (te_stale e) w2 = Some (Inr (of_nat (nat n) * ?inc), w3)"
    "cw_sent w3 = tot"
    using incr_loop [OF w2(2) assms(3) _ _ v(1), of "te_stale e"] v(2) ne serving_end [of db s tot] by auto
  have "of_nat (nat n) = (of_int n :: u64)" using assms(2) by simp
  then show ?thesis
    using assms(1,2) w1(1) w2(1) w3 by (simp add: incr_main_def Let_def after_loop_def closing_def free_sent)
qed

text \<open>With the server in place of the store.\<close>

lemma incr_main_on_server:
  assumes "boot view m0 s0 db0" and "paced p s0 db0 h s db pc cs" and "length (outs p s) = length h"
    and "\<forall>ev\<in>set h. ev_peer ev = p \<and> ev_id ev = ID_CODE \<and> ev_t ev = kind_transport t"
    and "map (\<lambda>ev. (ev_sync ev, ev_op ev)) h = (c = USE_SYNC, CSet [107, 0] [48, 0]) #
      replicate (nat n) (c = USE_SYNC, CIncr [107, 0] (word_of_int (strtoll_str (map of_char inc))))"
    and "delivered (kind_transport t) (map (snd \<circ> snd) (outs p s)) (cw_recvs w)"
    and "env_ok t e" and "good (cw_ms w)" and "cw_sends w = []" and "atoi ts = Some n" and "1 \<le> n" and "c \<noteq> USE_CACHE"
    and "tot = cw_sent w @ map (\<lambda>ev. (te_fd e t, frame (ev_t ev) (ev_msg ev))) h"
  shows "\<exists>w'. incr_main c t e [ts, inc] w =
    Some (0, [Printf ''%lu %lld'' [elapsed e 0, of_int n * word_of_int (strtoll_str (map of_char inc))]], w') \<and> cw_sent w' = tot"
proof (rule incr_main_store [OF assms(10-12)])
  have sent: "map (\<lambda>ev. (te_fd e t, frame (ev_t ev) (ev_msg ev))) h =
      requests (te_fd e t) (kind_transport t) (map (\<lambda>ev. (ev_sync ev, ev_op ev)) h)"
    using assms(4) by (simp add: requests_def ev_msg_def)
  show "starts t e ((c = USE_SYNC, CSet [107, 0] [48, 0]) #
      replicate (nat n) (c = USE_SYNC, CIncr [107, 0] (word_of_int (strtoll_str (map of_char inc))))) tot m0 w"
    using lone_client_served [OF assms(1-4,6)] assms(1,7-9,13) sent unfolding assms(5) by (simp add: starts_def boot_def)
qed

text \<open>
  Property C17: \<^verbatim>\<open>incr.c\<close> prints the number of increments times the increment, modulo \<open>2 ^ 64\<close>: none of
  its increments is lost, whether it is compiled for normal or synchronous calls, and although the
  initial value is \<^verbatim>\<open>"0"\<close> in two bytes; and its messages are those of one set and that many increments.
\<close>

theorem incr_main_total:
  assumes "atoi ts = Some n" and "1 \<le> n" and "c \<noteq> USE_CACHE"
    and "starts t e ((c = USE_SYNC, CSet [107, 0] [48, 0]) #
      replicate (nat n) (c = USE_SYNC, CIncr [107, 0] (word_of_int (strtoll_str (map of_char inc))))) tot m w"
  shows "\<exists>w'. incr_main c t e [ts, inc] w =
    Some (0, [Printf ''%lu %lld'' [elapsed e 0, of_int n * word_of_int (strtoll_str (map of_char inc))]], w') \<and> cw_sent w' = tot"
  using assms by (rule incr_main_store)

theorem incr_main_total_witness:
  "\<exists>xs w'. incr_main USE_NORMAL USE_UDP demo_env [''2'', ''4''] (test_world xs) =
    Some (0, [Printf ''%lu %lld'' [1000000, 8]], w')"
proof -
  have "(word_of_int (strtoll_str (map of_char ''4'')) :: u64) = 4"
    by (simp add: strtoll_str_def isspace_def isdigit_def digits_val_def clamp_ll_def LLONG_MAX_def LLONG_MIN_def)
  with incr_main_total [OF demo_numbers(1) _ _ demo_starts, of USE_NORMAL "''4''"] show ?thesis
    unfolding demo_elapsed by auto
qed

text \<open>
  The other programs: \<^verbatim>\<open>3.c\<close> and \<^verbatim>\<open>1.c\<close> report no miss, \<^verbatim>\<open>set.c\<close> and \<^verbatim>\<open>del.c\<close> run to their ends.
\<close>

lemma three_main_no_miss:
  assumes "atoi ts = Some n" and "atoi ksize = Some kn" and "atoi vsize = Some vn"
    and "1 \<le> n" and "4 \<le> kn" and "4 \<le> vn" and "kn + vn \<le> 2 ^ 16" and "c \<noteq> USE_CACHE"
    and "starts t e (concat (map (three_ops (c = USE_SYNC) (nat kn) (nat vn)) [0..<nat n])) tot m w"
  shows "\<exists>w'. three_main c t e [ts, ksize, vsize] w = Some (0, [Printf ''%lu %lu'' [elapsed e 0, 0]], w') \<and> cw_sent w' = tot"
proof -
  let ?is = "[0..<nat n]" and ?kn = "nat kn" and ?vn = "nat vn"
  note k = size_args [OF assms(2,5)] and v = size_args [OF assms(3,6)]
  have kv: "?kn + ?vn \<le> 2 ^ 16" "zeroed BUFSIZE (replicate BUFSIZE 0)" using assms(5-7) by (simp_all add: zeroed_def BUFSIZE_def)
  obtain w1 where w1: "zero_block ?kn w = Some (replicate ?kn 0, w1)" "starts t e (concat (map (three_ops (c = USE_SYNC) ?kn ?vn) ?is)) tot m w1"
    using assms(9) by (rule zero_block_starts)
  obtain w2 where w2: "zero_block BUFSIZE w1 = Some (replicate BUFSIZE 0, w2)" "starts t e (concat (map (three_ops (c = USE_SYNC) ?kn ?vn) ?is)) tot m w2"
    using w1(2) by (rule zero_block_starts)
  obtain db s w3 where w3: "\<And>f. with_db t e f w2 = f db w3"
    "serving db s tot (concat (map (three_ops (c = USE_SYNC) ?kn ?vn) ?is)) m w3"
    using w2(2) by (rule with_db_serving) blast
  then have s: "serving db s tot (concat (map (three_ops (c = USE_SYNC) ?kn ?vn) ?is) @ []) m w3" by simp
  obtain k' v' w4 where w4: "for_loop (three_body c db ?vn) ?is (replicate ?kn 0, replicate BUFSIZE 0, 0) w3 = Some (Inr (k', v', 0), w4)"
    "cw_sent w4 = tot"
    using three_loop [OF s assms(8) zeroed_replicate [OF k(3)] kv(2) v(3) kv(1)] serving_end by blast
  show ?thesis
    using assms(1-4) k(1,2) v(1,2) w1(1) w2(1) w3(1) w4 by (simp add: three_main_def Let_def after_loop_def closing_def free_sent)
qed

lemma one_main_no_miss:
  assumes "atoi ts = Some n" and "k = map of_char key" and "v = map of_char val" and "c \<noteq> USE_CACHE"
    and "length k + length v \<le> 2 ^ 16" and "v \<noteq> []"
    and "starts t e (replicate (nat n) (c = USE_SYNC, CSet k v) @ replicate (nat n) (c = USE_SYNC, CGet k) @
      replicate (nat n) (c = USE_SYNC, CDel k)) tot m w"
  shows "\<exists>w'. one_main c t e [ts, key, val] w = Some (0, [Printf ''set... '' [], Printf ''%lu'' [elapsed e 0],
    Printf ''get... '' [], Printf ''%lu'' [elapsed e 1], Printf ''get misses: %ld'' [0], Printf ''del... '' [],
    Printf ''%lu'' [elapsed e 2]], w') \<and> cw_sent w' = tot"
proof -
  let ?is = "[0..<nat n]"
  have f: "op_fits (CSet k v)" "length k < 2 ^ 16" using assms(5,6) by (cases v; simp)+
  obtain db s w1 where w1: "\<And>f. with_db t e f w = f db w1" "serving db s tot (replicate (length ?is) (c = USE_SYNC, CSet k v) @
      replicate (length ?is) (c = USE_SYNC, CGet k) @ replicate (length ?is) (c = USE_SYNC, CDel k)) m w1"
    using assms(7) by (rule with_db_serving) simp
  let ?m = "if ?is = [] then m else m(k \<mapsto> v)"
  obtain w2 where w2: "for_loop (one_set c db k v) ?is () w1 = Some (Inr (), w2)"
    "serving db s tot (replicate (length ?is) (c = USE_SYNC, CGet k) @ replicate (length ?is) (c = USE_SYNC, CDel k)) ?m w2"
    using one_set_loop [OF w1(2) assms(4) f(1)] by blast
  obtain ms where ms: "malloc (cw_ms w2) = (True, ms)" "good ms"
    using w2(2) by (auto simp: serving_def at_rest_def elim: malloc_good)
  then have m2: "c_malloc w2 = (True, w2\<lparr>cw_ms := ms\<rparr>)" "serving db s tot (replicate (length ?is) (c = USE_SYNC, CGet k) @
      replicate (length ?is) (c = USE_SYNC, CDel k)) ?m (w2\<lparr>cw_ms := ms\<rparr>)"
    using w2(2) by (simp_all add: c_malloc_def serving_def at_rest_def)
  obtain w3 where w3: "for_loop (one_get c db k True (length v)) ?is 0 (w2\<lparr>cw_ms := ms\<rparr>) = Some (Inr 0, w3)"
    "serving db s tot (replicate (length ?is) (c = USE_SYNC, CDel k) @ []) ?m w3"
    using one_get_loop [OF m2(2) assms(4) f(2), of v "length v" 0] by auto
  obtain w4 where w4: "for_loop (one_del c db k) ?is () w3 = Some (Inr (), w4)" "cw_sent w4 = tot"
    using one_del_loop [OF w3(2) assms(4) f(2)] serving_end by blast
  show ?thesis
    using assms(1-3) w1(1) w2(1) m2(1) w3(1) w4 by (simp add: one_main_def Let_def after_loop_def closing_def free_sent)
qed

lemma set_main_ends:
  assumes "atoi ts = Some n" and "atoi ksize = Some kn" and "atoi vsize = Some vn"
    and "1 \<le> n" and "4 \<le> kn" and "4 \<le> vn" and "kn + vn \<le> 2 ^ 16" and "c \<noteq> USE_CACHE"
    and "starts t e (map (\<lambda>i. (c = USE_SYNC, CSet (numbered (nat kn) i) (numbered (nat vn) i))) [0..<nat n]) tot m w"
  shows "\<exists>w'. set_main c t e [ts, ksize, vsize] w = Some (0, [Printf ''%lu'' [elapsed e 0]], w') \<and> cw_sent w' = tot"
proof -
  let ?is = "[0..<nat n]" and ?kn = "nat kn" and ?vn = "nat vn"
  let ?sets = "map (\<lambda>i. (c = USE_SYNC, CSet (numbered ?kn i) (numbered ?vn i))) ?is"
  note k = size_args [OF assms(2,5)] and v = size_args [OF assms(3,6)]
  have kv: "?kn + ?vn \<le> 2 ^ 16" using assms(5-7) by simp
  obtain w1 where w1: "zero_block ?kn w = Some (replicate ?kn 0, w1)" "starts t e ?sets tot m w1"
    using assms(9) by (rule zero_block_starts)
  obtain w2 where w2: "zero_block ?vn w1 = Some (replicate ?vn 0, w2)" "starts t e ?sets tot m w2"
    using w1(2) by (rule zero_block_starts)
  obtain db s w3 where w3: "\<And>f. with_db t e f w2 = f db w3" "serving db s tot ?sets m w3"
    using w2(2) by (rule with_db_serving) blast
  then have s: "serving db s tot (?sets @ []) m w3" by simp
  obtain bl w4 where w4: "for_loop (set_numbered c db) ?is (replicate ?kn 0, replicate ?vn 0) w3 = Some (Inr bl, w4)" "cw_sent w4 = tot"
    using set_loop [OF s assms(8) zeroed_replicate [OF k(3)] zeroed_replicate [OF v(3)] kv] serving_end by blast
  show ?thesis
    using assms(1-4) k(1,2) v(1,2) w1(1) w2(1) w3(1) w4 by (simp add: set_main_def Let_def after_loop_def closing_def free_sent)
qed

lemma del_main_ends:
  assumes "atoi ts = Some n" and "atoi ksize = Some kn" and "1 \<le> n" and "4 \<le> kn" and "kn < 2 ^ 16" and "c \<noteq> USE_CACHE"
    and "starts t e (map (\<lambda>i. (c = USE_SYNC, CDel (numbered (nat kn) i))) [0..<nat n]) tot m w"
  shows "\<exists>w'. del_main c t e [ts, ksize] w = Some (0, [Printf ''%lu'' [elapsed e 0]], w') \<and> cw_sent w' = tot"
proof -
  let ?is = "[0..<nat n]" and ?kn = "nat kn"
  let ?dels = "map (\<lambda>i. (c = USE_SYNC, CDel (numbered ?kn i))) ?is"
  note k = size_args [OF assms(2,4)]
  have kn: "?kn < 2 ^ 16" using assms(5) by simp
  obtain w1 where w1: "zero_block ?kn w = Some (replicate ?kn 0, w1)" "starts t e ?dels tot m w1"
    using assms(7) by (rule zero_block_starts)
  obtain db s w2 where w2: "\<And>f. with_db t e f w1 = f db w2" "serving db s tot ?dels m w2"
    using w1(2) by (rule with_db_serving) blast
  then have s: "serving db s tot (?dels @ []) m w2" by simp
  obtain k' w3 where w3: "for_loop (del_numbered c db) ?is (replicate ?kn 0) w2 = Some (Inr k', w3)" "cw_sent w3 = tot"
    using del_loop [OF s assms(6) zeroed_replicate [OF k(3)] kn] serving_end by blast
  show ?thesis
    using assms(1-3) k(1,2) w1(1) w2(1) w3 by (simp add: del_main_def Let_def after_loop_def closing_def free_sent)
qed

end
