(* ===== verification/Sockets.thy ===== *)
theory Sockets
  imports Startup
begin

text \<open>
  Opening and closing the server's sockets: \<^verbatim>\<open>tipc_init()\<close>, \<^verbatim>\<open>tcp_init()\<close>, \<^verbatim>\<open>udp_init()\<close> and
  \<^verbatim>\<open>sctp_init()\<close>, their \<^verbatim>\<open>_close()\<close> functions, the stubs that take their place when a
  transport is compiled out, and the two ends of \<^verbatim>\<open>net_loop()\<close>. The results of the system calls
  to come are a list (0 when it is used up); what is bound, which descriptors are opened and
  closed, and the messages for \<^verbatim>\<open>errlog()\<close> are recorded. What is registered with libevent in between is in \<open>Net_Loop\<close>.
\<close>

section \<open>System calls\<close>

datatype sock_addr = Inet u32 u16 | TipcName int int int | TipcNameseq int int int

record netio =
  ni_results :: "int list"
  ni_bound :: "(int \<times> sock_addr) list"
  ni_opened :: "int list"
  ni_closed :: "int list"
  ni_errs :: "string list"

definition sys :: "netio \<Rightarrow> int \<times> netio" where
  "sys w = (case ni_results w of [] \<Rightarrow> (0, w) | r # rs \<Rightarrow> (r, w\<lparr>ni_results := rs\<rparr>))"

definition sys_close :: "int \<Rightarrow> netio \<Rightarrow> netio" where
  "sys_close fd w = w\<lparr>ni_closed := ni_closed w @ [fd]\<rparr>"

definition ni_errlog :: "string \<Rightarrow> netio \<Rightarrow> netio" where
  "ni_errlog msg w = w\<lparr>ni_errs := ni_errs w @ [msg]\<rparr>"

definition sys_socket :: "netio \<Rightarrow> int \<times> netio" where
  "sys_socket w = (let (fd, w) = sys w in (fd, if fd < 0 then w else w\<lparr>ni_opened := ni_opened w @ [fd]\<rparr>))"

definition sys_bind :: "int \<Rightarrow> sock_addr \<Rightarrow> netio \<Rightarrow> int \<times> netio" where
  "sys_bind fd a w = (let (rv, w) = sys w in (rv, if rv < 0 then w else w\<lparr>ni_bound := ni_bound w @ [(fd, a)]\<rparr>))"

section \<open>The transports\<close>

definition tipc_addr :: "settings \<Rightarrow> sock_addr" where
  "tipc_addr st = (if se_tipc_lower st = se_tipc_upper st then TipcName else TipcNameseq)
     26001 (se_tipc_lower st) (se_tipc_upper st)"

definition tipc_init :: "settings \<Rightarrow> netio \<Rightarrow> int \<times> netio" where
  "tipc_init st w =
     (let (fd, w) = sys_socket w in
      if fd < 0 then (- 1, w)
      else let (rv, w) = sys_bind fd (tipc_addr st) w in
        if rv < 0 then (- 1, sys_close fd w)
        else (fd, w))"

text \<open>\<open>pton\<close> is \<^verbatim>\<open>inet_pton()\<close>; the addresses are set when the settings have been loaded.\<close>

definition udp_init :: "(string \<Rightarrow> u32 option) \<Rightarrow> settings \<Rightarrow> netio \<Rightarrow> int \<times> netio" where
  "udp_init pton st w = (case pton (the (se_udp_addr st)) of
     None \<Rightarrow> (- 1, w)
   | Some ia \<Rightarrow>
      let (fd, w) = sys_socket w in
      if fd < 0 then (- 1, w)
      else let (rv, w) = sys w in
        if rv < 0 then (- 1, sys_close fd w)
        else let (rv, w) = sys_bind fd (Inet ia (htons (of_int (se_udp_port st)))) w in
          if rv < 0 then (- 1, sys_close fd w)
          else (fd, w))"

text \<open>\<^verbatim>\<open>listen()\<close> and the option that disables Nagle's algorithm, in \<^verbatim>\<open>tcp_init()\<close> and \<^verbatim>\<open>sctp_init()\<close>.\<close>

definition tcp_init :: "(string \<Rightarrow> u32 option) \<Rightarrow> settings \<Rightarrow> netio \<Rightarrow> int \<times> netio" where
  "tcp_init pton st w = (case pton (the (se_tcp_addr st)) of
     None \<Rightarrow> (- 1, w)
   | Some ia \<Rightarrow>
      let (fd, w) = sys_socket w in
      if fd < 0 then (- 1, w)
      else let (rv, w) = sys w in
        if rv < 0 then (- 1, sys_close fd w)
        else let (rv, w) = sys_bind fd (Inet ia (htons (of_int (se_tcp_port st)))) w in
          if rv < 0 then (- 1, sys_close fd w)
          else let (rv, w) = sys w in
            if rv < 0 then (- 1, sys_close fd w)
            else let (rv, w) = sys w in
              if rv < 0 then (- 1, sys_close fd w)
              else (fd, w))"

definition sctp_init :: "(string \<Rightarrow> u32 option) \<Rightarrow> settings \<Rightarrow> netio \<Rightarrow> int \<times> netio" where
  "sctp_init pton st w = (case pton (the (se_sctp_addr st)) of
     None \<Rightarrow> (- 1, w)
   | Some ia \<Rightarrow>
      let (fd, w) = sys_socket w in
      if fd < 0 then (- 1, w)
      else let (rv, w) = sys w in
        if rv < 0 then (- 1, sys_close fd (ni_errlog ''Error in setsockopt():'' w))
        else let (rv, w) = sys_bind fd (Inet ia (htons (of_int (se_sctp_port st)))) w in
          if rv < 0 then (- 1, sys_close fd w)
          else let (rv, w) = sys w in
            if rv < 0 then (- 1, sys_close fd w)
            else let (rv, w) = sys w in
              if rv < 0 then (- 1, sys_close fd w)
              else (fd, w))"

definition tipc_close :: "int \<Rightarrow> netio \<Rightarrow> netio" where
  "tipc_close fd w = sys_close fd w"
definition tcp_close :: "int \<Rightarrow> netio \<Rightarrow> netio" where
  "tcp_close fd w = sys_close fd w"
definition udp_close :: "int \<Rightarrow> netio \<Rightarrow> netio" where
  "udp_close fd w = sys_close fd w"
definition sctp_close :: "int \<Rightarrow> netio \<Rightarrow> netio" where
  "sctp_close fd w = sys_close fd w"

text \<open>The stubs: opening fails, closing does nothing.\<close>

definition tipc_stub :: "(netio \<Rightarrow> int \<times> netio) \<times> (int \<Rightarrow> netio \<Rightarrow> netio)" where
  "tipc_stub = (\<lambda>w. (- 1, w), \<lambda>fd w. w)"
definition tcp_stub :: "(netio \<Rightarrow> int \<times> netio) \<times> (int \<Rightarrow> netio \<Rightarrow> netio)" where
  "tcp_stub = (\<lambda>w. (- 1, w), \<lambda>fd w. w)"
definition udp_stub :: "(netio \<Rightarrow> int \<times> netio) \<times> (int \<Rightarrow> netio \<Rightarrow> netio)" where
  "udp_stub = (\<lambda>w. (- 1, w), \<lambda>fd w. w)"
definition sctp_stub :: "(netio \<Rightarrow> int \<times> netio) \<times> (int \<Rightarrow> netio \<Rightarrow> netio)" where
  "sctp_stub = (\<lambda>w. (- 1, w), \<lambda>fd w. w)"

section \<open>The network loop\<close>

text \<open>
  \<open>en\<close> says which transports are compiled in. The result is the four descriptors, or \<open>None\<close> for
  \<^verbatim>\<open>exit(1)\<close>. The registration of the handlers with libevent, and the loop itself, which calls
  \<^verbatim>\<open>tipc_recv()\<close> and the others for as long as no signal ends it, are not part of it.
\<close>

definition open_one :: "bool \<Rightarrow> (netio \<Rightarrow> int \<times> netio) \<Rightarrow> netio \<Rightarrow> int option \<times> netio" where
  "open_one on init w = (if on then let (fd, w) = init w in (if fd < 0 then None else Some fd, w) else (Some (- 1), w))"

definition transport_init :: "(string \<Rightarrow> u32 option) \<Rightarrow> settings \<Rightarrow> transport \<Rightarrow> netio \<Rightarrow> int \<times> netio" where
  "transport_init pton st t = (case t of TIPC \<Rightarrow> tipc_init st | TCP \<Rightarrow> tcp_init pton st
     | UDP \<Rightarrow> udp_init pton st | SCTP \<Rightarrow> sctp_init pton st)"

fun open_all :: "(string \<Rightarrow> u32 option) \<Rightarrow> settings \<Rightarrow> (transport \<Rightarrow> bool) \<Rightarrow> transport list \<Rightarrow> netio \<Rightarrow> int list option \<times> netio" where
  "open_all pton st en [] w = (Some [], w)"
| "open_all pton st en (t # ts) w =
     (case open_one (en t) (transport_init pton st t) w of
        (None, w) \<Rightarrow> (None, w)
      | (Some fd, w) \<Rightarrow> (case open_all pton st en ts w of
            (None, w) \<Rightarrow> (None, w) | (Some fds, w) \<Rightarrow> (Some (fd # fds), w)))"

definition net_loop_start :: "(string \<Rightarrow> u32 option) \<Rightarrow> settings \<Rightarrow> (transport \<Rightarrow> bool) \<Rightarrow> netio \<Rightarrow> int list option \<times> netio" where
  "net_loop_start pton st en w = open_all pton st en [TIPC, TCP, UDP, SCTP] w"

fun transport_close :: "transport \<Rightarrow> bool \<Rightarrow> int \<Rightarrow> netio \<Rightarrow> netio" where
  "transport_close TIPC on fd w = (if on then tipc_close fd w else snd tipc_stub fd w)"
| "transport_close TCP on fd w = (if on then tcp_close fd w else snd tcp_stub fd w)"
| "transport_close UDP on fd w = (if on then udp_close fd w else snd udp_stub fd w)"
| "transport_close SCTP on fd w = (if on then sctp_close fd w else snd sctp_stub fd w)"

definition net_loop_end :: "(transport \<Rightarrow> bool) \<Rightarrow> int list \<Rightarrow> netio \<Rightarrow> netio" where
  "net_loop_end en fds w = fold (\<lambda>(t, fd) w. transport_close t (en t) fd w) (zip [TIPC, TCP, UDP, SCTP] fds) w"

section \<open>No descriptor is lost\<close>

text \<open>What was opened since \<open>w\<close> is closed, or is the result.\<close>

definition accounts :: "netio \<Rightarrow> int \<times> netio \<Rightarrow> bool" where
  "accounts w r \<longleftrightarrow> (case r of (fd, w') \<Rightarrow> \<exists>opened closed. ni_opened w' = ni_opened w @ opened \<and>
     ni_closed w' = ni_closed w @ closed \<and> (if fd < 0 then closed = opened else closed = [] \<and> opened = [fd]))"

lemma sys_simps: "ni_opened (snd (sys w)) = ni_opened w" "ni_closed (snd (sys w)) = ni_closed w"
  by (simp_all add: sys_def split: list.splits)

lemmas sock_defs = tipc_init_def udp_init_def tcp_init_def sctp_init_def sys_socket_def sys_bind_def sys_close_def
  ni_errlog_def accounts_def Let_def split_beta sys_simps

lemma init_accounts: "accounts w (transport_init pton st t w)"
  by (cases t) (auto simp: transport_init_def sock_defs split: option.splits)

text \<open>
  The whole of it: when every enabled transport opens, the end of the loop closes what was opened,
  in the same order.
\<close>

lemma open_all_accounts:
  assumes "open_all pton st en ts w = (Some fds, w')"
  shows "length fds = length ts \<and> ni_closed w' = ni_closed w \<and>
    ni_opened w' = ni_opened w @ map snd (filter (\<lambda>(t, fd). en t) (zip ts fds))"
  using assms
proof (induction ts arbitrary: w fds)
  case (Cons t ts)
  then obtain fd w1 fds' where 1: "open_one (en t) (transport_init pton st t) w = (Some fd, w1)"
    "open_all pton st en ts w1 = (Some fds', w')" "fds = fd # fds'"
    by (auto split: prod.splits option.splits)
  have "ni_closed w1 = ni_closed w \<and> ni_opened w1 = ni_opened w @ (if en t then [fd] else [])"
    using 1(1) init_accounts [of w pton st t]
    by (auto simp: open_one_def accounts_def split: if_splits prod.splits)
  with Cons.IH [OF 1(2)] 1(3) show ?case by simp
qed simp

lemma net_loop_closes:
  assumes "net_loop_start pton st en w = (Some fds, w')"
  shows "\<exists>opened. ni_opened (net_loop_end en fds w') = ni_opened w @ opened \<and>
    ni_closed (net_loop_end en fds w') = ni_closed w @ opened"
proof -
  have close: "ni_opened (transport_close t on fd v) = ni_opened v \<and>
      ni_closed (transport_close t on fd v) = ni_closed v @ (if on then [fd] else [])" for t on fd v
    by (cases t) (simp_all add: tipc_close_def tcp_close_def udp_close_def sctp_close_def sys_close_def
        tipc_stub_def tcp_stub_def udp_stub_def sctp_stub_def)
  have all: "ni_opened (fold (\<lambda>(t, fd) w. transport_close t (en t) fd w) xs v) = ni_opened v \<and>
      ni_closed (fold (\<lambda>(t, fd) w. transport_close t (en t) fd w) xs v) =
        ni_closed v @ map snd (filter (\<lambda>(t, fd). en t) xs)" for xs v
    by (induction xs arbitrary: v) (auto simp: close)
  from open_all_accounts [OF assms [unfolded net_loop_start_def]] show ?thesis
    by (simp add: net_loop_end_def all)
qed

text \<open>
  Property C39: no descriptor is lost: an \<^verbatim>\<open>_init()\<close> function that fails, at whichever call, has
  closed the socket it opened, one that succeeds returns the only one, and the end of the network
  loop closes exactly what its start opened, for every choice of compiled-in transports.
\<close>

theorem sockets_accounted:
  "accounts w (transport_init pton st t w) \<and>
   (\<forall>fds w'. net_loop_start pton st en w = (Some fds, w') \<longrightarrow>
     (\<exists>opened. ni_opened (net_loop_end en fds w') = ni_opened w @ opened \<and>
        ni_closed (net_loop_end en fds w') = ni_closed w @ opened))"
  using init_accounts net_loop_closes by blast

definition some_settings :: settings where
  "some_settings = \<lparr>se_tipc_lower = 10, se_tipc_upper = 10, se_tcp_addr = Some ''0.0.0.0'', se_tcp_port = 26010,
     se_udp_addr = Some ''0.0.0.0'', se_udp_port = 26010, se_sctp_addr = Some ''0.0.0.0'', se_sctp_port = 26010,
     se_numobjs = 4096, se_foreground = True, se_passive = False, se_read_only = False, se_dbname = None,
     se_logfname = None, se_backend = BE_NULL, se_pidfile = None\<rparr>"

theorem sockets_accounted_witness:
  "\<exists>w' opened. net_loop_start (\<lambda>a. Some 0) (some_settings) (\<lambda>t. t = UDP)
      \<lparr>ni_results = [7, 0, 0], ni_bound = [], ni_opened = [], ni_closed = [], ni_errs = []\<rparr> = (Some [- 1, - 1, 7, - 1], w') \<and>
    ni_opened (net_loop_end (\<lambda>t. t = UDP) [- 1, - 1, 7, - 1] w') = opened \<and>
    ni_closed (net_loop_end (\<lambda>t. t = UDP) [- 1, - 1, 7, - 1] w') = opened"
proof -
  let ?w = "\<lparr>ni_results = [7, 0, 0], ni_bound = [], ni_opened = [], ni_closed = [], ni_errs = []\<rparr>"
  obtain w' where "net_loop_start (\<lambda>a. Some 0) (some_settings) (\<lambda>t. t = UDP) ?w = (Some [- 1, - 1, 7, - 1], w')"
    by (simp add: net_loop_start_def open_one_def transport_init_def udp_init_def sys_socket_def sys_bind_def sys_def Let_def)
  with sockets_accounted [of ?w "\<lambda>a. Some 0" "some_settings" UDP "\<lambda>t. t = UDP"] show ?thesis by auto
qed

end
