(* ===== verification/Net_Loop.thy ===== *)
theory Net_Loop
  imports Sockets System
begin

text \<open>
  The event loop of \<^verbatim>\<open>net_loop()\<close> in \<^verbatim>\<open>nmdb/net.c\<close>: what the program registers with libevent, the
  handlers that libevent calls, among them \<^verbatim>\<open>tcp_newconnection()\<close> and \<^verbatim>\<open>tcp_recv()\<close> with the
  registrations they make and undo, the signal handlers, and the way out. Of libevent only the
  documented contract is used: a handler is called for an event that was added and has not been
  deleted since (all events are persistent), signals are delivered through the same loop, and the
  loop returns after \<^verbatim>\<open>event_loopexit()\<close>, when what was already pending has been handled.
\<close>

section \<open>What is registered\<close>

text \<open>
  The program's \<^verbatim>\<open>struct event\<close> objects: four on the stack of \<^verbatim>\<open>net_loop()\<close>, one for every
  connection, here named by the address of the \<^verbatim>\<open>struct tcp_socket\<close> it belongs to. The argument
  of \<^verbatim>\<open>tcp_recv()\<close> is that address; the other handlers do not look at theirs.
\<close>

datatype watch = TipcEvt | TcpEvt | UdpEvt | SctpEvt | SockEvt nat

datatype callback = CB_tipc_recv | CB_tcp_newconnection | CB_udp_recv | CB_sctp_recv | CB_tcp_recv nat

datatype signal = SIGTERM | SIGINT | SIGHUP | SIGUSR1 | SIGUSR2

datatype sighandler = CB_exit | CB_logfd_reopen | CB_enable_read_only | CB_passive_to_active

text \<open>
  The network thread: the server's memory, the descriptors, what is registered, the connections
  by address (an address is not used twice), the log's descriptor, the descriptors that opening
  the log returned, what was written to it, and whether the loop was told to end.
\<close>

record loop =
  lp_srv :: server
  lp_io :: netio
  lp_events :: "(watch \<times> int \<times> callback) list"
  lp_signals :: "(signal \<times> sighandler) list"
  lp_socks :: "nat \<rightharpoonup> tcp_socket"
  lp_next :: nat
  lp_logfd :: int
  lp_logfds :: "int list"
  lp_log :: "(int \<times> string) list"
  lp_exit :: bool

definition event_add :: "watch \<Rightarrow> int \<Rightarrow> callback \<Rightarrow> loop \<Rightarrow> loop" where
  "event_add w fd cb lp = lp\<lparr>lp_events := lp_events lp @ [(w, fd, cb)]\<rparr>"

definition event_del :: "watch \<Rightarrow> loop \<Rightarrow> loop" where
  "event_del w lp = lp\<lparr>lp_events := filter (\<lambda>e. fst e \<noteq> w) (lp_events lp)\<rparr>"

definition signal_add :: "signal \<Rightarrow> sighandler \<Rightarrow> loop \<Rightarrow> loop" where
  "signal_add sig h lp = lp\<lparr>lp_signals := lp_signals lp @ [(sig, h)]\<rparr>"

definition signal_del :: "signal \<Rightarrow> loop \<Rightarrow> loop" where
  "signal_del sig lp = lp\<lparr>lp_signals := filter (\<lambda>e. fst e \<noteq> sig) (lp_signals lp)\<rparr>"

definition event_loopexit :: "loop \<Rightarrow> loop" where
  "event_loopexit lp = lp\<lparr>lp_exit := True\<rparr>"

text \<open>The registered descriptors.\<close>

definition regs :: "loop \<Rightarrow> int list" where
  "regs lp = map (fst \<circ> snd) (lp_events lp)"

text \<open>\<^verbatim>\<open>wlog()\<close> with the text \<open>str\<close> at the time \<open>now\<close>.\<close>

definition loop_log :: "string \<Rightarrow> string \<Rightarrow> loop \<Rightarrow> loop option" where
  "loop_log now str lp =
     map_option (\<lambda>ws. lp\<lparr>lp_log := lp_log lp @ map (Pair (lp_logfd lp)) ws\<rparr>) (wlog (lp_logfd lp) now str)"

section \<open>The signal handlers\<close>

text \<open>\<open>opn\<close> is what \<^verbatim>\<open>open()\<close> returns for a name at that moment.\<close>

definition exit_sighandler :: "string \<Rightarrow> loop \<Rightarrow> loop option" where
  "exit_sighandler now lp = do {
     lp \<leftarrow> loop_log now (''Got signal! Puf!'' @ [CHR 0x0a]) lp;
     Some (event_loopexit lp)
   }"

definition passive_to_active :: "string \<Rightarrow> loop \<Rightarrow> loop option" where
  "passive_to_active now lp = do {
     lp \<leftarrow> loop_log now (''Passive toggle!'' @ [CHR 0x0a]) lp;
     Some (lp\<lparr>lp_srv := passive_to_active_sighandler (lp_srv lp)\<rparr>)
   }"

definition logfd_reopen :: "(string \<Rightarrow> int) \<Rightarrow> string \<Rightarrow> loop \<Rightarrow> loop option" where
  "logfd_reopen opn now lp = do {
     (fd, ws) \<leftarrow> logfd_reopen_sighandler opn now (lp_srv lp);
     let opened = (case se_logfname (sv_settings (lp_srv lp)) of None \<Rightarrow> [] | Some name \<Rightarrow>
       if name = ''-'' \<or> opn name < 0 then [] else [opn name]);
     Some (lp\<lparr>lp_logfd := fd, lp_logfds := lp_logfds lp @ opened, lp_log := lp_log lp @ map (Pair fd) ws\<rparr>)
   }"

definition enable_read_only :: "string \<Rightarrow> loop \<Rightarrow> loop option" where
  "enable_read_only now lp = do {
     lp \<leftarrow> loop_log now ((if \<not> se_read_only (sv_settings (lp_srv lp)) then ''Changing to read-only mode''
       else ''Got signal, but already in read-only mode'') @ [CHR 0x0a]) lp;
     Some (lp\<lparr>lp_srv := enable_read_only_sighandler (lp_srv lp)\<rparr>)
   }"

fun sig_call :: "sighandler \<Rightarrow> (string \<Rightarrow> int) \<Rightarrow> string \<Rightarrow> loop \<Rightarrow> loop option" where
  "sig_call CB_exit opn now lp = exit_sighandler now lp"
| "sig_call CB_logfd_reopen opn now lp = logfd_reopen opn now lp"
| "sig_call CB_enable_read_only opn now lp = enable_read_only now lp"
| "sig_call CB_passive_to_active opn now lp = passive_to_active now lp"

section \<open>The handlers of connections\<close>

text \<open>
  \<^verbatim>\<open>accept()\<close> returns a new descriptor, or a negative number; \<open>nonblock\<close> says whether the
  \<^verbatim>\<open>fcntl()\<close> that follows returned 0.
\<close>

definition sys_accept :: "int \<Rightarrow> netio \<Rightarrow> netio" where
  "sys_accept fd w = (if fd < 0 then w else w\<lparr>ni_opened := ni_opened w @ [fd]\<rparr>)"

definition set_ms :: "alloc \<Rightarrow> loop \<Rightarrow> loop" where
  "set_ms ms lp = lp\<lparr>lp_srv := (lp_srv lp)\<lparr>sv_ms := ms\<rparr>\<rparr>"

definition newconnection_call :: "int \<Rightarrow> bytes \<Rightarrow> bool \<Rightarrow> loop \<Rightarrow> loop" where
  "newconnection_call newfd clisa nonblock lp =
     (let (ok, ms) = malloc (sv_ms (lp_srv lp)) in
      if \<not> ok then set_ms ms lp
      else let (ok, ms) = malloc ms in
        if \<not> ok then set_ms ms lp
        else let lp = (set_ms ms lp)\<lparr>lp_io := sys_accept newfd (lp_io lp)\<rparr> in
          if \<not> nonblock then lp\<lparr>lp_io := sys_close newfd (lp_io lp)\<rparr>
          else let p = lp_next lp;
              ts = \<lparr>ts_fd = newfd, ts_clisa = clisa, ts_clilen = of_nat (length clisa), ts_buf = None,
                ts_pktsize = 0, ts_len = 0, ts_req = make_req TCP newfd clisa, ts_excess = 0\<rparr> in
            event_add (SockEvt p) newfd (CB_tcp_recv p) (lp\<lparr>lp_socks := (lp_socks lp)(p \<mapsto> ts), lp_next := p + 1\<rparr>))"

text \<open>
  The error exits of \<^verbatim>\<open>tcp_recv()\<close> and \<^verbatim>\<open>process_buf()\<close>, which are the same three calls. The
  first closes the descriptor it was called with, the second the one in the structure;
  \<open>newconnection_call\<close> registers the one it stores. Using a freed structure is undefined.
\<close>

definition conn_exit :: "nat \<Rightarrow> int \<Rightarrow> loop \<Rightarrow> loop" where
  "conn_exit p fd lp =
     (let lp = lp\<lparr>lp_io := sys_close fd (lp_io lp)\<rparr>;
        lp = event_del (SockEvt p) lp in
      lp\<lparr>lp_socks := (lp_socks lp)(p := None)\<rparr>)"

definition tcp_recv_call :: "nat \<Rightarrow> recv_result \<Rightarrow> loop \<Rightarrow> loop option" where
  "tcp_recv_call p r lp = do {
     ts \<leftarrow> lp_socks lp p;
     (r, s) \<leftarrow> tcp_recv (lp_srv lp) ts r;
     let lp = lp\<lparr>lp_srv := s\<rparr>;
     Some (case r of None \<Rightarrow> conn_exit p (ts_fd ts) lp | Some ts \<Rightarrow> lp\<lparr>lp_socks := (lp_socks lp)(p \<mapsto> ts)\<rparr>)
   }"

text \<open>
  The receivers of transports that are compiled out; \<open>net_loop_enter\<close> below does not register
  anything for those.
\<close>

definition tipc_recv_stub :: "server \<Rightarrow> int \<Rightarrow> recv_result \<Rightarrow> server option" where
  "tipc_recv_stub s fd r = Some s"
definition tcp_recv_stub :: "server \<Rightarrow> int \<Rightarrow> recv_result \<Rightarrow> server option" where
  "tcp_recv_stub s fd r = Some s"
definition udp_recv_stub :: "server \<Rightarrow> int \<Rightarrow> recv_result \<Rightarrow> server option" where
  "udp_recv_stub s fd r = Some s"
definition sctp_recv_stub :: "server \<Rightarrow> int \<Rightarrow> recv_result \<Rightarrow> server option" where
  "sctp_recv_stub s fd r = Some s"

section \<open>The loop\<close>

datatype net_input = Data recv_result | Accept int bytes bool

datatype fired = Readable watch net_input | Signalled signal "string \<Rightarrow> int" string

definition dgram_call :: "transport \<Rightarrow> int \<Rightarrow> recv_result \<Rightarrow> loop \<Rightarrow> loop option" where
  "dgram_call t fd r lp = map_option (\<lambda>s. lp\<lparr>lp_srv := s\<rparr>) (dgram_recv t (lp_srv lp) fd r)"

fun cb_call :: "callback \<Rightarrow> int \<Rightarrow> net_input \<Rightarrow> loop \<Rightarrow> loop option" where
  "cb_call CB_tipc_recv fd (Data r) lp = dgram_call TIPC fd r lp"
| "cb_call CB_udp_recv fd (Data r) lp = dgram_call UDP fd r lp"
| "cb_call CB_sctp_recv fd (Data r) lp = dgram_call SCTP fd r lp"
| "cb_call CB_tcp_newconnection fd (Accept newfd a nb) lp = Some (newconnection_call newfd a nb lp)"
| "cb_call (CB_tcp_recv p) fd (Data r) lp = tcp_recv_call p r lp"
| "cb_call cb fd inp lp = None"

text \<open>Which handler libevent calls.\<close>

fun handle :: "loop \<Rightarrow> fired \<Rightarrow> loop option" where
  "handle lp (Readable w inp) = do { (fd, cb) \<leftarrow> map_of (lp_events lp) w; cb_call cb fd inp lp }"
| "handle lp (Signalled sig opn now) = do { h \<leftarrow> map_of (lp_signals lp) sig; sig_call h opn now lp }"

text \<open>
  What can happen: an event that is registered becomes readable, with a connection to accept on
  the listening socket and data everywhere else, or a signal arrives that is watched. The kernel
  never gives out a descriptor that is open, and \<^verbatim>\<open>fcntl()\<close> fails on a negative one.
\<close>

fun may_fire :: "loop \<Rightarrow> fired \<Rightarrow> bool" where
  "may_fire lp (Readable w (Data r)) = (case map_of (lp_events lp) w of
     None \<Rightarrow> False | Some (fd, cb) \<Rightarrow> cb \<noteq> CB_tcp_newconnection)"
| "may_fire lp (Readable w (Accept newfd a nb)) = (case map_of (lp_events lp) w of
     None \<Rightarrow> False | Some (fd, cb) \<Rightarrow> cb = CB_tcp_newconnection \<and> newfd \<notin> set (regs lp) \<and> (newfd < 0 \<longrightarrow> \<not> nb))"
| "may_fire lp (Signalled sig opn now) = (map_of (lp_signals lp) sig \<noteq> None)"

inductive loop_run :: "loop \<Rightarrow> fired list \<Rightarrow> loop \<Rightarrow> bool" for lp0 where
  none: "loop_run lp0 [] lp0"
| fire: "loop_run lp0 fs lp \<Longrightarrow> may_fire lp f \<Longrightarrow> handle lp f = Some lp' \<Longrightarrow> loop_run lp0 (fs @ [f]) lp'"

section \<open>Before and after\<close>

fun listen_watch :: "transport \<Rightarrow> watch" where
  "listen_watch TIPC = TipcEvt"
| "listen_watch TCP = TcpEvt"
| "listen_watch UDP = UdpEvt"
| "listen_watch SCTP = SctpEvt"

fun listen_cb :: "transport \<Rightarrow> callback" where
  "listen_cb TIPC = CB_tipc_recv"
| "listen_cb TCP = CB_tcp_newconnection"
| "listen_cb UDP = CB_udp_recv"
| "listen_cb SCTP = CB_sctp_recv"

fun transport_name :: "transport \<Rightarrow> string" where
  "transport_name TIPC = ''TIPC''"
| "transport_name TCP = ''TCP''"
| "transport_name UDP = ''UDP''"
| "transport_name SCTP = ''SCTP''"

text \<open>
  The environment: which transports are compiled in, \<^verbatim>\<open>inet_pton()\<close>, the text of \<^verbatim>\<open>errno\<close>, the
  time. \<open>Inl\<close> is \<^verbatim>\<open>exit(1)\<close>, \<open>Inr\<close> the descriptors that the local variables hold.
\<close>

record loop_env =
  le_en :: "transport \<Rightarrow> bool"
  le_pton :: "string \<Rightarrow> u32 option"
  le_err :: string
  le_now :: string

fun errlogs :: "int \<Rightarrow> string \<Rightarrow> string \<Rightarrow> string list \<Rightarrow> string list option" where
  "errlogs logfd now err [] = Some []"
| "errlogs logfd now err (m # ms) = do { ws \<leftarrow> errlog logfd now err m; vs \<leftarrow> errlogs logfd now err ms; Some (ws @ vs) }"

text \<open>What an \<^verbatim>\<open>_init()\<close> function that fails has logged comes before the message of \<^verbatim>\<open>net_loop()\<close>.\<close>

fun start_transports :: "loop_env \<Rightarrow> transport list \<Rightarrow> loop \<Rightarrow> (loop + int list \<times> loop) option" where
  "start_transports en [] lp = Some (Inr ([], lp))"
| "start_transports en (t # ts) lp =
     (if le_en en t then
        (case transport_init (le_pton en) (sv_settings (lp_srv lp)) t (lp_io lp) of (fd, io) \<Rightarrow>
           if fd < 0 then
             map_option (\<lambda>ws. Inl (lp\<lparr>lp_io := io, lp_log := lp_log lp @ map (Pair (lp_logfd lp)) ws\<rparr>))
               (errlogs (lp_logfd lp) (le_now en) (le_err en) (ni_errs io @ [''Error initializing '' @ transport_name t]))
           else do {
             r \<leftarrow> start_transports en ts (event_add (listen_watch t) fd (listen_cb t) (lp\<lparr>lp_io := io\<rparr>));
             Some (map_sum (\<lambda>lp. lp) (\<lambda>(fds, lp). (fd # fds, lp)) r)
           })
      else do {
        r \<leftarrow> start_transports en ts lp;
        Some (map_sum (\<lambda>lp. lp) (\<lambda>(fds, lp). (- 1 # fds, lp)) r)
      })"

definition start_signals :: "loop \<Rightarrow> loop" where
  "start_signals lp =
     (let lp = signal_add SIGTERM CB_exit lp;
        lp = signal_add SIGINT CB_exit lp;
        lp = signal_add SIGHUP CB_logfd_reopen lp;
        lp = signal_add SIGUSR1 CB_enable_read_only lp in
      signal_add SIGUSR2 CB_passive_to_active lp)"

abbreviation transports :: "transport list" where "transports \<equiv> [TIPC, TCP, UDP, SCTP]"

definition net_loop_enter :: "loop_env \<Rightarrow> loop \<Rightarrow> (loop + int list \<times> loop) option" where
  "net_loop_enter en lp = do {
     r \<leftarrow> start_transports en transports lp;
     Some (map_sum (\<lambda>lp. lp) (\<lambda>(fds, lp). (fds, start_signals lp)) r)
   }"

definition del_listening :: "loop_env \<Rightarrow> transport list \<Rightarrow> loop \<Rightarrow> loop" where
  "del_listening en ts lp = fold (\<lambda>t. if le_en en t then event_del (listen_watch t) else (\<lambda>lp. lp)) ts lp"

definition net_loop_leave :: "loop_env \<Rightarrow> int list \<Rightarrow> loop \<Rightarrow> loop" where
  "net_loop_leave en fds lp =
     (let lp = del_listening en transports lp;
        lp = fold signal_del [SIGTERM, SIGINT, SIGUSR1, SIGUSR2] lp in
      lp\<lparr>lp_io := net_loop_end (le_en en) fds (lp_io lp)\<rparr>)"

text \<open>All of \<^verbatim>\<open>net_loop()\<close>, for the events \<open>fs\<close>: it enters the loop, handles them, and returns.\<close>

definition net_loop :: "loop_env \<Rightarrow> loop \<Rightarrow> fired list \<Rightarrow> loop \<Rightarrow> bool" where
  "net_loop en lp fs lp' \<longleftrightarrow> (\<exists>fds lp1 lp2. net_loop_enter en lp = Some (Inr (fds, lp1)) \<and>
     loop_run lp1 fs lp2 \<and> lp_exit lp2 \<and> lp' = net_loop_leave en fds lp2)"

end
