(* ===== verification/Loop_Ok.thy ===== *)
theory Loop_Ok
  imports Net_Loop Recv_Frame
begin

text \<open>
  What the event loop keeps, whatever arrives: every registered descriptor is open and every open
  descriptor is registered, once; a connection's structure lives exactly as long as its event; the
  listening sockets and the signals stay registered. What \<^verbatim>\<open>net_loop()\<close> leaves behind.
\<close>

section \<open>The invariant\<close>

text \<open>
  An event has its handler, its descriptor is one, and an event of a connection has the
  connection's structure, with the same descriptor.
\<close>

fun watch_ok :: "(nat \<rightharpoonup> tcp_socket) \<Rightarrow> watch \<times> int \<times> callback \<Rightarrow> bool" where
  "watch_ok socks (SockEvt p, fd, cb) \<longleftrightarrow> 0 \<le> fd \<and> cb = CB_tcp_recv p \<and> (\<exists>ts. socks p = Some ts \<and> ts_fd ts = fd)"
| "watch_ok socks (TipcEvt, fd, cb) \<longleftrightarrow> 0 \<le> fd \<and> cb = CB_tipc_recv"
| "watch_ok socks (TcpEvt, fd, cb) \<longleftrightarrow> 0 \<le> fd \<and> cb = CB_tcp_newconnection"
| "watch_ok socks (UdpEvt, fd, cb) \<longleftrightarrow> 0 \<le> fd \<and> cb = CB_udp_recv"
| "watch_ok socks (SctpEvt, fd, cb) \<longleftrightarrow> 0 \<le> fd \<and> cb = CB_sctp_recv"

definition watched :: "loop \<Rightarrow> watch set" where
  "watched lp = fst ` set (lp_events lp)"

text \<open>Every descriptor that was opened is closed, or registered by one event.\<close>

definition fds_ok :: "netio \<Rightarrow> int list \<Rightarrow> bool" where
  "fds_ok io fds \<longleftrightarrow> mset (ni_opened io) = mset (filter (\<lambda>fd. 0 \<le> fd) (ni_closed io)) + mset fds"

definition loop_ok :: "loop \<Rightarrow> bool" where
  "loop_ok lp \<longleftrightarrow> distinct (map fst (lp_events lp)) \<and> distinct (regs lp) \<and>
     list_all (watch_ok (lp_socks lp)) (lp_events lp) \<and>
     (\<forall>p. lp_socks lp p \<noteq> None \<longrightarrow> SockEvt p \<in> watched lp \<and> p < lp_next lp) \<and>
     fds_ok (lp_io lp) (regs lp)"

lemma loop_okD:
  assumes "loop_ok lp"
  shows "distinct (map fst (lp_events lp))" "distinct (regs lp)"
    "\<And>e. e \<in> set (lp_events lp) \<Longrightarrow> watch_ok (lp_socks lp) e"
    "\<And>p. lp_socks lp p \<noteq> None \<Longrightarrow> SockEvt p \<in> watched lp \<and> p < lp_next lp"
    "fds_ok (lp_io lp) (regs lp)"
  using assms by (simp_all add: loop_ok_def list_all_iff)

text \<open>A descriptor is registered for one event only, and closing it takes it off the account.\<close>

lemma mset_filter_fst:
  assumes "distinct (map fst es)" and "(w, fd, cb) \<in> set es"
  shows "mset (map (fst \<circ> snd) es) = mset (map (fst \<circ> snd) (filter (\<lambda>e. fst e \<noteq> w) es)) + {#fd#}"
  using assms
proof (induction es)
  case (Cons e es)
  show ?case
  proof (cases "fst e = w")
    case True
    then have "w \<notin> fst ` set es" using Cons.prems(1) by auto
    then have "(w, fd, cb) \<notin> set es" "filter (\<lambda>e. fst e \<noteq> w) es = es" by (force, auto intro: filter_True)
    with True Cons.prems(2) show ?thesis by (cases e) auto
  next
    case False
    with Cons show ?thesis by auto
  qed
qed simp

text \<open>What the log, the settings and the server's memory are does not matter.\<close>

definition same_net :: "loop \<Rightarrow> loop \<Rightarrow> bool" where
  "same_net lp lp' \<longleftrightarrow> lp_io lp' = lp_io lp \<and> lp_events lp' = lp_events lp \<and> lp_signals lp' = lp_signals lp \<and>
     lp_socks lp' = lp_socks lp \<and> lp_next lp' = lp_next lp"

lemma loop_ok_same: "same_net lp lp' \<Longrightarrow> loop_ok lp' \<longleftrightarrow> loop_ok lp"
  by (simp add: same_net_def loop_ok_def watched_def regs_def)

lemma loop_log_same: "loop_log now str lp = Some lp' \<Longrightarrow> same_net lp lp' \<and> lp_exit lp' = lp_exit lp \<and> lp_srv lp' = lp_srv lp"
  by (auto simp: loop_log_def same_net_def)

lemma sig_call_same:
  assumes "sig_call h opn now lp = Some lp'"
  shows "same_net lp lp'" and "lp_exit lp' \<longleftrightarrow> lp_exit lp \<or> h = CB_exit"
  using assms loop_log_same
  by (cases h; force simp: exit_sighandler_def passive_to_active_def logfd_reopen_def enable_read_only_def
      event_loopexit_def same_net_def bind_Some_iff split: prod.splits)+

lemma dgram_call_same: "dgram_call t fd r lp = Some lp' \<Longrightarrow> same_net lp lp' \<and> lp_exit lp' = lp_exit lp"
  by (auto simp: dgram_call_def same_net_def)

section \<open>Connections come and go\<close>

lemma newconnection_cases:
  obtains ms where "newconnection_call newfd a nb lp = set_ms ms lp"
  | ms where "\<not> nb" and "newconnection_call newfd a nb lp =
      (set_ms ms lp)\<lparr>lp_io := sys_close newfd (sys_accept newfd (lp_io lp))\<rparr>"
  | ms ts where "nb" and "ts_fd ts = newfd" and "newconnection_call newfd a nb lp =
      event_add (SockEvt (lp_next lp)) newfd (CB_tcp_recv (lp_next lp)) ((set_ms ms lp)\<lparr>
        lp_io := sys_accept newfd (lp_io lp), lp_socks := (lp_socks lp)(lp_next lp \<mapsto> ts), lp_next := lp_next lp + 1\<rparr>)"
proof -
  obtain ok1 ms1 where 1: "malloc (sv_ms (lp_srv lp)) = (ok1, ms1)" by fastforce
  obtain ok2 ms2 where 2: "malloc ms1 = (ok2, ms2)" by fastforce
  consider "\<not> ok1" | "ok1" "\<not> ok2" | "ok1" "ok2" "\<not> nb" | "ok1" "ok2" "nb" by blast
  then show thesis
  proof cases
    case 1
    then show ?thesis using \<open>malloc (sv_ms (lp_srv lp)) = (ok1, ms1)\<close>
      by (intro that(1) [of ms1]) (simp add: newconnection_call_def)
  next
    case 2
    then show ?thesis using 1 \<open>malloc ms1 = (ok2, ms2)\<close>
      by (intro that(1) [of ms2]) (simp add: newconnection_call_def)
  next
    case 3
    then show ?thesis using 1 2 by (intro that(2) [of ms2]) (simp_all add: newconnection_call_def Let_def set_ms_def)
  next
    case 4
    then show ?thesis using 1 2
      by (intro that(3) [of "\<lparr>ts_fd = newfd, ts_clisa = a, ts_clilen = of_nat (length a), ts_buf = None,
          ts_pktsize = 0, ts_len = 0, ts_req = make_req TCP newfd a, ts_excess = 0\<rparr>" ms2])
        (simp_all add: newconnection_call_def Let_def set_ms_def)
  qed
qed

lemma set_ms_same: "same_net lp (set_ms ms lp)" "lp_exit (set_ms ms lp) = lp_exit lp"
  by (simp_all add: set_ms_def same_net_def)

lemma watch_ok_upd: "fst e \<noteq> SockEvt p \<Longrightarrow> watch_ok (socks(p := x)) e = watch_ok socks e"
  by (cases e; cases "fst e") auto

lemma list_all_watch_upd:
  "list_all (watch_ok socks) es \<Longrightarrow> SockEvt p \<notin> fst ` set es \<Longrightarrow> list_all (watch_ok (socks(p := x))) es"
  unfolding list_all_iff using watch_ok_upd by (metis imageI)

lemma newconnection_keeps:
  assumes "loop_ok lp" and "newfd \<notin> set (regs lp)" and "newfd < 0 \<longrightarrow> \<not> nb"
  shows "loop_ok (newconnection_call newfd a nb lp)"
proof (rule newconnection_cases [of newfd a nb lp])
  fix ms assume "newconnection_call newfd a nb lp = set_ms ms lp"
  then show ?thesis using loop_ok_same [OF set_ms_same(1)] assms(1) by simp
next
  fix ms assume e: "newconnection_call newfd a nb lp = (set_ms ms lp)\<lparr>lp_io := sys_close newfd (sys_accept newfd (lp_io lp))\<rparr>"
  have "fds_ok (sys_close newfd (sys_accept newfd (lp_io lp))) (regs lp)"
    using loop_okD(5) [OF assms(1)] by (auto simp: fds_ok_def sys_close_def sys_accept_def)
  then show ?thesis using assms(1) unfolding e by (simp add: loop_ok_def set_ms_def regs_def watched_def)
next
  fix ms ts assume nb: "nb" and ts: "ts_fd ts = newfd" and e: "newconnection_call newfd a nb lp =
      event_add (SockEvt (lp_next lp)) newfd (CB_tcp_recv (lp_next lp)) ((set_ms ms lp)\<lparr>
        lp_io := sys_accept newfd (lp_io lp), lp_socks := (lp_socks lp)(lp_next lp \<mapsto> ts), lp_next := lp_next lp + 1\<rparr>)"
  note d = loop_okD [OF assms(1)]
  have new: "SockEvt (lp_next lp) \<notin> watched lp"
  proof
    assume "SockEvt (lp_next lp) \<in> watched lp"
    then obtain fd cb where "(SockEvt (lp_next lp), fd, cb) \<in> set (lp_events lp)" by (force simp: watched_def)
    from d(3) [OF this] have "lp_socks lp (lp_next lp) \<noteq> None" by auto
    with d(4) show False by blast
  qed
  have pos: "0 \<le> newfd" using assms(3) nb by auto
  then have "fds_ok (sys_accept newfd (lp_io lp)) (regs lp @ [newfd])"
    using d(5) by (simp add: fds_ok_def sys_accept_def)
  moreover have "list_all (watch_ok ((lp_socks lp)(lp_next lp \<mapsto> ts))) (lp_events lp)"
    using assms(1) new list_all_watch_upd by (simp add: loop_ok_def watched_def)
  moreover have "\<forall>p. ((lp_socks lp)(lp_next lp \<mapsto> ts)) p \<noteq> None \<longrightarrow>
      (p = lp_next lp \<or> SockEvt p \<in> watched lp) \<and> p < lp_next lp + 1"
    using d(4) by (auto simp: less_Suc_eq)
  ultimately show ?thesis
    using d(1,2) new assms(2) pos ts unfolding e
    by (auto simp: loop_ok_def event_add_def set_ms_def regs_def watched_def)
qed

lemma conn_exit_keeps:
  assumes "loop_ok lp" and "lp_socks lp p = Some ts"
  shows "loop_ok (conn_exit p (ts_fd ts) lp)"
proof -
  note d = loop_okD [OF assms(1)]
  let ?es = "filter (\<lambda>e. fst e \<noteq> SockEvt p) (lp_events lp)"
  have "SockEvt p \<in> watched lp" using d(4) assms(2) by simp
  then obtain fd cb where m: "(SockEvt p, fd, cb) \<in> set (lp_events lp)" by (force simp: watched_def)
  with d(3) [OF m] assms(2) have fd: "fd = ts_fd ts" "0 \<le> fd" by auto
  have "mset (regs lp) = mset (map (fst \<circ> snd) ?es) + {#fd#}"
    unfolding regs_def by (rule mset_filter_fst [OF d(1) m])
  then have "fds_ok (sys_close (ts_fd ts) (lp_io lp)) (map (fst \<circ> snd) ?es)"
    using d(5) fd by (simp add: fds_ok_def sys_close_def)
  moreover have "list_all (watch_ok ((lp_socks lp)(p := None))) ?es"
    by (rule list_all_watch_upd) (use d(3) in \<open>auto simp: list_all_iff\<close>)
  moreover have "distinct (map (fst \<circ> snd) ?es)" "distinct (map fst ?es)"
    using d(1,2) by (simp_all add: regs_def distinct_map_filter)
  moreover have "\<forall>q. ((lp_socks lp)(p := None)) q \<noteq> None \<longrightarrow> SockEvt q \<in> fst ` set ?es \<and> q < lp_next lp"
  proof (intro allI impI)
    fix q assume "((lp_socks lp)(p := None)) q \<noteq> None"
    then have "q \<noteq> p" "lp_socks lp q \<noteq> None" by (simp_all split: if_splits)
    with d(4) [of q] show "SockEvt q \<in> fst ` set ?es \<and> q < lp_next lp" by (force simp: watched_def)
  qed
  ultimately show ?thesis
    by (simp add: loop_ok_def conn_exit_def event_del_def Let_def regs_def watched_def)
qed

lemma tcp_recv_keeps:
  assumes "loop_ok lp" and "tcp_recv_call p r lp = Some lp'"
  shows "loop_ok lp'"
proof -
  obtain ts x s where t: "lp_socks lp p = Some ts" "tcp_recv (lp_srv lp) ts r = Some (x, s)"
    "lp' = (case x of None \<Rightarrow> conn_exit p (ts_fd ts) (lp\<lparr>lp_srv := s\<rparr>)
      | Some ts \<Rightarrow> (lp\<lparr>lp_srv := s\<rparr>)\<lparr>lp_socks := (lp_socks (lp\<lparr>lp_srv := s\<rparr>))(p \<mapsto> ts)\<rparr>)"
    using assms(2) by (auto simp: tcp_recv_call_def bind_Some_iff Let_def)
  have ok: "loop_ok (lp\<lparr>lp_srv := s\<rparr>)" using loop_ok_same [of lp "lp\<lparr>lp_srv := s\<rparr>"] assms(1) by (simp add: same_net_def)
  show ?thesis
  proof (cases x)
    case None
    then show ?thesis using t(1,3) conn_exit_keeps [OF ok] by simp
  next
    case (Some ts')
    note d = loop_okD [OF assms(1)]
    have fd: "ts_fd ts' = ts_fd ts" using tcp_recv_fd t(2) Some by blast
    have "watch_ok ((lp_socks lp)(p \<mapsto> ts')) e" if "e \<in> set (lp_events lp)" for e
    proof (cases "fst e = SockEvt p")
      case True
      with d(3) [OF that] t(1) fd show ?thesis by (cases e) auto
    qed (use d(3) [OF that] in \<open>simp add: watch_ok_upd\<close>)
    then have "list_all (watch_ok ((lp_socks lp)(p \<mapsto> ts'))) (lp_events lp)" by (simp add: list_all_iff)
    moreover have "\<forall>q. ((lp_socks lp)(p \<mapsto> ts')) q \<noteq> None \<longrightarrow> SockEvt q \<in> watched lp \<and> q < lp_next lp"
      using d(4) t(1) by auto
    ultimately show ?thesis using d(1,2,5) t(3) Some
      by (simp add: loop_ok_def regs_def watched_def)
  qed
qed

section \<open>Everything that can happen\<close>

text \<open>Where a step of the loop goes: a handler of the server's, of a connection's, or a signal's.\<close>

lemma fire_cases [consumes 2, case_names dgram accept conn sig]:
  assumes "may_fire lp f" and "handle lp f = Some lp'"
  obtains w t fd r where "f = Readable w (Data r)" and "dgram_call t fd r lp = Some lp'"
    | w fd newfd a nb where "f = Readable w (Accept newfd a nb)" and "map_of (lp_events lp) w = Some (fd, CB_tcp_newconnection)"
      and "newfd \<notin> set (regs lp)" and "newfd < 0 \<longrightarrow> \<not> nb" and "lp' = newconnection_call newfd a nb lp"
    | w fd p r where "f = Readable w (Data r)" and "map_of (lp_events lp) w = Some (fd, CB_tcp_recv p)"
      and "tcp_recv_call p r lp = Some lp'"
    | sig opn now h where "f = Signalled sig opn now" and "map_of (lp_signals lp) sig = Some h" and "sig_call h opn now lp = Some lp'"
proof (cases f)
  case (Readable w inp)
  then obtain fd cb where cb: "map_of (lp_events lp) w = Some (fd, cb)" "cb_call cb fd inp lp = Some lp'"
    using assms(2) by (auto simp: bind_Some_iff)
  show thesis
  proof (cases inp)
    case (Data r)
    then have "cb \<noteq> CB_tcp_newconnection" using assms(1) Readable cb(1) by simp
    with cb Data Readable that(1,3) show thesis by (cases cb) auto
  next
    case (Accept newfd a nb)
    then have "cb = CB_tcp_newconnection" using assms(1) Readable cb(1) by simp
    with cb Accept Readable assms(1) that(2) show thesis by auto
  qed
next
  case (Signalled sig opn now)
  with assms(2) that(4) show thesis by (auto simp: bind_Some_iff)
qed

locale loop_inv =
  fixes inv :: "loop \<Rightarrow> bool"
  assumes keeps: "inv lp \<Longrightarrow> may_fire lp f \<Longrightarrow> handle lp f = Some lp' \<Longrightarrow> inv lp'"
begin

lemma run: "loop_run lp0 fs lp \<Longrightarrow> inv lp0 \<Longrightarrow> inv lp"
  by (induction rule: loop_run.induct) (auto intro: keeps)

end

lemma fire_ok:
  assumes "loop_ok lp" and "may_fire lp f" and "handle lp f = Some lp'"
  shows "loop_ok lp'"
  using assms(2,3)
proof (cases rule: fire_cases)
  case (dgram w t fd r)
  then show ?thesis using dgram_call_same loop_ok_same assms(1) by blast
next
  case (accept w fd newfd a nb)
  then show ?thesis using newconnection_keeps assms(1) by blast
next
  case (conn w fd p r)
  then show ?thesis using tcp_recv_keeps assms(1) by blast
next
  case (sig sig opn now h)
  then show ?thesis using sig_call_same loop_ok_same assms(1) by blast
qed

interpretation conn_inv: loop_inv loop_ok
  by unfold_locales (rule fire_ok)

section \<open>What stays registered\<close>

fun is_sock :: "watch \<Rightarrow> bool" where
  "is_sock (SockEvt p) = True"
| "is_sock w = False"

lemma not_sock [simp]: "w \<noteq> SockEvt p \<and> \<not> is_sock w \<longleftrightarrow> \<not> is_sock w"
  by auto

definition listening :: "loop \<Rightarrow> (watch \<times> int \<times> callback) list" where
  "listening lp = filter (\<lambda>e. \<not> is_sock (fst e)) (lp_events lp)"

definition stands :: "(watch \<times> int \<times> callback) list \<Rightarrow> (signal \<times> sighandler) list \<Rightarrow> loop \<Rightarrow> bool" where
  "stands es sigs lp \<longleftrightarrow> listening lp = es \<and> lp_signals lp = sigs"

lemma stands_same: "same_net lp lp' \<Longrightarrow> stands es sigs lp' \<longleftrightarrow> stands es sigs lp"
  by (simp add: same_net_def stands_def listening_def)

lemma listening_del: "listening (event_del (SockEvt p) lp) = listening lp"
  by (simp add: listening_def event_del_def)

lemma newconnection_frame:
  "listening (newconnection_call newfd a nb lp) = listening lp \<and>
   lp_signals (newconnection_call newfd a nb lp) = lp_signals lp \<and>
   lp_exit (newconnection_call newfd a nb lp) = lp_exit lp"
  by (rule newconnection_cases [of newfd a nb lp]) (simp_all add: listening_def event_add_def set_ms_def)

lemma tcp_recv_frame:
  "tcp_recv_call p r lp = Some lp' \<Longrightarrow> listening lp' = listening lp \<and> lp_signals lp' = lp_signals lp \<and> lp_exit lp' = lp_exit lp"
  by (auto simp: tcp_recv_call_def bind_Some_iff Let_def conn_exit_def listening_def event_del_def
      split: option.splits)

lemma fire_frame:
  assumes "may_fire lp f" and "handle lp f = Some lp'"
  shows "stands es sigs lp' \<longleftrightarrow> stands es sigs lp"
    and "lp_exit lp' \<longleftrightarrow> lp_exit lp \<or> (\<exists>sig opn now. f = Signalled sig opn now \<and> map_of (lp_signals lp) sig = Some CB_exit)"
  using assms
proof (atomize(full), cases rule: fire_cases)
  case (dgram w t fd r)
  then show "(stands es sigs lp' \<longleftrightarrow> stands es sigs lp) \<and>
    (lp_exit lp' \<longleftrightarrow> lp_exit lp \<or> (\<exists>sig opn now. f = Signalled sig opn now \<and> map_of (lp_signals lp) sig = Some CB_exit))"
    using dgram_call_same stands_same by blast
next
  case (accept w fd newfd a nb)
  then show "(stands es sigs lp' \<longleftrightarrow> stands es sigs lp) \<and>
    (lp_exit lp' \<longleftrightarrow> lp_exit lp \<or> (\<exists>sig opn now. f = Signalled sig opn now \<and> map_of (lp_signals lp) sig = Some CB_exit))"
    using newconnection_frame by (simp add: stands_def)
next
  case (conn w fd p r)
  then show "(stands es sigs lp' \<longleftrightarrow> stands es sigs lp) \<and>
    (lp_exit lp' \<longleftrightarrow> lp_exit lp \<or> (\<exists>sig opn now. f = Signalled sig opn now \<and> map_of (lp_signals lp) sig = Some CB_exit))"
    using tcp_recv_frame by (simp add: stands_def)
next
  case (sig sig opn now h)
  then show "(stands es sigs lp' \<longleftrightarrow> stands es sigs lp) \<and>
    (lp_exit lp' \<longleftrightarrow> lp_exit lp \<or> (\<exists>sig opn now. f = Signalled sig opn now \<and> map_of (lp_signals lp) sig = Some CB_exit))"
    using sig_call_same stands_same by simp
qed

interpretation standing: loop_inv "stands es sigs" for es sigs
  by unfold_locales (simp add: fire_frame(1))

section \<open>Entering the loop\<close>

text \<open>The transports that were opened, with their descriptors.\<close>

definition opened :: "loop_env \<Rightarrow> transport list \<Rightarrow> int list \<Rightarrow> (transport \<times> int) list" where
  "opened en ts fds = filter (\<lambda>(t, fd). le_en en t) (zip ts fds)"

lemma opened_Cons [simp]:
  "opened en (t # ts) (fd # fds) = (if le_en en t then [(t, fd)] else []) @ opened en ts fds"
  by (simp add: opened_def)

definition listen_event :: "transport \<times> int \<Rightarrow> watch \<times> int \<times> callback" where
  "listen_event tf = (listen_watch (fst tf), snd tf, listen_cb (fst tf))"

lemma map_sum_Inr_iff: "map_sum f g r = Inr y \<longleftrightarrow> (\<exists>x. r = Inr x \<and> y = g x)"
  by (cases r) auto

lemma start_transports_ok:
  assumes "start_transports en ts lp = Some (Inr (fds, lp'))"
  shows "length fds = length ts \<and> list_all (\<lambda>(t, fd). 0 \<le> fd) (opened en ts fds) \<and>
    lp_events lp' = lp_events lp @ map listen_event (opened en ts fds) \<and> lp_signals lp' = lp_signals lp \<and>
    lp_socks lp' = lp_socks lp \<and> lp_next lp' = lp_next lp \<and> lp_exit lp' = lp_exit lp \<and> lp_srv lp' = lp_srv lp \<and>
    ni_closed (lp_io lp') = ni_closed (lp_io lp) \<and> ni_opened (lp_io lp') = ni_opened (lp_io lp) @ map snd (opened en ts fds)"
  using assms
proof (induction ts arbitrary: lp fds)
  case Nil
  then show ?case by (simp add: opened_def)
next
  case (Cons t ts)
  show ?case
  proof (cases "le_en en t")
    case True
    obtain fd io where io: "transport_init (le_pton en) (sv_settings (lp_srv lp)) t (lp_io lp) = (fd, io)" by fastforce
    let ?lp = "event_add (listen_watch t) fd (listen_cb t) (lp\<lparr>lp_io := io\<rparr>)"
    have fd: "0 \<le> fd" using Cons.prems True io by (auto simp: not_less split: if_splits)
    with Cons.prems True io obtain fds' where r: "start_transports en ts ?lp = Some (Inr (fds', lp'))" "fds = fd # fds'"
      by (auto simp: bind_Some_iff map_sum_Inr_iff)
    have "ni_closed io = ni_closed (lp_io lp)" "ni_opened io = ni_opened (lp_io lp) @ [fd]"
      using init_accounts [of "lp_io lp" "le_pton en" "sv_settings (lp_srv lp)" t] fd io by (auto simp: accounts_def)
    with Cons.IH [OF r(1)] r(2) fd True show ?thesis by (simp add: event_add_def listen_event_def)
  next
    case False
    with Cons.prems obtain fds' where r: "start_transports en ts lp = Some (Inr (fds', lp'))" "fds = - 1 # fds'"
      by (auto simp: bind_Some_iff map_sum_Inr_iff)
    with Cons.IH [OF r(1)] False show ?thesis by simp
  qed
qed

text \<open>A process that has not entered the loop.\<close>

definition fresh :: "loop \<Rightarrow> bool" where
  "fresh lp \<longleftrightarrow> lp_events lp = [] \<and> lp_signals lp = [] \<and> lp_socks lp = Map.empty \<and> \<not> lp_exit lp \<and>
     ni_opened (lp_io lp) = [] \<and> ni_closed (lp_io lp) = []"

definition all_signals :: "(signal \<times> sighandler) list" where
  "all_signals = [(SIGTERM, CB_exit), (SIGINT, CB_exit), (SIGHUP, CB_logfd_reopen), (SIGUSR1, CB_enable_read_only),
     (SIGUSR2, CB_passive_to_active)]"

lemma listen_watch_inj: "listen_watch t = listen_watch t' \<longleftrightarrow> t = t'"
  by (cases t; cases t') simp_all

lemma watch_ok_listen: "0 \<le> snd tf \<Longrightarrow> watch_ok socks (listen_event tf)"
  by (cases "fst tf") (simp_all add: listen_event_def)

lemma not_is_sock_listen [simp]: "\<not> is_sock (listen_watch t)"
  by (cases t) simp_all

lemma distinct_opened: "distinct ts \<Longrightarrow> distinct (map fst (opened en ts fds))"
proof (induction ts arbitrary: fds)
  case (Cons t ts)
  then show ?case
    by (cases fds) (auto simp: opened_def dest: set_zip_leftD)
qed (simp add: opened_def)

lemma enter_ok:
  assumes "fresh lp0" and "net_loop_enter en lp0 = Some (Inr (fds, lp1))" and "distinct (regs lp1)"
  shows "loop_ok lp1" and "stands (map listen_event (opened en transports fds)) all_signals lp1"
    and "\<not> lp_exit lp1" and "lp_socks lp1 = Map.empty" and "lp_srv lp1 = lp_srv lp0" and "length fds = 4"
    and "lp_events lp1 = map listen_event (opened en transports fds)"
proof -
  obtain lp where lp: "start_transports en transports lp0 = Some (Inr (fds, lp))" "lp1 = start_signals lp"
    using assms(2) by (auto simp: net_loop_enter_def bind_Some_iff map_sum_Inr_iff simp del: start_transports.simps)
  note f = assms(1) [unfolded fresh_def] and o = start_transports_ok [OF lp(1)]
  let ?o = "opened en transports fds"
  have e: "lp_events lp = map listen_event ?o" using o f by simp
  show sig: "lp_events lp1 = map listen_event ?o" by (simp add: lp(2) start_signals_def Let_def signal_add_def e)
  have sg: "lp_signals lp = []" "lp_socks lp = Map.empty" "\<not> lp_exit lp" "lp_srv lp = lp_srv lp0" using o f by simp_all
  show "stands (map listen_event ?o) all_signals lp1" "\<not> lp_exit lp1" "lp_socks lp1 = Map.empty" "lp_srv lp1 = lp_srv lp0"
    using sg by (simp_all add: lp(2) start_signals_def Let_def signal_add_def all_signals_def stands_def listening_def e
        filter_map o_def listen_event_def)
  show "length fds = 4" using o by simp
  have "fds_ok (lp_io lp1) (regs lp1)"
    using o f by (simp add: fds_ok_def regs_def sig lp(2) start_signals_def Let_def signal_add_def listen_event_def comp_def e)
  moreover have "distinct (map fst (lp_events lp1))"
    using distinct_opened [of transports en fds]
    by (simp add: sig listen_event_def comp_def distinct_map inj_on_def listen_watch_inj)
  moreover have "list_all (watch_ok (lp_socks lp1)) (lp_events lp1)"
    using o watch_ok_listen unfolding sig by (auto simp: list_all_iff)
  ultimately show "loop_ok lp1" using assms(3) sg by (simp add: loop_ok_def lp(2) start_signals_def Let_def signal_add_def)
qed

section \<open>Leaving it\<close>

lemma close_all:
  "ni_opened (fold (\<lambda>(t, fd) w. transport_close t (en t) fd w) xs w) = ni_opened w \<and>
   ni_closed (fold (\<lambda>(t, fd) w. transport_close t (en t) fd w) xs w) = ni_closed w @ map snd (filter (\<lambda>(t, fd). en t) xs)"
proof -
  have one: "ni_opened (transport_close t on fd v) = ni_opened v \<and>
      ni_closed (transport_close t on fd v) = ni_closed v @ (if on then [fd] else [])" for t on fd v
    by (cases t) (simp_all add: tipc_close_def tcp_close_def udp_close_def sctp_close_def sys_close_def
        tipc_stub_def tcp_stub_def udp_stub_def sctp_stub_def)
  show ?thesis by (induction xs arbitrary: w) (auto simp: one)
qed

lemma del_listening_events:
  "del_listening en ts lp =
     lp\<lparr>lp_events := filter (\<lambda>e. \<forall>t\<in>set ts. le_en en t \<longrightarrow> fst e \<noteq> listen_watch t) (lp_events lp)\<rparr>"
  by (induction ts arbitrary: lp) (auto simp: del_listening_def event_del_def intro!: arg_cong [of _ _ "\<lambda>es. lp\<lparr>lp_events := es\<rparr>" for lp] filter_cong)

lemma net_loop_leave_simps:
  assumes "stands es all_signals lp"
  shows "net_loop_leave en fds lp = (del_listening en transports lp)\<lparr>lp_signals := [(SIGHUP, CB_logfd_reopen)],
    lp_io := net_loop_end (le_en en) fds (lp_io lp)\<rparr>"
proof -
  have "lp_signals (del_listening en transports lp) = all_signals" "lp_io (del_listening en transports lp) = lp_io lp"
    using assms unfolding del_listening_events by (simp_all add: stands_def)
  then show ?thesis unfolding net_loop_leave_def Let_def by (simp add: signal_del_def all_signals_def)
qed

lemma opened_listed: "opened en transports fds = filter (\<lambda>(t, fd). le_en en t) (zip transports fds)"
  by (simp add: opened_def)

lemma leave_ok:
  assumes "loop_ok lp" and "stands (map listen_event (opened en transports fds)) all_signals lp"
  shows "lp_events (net_loop_leave en fds lp) = filter (\<lambda>e. is_sock (fst e)) (lp_events lp)"
    and "fds_ok (lp_io (net_loop_leave en fds lp)) (regs (net_loop_leave en fds lp))"
proof -
  let ?o = "opened en transports fds" and ?lp = "net_loop_leave en fds lp"
  have l: "filter (\<lambda>e. \<not> is_sock (fst e)) (lp_events lp) = map listen_event ?o"
    using assms(2) by (simp add: stands_def listening_def)
  have all: "\<forall>t. t \<in> set transports" by (auto intro: transport.exhaust)
  have "(\<forall>t\<in>set transports. le_en en t \<longrightarrow> fst e \<noteq> listen_watch t) \<longleftrightarrow> is_sock (fst e)" if "e \<in> set (lp_events lp)" for e
  proof (cases "is_sock (fst e)")
    case False
    then have "e \<in> set (filter (\<lambda>e. \<not> is_sock (fst e)) (lp_events lp))" using that by simp
    then obtain t fd where "(t, fd) \<in> set ?o" "fst e = listen_watch t" unfolding l by (auto simp: listen_event_def)
    then have "le_en en t" by (simp add: opened_def)
    with False all \<open>fst e = listen_watch t\<close> show ?thesis by blast
  qed (metis not_is_sock_listen)
  then show ev: "lp_events ?lp = filter (\<lambda>e. is_sock (fst e)) (lp_events lp)"
    by (simp add: net_loop_leave_simps [OF assms(2)] del_listening_events cong: filter_cong)
  have pos: "filter (\<lambda>fd. 0 \<le> fd) (map snd ?o) = map snd ?o"
  proof (rule filter_True, rule ballI)
    fix fd assume "fd \<in> set (map snd ?o)"
    then obtain t where "(t, fd) \<in> set ?o" by auto
    then have "listen_event (t, fd) \<in> set (filter (\<lambda>e. \<not> is_sock (fst e)) (lp_events lp))" unfolding l by simp
    then have "watch_ok (lp_socks lp) (listen_event (t, fd))" using loop_okD(3) [OF assms(1)] by simp
    then show "0 \<le> fd" by (cases t) (simp_all add: listen_event_def)
  qed
  have "mset (regs lp) = mset (map (fst \<circ> snd) (filter (\<lambda>e. is_sock (fst e)) (lp_events lp))) +
      mset (map (fst \<circ> snd) (filter (\<lambda>e. \<not> is_sock (fst e)) (lp_events lp)))"
    by (simp add: regs_def flip: image_mset_union)
  then have "mset (regs lp) = mset (regs ?lp) + mset (map snd ?o)"
    unfolding l by (simp add: regs_def ev listen_event_def comp_def)
  then show "fds_ok (lp_io ?lp) (regs ?lp)"
    using loop_okD(5) [OF assms(1)] pos close_all [of "le_en en" "zip transports fds" "lp_io lp"]
    by (simp add: fds_ok_def net_loop_leave_simps [OF assms(2)] net_loop_end_def flip: opened_listed)
qed

text \<open>A transport that is compiled out has no event, so its receiver is not called.\<close>

lemma disabled_silent:
  assumes "stands (map listen_event (opened en ts fds)) sigs lp" and "\<not> le_en en t"
  shows "listen_watch t \<notin> watched lp"
proof
  assume "listen_watch t \<in> watched lp"
  then obtain e where "e \<in> set (lp_events lp)" "fst e = listen_watch t" by (auto simp: watched_def)
  then have "e \<in> set (listening lp)" by (simp add: listening_def)
  then obtain t' fd where "(t', fd) \<in> set (opened en ts fds)" "fst e = listen_watch t'"
    using assms(1) by (auto simp: stands_def listen_event_def)
  with \<open>fst e = listen_watch t\<close> assms(2) show False by (auto simp: opened_def listen_watch_inj)
qed

section \<open>What ends the loop\<close>

definition ends :: "fired \<Rightarrow> bool" where
  "ends f \<longleftrightarrow> (\<exists>opn now. f = Signalled SIGTERM opn now \<or> f = Signalled SIGINT opn now)"

lemma fire_ends:
  assumes "stands es all_signals lp" and "may_fire lp f" and "handle lp f = Some lp'"
  shows "lp_exit lp' \<longleftrightarrow> lp_exit lp \<or> ends f"
proof -
  have "map_of all_signals sig = Some CB_exit \<longleftrightarrow> sig = SIGTERM \<or> sig = SIGINT" for sig
    by (cases sig) (simp_all add: all_signals_def)
  then show ?thesis using fire_frame(2) [OF assms(2,3)] assms(1) by (auto simp: stands_def ends_def)
qed

lemma run_ends: "loop_run lp0 fs lp \<Longrightarrow> stands es all_signals lp0 \<Longrightarrow> lp_exit lp \<longleftrightarrow> lp_exit lp0 \<or> list_ex ends fs"
proof (induction rule: loop_run.induct)
  case (fire fs lp f lp')
  have "stands es all_signals lp" using standing.run [OF fire.hyps(1) fire.prems] .
  from fire_ends [OF this fire.hyps(2,3)] fire.IH [OF fire.prems] show ?case by simp
qed simp

text \<open>A \<^verbatim>\<open>SIGHUP\<close> that opens the log file again closes nothing: one descriptor more is open.\<close>

lemma reopen_loses:
  assumes "logfd_reopen opn now lp = Some lp'" and "se_logfname (sv_settings (lp_srv lp)) = Some name"
    and "name \<noteq> ''-''" and "0 \<le> opn name"
  shows "lp_logfd lp' = opn name \<and> lp_logfds lp' = lp_logfds lp @ [opn name] \<and> lp_io lp' = lp_io lp"
  using assms
  by (auto simp: logfd_reopen_def logfd_reopen_sighandler_def log_reopen_def log_init_def bind_Some_iff Let_def)

end
