(* ===== verification/Loop_System.thy ===== *)
theory Loop_System
  imports Loop_Ok
begin

text \<open>
  The event loop and the database thread together, and that they are the step relation of
  \<open>System\<close>: when what arrives is well-formed protocol traffic, every run of the loop is a run
  \<open>reach\<close> with the same server and the connections that are registered.
\<close>

section \<open>Runs\<close>

text \<open>
  What arrives: \<open>got\<close> holds, for each connection, the part it has received of the message it is
  in the middle of. Datagrams and streams carry requests, connections open, close and fail, and
  the signals that change no setting come at any time.
\<close>

inductive polite :: "loop \<Rightarrow> (nat \<Rightarrow> bytes) \<Rightarrow> fired \<Rightarrow> event list \<Rightarrow> (nat \<Rightarrow> bytes) \<Rightarrow> bool" for lp got where
  dgram: "map_of (lp_events lp) (listen_watch (ev_t ev)) = Some (ev_fd ev, cb) \<Longrightarrow> ev_ok ev \<Longrightarrow> ev_t ev \<noteq> TCP \<Longrightarrow>
    polite lp got (Readable (listen_watch (ev_t ev)) (Data (Recv (ev_msg ev) (ev_addr ev)))) [ev] got"
| accept: "polite lp got (Readable TcpEvt (Accept newfd a nb)) [] (got(lp_next lp := []))"
| piece: "lp_socks lp p = Some ts \<Longrightarrow> ev_fd ev = ts_fd ts \<Longrightarrow> ev_ok ev \<Longrightarrow> ev_t ev = TCP \<Longrightarrow>
    ev_addr ev = ts_clisa ts \<Longrightarrow> bs \<noteq> [] \<Longrightarrow> length bs \<le> room ts \<Longrightarrow> frame TCP (ev_msg ev) = got p @ bs @ rest \<Longrightarrow>
    polite lp got (Readable (SockEvt p) (Data (Recv bs []))) (if rest = [] then [ev] else [])
      (got(p := if rest = [] then [] else got p @ bs))"
| quiet: "lp_socks lp p = Some ts \<Longrightarrow> res = Recv [] a \<or> res = RecvErr e \<Longrightarrow>
    polite lp got (Readable (SockEvt p) (Data res)) [] got"
| signal: "sig \<in> {SIGTERM, SIGINT, SIGHUP} \<Longrightarrow> polite lp got (Signalled sig opn now) [] got"

text \<open>
  A run from the moment the loop is entered: what fired, the requests received, and where the
  two threads are.
\<close>

inductive serve :: "loop \<Rightarrow> 'c db_conn \<Rightarrow> fired list \<Rightarrow> event list \<Rightarrow> loop \<Rightarrow> 'c db_conn \<Rightarrow> db_pc \<Rightarrow> (nat \<Rightarrow> bytes) \<Rightarrow> bool"
  for lp0 db0 where
  enter: "serve lp0 db0 [] [] lp0 db0 DbTop (\<lambda>p. [])"
| net: "serve lp0 db0 fs h lp db pc got \<Longrightarrow> may_fire lp f \<Longrightarrow> polite lp got f evs got' \<Longrightarrow> handle lp f = Some lp' \<Longrightarrow>
    serve lp0 db0 (fs @ [f]) (h @ evs) lp' db pc got'"
| db: "serve lp0 db0 fs h lp db pc got \<Longrightarrow> db_step (lp_srv lp) db pc s' db' pc' \<Longrightarrow>
    serve lp0 db0 fs h (lp\<lparr>lp_srv := s'\<rparr>) db' pc' got"

text \<open>What the loop keeps, it keeps with the database thread beside it.\<close>

lemma serve_keeps:
  assumes "serve lp0 db0 fs h lp db pc got" and "loop_ok lp0" and "stands es all_signals lp0"
  shows "loop_ok lp" and "stands es all_signals lp" and "lp_exit lp \<longleftrightarrow> lp_exit lp0 \<or> list_ex ends fs"
proof -
  have "loop_ok lp \<and> stands es all_signals lp \<and> (lp_exit lp \<longleftrightarrow> lp_exit lp0 \<or> list_ex ends fs)"
    using assms
  proof (induction rule: serve.induct)
    case (net fs h lp db pc got f evs got' lp')
    then have i: "loop_ok lp" "stands es all_signals lp" "lp_exit lp \<longleftrightarrow> lp_exit lp0 \<or> list_ex ends fs" by blast+
    have "loop_ok lp'" using i(1) net.hyps(2,4) by (rule fire_ok)
    moreover have "stands es all_signals lp'" using fire_frame(1) [OF net.hyps(2,4)] i(2) by blast
    moreover have "lp_exit lp' \<longleftrightarrow> lp_exit lp0 \<or> list_ex ends (fs @ [f])"
      using fire_ends [OF i(2) net.hyps(2,4)] i(3) by simp
    ultimately show ?case by blast
  next
    case (db fs h lp db pc got s' db' pc')
    have "same_net lp (lp\<lparr>lp_srv := s'\<rparr>)" by (simp add: same_net_def)
    with db loop_ok_same stands_same show ?case by auto
  qed simp
  then show "loop_ok lp" "stands es all_signals lp" "lp_exit lp \<longleftrightarrow> lp_exit lp0 \<or> list_ex ends fs" by blast+
qed

section \<open>The connections of a loop\<close>

fun conn_entry :: "(nat \<rightharpoonup> tcp_socket) \<Rightarrow> (nat \<Rightarrow> bytes) \<Rightarrow> watch \<times> int \<times> callback \<Rightarrow> (int \<times> tcp_socket \<times> bytes) list" where
  "conn_entry socks got (SockEvt p, fd, cb) = (case socks p of None \<Rightarrow> [] | Some ts \<Rightarrow> [(fd, ts, got p)])"
| "conn_entry socks got e = []"

definition conns_of :: "loop \<Rightarrow> (nat \<Rightarrow> bytes) \<Rightarrow> conns" where
  "conns_of lp got = map_of (concat (map (conn_entry (lp_socks lp) got) (lp_events lp)))"

lemma conn_entry_keys:
  "list_all (watch_ok socks) es \<Longrightarrow>
    map fst (concat (map (conn_entry socks got) es)) = map (fst \<circ> snd) (filter (\<lambda>e. is_sock (fst e)) es)"
proof (induction es)
  case (Cons e es)
  then show ?case by (cases e; cases "fst e") auto
qed simp

lemma sock_registered:
  assumes "loop_ok lp" and "lp_socks lp p = Some ts"
  shows "(SockEvt p, ts_fd ts, CB_tcp_recv p) \<in> set (lp_events lp)"
proof -
  from loop_okD(4) [OF assms(1), of p] assms(2) obtain fd cb where e: "(SockEvt p, fd, cb) \<in> set (lp_events lp)"
    by (force simp: watched_def)
  with loop_okD(3) [OF assms(1) e] assms(2) show ?thesis by auto
qed

lemma conns_of_iff:
  assumes "loop_ok lp"
  shows "conns_of lp got fd = Some (ts, g) \<longleftrightarrow> (\<exists>p. lp_socks lp p = Some ts \<and> ts_fd ts = fd \<and> g = got p)"
proof -
  note d = loop_okD [OF assms]
  let ?es = "concat (map (conn_entry (lp_socks lp) got) (lp_events lp))"
  have "distinct (map fst ?es)"
    using assms conn_entry_keys [of "lp_socks lp" "lp_events lp" got] by (simp add: loop_ok_def regs_def distinct_map_filter)
  then have "conns_of lp got fd = Some (ts, g) \<longleftrightarrow> (fd, ts, g) \<in> set ?es"
    by (simp add: conns_of_def map_of_eq_Some_iff)
  also have "\<dots> \<longleftrightarrow> (\<exists>e\<in>set (lp_events lp). (fd, ts, g) \<in> set (conn_entry (lp_socks lp) got e))" by simp
  also have "\<dots> \<longleftrightarrow> (\<exists>p. lp_socks lp p = Some ts \<and> ts_fd ts = fd \<and> g = got p)"
  proof
    assume "\<exists>e\<in>set (lp_events lp). (fd, ts, g) \<in> set (conn_entry (lp_socks lp) got e)"
    then obtain e where e: "e \<in> set (lp_events lp)" "(fd, ts, g) \<in> set (conn_entry (lp_socks lp) got e)" by blast
    with d(3) [OF e(1)] show "\<exists>p. lp_socks lp p = Some ts \<and> ts_fd ts = fd \<and> g = got p"
      by (cases e; cases "fst e") (auto split: option.splits)
  next
    assume "\<exists>p. lp_socks lp p = Some ts \<and> ts_fd ts = fd \<and> g = got p"
    then obtain p where p: "lp_socks lp p = Some ts" "ts_fd ts = fd" "g = got p" by blast
    then have "(fd, ts, g) \<in> set (conn_entry (lp_socks lp) got (SockEvt p, ts_fd ts, CB_tcp_recv p))" by simp
    with sock_registered [OF assms p(1)] show "\<exists>e\<in>set (lp_events lp). (fd, ts, g) \<in> set (conn_entry (lp_socks lp) got e)"
      by blast
  qed
  finally show ?thesis .
qed

lemma conns_eqI:
  assumes "loop_ok lp"
    and "\<And>fd ts g. cs fd = Some (ts, g) \<longleftrightarrow> (\<exists>p. lp_socks lp p = Some ts \<and> ts_fd ts = fd \<and> g = got p)"
  shows "conns_of lp got = cs"
proof
  fix fd
  have "conns_of lp got fd = Some x \<longleftrightarrow> cs fd = Some x" for x
    by (cases x) (simp add: conns_of_iff [OF assms(1)] assms(2))
  then show "conns_of lp got fd = cs fd" by (metis option.exhaust)
qed

text \<open>No two connections have the same descriptor.\<close>

lemma socks_inj:
  assumes "loop_ok lp" and "lp_socks lp p = Some ts" and "lp_socks lp q = Some ts'" and "ts_fd ts = ts_fd ts'"
  shows "p = q"
proof -
  have "inj_on (fst \<circ> snd) (set (lp_events lp))"
    using loop_okD(2) [OF assms(1)] by (simp add: regs_def distinct_map)
  from inj_onD [OF this _ sock_registered [OF assms(1,2)] sock_registered [OF assms(1,3)]] assms(4) show ?thesis by simp
qed

section \<open>Each event is a step of the system\<close>

lemma conns_same: "same_net lp lp' \<Longrightarrow> conns_of lp' got = conns_of lp got"
  by (simp add: same_net_def conns_of_def)

lemma listen_event_reg:
  assumes "loop_ok lp" and "map_of (lp_events lp) (listen_watch t) = Some (fd, cb)"
  shows "cb = listen_cb t"
  using loop_okD(3) [OF assms(1) map_of_SomeD [OF assms(2)]] by (cases t) simp_all

lemma dgram_handle:
  assumes "loop_ok lp" and "t \<noteq> TCP" and "map_of (lp_events lp) (listen_watch t) = Some (fd, cb)"
  shows "handle lp (Readable (listen_watch t) (Data r)) = map_option (\<lambda>s. lp\<lparr>lp_srv := s\<rparr>) (dgram_recv t (lp_srv lp) fd r)"
  using listen_event_reg [OF assms(1,3)] assms(2,3) by (cases t) (simp_all add: dgram_call_def)

lemma newconnection_refines:
  obtains s' where "tcp_newconnection (lp_srv lp) newfd a nb = (None, s')" and "lp_srv (newconnection_call newfd a nb lp) = s'"
    and "lp_socks (newconnection_call newfd a nb lp) = lp_socks lp"
  | s' ts where "tcp_newconnection (lp_srv lp) newfd a nb = (Some ts, s')" and "lp_srv (newconnection_call newfd a nb lp) = s'"
    and "lp_socks (newconnection_call newfd a nb lp) = (lp_socks lp)(lp_next lp \<mapsto> ts)" and "ts_fd ts = newfd"
proof -
  obtain ok1 ms1 where 1: "malloc (sv_ms (lp_srv lp)) = (ok1, ms1)" by fastforce
  obtain ok2 ms2 where 2: "malloc ms1 = (ok2, ms2)" by fastforce
  note defs = tcp_newconnection_def newconnection_call_def Let_def set_ms_def event_add_def
  consider "\<not> ok1" | "ok1" "\<not> ok2" | "ok1" "ok2" "\<not> nb" | "ok1" "ok2" "nb" by blast
  then show thesis
  proof cases
    case 4
    show ?thesis
      by (rule that(2) [where ts = "\<lparr>ts_fd = newfd, ts_clisa = a, ts_clilen = of_nat (length a), ts_buf = None,
          ts_pktsize = 0, ts_len = 0, ts_req = make_req TCP newfd a, ts_excess = 0\<rparr>"]) (use 1 2 4 in \<open>simp_all add: defs\<close>)
  qed (rule that(1); use 1 2 in \<open>simp add: defs\<close>)+
qed

lemma conns_upd:
  assumes "loop_ok lp" and "loop_ok lp'" and "lp_socks lp' = (lp_socks lp)(p := r)"
    and new: "\<And>ts. r = Some ts \<Longrightarrow> ts_fd ts = fd"
    and own: "\<And>q ts. lp_socks lp q = Some ts \<Longrightarrow> ts_fd ts = fd \<longleftrightarrow> q = p"
  shows "conns_of lp' (got(p := g)) = (conns_of lp got)(fd := map_option (\<lambda>ts. (ts, g)) r)"
  using assms(2)
proof (rule conns_eqI)
  fix fd' ts' g'
  have l: "lp_socks lp' q = (if q = p then r else lp_socks lp q)" for q by (simp add: assms(3))
  show "((conns_of lp got)(fd := map_option (\<lambda>ts. (ts, g)) r)) fd' = Some (ts', g') \<longleftrightarrow>
      (\<exists>q. lp_socks lp' q = Some ts' \<and> ts_fd ts' = fd' \<and> g' = (got(p := g)) q)" (is "_ \<longleftrightarrow> (\<exists>q. ?P q)")
  proof (cases "fd' = fd")
    case True
    have "?P q \<longleftrightarrow> q = p \<and> r = Some ts' \<and> g' = g" for q
      using True new own [of q ts'] by (auto simp: l)
    then show ?thesis using True by auto
  next
    case False
    have "?P q \<longleftrightarrow> lp_socks lp q = Some ts' \<and> ts_fd ts' = fd' \<and> g' = got q" for q
      using False new own [of q ts'] by (auto simp: l)
    then show ?thesis using False conns_of_iff [OF assms(1), of got fd' ts' g'] by simp
  qed
qed

lemma accept_sim:
  assumes "loop_ok lp" and "may_fire lp (Readable TcpEvt (Accept newfd a nb))"
    and "handle lp (Readable TcpEvt (Accept newfd a nb)) = Some lp'"
  shows "\<exists>r. tcp_newconnection (lp_srv lp) newfd a nb = (r, lp_srv lp') \<and> conns_of lp got newfd = None \<and>
    conns_of lp' (got(lp_next lp := [])) = (conns_of lp got)(newfd := map_option (\<lambda>ts. (ts, [])) r)"
proof -
  from assms(2,3) have fresh: "newfd \<notin> set (regs lp)" and lp': "lp' = newconnection_call newfd a nb lp"
    by (auto split: option.splits)
  have ok: "loop_ok lp'" using assms by (rule fire_ok)
  have none: "conns_of lp got newfd = None" for got
  proof (rule ccontr)
    assume "conns_of lp got newfd \<noteq> None"
    then obtain ts g where "conns_of lp got newfd = Some (ts, g)" by auto
    then obtain p where "lp_socks lp p = Some ts" "ts_fd ts = newfd" unfolding conns_of_iff [OF assms(1)] by blast
    from sock_registered [OF assms(1) this(1)] this(2) fresh show False by (force simp: regs_def)
  qed
  have new: "lp_socks lp (lp_next lp) = None" using loop_okD(4) [OF assms(1), of "lp_next lp"] by blast
  have own: "ts_fd ts = newfd \<longleftrightarrow> q = lp_next lp" if "lp_socks lp q = Some ts" for q ts
    using none [of got] conns_of_iff [OF assms(1), of got newfd ts "got q"] that new by auto
  show ?thesis
  proof (rule newconnection_refines [of lp newfd a nb])
    fix s' assume n: "tcp_newconnection (lp_srv lp) newfd a nb = (None, s')" "lp_srv (newconnection_call newfd a nb lp) = s'"
      "lp_socks (newconnection_call newfd a nb lp) = lp_socks lp"
    then have l: "lp_socks lp' = (lp_socks lp)(lp_next lp := None)" using new by (simp add: lp' fun_upd_idem)
    show ?thesis
      using n none conns_upd [OF assms(1) ok l _ own] by (intro exI [of _ None]) (simp add: lp')
  next
    fix s' ts' assume n: "tcp_newconnection (lp_srv lp) newfd a nb = (Some ts', s')" "lp_srv (newconnection_call newfd a nb lp) = s'"
      "lp_socks (newconnection_call newfd a nb lp) = (lp_socks lp)(lp_next lp \<mapsto> ts')" "ts_fd ts' = newfd"
    then have l: "lp_socks lp' = (lp_socks lp)(lp_next lp := Some ts')" by (simp add: lp')
    show ?thesis
      using n none conns_upd [OF assms(1) ok l _ own] by (intro exI [of _ "Some ts'"]) (simp add: lp')
  qed
qed

lemma conn_sim:
  assumes "loop_ok lp" and "lp_socks lp p = Some ts" and "handle lp (Readable (SockEvt p) (Data res)) = Some lp'"
  shows "\<exists>r. tcp_recv (lp_srv lp) ts res = Some (r, lp_srv lp') \<and> conns_of lp got (ts_fd ts) = Some (ts, got p) \<and>
    conns_of lp' (got(p := g)) = (conns_of lp got)(ts_fd ts := map_option (\<lambda>ts. (ts, g)) r)"
proof -
  note reg = sock_registered [OF assms(1,2)] and d = loop_okD [OF assms(1)]
  have m: "map_of (lp_events lp) (SockEvt p) = Some (ts_fd ts, CB_tcp_recv p)"
    using reg d(1) by (simp add: map_of_eq_Some_iff)
  then have fire: "tcp_recv_call p res lp = Some lp'" using assms(3) by simp
  then obtain r s' where r: "tcp_recv (lp_srv lp) ts res = Some (r, s')" "lp' = (case r of
      None \<Rightarrow> conn_exit p (ts_fd ts) (lp\<lparr>lp_srv := s'\<rparr>) | Some ts \<Rightarrow> (lp\<lparr>lp_srv := s'\<rparr>)\<lparr>lp_socks := (lp_socks (lp\<lparr>lp_srv := s'\<rparr>))(p \<mapsto> ts)\<rparr>)"
    using assms(2) by (auto simp: tcp_recv_call_def bind_Some_iff Let_def)
  have ok: "loop_ok lp'" using assms(1) fire by (rule tcp_recv_keeps)
  have l: "lp_socks lp' = (lp_socks lp)(p := r)" "lp_srv lp' = s'"
    using r(2) by (cases r; simp add: conn_exit_def event_del_def Let_def)+
  have fd: "r = Some ts' \<Longrightarrow> ts_fd ts' = ts_fd ts" for ts' using r(1) tcp_recv_fd by blast
  have at: "conns_of lp got (ts_fd ts) = Some (ts, got p)" using conns_of_iff [OF assms(1)] assms(2) by blast
  have own: "ts_fd ts' = ts_fd ts \<longleftrightarrow> q = p" if "lp_socks lp q = Some ts'" for q ts'
    using that socks_inj [OF assms(1)] assms(2) by auto
  note conns_upd [OF assms(1) ok l(1) fd own, of got g]
  with r(1) at l(2) show ?thesis by blast
qed

text \<open>A polite signal leaves the server alone.\<close>

lemma signal_srv:
  assumes "stands es all_signals lp" and "sig \<in> {SIGTERM, SIGINT, SIGHUP}" and "handle lp (Signalled sig opn now) = Some lp'"
  shows "same_net lp lp'" and "lp_srv lp' = lp_srv lp"
proof -
  obtain h where m: "map_of all_signals sig = Some h" and c: "sig_call h opn now lp = Some lp'"
    using assms(1,3) by (auto simp: stands_def bind_Some_iff simp del: sig_call.simps)
  have h: "h \<in> {CB_exit, CB_logfd_reopen}" "sig_call h opn now lp = Some lp'"
    using m assms(2) c by (auto simp: all_signals_def simp del: sig_call.simps)
  then show "same_net lp lp'" using sig_call_same by blast
  show "lp_srv lp' = lp_srv lp"
    using h loop_log_same by (auto simp: exit_sighandler_def logfd_reopen_def event_loopexit_def bind_Some_iff Let_def)
qed

lemma net_sim:
  assumes "loop_ok lp" and "stands es all_signals lp" and "may_fire lp f" and "polite lp got f evs got'"
    and "handle lp f = Some lp'"
  shows "sys_step (lp_srv lp) db pc (conns_of lp got) evs (lp_srv lp') db pc (conns_of lp' got') \<or>
    evs = [] \<and> lp_srv lp' = lp_srv lp \<and> conns_of lp' got' = conns_of lp got"
  using assms(4)
proof cases
  case (dgram ev cb)
  have "dgram_recv (ev_t ev) (lp_srv lp) (ev_fd ev) (Recv (ev_msg ev) (ev_addr ev)) = Some (lp_srv lp') \<and> same_net lp lp'"
    using assms(5) dgram_handle [OF assms(1) dgram(6,4)] unfolding dgram(1) by (auto simp: same_net_def)
  then show ?thesis using sys_step.dgram [OF dgram(5,6)] conns_same unfolding dgram(2,3) by metis
next
  case (accept newfd a nb)
  from accept_sim [OF assms(1) assms(3,5) [unfolded accept(1)], of got] sys_step.connect
  show ?thesis unfolding accept(2,3) by metis
next
  case (piece p ts ev bs rest)
  from conn_sim [OF assms(1) piece(4) assms(5) [unfolded piece(1)], of got "if rest = [] then [] else got p @ bs"]
  obtain r where r: "tcp_recv (lp_srv lp) ts (Recv bs []) = Some (r, lp_srv lp')" "conns_of lp got (ts_fd ts) = Some (ts, got p)"
    "conns_of lp' (got(p := if rest = [] then [] else got p @ bs)) = (conns_of lp got)(ts_fd ts :=
      map_option (\<lambda>ts. (ts, if rest = [] then [] else got p @ bs)) r)" by blast
  have at: "conns_of lp got (ev_fd ev) = Some (ts, got p)" using r(2) piece(5) by simp
  show ?thesis unfolding piece(2,3) r(3) using sys_step.piece [where cs = "conns_of lp got" and ev = ev, OF at piece(6-11) r(1)] unfolding piece(5) by blast
next
  case (quiet p ts res a e)
  from conn_sim [OF assms(1) quiet(4) assms(5) [unfolded quiet(1)], of got "got p"]
  obtain r where r: "tcp_recv (lp_srv lp) ts res = Some (r, lp_srv lp')" "conns_of lp got (ts_fd ts) = Some (ts, got p)"
    "conns_of lp' got = (conns_of lp got)(ts_fd ts := map_option (\<lambda>ts. (ts, got p)) r)" by auto
  from sys_step.hangup [where cs = "conns_of lp got" and fd = "ts_fd ts", OF r(2) quiet(5) r(1)] show ?thesis unfolding quiet(2,3) r(3) by blast
next
  case (signal sig opn now)
  from signal_srv [OF assms(2) signal(4) assms(5) [unfolded signal(1)]] conns_same
  show ?thesis unfolding signal(2,3) by metis
qed

lemma loop_reach:
  assumes "serve lp0 db0 fs h lp db pc got" and "loop_ok lp0" and "stands es all_signals lp0" and "lp_socks lp0 = Map.empty"
  shows "reach (lp_srv lp0) db0 h (lp_srv lp) db pc (conns_of lp got)"
  using assms
proof (induction rule: serve.induct)
  case enter
  have "conns_of lp0 (\<lambda>p. []) = Map.empty" by (rule conns_eqI) (use enter in simp_all)
  then show ?case using reach.start by metis
next
  case (net fs h lp db pc got f evs got' lp')
  note i = serve_keeps [OF net.hyps(1) net.prems(1,2)]
  from net_sim [OF i(1,2) net.hyps(2-4)] net.IH [OF net.prems] show ?case
    by (metis append_Nil2 reach.more)
next
  case (db fs h lp db pc got s' db' pc')
  have "conns_of (lp\<lparr>lp_srv := s'\<rparr>) got = conns_of lp got" by (rule conns_same) (simp add: same_net_def)
  then show ?case using reach_silent [OF db.IH [OF db.prems] db_step_sys [OF db.hyps(2)]] by simp
qed

section \<open>No step is undefined\<close>

lemma loop_log_defined: "length str \<le> 512 \<Longrightarrow> loop_log now str lp \<noteq> None"
  by (simp add: loop_log_def wlog_def)

lemma signal_defined:
  assumes "stands es all_signals lp"
  shows "handle lp (Signalled sig opn now) \<noteq> None"
proof -
  have "sig_call h opn now lp \<noteq> None" for h
    using loop_log_defined
    by (cases h) (auto simp: exit_sighandler_def passive_to_active_def logfd_reopen_def enable_read_only_def
        logfd_reopen_sighandler_def wlog_def Let_def bind_None_iff split: prod.split)
  moreover have "map_of all_signals sig \<noteq> None" by (cases sig) (simp_all add: all_signals_def)
  ultimately show ?thesis using assms by (auto simp: stands_def)
qed

lemma net_defined:
  assumes "loop_ok lp" and "stands es all_signals lp" and "may_fire lp f" and "polite lp got f evs got'"
    and "sys_inv view m0 h (lp_srv lp) db pc c pend" and "conns_ok (conns_of lp got)" and "no_overflow (h @ evs) m0"
  shows "handle lp f \<noteq> None"
  using assms(4)
proof cases
  case (dgram ev cb)
  note d = sys_invD [OF assms(5)]
  obtain s where "dgram_recv (ev_t ev) (lp_srv lp) (ev_fd ev) (Recv (ev_msg ev) (ev_addr ev)) = Some s"
    using fine_total [OF dgram_recv_ok [OF d(1,11) vals_ok_run [OF d(4,5)] dgram(5,6)]] assms(7)
    unfolding dgram(2) no_overflow_append by auto
  then show ?thesis unfolding dgram(1) dgram_handle [OF assms(1) dgram(6,4)] by simp
next
  case (accept newfd a nb)
  with assms(3) show ?thesis by (auto split: option.splits)
next
  case (piece p ts ev bs rest)
  have at: "conns_of lp got (ev_fd ev) = Some (ts, got p)" unfolding conns_of_iff [OF assms(1)] using piece(4,5) by metis
  obtain ts' s' where "tcp_recv (lp_srv lp) ts (Recv bs []) = Some (Some ts', s')"
    using fine_total [OF inv_piece [OF assms(5,6) at piece(6-11)]] assms(7)
    unfolding piece(2) no_overflow_append by (auto split: if_splits)
  then show ?thesis using sock_registered [OF assms(1) piece(4)] loop_okD(1) [OF assms(1)] piece(1,4)
    by (simp add: map_of_eq_Some_iff [THEN iffD2] tcp_recv_call_def Let_def)
next
  case (quiet p ts res a e)
  have at: "conns_of lp got (ts_fd ts) = Some (ts, got p)" unfolding conns_of_iff [OF assms(1)] using quiet(4) by metis
  obtain r' s' where "tcp_recv (lp_srv lp) ts res = Some (r', s')" using inv_hangup [OF assms(5,6) at quiet(5)] by blast
  then show ?thesis using sock_registered [OF assms(1) quiet(4)] loop_okD(1) [OF assms(1)] quiet(1,4)
    by (simp add: map_of_eq_Some_iff [THEN iffD2] tcp_recv_call_def Let_def)
next
  case (signal sig opn now)
  then show ?thesis using signal_defined [OF assms(2)] by simp
qed

end
