(* ===== verification/Loop_Theorems.thy ===== *)
theory Loop_Theorems
  imports Loop_System Startup_Theorems
begin

text \<open>
  The theorems about the event loop: what is registered and open, whatever arrives; what is left
  when \<^verbatim>\<open>net_loop()\<close> returns; that the loop runs the system of \<open>Server_Theorems\<close>; and the whole
  program, from the command line to the exit code.
\<close>

section \<open>A concrete loop\<close>

text \<open>TCP and UDP are compiled in; the kernel gives the descriptors 6 and 8.\<close>

definition demo_env :: loop_env where
  "demo_env = \<lparr>le_en = (\<lambda>t. t = TCP \<or> t = UDP), le_pton = (\<lambda>a. Some 0), le_err = ''error'', le_now = ''now ''\<rparr>"

definition demo_loop :: "server \<Rightarrow> loop" where
  "demo_loop s = \<lparr>lp_srv = s, lp_io = \<lparr>ni_results = [6, 0, 0, 0, 0, 8, 0, 0], ni_bound = [], ni_opened = [], ni_closed = [], ni_errs = []\<rparr>,
     lp_events = [], lp_signals = [], lp_socks = Map.empty, lp_next = 0, lp_logfd = 1, lp_logfds = [], lp_log = [],
     lp_exit = False\<rparr>"

lemma demo_fresh: "fresh (demo_loop s)" "lp_srv (demo_loop s) = s"
  by (simp_all add: fresh_def demo_loop_def)

lemma demo_enter:
  obtains lp where "net_loop_enter demo_env (demo_loop s) = Some (Inr ([- 1, 6, 8, - 1], lp))" and "distinct (regs lp)"
    and "lp_events lp = [(TcpEvt, 6, CB_tcp_newconnection), (UdpEvt, 8, CB_udp_recv)]" and "lp_signals lp = all_signals"
    and "lp_socks lp = Map.empty" and "lp_next lp = 0" and "lp_srv lp = s"
proof -
  have "\<exists>lp. net_loop_enter demo_env (demo_loop s) = Some (Inr ([- 1, 6, 8, - 1], lp)) \<and> distinct (regs lp) \<and>
    lp_events lp = [(TcpEvt, 6, CB_tcp_newconnection), (UdpEvt, 8, CB_udp_recv)] \<and> lp_signals lp = all_signals \<and>
    lp_socks lp = Map.empty \<and> lp_next lp = 0 \<and> lp_srv lp = s"
    by (simp add: net_loop_enter_def demo_env_def demo_loop_def transport_init_def tcp_init_def udp_init_def sys_socket_def
        sys_bind_def sys_def Let_def event_add_def start_signals_def signal_add_def all_signals_def regs_def)
  then show thesis using that by blast
qed

text \<open>Two clients connect, the first goes away, and the process is told to end.\<close>

definition demo_fired :: "fired list" where
  "demo_fired = [Readable TcpEvt (Accept 9 [127, 0, 0, 1] True), Readable TcpEvt (Accept 10 [127, 0, 0, 2] True),
     Readable (SockEvt 0) (Data (Recv [] [])), Signalled SIGTERM (\<lambda>f. - 1) ''later '']"

lemma demo_ends: "list_ex ends demo_fired"
  by (simp add: demo_fired_def ends_def)

lemma demo_run:
  assumes "lp_events lp = [(TcpEvt, 6, CB_tcp_newconnection), (UdpEvt, 8, CB_udp_recv)]" and "lp_signals lp = all_signals"
    and "lp_socks lp = Map.empty" and "lp_next lp = 0" and "lp_srv lp = demo_server"
  obtains lp' where "loop_run lp demo_fired lp'"
    and "lp_events lp' = [(TcpEvt, 6, CB_tcp_newconnection), (UdpEvt, 8, CB_udp_recv), (SockEvt 1, 10, CB_tcp_recv 1)]"
proof -
  obtain lp1 where 1: "handle lp (demo_fired ! 0) = Some lp1" "may_fire lp (demo_fired ! 0)" "lp_signals lp1 = all_signals"
    "lp_events lp1 = lp_events lp @ [(SockEvt 0, 9, CB_tcp_recv 0)]" "\<exists>ts. lp_socks lp1 0 = Some ts \<and> ts_buf ts = None" "lp_next lp1 = 1"
    "sv_ms (lp_srv lp1) = []"
    using assms by (simp add: demo_fired_def newconnection_call_def set_ms_def event_add_def Let_def regs_def demo_server_def)
  obtain lp2 where 2: "handle lp1 (demo_fired ! 1) = Some lp2" "may_fire lp1 (demo_fired ! 1)" "lp_signals lp2 = all_signals"
    "lp_events lp2 = lp_events lp1 @ [(SockEvt 1, 10, CB_tcp_recv 1)]" "\<exists>ts. lp_socks lp2 0 = Some ts \<and> ts_buf ts = None"
    using 1 assms(1) by (simp add: demo_fired_def newconnection_call_def set_ms_def event_add_def Let_def regs_def)
  have e2: "lp_events lp2 = [(TcpEvt, 6, CB_tcp_newconnection), (UdpEvt, 8, CB_udp_recv), (SockEvt 0, 9, CB_tcp_recv 0),
      (SockEvt 1, 10, CB_tcp_recv 1)]" using 1(4) 2(4) assms(1) by simp
  obtain ts where ts: "lp_socks lp2 0 = Some ts" "ts_buf ts = None" using 2(5) by blast
  obtain lp3 where 3: "handle lp2 (demo_fired ! 2) = Some lp3" "may_fire lp2 (demo_fired ! 2)" "lp_signals lp3 = all_signals"
    "lp_events lp3 = [(TcpEvt, 6, CB_tcp_newconnection), (UdpEvt, 8, CB_udp_recv), (SockEvt 1, 10, CB_tcp_recv 1)]"
    using 2(3) e2 ts by (simp add: demo_fired_def tcp_recv_call_def tcp_recv_def conn_exit_def event_del_def Let_def)
  obtain lp4 where 4: "handle lp3 (demo_fired ! 3) = Some lp4" "may_fire lp3 (demo_fired ! 3)" "lp_events lp4 = lp_events lp3"
    using 3(3) by (cases "lp_logfd lp3 = - 1")
      (simp_all add: demo_fired_def all_signals_def exit_sighandler_def loop_log_def wlog_def event_loopexit_def)
  have "loop_run lp ([] @ [demo_fired ! 0] @ [demo_fired ! 1] @ [demo_fired ! 2] @ [demo_fired ! 3]) lp4"
    using loop_run.fire [OF loop_run.fire [OF loop_run.fire [OF loop_run.fire [OF loop_run.none 1(2,1)] 2(2,1)] 3(2,1)] 4(2,1)]
    by simp
  moreover have "[] @ [demo_fired ! 0] @ [demo_fired ! 1] @ [demo_fired ! 2] @ [demo_fired ! 3] = demo_fired"
    by (simp add: demo_fired_def)
  ultimately show thesis using that 3(4) 4(3) by simp
qed

section \<open>The loop by itself\<close>

lemma entered_run:
  assumes "fresh lp0" and "net_loop_enter en lp0 = Some (Inr (fds, lp1))" and "distinct (regs lp1)" and "loop_run lp1 fs lp2"
  shows "loop_ok lp2" and "stands (map listen_event (opened en transports fds)) all_signals lp2"
    and "lp_exit lp2 \<longleftrightarrow> list_ex ends fs"
proof -
  note e = enter_ok [OF assms(1-3)]
  show "loop_ok lp2" by (rule conn_inv.run [OF assms(4) e(1)])
  show "stands (map listen_event (opened en transports fds)) all_signals lp2" by (rule standing.run [OF assms(4) e(2)])
  show "lp_exit lp2 \<longleftrightarrow> list_ex ends fs" using run_ends [OF assms(4) e(2)] e(3) by simp
qed

text \<open>
  Property C10: whatever arrives, any bytes included, the event loop's registrations are exact: every
  socket's descriptor that was opened (those of the log, which \<^verbatim>\<open>SIGHUP\<close> opens again, are no sockets) is closed or registered for exactly one event, no registered one is
  closed, every connection's structure exists exactly as long as its event, which calls
  \<^verbatim>\<open>tcp_recv()\<close> with it and has its descriptor, and the enabled transports' sockets and the five
  signals stay registered. That the kernel gives each listening socket its own descriptor is assumed.
\<close>

theorem event_loop_registrations:
  assumes "fresh lp0" and "net_loop_enter en lp0 = Some (Inr (fds, lp1))" and "distinct (regs lp1)" and "loop_run lp1 fs lp2"
  shows "mset (ni_opened (lp_io lp2)) = mset (filter (\<lambda>fd. 0 \<le> fd) (ni_closed (lp_io lp2))) + mset (regs lp2) \<and>
    distinct (regs lp2) \<and> distinct (map fst (lp_events lp2)) \<and>
    (\<forall>p ts. lp_socks lp2 p = Some ts \<longrightarrow> (SockEvt p, ts_fd ts, CB_tcp_recv p) \<in> set (lp_events lp2)) \<and>
    (\<forall>p. SockEvt p \<in> watched lp2 \<longrightarrow> lp_socks lp2 p \<noteq> None) \<and>
    listening lp2 = map listen_event (opened en transports fds) \<and> lp_signals lp2 = all_signals"
proof -
  note r = entered_run [OF assms]
  note d = loop_okD [OF r(1)]
  have "lp_socks lp2 p \<noteq> None" if w: "SockEvt p \<in> watched lp2" for p
  proof -
    obtain fd cb where "(SockEvt p, fd, cb) \<in> set (lp_events lp2)" using w by (force simp: watched_def)
    from d(3) [OF this] show ?thesis by auto
  qed
  then show ?thesis using d(1,2,5) r(2) sock_registered [OF r(1)] unfolding fds_ok_def stands_def by blast
qed

theorem event_loop_registrations_witness:
  "\<exists>lp1 lp2. net_loop_enter demo_env (demo_loop demo_server) = Some (Inr ([- 1, 6, 8, - 1], lp1)) \<and>
    loop_run lp1 demo_fired lp2 \<and> set (regs lp2) = {6, 8, 10} \<and>
    mset (ni_opened (lp_io lp2)) = mset (filter (\<lambda>fd. 0 \<le> fd) (ni_closed (lp_io lp2))) + {#6, 8, 10#}"
proof -
  obtain lp1 where 1: "net_loop_enter demo_env (demo_loop demo_server) = Some (Inr ([- 1, 6, 8, - 1], lp1))" "distinct (regs lp1)"
    "lp_events lp1 = [(TcpEvt, 6, CB_tcp_newconnection), (UdpEvt, 8, CB_udp_recv)]" "lp_signals lp1 = all_signals"
    "lp_socks lp1 = Map.empty" "lp_next lp1 = 0" "lp_srv lp1 = demo_server" by (rule demo_enter)
  obtain lp2 where 2: "loop_run lp1 demo_fired lp2"
    "lp_events lp2 = [(TcpEvt, 6, CB_tcp_newconnection), (UdpEvt, 8, CB_udp_recv), (SockEvt 1, 10, CB_tcp_recv 1)]"
    using 1(3-7) by (rule demo_run)
  have r: "regs lp2 = [6, 8, 10]" by (simp add: regs_def 2(2))
  have "mset (ni_opened (lp_io lp2)) = mset (filter (\<lambda>fd. 0 \<le> fd) (ni_closed (lp_io lp2))) + {#6, 8, 10#}"
    using event_loop_registrations [OF demo_fresh(1) 1(1,2) 2(1)] by (simp add: r)
  with 1(1) 2(1) r show ?thesis by auto
qed

text \<open>
  Property C11: \<^verbatim>\<open>net_loop()\<close> returns exactly after a \<^verbatim>\<open>SIGTERM\<close> or a \<^verbatim>\<open>SIGINT\<close>, and then has closed
  the listening sockets and deleted their events; what stays open is the clients' connections, with
  their events, and what stays registered besides them is the handler of \<^verbatim>\<open>SIGHUP\<close>, which is not
  deleted.
\<close>

theorem net_loop_leaves:
  assumes "fresh lp0" and "net_loop_enter en lp0 = Some (Inr (fds, lp1))" and "distinct (regs lp1)" and "loop_run lp1 fs lp2"
    and "lp3 = net_loop_leave en fds lp2"
  shows "(list_ex ends fs \<longrightarrow> net_loop en lp0 fs lp3) \<and> (lp_exit lp2 \<longleftrightarrow> list_ex ends fs) \<and>
    lp_events lp3 = filter (\<lambda>e. is_sock (fst e)) (lp_events lp2) \<and> lp_signals lp3 = [(SIGHUP, CB_logfd_reopen)] \<and>
    mset (ni_opened (lp_io lp3)) = mset (filter (\<lambda>fd. 0 \<le> fd) (ni_closed (lp_io lp3))) + mset (regs lp3) \<and>
    ni_closed (lp_io lp3) = ni_closed (lp_io lp2) @ map snd (opened en transports fds)"
proof -
  note r = entered_run [OF assms(1-4)]
  have "net_loop en lp0 fs lp3" if "list_ex ends fs"
    unfolding net_loop_def using assms(2,4,5) that r(3) by blast
  moreover have "lp_signals lp3 = [(SIGHUP, CB_logfd_reopen)]"
    "ni_closed (lp_io lp3) = ni_closed (lp_io lp2) @ map snd (opened en transports fds)"
    unfolding assms(5) net_loop_leave_simps [OF r(2)]
    using close_all [of "le_en en" "zip transports fds" "lp_io lp2"] by (simp_all add: net_loop_end_def opened_def)
  ultimately show ?thesis using leave_ok [OF r(1,2)] r(3) unfolding assms(5) fds_ok_def by blast
qed

theorem net_loop_leaves_witness:
  "\<exists>lp3. net_loop demo_env (demo_loop demo_server) demo_fired lp3 \<and> regs lp3 = [10] \<and>
    lp_signals lp3 = [(SIGHUP, CB_logfd_reopen)]"
proof -
  obtain lp1 where 1: "net_loop_enter demo_env (demo_loop demo_server) = Some (Inr ([- 1, 6, 8, - 1], lp1))" "distinct (regs lp1)"
    "lp_events lp1 = [(TcpEvt, 6, CB_tcp_newconnection), (UdpEvt, 8, CB_udp_recv)]" "lp_signals lp1 = all_signals"
    "lp_socks lp1 = Map.empty" "lp_next lp1 = 0" "lp_srv lp1 = demo_server" by (rule demo_enter)
  obtain lp2 where 2: "loop_run lp1 demo_fired lp2"
    "lp_events lp2 = [(TcpEvt, 6, CB_tcp_newconnection), (UdpEvt, 8, CB_udp_recv), (SockEvt 1, 10, CB_tcp_recv 1)]"
    using 1(3-7) by (rule demo_run)
  let ?lp3 = "net_loop_leave demo_env [- 1, 6, 8, - 1] lp2"
  from net_loop_leaves [OF demo_fresh(1) 1(1,2) 2(1) refl] demo_ends
  have "net_loop demo_env (demo_loop demo_server) demo_fired ?lp3" "lp_signals ?lp3 = [(SIGHUP, CB_logfd_reopen)]"
    "lp_events ?lp3 = filter (\<lambda>e. is_sock (fst e)) (lp_events lp2)" by blast+
  moreover from this(3) have "regs ?lp3 = [10]" by (simp add: regs_def 2(2))
  ultimately show ?thesis by blast
qed

section \<open>The loop and the database thread\<close>

text \<open>A request arrives over UDP, then the signal.\<close>

definition demo_request :: event where
  "demo_request = \<lparr>ev_t = UDP, ev_fd = 8, ev_addr = [127, 0, 0, 1], ev_id = 1, ev_sync = True, ev_op = CSet [1, 2] [50, 0]\<rparr>"

lemma demo_request_fits: "no_overflow ([] @ [demo_request]) m" "no_overflow [demo_request] m"
  "no_overflow ([demo_request] @ []) m"
  by (simp_all add: demo_request_def)

definition demo_arrives :: fired where
  "demo_arrives = Readable UdpEvt (Data (Recv (ev_msg demo_request) (ev_addr demo_request)))"

definition demo_term :: fired where
  "demo_term = Signalled SIGTERM (\<lambda>f. - 1) ''later ''"

lemma demo_serve:
  assumes "boot view m0 s db0"
  obtains lp1 lp2 lp3 where "net_loop_enter demo_env (demo_loop s) = Some (Inr ([- 1, 6, 8, - 1], lp1))" and "distinct (regs lp1)"
    and "serve lp1 db0 [demo_arrives] [demo_request] lp2 db0 DbTop (\<lambda>p. [])" and "may_fire lp2 demo_term"
    and "serve lp1 db0 [demo_arrives, demo_term] [demo_request] lp3 db0 DbTop (\<lambda>p. [])"
proof -
  obtain lp1 where 1: "net_loop_enter demo_env (demo_loop s) = Some (Inr ([- 1, 6, 8, - 1], lp1))" "distinct (regs lp1)"
    "lp_events lp1 = [(TcpEvt, 6, CB_tcp_newconnection), (UdpEvt, 8, CB_udp_recv)]" "lp_signals lp1 = all_signals"
    "lp_socks lp1 = Map.empty" "lp_next lp1 = 0" "lp_srv lp1 = s" by (rule demo_enter)
  note e = enter_ok [OF demo_fresh(1) 1(1,2)]
  have s0: "serve lp1 db0 [] [] lp1 db0 DbTop (\<lambda>p. [])" by (rule serve.enter)
  have ok: "ev_ok demo_request" "ev_t demo_request \<noteq> TCP" by (simp_all add: ev_ok_def demo_request_def)
  have p: "polite lp1 (\<lambda>p. []) demo_arrives [demo_request] (\<lambda>p. [])"
  proof -
    have "map_of (lp_events lp1) (listen_watch (ev_t demo_request)) = Some (ev_fd demo_request, CB_udp_recv)"
      by (simp add: 1(3) demo_request_def)
    from polite.dgram [OF this ok] show ?thesis by (simp add: demo_arrives_def) (simp add: demo_request_def)
  qed
  have m: "may_fire lp1 demo_arrives" by (simp add: demo_arrives_def 1(3))
  obtain c where i: "sys_inv view m0 [] (lp_srv lp1) db0 DbTop c []" using assms unfolding 1(7) by (rule boot_inv)
  have "conns_ok (conns_of lp1 (\<lambda>p. []))" by (simp add: conns_ok_def conns_of_def 1(3))
  from net_defined [OF e(1,2) m p i this] demo_request_fits obtain lp2 where h: "handle lp1 demo_arrives = Some lp2" by blast
  have s1: "serve lp1 db0 [demo_arrives] [demo_request] lp2 db0 DbTop (\<lambda>p. [])" using serve.net [OF s0 m p h] by simp
  note k = serve_keeps [OF s1 e(1,2)]
  have m2: "may_fire lp2 demo_term" using k(2) by (simp add: stands_def demo_term_def all_signals_def)
  have p2: "polite lp2 (\<lambda>p. []) demo_term [] (\<lambda>p. [])" unfolding demo_term_def by (rule polite.signal) simp
  obtain lp3 where h2: "handle lp2 demo_term = Some lp3" using signal_defined [OF k(2)] unfolding demo_term_def by blast
  have s2: "serve lp1 db0 [demo_arrives, demo_term] [demo_request] lp3 db0 DbTop (\<lambda>p. [])"
    using serve.net [OF s1 m2 p2 h2] by simp
  from that [OF 1(1,2) s1 m2 s2] show thesis .
qed

text \<open>
  Property C3: the event loop implements the system of the theorems about the running server: from
  a booted server, as long as what fires is polite, the loop, with the database thread beside it, leaves
  the server in a state that system reaches with the same requests and the same connections; and a
  handler for anything polite that can fire next is defined, unless it is for an increment that
  overflows. Polite are: a well-formed get, set, delete, compare-and-swap or increment of the
  database, whole in a datagram or in pieces over TCP, one at a time on each connection;
  connections, hang-ups and errors; \<^verbatim>\<open>SIGTERM\<close>, \<^verbatim>\<open>SIGINT\<close> and \<^verbatim>\<open>SIGHUP\<close>. Not among them are other
  bytes, cache-only requests, and the signals that change the server's mode.
\<close>

theorem event_loop_refines:
  assumes "fresh lp0" and "net_loop_enter en lp0 = Some (Inr (fds, lp1))" and "distinct (regs lp1)"
    and "boot view m0 (lp_srv lp0) db0" and "serve lp1 db0 fs h lp db pc got"
  shows "reach (lp_srv lp0) db0 h (lp_srv lp) db pc (conns_of lp got) \<and>
    (\<forall>f evs got'. may_fire lp f \<and> polite lp got f evs got' \<and> no_overflow (h @ evs) m0 \<longrightarrow> handle lp f \<noteq> None)"
proof -
  note e = enter_ok [OF assms(1-3)]
  note k = serve_keeps [OF assms(5) e(1,2)]
  have r: "reach (lp_srv lp0) db0 h (lp_srv lp) db pc (conns_of lp got)"
    using loop_reach [OF assms(5) e(1,2,4)] unfolding e(5) .
  obtain c pend where i: "sys_inv view m0 h (lp_srv lp) db pc c pend" and co: "conns_ok (conns_of lp got)"
    using assms(4) r by (rule boot_reach)
  have "handle lp f \<noteq> None" if "may_fire lp f" and "polite lp got f evs got'" and "no_overflow (h @ evs) m0" for f evs got'
    using net_defined [OF k(1,2) that(1,2) i co that(3)] .
  with r show ?thesis by blast
qed

theorem event_loop_refines_witness:
  "\<exists>lp1 lp. net_loop_enter demo_env (demo_loop demo_server) = Some (Inr ([- 1, 6, 8, - 1], lp1)) \<and>
    serve lp1 demo_db [demo_arrives] [demo_request] lp demo_db DbTop (\<lambda>p. []) \<and>
    reach demo_server demo_db [demo_request] (lp_srv lp) demo_db DbTop (conns_of lp (\<lambda>p. [])) \<and> handle lp demo_term \<noteq> None"
proof -
  obtain lp1 lp2 lp3 where d: "net_loop_enter demo_env (demo_loop demo_server) = Some (Inr ([- 1, 6, 8, - 1], lp1))" "distinct (regs lp1)"
    "serve lp1 demo_db [demo_arrives] [demo_request] lp2 demo_db DbTop (\<lambda>p. [])" "may_fire lp2 demo_term"
    "serve lp1 demo_db [demo_arrives, demo_term] [demo_request] lp3 demo_db DbTop (\<lambda>p. [])"
    using demo_boot by (rule demo_serve)
  have p: "polite lp2 (\<lambda>p. []) demo_term [] (\<lambda>p. [])" unfolding demo_term_def by (rule polite.signal) simp
  have "boot (\<lambda>c. c) Map.empty (lp_srv (demo_loop demo_server)) demo_db" using demo_boot by (simp add: demo_fresh(2))
  from event_loop_refines [OF demo_fresh(1) d(1,2) this d(3)] d(1,3,4) p demo_request_fits(3) show ?thesis unfolding demo_fresh(2) by blast
qed

section \<open>From the command line to the exit code\<close>

text \<open>What \<open>boot_state\<close> asks of a start that succeeded.\<close>

definition started_well :: "'c host \<Rightarrow> ('c \<Rightarrow> bytes \<rightharpoonup> bytes) \<Rightarrow> server \<Rightarrow> 'c db_conn \<Rightarrow> 'c \<Rightarrow> bool" where
  "started_well ho view s db c \<longleftrightarrow> libs_lawful (ho_libs ho) view \<and>
     se_backend (sv_settings s) \<in> {BE_TDB, BE_BDB, BE_TC, BE_QDBM} \<and> 0 < se_numobjs (sv_settings s) \<and>
     \<not> se_passive (sv_settings s) \<and> \<not> se_read_only (sv_settings s) \<and> good (sv_ms s) \<and> ho_sends ho = [] \<and>
     dc_conn db = Some c \<and> vals_ok (view c) \<and> (\<forall>c. dc_close db (Some c) \<noteq> None)"

text \<open>Once the loop has ended, the database thread empties the queue and stops.\<close>

lemma stops:
  assumes "boot view m0 s0 db0" and "reach s0 db0 h s db pc cs" and "pc \<noteq> DbDone" and "\<And>c. dc_close db0 (Some c) \<noteq> None"
    and "no_overflow h m0"
  shows "\<exists>s' db' rv. db_runs s db pc s' db' DbWait \<and> db_wake s' True ETIMEDOUT = Some (DbDone, s') \<and>
    mset (map pkt_view (sv_out s')) = mset (replies h m0) \<and> (\<exists>c. dc_conn db' = Some c \<and> view c = run_history h m0) \<and>
    main_end s' db' True = Some (rv, concat (map owned_blocks (cd_table (sv_cache s'))), se_pidfile (sv_settings s'),
        free_settings (sv_settings s'), 0)"
proof -
  obtain c pend where i: "sys_inv view m0 h s db pc c pend" using assms(1,2) by (rule boot_reach)
  obtain s' db' pc' c' where d: "db_runs s db pc s' db' pc'" "pc' = DbTop \<or> pc' = DbWait" "sys_inv view m0 h s' db' pc' c' []"
    using drain_runs [OF i assms(3,5)] by blast
  note v = sys_invD [OF d(3)]
  have ok: "queue_ok (sv_queue s')" "\<not> q_locked (sv_queue s')" "queue_addrs (sv_queue s') = []"
    using v(1,9) by (simp_all add: srv_ok_def queue_items_def)
  have w: "db_runs s db pc s' db' DbWait" using wait_runs [OF d(2) ok] d(1) by (rule db_runs_trans)
  note e = wake_done [OF ok]
  from shutdown_state [OF assms(1) reach_runs [OF w assms(2)] e assms(4)] w e show ?thesis by blast
qed

text \<open>
  Property C1: the program is correct from the command line to its exit code: after a start that
  succeeds with a store backend, neither passive nor read-only, with memory that lasts, as long as what the
  event loop handles is polite, it ends exactly after \<^verbatim>\<open>SIGTERM\<close> or \<^verbatim>\<open>SIGINT\<close>; the
  database thread, told to stop, then finishes by itself, if no increment overflowed; by that time every
  request received has been answered once, as a sequential store would, the database holds what
  that store holds, and \<^verbatim>\<open>main()\<close> closes it, frees every cached entry, removes the pid file and
  returns 0. Polite are well-formed gets, sets, deletes, compare-and-swaps and increments of the
  database over any transport, one at a time on each connection, connections, hang-ups and errors, \<^verbatim>\<open>SIGTERM\<close>,
  \<^verbatim>\<open>SIGINT\<close> and \<^verbatim>\<open>SIGHUP\<close>; not cache-only requests, other bytes, or the signals that change the mode.
\<close>

theorem nmdb_main_correct:
  assumes "main_start ho args stats0 ms = Some (Running s0 db0 True logfd pidf, out)" and "started_well ho view s0 db0 c"
    and "fresh lp0" and "lp_srv lp0 = s0" and "net_loop_enter en lp0 = Some (Inr (fds, lp1))" and "distinct (regs lp1)"
    and "serve lp1 db0 fs h lp db pc got" and "pc \<noteq> DbDone" and "no_overflow h (view c)"
  shows "(lp_exit lp \<longleftrightarrow> list_ex ends fs) \<and>
    (\<exists>s' db' rv. db_runs (lp_srv (net_loop_leave en fds lp)) db pc s' db' DbWait \<and>
      db_wake s' True ETIMEDOUT = Some (DbDone, s') \<and>
      mset (map pkt_view (sv_out s')) = mset (replies h (view c)) \<and>
      (\<exists>c'. dc_conn db' = Some c' \<and> view c' = run_history h (view c)) \<and>
      main_end s' db' True = Some (rv, concat (map owned_blocks (cd_table (sv_cache s'))), se_pidfile (sv_settings s'),
        free_settings (sv_settings s'), 0))"
proof -
  note w = assms(2) [unfolded started_well_def]
  have b: "boot view (view c) s0 db0" using assms(1) w by (intro boot_state) blast+
  note e = enter_ok [OF assms(3,5,6)]
  note k = serve_keeps [OF assms(7) e(1,2)]
  have r: "reach s0 db0 h (lp_srv lp) db pc (conns_of lp got)"
    using loop_reach [OF assms(7) e(1,2,4)] unfolding e(5) assms(4) .
  have "lp_srv (net_loop_leave en fds lp) = lp_srv lp"
    unfolding net_loop_leave_simps [OF k(2)] del_listening_events by simp
  with stops [OF b r assms(8) _ assms(9)] w k(3) e(3) show ?thesis by auto
qed

theorem nmdb_main_correct_witness:
  "\<exists>s0 db0 out lp1 lp s' db' rv. main_start demo_host [''-f''] zero_stats [] = Some (Running s0 db0 True 1 None, out) \<and>
    net_loop_enter demo_env (demo_loop s0) = Some (Inr ([- 1, 6, 8, - 1], lp1)) \<and>
    serve lp1 db0 [demo_arrives, demo_term] [demo_request] lp db0 DbTop (\<lambda>p. []) \<and> lp_exit lp \<and>
    mset (map pkt_view (sv_out s')) = {#ev_reply demo_request Map.empty#} \<and>
    dc_conn db' = Some (ev_step demo_request Map.empty) \<and>
    main_end s' db' True = Some (rv, concat (map owned_blocks (cd_table (sv_cache s'))), se_pidfile (sv_settings s'),
        free_settings (sv_settings s'), 0)"
proof -
  obtain s db out where s: "main_start demo_host [''-f''] zero_stats [] = Some (Running s db True 1 None, out)"
    and w: "started_well demo_host (\<lambda>c. c) s db Map.empty"
    using demo_start demo_libs by (auto simp: started_well_def vals_ok_def demo_host_def)
  have "boot (\<lambda>c. c) Map.empty s db" using s w by (intro boot_state) (auto simp: started_well_def)
  then obtain lp1 lp2 lp3 where d: "net_loop_enter demo_env (demo_loop s) = Some (Inr ([- 1, 6, 8, - 1], lp1))" "distinct (regs lp1)"
    "serve lp1 db [demo_arrives] [demo_request] lp2 db DbTop (\<lambda>p. [])" "may_fire lp2 demo_term"
    "serve lp1 db [demo_arrives, demo_term] [demo_request] lp3 db DbTop (\<lambda>p. [])" by (rule demo_serve)
  have e: "list_ex ends [demo_arrives, demo_term]" by (simp add: demo_term_def ends_def)
  from nmdb_main_correct [OF s w demo_fresh d(1,2,5)] demo_request_fits(2) e s d(1,5) show ?thesis by simp blast
qed

end
