(* ===== verification/Client_Stubs.thy ===== *)
theory Client_Stubs
  imports Client Client_Select
begin

text \<open>
  The client library with some transports compiled out: the second halves of \<^verbatim>\<open>libnmdb/tipc.c\<close>,
  \<^verbatim>\<open>libnmdb/tcp.c\<close>, \<^verbatim>\<open>libnmdb/udp.c\<close> and \<^verbatim>\<open>libnmdb/sctp.c\<close>, behind \<^verbatim>\<open>#else\<close>, and that a program
  which adds what can be added does not notice the difference.
\<close>

section \<open>The stubs\<close>

text \<open>Adding a server fails, sending sends nothing, and there is no reply.\<close>

definition nmdb_add_tipc_server_stub :: "nmdb_conn \<Rightarrow> int \<Rightarrow> cworld \<Rightarrow> int \<times> nmdb_conn \<times> cworld" where
  "nmdb_add_tipc_server_stub db port w = (0, db, w)"
definition tipc_srv_send_stub :: "nmdb_srv \<Rightarrow> bytes \<Rightarrow> nat \<Rightarrow> cworld \<Rightarrow> (int \<times> bytes \<times> cworld) option" where
  "tipc_srv_send_stub srv buf bsize w = Some (0, buf, w)"
definition tipc_get_rep_stub :: "nmdb_srv \<Rightarrow> bytes \<Rightarrow> nat \<Rightarrow> cworld \<Rightarrow> reply_result option" where
  "tipc_get_rep_stub srv buf bsize w = Some (- 1, None, buf, w)"

definition nmdb_add_tcp_server_stub :: "nmdb_conn \<Rightarrow> 'a \<Rightarrow> int \<Rightarrow> cworld \<Rightarrow> int \<times> nmdb_conn \<times> cworld" where
  "nmdb_add_tcp_server_stub db addr port w = (0, db, w)"
definition tcp_srv_send_stub :: "nmdb_srv \<Rightarrow> bytes \<Rightarrow> nat \<Rightarrow> cworld \<Rightarrow> (int \<times> bytes \<times> cworld) option" where
  "tcp_srv_send_stub srv buf bsize w = Some (0, buf, w)"
definition tcp_get_rep_stub :: "nmdb_srv \<Rightarrow> bytes \<Rightarrow> nat \<Rightarrow> cworld \<Rightarrow> reply_result option" where
  "tcp_get_rep_stub srv buf bsize w = Some (- 1, None, buf, w)"

definition nmdb_add_udp_server_stub :: "nmdb_conn \<Rightarrow> 'a \<Rightarrow> int \<Rightarrow> cworld \<Rightarrow> int \<times> nmdb_conn \<times> cworld" where
  "nmdb_add_udp_server_stub db addr port w = (0, db, w)"
definition udp_srv_send_stub :: "nmdb_srv \<Rightarrow> bytes \<Rightarrow> nat \<Rightarrow> cworld \<Rightarrow> (int \<times> bytes \<times> cworld) option" where
  "udp_srv_send_stub srv buf bsize w = Some (0, buf, w)"
definition udp_get_rep_stub :: "nmdb_srv \<Rightarrow> bytes \<Rightarrow> nat \<Rightarrow> cworld \<Rightarrow> reply_result option" where
  "udp_get_rep_stub srv buf bsize w = Some (- 1, None, buf, w)"

definition nmdb_add_sctp_server_stub :: "nmdb_conn \<Rightarrow> 'a \<Rightarrow> int \<Rightarrow> cworld \<Rightarrow> int \<times> nmdb_conn \<times> cworld" where
  "nmdb_add_sctp_server_stub db addr port w = (0, db, w)"
definition sctp_srv_send_stub :: "nmdb_srv \<Rightarrow> bytes \<Rightarrow> nat \<Rightarrow> cworld \<Rightarrow> (int \<times> bytes \<times> cworld) option" where
  "sctp_srv_send_stub srv buf bsize w = Some (0, buf, w)"
definition sctp_get_rep_stub :: "nmdb_srv \<Rightarrow> bytes \<Rightarrow> nat \<Rightarrow> cworld \<Rightarrow> reply_result option" where
  "sctp_get_rep_stub srv buf bsize w = Some (- 1, None, buf, w)"

section \<open>The library for a choice of transports\<close>

text \<open>\<open>en\<close> says which connection types are compiled in (\<^verbatim>\<open>ENABLE_*\<close> of \<^verbatim>\<open>internal.h\<close>).\<close>

definition built_srv_send :: "(int \<Rightarrow> bool) \<Rightarrow> nmdb_srv option \<Rightarrow> bytes \<Rightarrow> nat \<Rightarrow> cworld \<Rightarrow> (int \<times> bytes \<times> cworld) option" where
  "built_srv_send en srv buf bsize w = (case srv of None \<Rightarrow> Some (0, buf, w)
   | Some srv \<Rightarrow>
       if sr_type srv = TIPC_CONN then (if en TIPC_CONN then tipc_srv_send else tipc_srv_send_stub) srv buf bsize w
       else if sr_type srv = TCP_CONN then (if en TCP_CONN then tcp_srv_send else tcp_srv_send_stub) srv buf bsize w
       else if sr_type srv = UDP_CONN then (if en UDP_CONN then udp_srv_send else udp_srv_send_stub) srv buf bsize w
       else if sr_type srv = SCTP_CONN then (if en SCTP_CONN then sctp_srv_send else sctp_srv_send_stub) srv buf bsize w
       else Some (0, buf, w))"

definition built_get_rep :: "(int \<Rightarrow> bool) \<Rightarrow> nmdb_srv option \<Rightarrow> bytes \<Rightarrow> nat \<Rightarrow> cworld \<Rightarrow> reply_result option" where
  "built_get_rep en srv buf bsize w = (case srv of None \<Rightarrow> Some (- 1, None, buf, w)
   | Some srv \<Rightarrow>
       if sr_type srv = TIPC_CONN then (if en TIPC_CONN then tipc_get_rep else tipc_get_rep_stub) srv buf bsize w
       else if sr_type srv = TCP_CONN then (if en TCP_CONN then tcp_get_rep else tcp_get_rep_stub) srv buf bsize w
       else if sr_type srv = UDP_CONN then (if en UDP_CONN then udp_get_rep else udp_get_rep_stub) srv buf bsize w
       else if sr_type srv = SCTP_CONN then (if en SCTP_CONN then sctp_get_rep else sctp_get_rep_stub) srv buf bsize w
       else Some (0, None, buf, w))"

fun built_add :: "(int \<Rightarrow> bool) \<Rightarrow> nmdb_conn \<Rightarrow> srv_addr \<Rightarrow> int \<Rightarrow> cworld \<Rightarrow> int \<times> nmdb_conn \<times> cworld" where
  "built_add en db (TipcAddr port) fd w = (if en TIPC_CONN then nmdb_add_tipc_server db port fd w
     else nmdb_add_tipc_server_stub db port w)"
| "built_add en db (TcpAddr ia port) fd w = (if en TCP_CONN then add_tcp_server_addr db ia port fd 0 0 w
     else nmdb_add_tcp_server_stub db ia port w)"
| "built_add en db (UdpAddr ia port) fd w = (if en UDP_CONN then add_udp_server_addr db ia port fd w
     else nmdb_add_udp_server_stub db ia port w)"
| "built_add en db (SctpAddr ia port) fd w = (if en SCTP_CONN then add_sctp_server_addr db ia port fd 0 w
     else nmdb_add_sctp_server_stub db ia port w)"

fun built_adds :: "(int \<Rightarrow> bool) \<Rightarrow> nmdb_conn \<Rightarrow> (srv_addr \<times> int) list \<Rightarrow> cworld \<Rightarrow> nmdb_conn \<times> cworld" where
  "built_adds en db [] w = (db, w)"
| "built_adds en db ((a, fd) # as) w = (case built_add en db a fd w of (_, db, w) \<Rightarrow> built_adds en db as w)"

section \<open>No difference\<close>

abbreviation addr_type :: "srv_addr \<Rightarrow> int" where
  "addr_type a \<equiv> sr_type (addr_srv a 0)"

lemma built_add_eq: "built_add en db a fd w = (if en (addr_type a) then add_server db a fd w else (0, db, w))"
  by (cases a) (simp_all add: nmdb_add_tipc_server_stub_def nmdb_add_tcp_server_stub_def nmdb_add_udp_server_stub_def
      nmdb_add_sctp_server_stub_def)

lemma built_adds_eq: "built_adds en db as w = add_servers db (filter (\<lambda>(a, fd). en (addr_type a)) as) w"
  by (induction as arbitrary: db w) (auto simp: built_add_eq split: prod.split)

definition all_built :: "(int \<Rightarrow> bool) \<Rightarrow> nmdb_conn \<Rightarrow> bool" where
  "all_built en db \<longleftrightarrow> list_all (\<lambda>s. en (sr_type s)) (nc_servers db)"

lemma list_all_insert_by: "list_all P (insert_by cmp x ys) \<longleftrightarrow> P x \<and> list_all P ys"
  by (induction ys) auto

lemma all_built_sort: "list_all P (qsort cmp ys) \<longleftrightarrow> list_all P ys"
  by (induction ys) (simp_all add: list_all_insert_by)

lemma list_all_butlast: "list_all P (xs @ [x]) \<Longrightarrow> list_all P (butlast (xs @ [x]))"
  by simp

lemma add_server_built:
  assumes "all_built en db" and "en (addr_type a)" and "add_server db a fd w = (r, db', w')"
  shows "all_built en db'"
  using assms
  by (cases a) (auto simp: nmdb_add_tipc_server_def add_tcp_server_addr_def add_udp_server_addr_def add_sctp_server_addr_def
      tcp_error_exit_def all_built_def grow_def sort_servers_def all_built_sort Let_def split: if_splits prod.splits)

lemma built_adds_built: "all_built en db \<Longrightarrow> all_built en (fst (built_adds en db as w))"
proof (induction as arbitrary: db w)
  case (Cons x as)
  obtain a fd where [simp]: "x = (a, fd)" by (cases x)
  obtain r db' w' where r: "built_add en db a fd w = (r, db', w')" by (cases "built_add en db a fd w") auto
  have "all_built en db'"
    using r Cons.prems add_server_built [of en db a fd w r db' w'] by (auto simp: built_add_eq split: if_splits)
  with Cons.IH r show ?case by simp
qed simp

lemma selected_built:
  assumes "all_built en db" and "select_srv db key = Some (Some srv)"
  shows "en (sr_type srv)"
  using assms by (auto simp: select_srv_def all_built_def list_all_length Let_def bind_Some_iff split: if_splits)

text \<open>
  A server that the library chooses is of a kind that is compiled in, so the stubs are not
  reached: sending and receiving are those of the library with everything compiled in.
\<close>

lemma built_same:
  assumes "all_built en db" and "select_srv db key = Some srv"
  shows "built_srv_send en srv = srv_send srv" and "built_get_rep en srv = get_rep srv"
proof -
  have en: "en (sr_type s)" if "srv = Some s" for s using assms selected_built that by blast
  have "built_srv_send en srv buf bsize w = srv_send srv buf bsize w" for buf bsize w
    using en by (cases srv) (auto simp: built_srv_send_def srv_send_def)
  then show "built_srv_send en srv = srv_send srv" by blast
  have "built_get_rep en srv buf bsize w = get_rep srv buf bsize w" for buf bsize w
    using en by (cases srv) (auto simp: built_get_rep_def get_rep_def)
  then show "built_get_rep en srv = get_rep srv" by blast
qed

text \<open>
  Property C37: a client library without some of the transports is the full one for a program
  that adds only servers it can reach: adding the others fails and changes nothing, and for every
  key what is sent and received is what the full library sends and receives.
\<close>

theorem stubs_unreached:
  assumes "built_adds en \<lparr>nc_nservers = 0, nc_servers = []\<rparr> as w = (db, w')" and "select_srv db key = Some srv"
  shows "add_servers \<lparr>nc_nservers = 0, nc_servers = []\<rparr> (filter (\<lambda>(a, fd). en (addr_type a)) as) w = (db, w') \<and>
    built_srv_send en srv buf bsize v = srv_send srv buf bsize v \<and> built_get_rep en srv buf bsize v = get_rep srv buf bsize v \<and>
    (\<forall>a fd. \<not> en (addr_type a) \<longrightarrow> built_add en db a fd v = (0, db, v))"
proof -
  have "all_built en db"
    using built_adds_built [of en "\<lparr>nc_nservers = 0, nc_servers = []\<rparr>" as w] assms(1) by (simp add: all_built_def)
  from built_same [OF this assms(2)] show ?thesis using assms(1) by (simp add: built_adds_eq built_add_eq)
qed

theorem stubs_unreached_witness:
  "\<exists>db w' srv. built_adds (\<lambda>t. t \<noteq> TIPC_CONN) \<lparr>nc_nservers = 0, nc_servers = []\<rparr> [(TipcAddr 10, 3), (UdpAddr 5 (- 1), 4)]
      \<lparr>cw_ms = [], cw_sends = [], cw_recvs = [], cw_sent = [], cw_closed = []\<rparr> = (db, w') \<and>
    select_srv db [1, 2, 3] = Some (Some srv) \<and> sr_type srv = UDP_CONN \<and>
    built_srv_send (\<lambda>t. t \<noteq> TIPC_CONN) (Some srv) [7] 1 w' = srv_send (Some srv) [7] 1 w'"
proof -
  let ?en = "\<lambda>t. t \<noteq> TIPC_CONN" and ?w = "\<lparr>cw_ms = [], cw_sends = [], cw_recvs = [], cw_sent = [], cw_closed = []\<rparr>"
  let ?as = "[(TipcAddr 10, 3), (UdpAddr 5 (- 1), 4)]" and ?db0 = "\<lparr>nc_nservers = 0, nc_servers = []\<rparr>"
  let ?srv = "addr_srv (UdpAddr 5 (- 1)) 4"
  have b: "built_adds ?en ?db0 ?as ?w = (\<lparr>nc_nservers = 1, nc_servers = [?srv]\<rparr>, ?w)"
    by (simp add: built_adds_eq add_udp_server_addr_def c_malloc_def Let_def grow_def sort_servers_def)
  have c: "checksum [1, 2, 3] \<noteq> None" by code_simp
  then have s: "select_srv \<lparr>nc_nservers = 1, nc_servers = [?srv]\<rparr> [1, 2, 3] = Some (Some ?srv)"
    by (auto simp: select_srv_def Let_def)
  from stubs_unreached [OF b s, of "[7]" 1 ?w] b s show ?thesis by auto
qed

end
