(* ===== verification/Hash_Alt.thy ===== *)
theory Hash_Alt
  imports Hash
begin

text \<open>
  The hash functions that \<^verbatim>\<open>nmdb/hash.h\<close> keeps under \<^verbatim>\<open>#if 0\<close> for comparison:
  \<^verbatim>\<open>superfast()\<close>, \<^verbatim>\<open>oneatatime()\<close> and \<^verbatim>\<open>fnv_hash()\<close>. The last one multiplies by the FNV prime
  with shifts and additions. And a property of the one in use: it tells any two keys of
  four bytes apart.
\<close>

section \<open>\<^verbatim>\<open>superfast()\<close>\<close>

definition get16bits :: "u8 \<Rightarrow> u8 \<Rightarrow> u32" where
  "get16bits d0 d1 = push_bit 8 (ucast d1) + ucast d0"

fun superfast_loop :: "u32 \<Rightarrow> bytes \<Rightarrow> u32 \<times> bytes" where
  "superfast_loop h (a # b # c # d # rest) =
     (let h = h + get16bits a b;
          tmp = push_bit 11 (get16bits c d) XOR h;
          h = push_bit 16 h XOR tmp
      in superfast_loop (h + drop_bit 11 h) rest)"
| "superfast_loop h rest = (h, rest)"

fun superfast_end :: "u32 \<Rightarrow> bytes \<Rightarrow> u32" where
  "superfast_end h [x, y, z] =
     (let h = h + get16bits x y;
          h = h XOR push_bit 16 h;
          h = h XOR push_bit 18 (ucast z)
      in h + drop_bit 11 h)"
| "superfast_end h [x, y] =
     (let h = h + get16bits x y;
          h = h XOR push_bit 11 h
      in h + drop_bit 17 h)"
| "superfast_end h [x] =
     (let h = h + ucast x;
          h = h XOR push_bit 10 h
      in h + drop_bit 1 h)"
| "superfast_end h _ = h"

text \<open>The first argument of \<^verbatim>\<open>superfast()\<close> may be NULL.\<close>

definition superfast :: "bytes option \<Rightarrow> u32" where
  "superfast data' = (case data' of None \<Rightarrow> 0
     | Some key \<Rightarrow>
         if key = [] then 0
         else let (h, rest) = superfast_loop (of_nat (length key)) key;
             h = superfast_end h rest;
             h = h XOR push_bit 3 h;
             h = h + drop_bit 5 h;
             h = h XOR push_bit 4 h;
             h = h + drop_bit 17 h;
             h = h XOR push_bit 25 h
           in h + drop_bit 6 h)"

section \<open>\<^verbatim>\<open>oneatatime()\<close>\<close>

fun oneatatime_loop :: "u32 \<Rightarrow> bytes \<Rightarrow> u32" where
  "oneatatime_loop h [] = h"
| "oneatatime_loop h (b # bs) =
     (let h = h + ucast b;
          h = h + push_bit 10 h;
          h = h XOR drop_bit 6 h
      in oneatatime_loop h bs)"

definition oneatatime :: "bytes \<Rightarrow> u32" where
  "oneatatime key =
     (let h = oneatatime_loop 0 key;
          h = h + push_bit 3 h;
          h = h XOR drop_bit 11 h
      in h + push_bit 15 h)"

section \<open>\<^verbatim>\<open>fnv_hash()\<close>\<close>

fun fnv_loop :: "u32 \<Rightarrow> bytes \<Rightarrow> u32" where
  "fnv_loop hval [] = hval"
| "fnv_loop hval (b # bs) =
     (let hval = hval + (push_bit 1 hval + push_bit 4 hval + push_bit 7 hval + push_bit 8 hval + push_bit 24 hval)
      in fnv_loop (hval XOR ucast b) bs)"

definition fnv_hash :: "bytes \<Rightarrow> u32" where
  "fnv_hash key = fnv_loop 0x811c9dc5 key"

text \<open>FNV-1 as it is defined: multiply by the prime, add the byte bitwise.\<close>

definition fnv1 :: "bytes \<Rightarrow> u32" where
  "fnv1 key = foldl (\<lambda>h b. (h * 0x01000193) XOR ucast b) 0x811c9dc5 key"

lemma fnv_prime:
  "(h :: u32) + (push_bit 1 h + push_bit 4 h + push_bit 7 h + push_bit 8 h + push_bit 24 h) = h * 0x01000193"
  by (simp add: push_bit_eq_mult algebra_simps)

lemma fnv_hash_fnv1: "fnv_hash key = fnv1 key"
proof -
  have "fnv_loop h key = foldl (\<lambda>h b. (h * 0x01000193) XOR ucast b) h key" for h
    by (induction h key rule: fnv_loop.induct) (simp_all only: fnv_loop.simps foldl.simps Let_def fnv_prime)
  then show ?thesis by (simp add: fnv_hash_def fnv1_def)
qed

section \<open>MurmurHash2 on four bytes\<close>

text \<open>Every step of the mixing can be undone.\<close>

lemma xor_shift_inj:
  assumes "(x :: 'a::len word) XOR drop_bit n x = y XOR drop_bit n y" and "0 < n"
  shows "x = y"
proof (rule bit_word_eqI)
  have bits: "(bit x i \<noteq> bit x (i + n)) = (bit y i \<noteq> bit y (i + n))" if "i < LENGTH('a)" for i
  proof -
    have "bit (x XOR drop_bit n x) i = bit (y XOR drop_bit n y) i" using assms(1) by simp
    then show ?thesis by (simp add: bit_xor_iff bit_drop_bit_eq add.commute)
  qed
  show "bit x i = bit y i" if "i < LENGTH('a)" for i
    using that
  proof (induction "LENGTH('a) - i" arbitrary: i rule: less_induct)
    case less
    show ?case
    proof (cases "i + n < LENGTH('a)")
      case True
      then have "bit x (i + n) = bit y (i + n)" using less assms(2) by simp
      with bits [OF less.prems] show ?thesis by blast
    next
      case False
      then have "\<not> bit x (i + n)" "\<not> bit y (i + n)" by (auto dest: bit_imp_le_length)
      with bits [OF less.prems] show ?thesis by blast
    qed
  qed
qed

lemma murmur_m_inverse: "murmur_m * 0xe59b19bd = 1"
  by (simp add: murmur_m_def)

lemma times_m_inj: "x * murmur_m = y * murmur_m \<Longrightarrow> x = y"
proof -
  assume "x * murmur_m = y * murmur_m"
  then have "x * (murmur_m * 0xe59b19bd) = y * (murmur_m * 0xe59b19bd)" by (simp only: mult.assoc [symmetric])
  then show "x = y" by (simp only: murmur_m_inverse mult_1_right)
qed

lemma xor_inj: "(c :: u32) XOR x = c XOR y \<Longrightarrow> x = y"
  by (metis xor.assoc xor_self_eq xor.left_neutral)

lemma murmur_four_bytes:
  assumes "length j = 4" and "length k = 4" and "murmurhash2 j = murmurhash2 k"
  shows "j = k"
proof -
  obtain a b c d where j: "j = [a, b, c, d]" using assms(1) by (auto simp: numeral_eq_Suc length_Suc_conv)
  obtain a' b' c' d' where k: "k = [a', b', c', d']" using assms(2) by (auto simp: numeral_eq_Suc length_Suc_conv)
  define f :: "u32 \<Rightarrow> u32" where "f w = (let k = w * murmur_m; k = k XOR drop_bit 24 k; k = k * murmur_m in
    ((murmur_seed XOR 4) * murmur_m) XOR k)" for w
  define g :: "u32 \<Rightarrow> u32" where "g h = (let h = h XOR drop_bit 13 h; h = h * murmur_m in h XOR drop_bit 15 h)" for h
  have "murmurhash2 j = g (f (le_word j))" "murmurhash2 k = g (f (le_word k))"
    by (simp_all add: j k murmurhash2_def f_def g_def Let_def)
  then have "g (f (le_word j)) = g (f (le_word k))" using assms(3) by simp
  then have "f (le_word j) = f (le_word k)"
    unfolding g_def Let_def by (auto dest!: xor_shift_inj times_m_inj)
  then have "(le_word j :: u32) = le_word k"
    unfolding f_def Let_def by (auto dest!: xor_inj xor_shift_inj times_m_inj)
  then have "le_bytes 4 (le_word j :: u32) = le_bytes 4 (le_word k :: u32)" by simp
  then show ?thesis using le_bytes_le_word [of j, where 'a = 32] le_bytes_le_word [of k, where 'a = 32] assms(1,2) by simp
qed

end
