(* ===== verification/Spec2Isabelle.thy ===== *)
theory Spec2Isabelle
  imports Cache_Theorems Server_Theorems Tcp_Pipeline Library_Theorems Binding_Theorems Test_Theorems Loop_Theorems Client_Stubs Hash_Alt
begin

text \<open>
  A verification development for nmdb, a network key-value store: a server with an in-memory
  cache in front of a database (\<^verbatim>\<open>nmdb/\<close>), a client library (\<^verbatim>\<open>libnmdb/\<close>) with bindings for Python
  and Ruby (\<^verbatim>\<open>bindings/\<close>), a program that shows a server's statistics (\<^verbatim>\<open>utils/\<close>), and test programs
  (\<^verbatim>\<open>tests/c/\<close>). Paths are relative to \<^verbatim>\<open>src/\<close>.

  \<^bold>\<open>The program.\<close> The server has two threads. The network thread receives a datagram (UDP, SCTP,
  TIPC) or a piece of a stream (TCP), cuts it into messages, and \<^verbatim>\<open>parse_message()\<close> hands each
  to the handler of its request. The handler works on the cache, and either replies or puts an
  operation on a queue, or both. The database thread takes operations off the queue, performs them
  with one of six backends, and replies to those the handler left unanswered. A client keeps a sorted
  array of servers, picks one by a checksum of the key, sends one message and waits for one reply.

  \<^bold>\<open>Conventions.\<close> Memory blocks are byte lists, sizes have the width of the code's types, and a
  function whose C counterpart has undefined behaviour (an access outside a block, a NULL
  dereference, a division by zero, a signed overflow, a variable argument taken with another type)
  returns \<open>None\<close>; in particular an increment whose sum is no \<^verbatim>\<open>int64_t\<close> is undefined, in the cache and in the
  database thread. The code's error
  codes are ordinary values next to that. What the environment decides is a parameter: a list of
  outcomes of the \<^verbatim>\<open>malloc()\<close> calls to come (success when it is used up), what the fresh blocks for TCP
  connections hold (\<open>sv_fresh\<close>), of \<^verbatim>\<open>send()\<close>, of
  \<^verbatim>\<open>recv()\<close>, of the socket calls; descriptors, the resolver, the database libraries. Database
  libraries are records of functions with their documented laws as named hypotheses
  (\<open>tdb_laws\<close>, \<open>bdb_laws\<close>, \<open>hash_laws\<close>); each has an instance over maps.

  \<^bold>\<open>Theories of the server.\<close>
  \<^item> \<open>Prelude\<close>: words, blocks, loads and stores, allocation. \<open>Netutils\<close>: \<^verbatim>\<open>netutils.c\<close> and byte order.
    \<open>Hash\<close>: MurmurHash2 of \<^verbatim>\<open>hash.h\<close>; \<open>Hash_Alt\<close>: the hash functions it keeps for comparison. \<open>Cstring\<close>: \<^verbatim>\<open>strtoll()\<close> and \<^verbatim>\<open>snprintf("%23lld")\<close> with their
    round trip.
  \<^item> \<open>Cache_Chain\<close>, \<open>Chain_Refine\<close>, \<open>Cache\<close>: \<^verbatim>\<open>cache.c\<close>, the chain as a doubly linked list inside an
    array of \<open>CHAINLEN\<close> entries, with optional indices for pointers; the list it represents and that
    each pointer operation is a list operation. \<open>Cache_Spec\<close>, \<open>Cache_Theorems\<close>: the cache as a map that
    may forget, least recently set first.
  \<^item> \<open>Req\<close>: \<^verbatim>\<open>net-const.h\<close>, \<^verbatim>\<open>req.h\<close>, \<^verbatim>\<open>common.h\<close>, \<^verbatim>\<open>stats.c\<close>. \<open>Queue\<close>: \<^verbatim>\<open>queue.c\<close> on a heap of entries, with
    a FIFO contract as a locale. \<open>Reply\<close>: the reply functions of the four transports. \<open>Parse\<close>:
    \<^verbatim>\<open>parse.c\<close>. \<open>Recv\<close>: the receiving half of \<^verbatim>\<open>udp.c\<close>, \<^verbatim>\<open>sctp.c\<close>, \<^verbatim>\<open>tipc.c\<close>, \<^verbatim>\<open>tcp.c\<close>. \<open>Backend\<close>:
    \<^verbatim>\<open>be.c\<close> and \<^verbatim>\<open>be-*.c\<close>. \<open>Dbloop\<close>: \<^verbatim>\<open>dbloop.c\<close>, the loop cut where the other thread can run.
  \<^item> \<open>Proto\<close>: the protocol's messages and a sequential store as reference. \<open>Parse_Queue\<close>, \<open>Parse_Ok\<close>,
    \<open>Recv_Ok\<close>, \<open>Tcp_Feed\<close>, \<open>Db_Ok\<close>: each handler, receiver and database operation does what the reference does,
    now or when the queued operation is performed. \<open>System\<close>: the step relation \<open>sys_step\<close> and the runs \<open>reach\<close>, which interleave
    the threads, datagrams, and the connections, each with the part of a message it has received, and the invariant that the operations still queued lead from the database to the
    reference. \<open>Server_Theorems\<close>: the theorems about all runs.
    \<open>Tcp_Pipeline\<close>: what a connection makes of several messages in one read.
    These results have the form \<open>fine\<close> (in \<open>Prelude\<close>): undefined only if an increment overflows, and
    otherwise right; \<open>no_overflow\<close> says of a history that no increment of it does.
  \<^item> \<open>Parse_Safe\<close>, \<open>Recv_Frame\<close>, \<open>Modes\<close>, \<open>Safety_Theorems\<close>: arbitrary bytes instead of well-formed
    messages; passive, read-only and cache-only operation through frame contracts (locales), of the
    handlers, of the receivers with the recursion of \<^verbatim>\<open>process_buf()\<close>, and for a passive server of both threads. \<open>Component_Theorems\<close>:
    the theorems about single components.
  \<^item> \<open>Startup\<close>, \<open>Startup_Theorems\<close>: \<^verbatim>\<open>main.c\<close>, \<^verbatim>\<open>log.c\<close> and the signal handlers: the command line, a
    successful start leads to \<open>boot\<close>, where \<open>Server_Theorems\<close> begins, and stopping loses nothing.
    What is printed, and what goes to the log, are values.
    \<open>Sockets\<close>: opening and closing the transports in \<^verbatim>\<open>net.c\<close>, and the stubs.
  \<^item> \<open>Net_Loop\<close>: the rest of \<^verbatim>\<open>net.c\<close>, which is what the program registers with libevent, the dispatch
    to the handlers, and leaving the loop, with the registrations that \<^verbatim>\<open>tcp.c\<close> makes and undoes.
    \<open>Loop_Ok\<close>: that registrations, descriptors and connections agree, for any bytes, and that what
    the start registered stays (locale \<open>loop_inv\<close>). \<open>Loop_System\<close>: the loop beside the database thread
    simulates \<open>sys_step\<close>. \<open>Loop_Theorems\<close>: the theorems about the loop, and the whole program from
    the command line to its exit code, which joins \<open>Startup_Theorems\<close>, the loop and
    \<open>Server_Theorems\<close>.

  \<^bold>\<open>Theories of the client.\<close>
  \<^item> \<open>Client_Net\<close>: servers, adding them, complete sends and receives, the four transports of
    \<^verbatim>\<open>libnmdb/\<close>. \<open>Client\<close>: the rest of \<^verbatim>\<open>libnmdb.c\<close>. \<open>Client_Stubs\<close>: the library built without some of
    the transports. \<open>Stats_Tool\<close>: \<^verbatim>\<open>utils/nmdb-stats.c\<close>.
  \<^item> \<open>Client_Ok\<close>: what each function does when memory lasts and a reply arrives, on a stream in any
    pieces. \<open>Client_Select\<close>: the order of servers and the checksum. \<open>Client_Stats\<close>: the statistics of
    several servers.
  \<^item> \<open>Py_Binding\<close>, \<open>Ruby_Binding\<close>, \<open>Binding_Theorems\<close>: \<^verbatim>\<open>nmdb_ll.c\<close> of both bindings; the interpreters'
    conversions are parameters, for Python with the kinds of arguments a format yields.
  \<^item> \<open>Client_Theorems\<close>: what a call of the library returns for each reply of a store (\<open>client_spec\<close>), where that
    differs from the manual page (\<open>client_spec_documented\<close>), and, with \<open>Server_Theorems\<close>, that it is
    the result for the sequential store. \<open>Library_Theorems\<close>: the other theorems.
  \<^item> \<open>Client_Session\<close>: sequences of calls, by a client that waits for each reply, on a server that may
    have other clients: the runs \<open>paced\<close>, and that such a client's replies come in the order of its
    requests. \<open>Test_Programs\<close>, \<open>Test_Theorems\<close>: \<^verbatim>\<open>tests/c/\<close>, and what each program prints.

  \<^bold>\<open>Bounds.\<close> Chains have at most 4 entries; \<open>find_from\<close> and the walks over a queue take a bound that
  the representation invariant shows to be enough. \<^verbatim>\<open>process_buf()\<close> and \<^verbatim>\<open>queue_free()\<close> are partial
  functions that are proved to end where a theorem needs it. Well-formed messages are those that
  fit (\<open>op_fits\<close>): keys and values below 64 kB together, on TCP with the frame; identifiers below
  \<open>2 ^ 28\<close>. The end-to-end theorems need memory and sends that do not fail, a cache of at least
  one chain, and a server that is neither passive nor read-only; of the theorems of
  \<open>Safety_Theorems\<close> those about passive and read-only servers need none of this, while those about
  arbitrary datagrams start from \<open>srv_live\<close>: memory that lasts, a well-formed cache of at least one chain, a well-formed
  queue and buffers of the right size, but any mode and any outcome of sends. A reply of kind cache hit is only recognised by a get, which
  the theorems about calls state as a hypothesis on the reply.

  \<^bold>\<open>Not modelled.\<close> libevent, the kernel, the interpreters and the database libraries themselves: of
  libevent only that it calls the handlers of registered events, in any order, and returns after
  \<^verbatim>\<open>event_loopexit()\<close>. The parent after \<^verbatim>\<open>fork()\<close> beyond its exit code, and the child's \<^verbatim>\<open>close(0)\<close> and
  \<^verbatim>\<open>setsid()\<close>, which have no effect on the state; the messages that \<^verbatim>\<open>getopt()\<close> prints by itself; the
  slots of the Python type structure, and the threads that may run while a Python call is in
  progress. The code in other languages on top of the C library (the D binding, \<^verbatim>\<open>nmdb.py\<close>), whose
  semantics are not those of C. In runs, a client sends one message at a time on a connection, as
  the library does; several at once are the subject of \<open>Tcp_Pipeline\<close>, where runs lose their
  sequential meaning, and of \<open>Loop_Theorems\<close>, whose registrations are exact for any bytes. Runs contain
  neither cache-only requests nor changes of mode: the theorems about the whole program are
  about gets, sets, deletes, compare-and-swaps and increments of the database, and about the signals that end the program
  or reopen its log. The log lines about unknown operations, failed waits and error replies that
  could not be sent are left out of the database thread and the replies.
\<close>

end
